(* ===== verification/Kernel_Prelude.thy ===== *)
theory Kernel_Prelude
  imports Main "HOL-Library.Word"
begin

text \<open>
  Shared vocabulary of the development: the machine-integer types of the C sources, the
  faults that stand for behaviour the C standard leaves undefined (a wild or null pointer, an
  index outside its array, a \<open>hlt\<close> loop), the error numbers of \<^verbatim>\<open>include/lucix/errno.h\<close>
  the modelled code returns, and the generic lemmas on lists, options and words that the
  component theories use.
\<close>

unbundle bit_operations_syntax

section \<open>Machine types and faults\<close>

type_synonym u8 = "8 word"
type_synonym u16 = "16 word"
type_synonym u32 = "32 word"
type_synonym u64 = "64 word"

datatype fault =
    NullDeref      \<comment> \<open>a null pointer is dereferenced\<close>
  | WildPointer    \<comment> \<open>a pointer outside every object the model knows is dereferenced\<close>
  | OutOfBounds    \<comment> \<open>an array access outside its array\<close>
  | Halted         \<comment> \<open>the processor is parked in a \<open>hlt\<close> loop\<close>
  | DivByZero      \<comment> \<open>an integer division by zero\<close>

type_synonym 'a res = "fault + 'a"

definition bind_res :: "'a res \<Rightarrow> ('a \<Rightarrow> 'b res) \<Rightarrow> 'b res" where
  "bind_res r f = (case r of Inl e \<Rightarrow> Inl e | Inr a \<Rightarrow> f a)"

text \<open>A computation that may not return.\<close>

definition returned :: "'a res option \<Rightarrow> 'a res" where
  "returned r = (case r of None \<Rightarrow> Inl Halted | Some x \<Rightarrow> x)"

named_theorems res_simps \<open>evaluation of the result combinators\<close>
named_theorems kernel_simps \<open>small total operations unfolded by the component proofs\<close>

lemma bind_res_Inl [simp, res_simps]: "bind_res (Inl e) f = Inl e"
  by (simp add: bind_res_def)

lemma bind_res_Inr [simp, res_simps]: "bind_res (Inr a) f = f a"
  by (simp add: bind_res_def)

lemma bind_res_eq_Inr:
  "bind_res r f = Inr b \<longleftrightarrow> (\<exists>a. r = Inr a \<and> f a = Inr b)"
  by (cases r) auto

section \<open>Error numbers of errno.h\<close>

definition ENOENT :: int where "ENOENT = 2"
definition EBADF :: int where "EBADF = 9"
definition EEXIST :: int where "EEXIST = 17"
definition EINVAL :: int where "EINVAL = 22"

lemmas errno_defs [kernel_simps] = ENOENT_def EBADF_def EEXIST_def EINVAL_def

section \<open>Lists\<close>

lemma distinct_hd_notin: "distinct (x # xs) \<Longrightarrow> x \<notin> set xs"
  by simp

lemma sorted_wrt_mid:
  "sorted_wrt P (xs @ y # ys) \<Longrightarrow> x \<in> set xs \<Longrightarrow> P x y"
  by (auto simp: sorted_wrt_append)

lemma all_from_split:
  assumes "i < (n::nat)"
  shows "(\<forall>j. i \<le> j \<and> j < n \<longrightarrow> P j) \<longleftrightarrow> P i \<and> (\<forall>j. Suc i \<le> j \<and> j < n \<longrightarrow> P j)"
proof -
  have "i \<le> j \<longleftrightarrow> j = i \<or> Suc i \<le> j" for j by arith
  with assms show ?thesis by auto
qed

lemma ex_from_split:
  assumes "i < (n::nat)"
  shows "(\<exists>j. i \<le> j \<and> j < n \<and> P j) \<longleftrightarrow> P i \<or> (\<exists>j. Suc i \<le> j \<and> j < n \<and> P j)"
proof -
  have "i \<le> j \<longleftrightarrow> j = i \<or> Suc i \<le> j" for j by arith
  with assms show ?thesis by auto
qed

section \<open>Words\<close>

lemma unat_u64_bound: "unat (n :: u64) < 2 ^ 64"
  by (rule order_less_le_trans [OF unsigned_less]) simp

lemma unat_u32_bound: "unat (n :: u32) < 2 ^ 32"
  by (rule order_less_le_trans [OF unsigned_less]) simp

lemma unat_add_no_overflow:
  fixes a b :: "'a::len word"
  assumes "unat a + unat b < 2 ^ LENGTH('a)"
  shows "unat (a + b) = unat a + unat b"
  using assms by (simp add: unat_word_ariths)

lemma unat_mult_no_overflow:
  fixes a b :: "'a::len word"
  assumes "unat a * unat b < 2 ^ LENGTH('a)"
  shows "unat (a * b) = unat a * unat b"
  using assms by (simp add: unat_word_ariths)

lemma unat_2p: assumes "i < LENGTH('a)" shows "unat (2 ^ i :: 'a::len word) = 2 ^ i"
proof -
  have "(2 ^ i :: 'a word) = of_nat (2 ^ i)" by simp
  also have "unat \<dots> = 2 ^ i mod 2 ^ LENGTH('a)" by (simp only: unat_of_nat)
  also have "\<dots> = 2 ^ i" using assms by simp
  finally show ?thesis .
qed
lemma unat_push_bit_one: assumes "i < LENGTH('a)" shows "unat (push_bit i 1 :: 'a::len word) = 2 ^ i"
  using assms by (simp add: push_bit_eq_mult unat_2p)
lemma drop_bit_zero_iff: "drop_bit i (n :: 'a::len word) = 0 \<longleftrightarrow> unat n < 2 ^ i"
proof -
  have "drop_bit i n = 0 \<longleftrightarrow> unat (drop_bit i n) = 0" by (simp only: unat_eq_zero)
  also have "\<dots> \<longleftrightarrow> unat n div 2 ^ i = 0" by (subst unat_drop_bit_eq, subst drop_bit_eq_div) (rule refl)
  finally show ?thesis by (simp add: div_eq_0_iff)
qed

end
