(* ===== verification/Linked_List.thy ===== *)
theory Linked_List
  imports Kernel_Prelude
begin

text \<open>
  The intrusive doubly linked list of \<^verbatim>\<open>include/lucix/list.h\<close>. A \<open>struct list_head\<close> is a
  pair of pointers; the store maps every pointer to the \<open>list_head\<close> at it, and each C
  function is the sequence of pointer writes it performs, in the order of the source. The
  pointer type is a parameter: the clients instantiate it with the addresses they use.

  The abstraction \<open>ring h head xs\<close> says that the circular list anchored at \<open>head\<close> holds
  exactly the nodes \<open>xs\<close>, in order; every operation is proved to implement the list operation
  its comment promises, and the traversal macros are proved to terminate on a ring and to visit
  its elements in order.
\<close>

section \<open>The store and the operations\<close>

record 'p list_head =
  lh_next :: 'p
  lh_prev :: 'p

type_synonym 'p lheap = "'p \<Rightarrow> 'p list_head"

definition set_next :: "'p \<Rightarrow> 'p \<Rightarrow> 'p lheap \<Rightarrow> 'p lheap" where
  "set_next p q h = h(p := (h p)\<lparr>lh_next := q\<rparr>)"

definition set_prev :: "'p \<Rightarrow> 'p \<Rightarrow> 'p lheap \<Rightarrow> 'p lheap" where
  "set_prev p q h = h(p := (h p)\<lparr>lh_prev := q\<rparr>)"

definition INIT_LIST_HEAD :: "'p \<Rightarrow> 'p lheap \<Rightarrow> 'p lheap" where
  "INIT_LIST_HEAD p h = set_prev p p (set_next p p h)"

definition list_add_between :: "'p \<Rightarrow> 'p \<Rightarrow> 'p \<Rightarrow> 'p lheap \<Rightarrow> 'p lheap" where
  "list_add_between n pr nx h =
     set_next pr n (set_prev n pr (set_next n nx (set_prev nx n h)))"

definition list_add :: "'p \<Rightarrow> 'p \<Rightarrow> 'p lheap \<Rightarrow> 'p lheap" where
  "list_add n head h = list_add_between n head (lh_next (h head)) h"

definition list_add_tail :: "'p \<Rightarrow> 'p \<Rightarrow> 'p lheap \<Rightarrow> 'p lheap" where
  "list_add_tail n head h = list_add_between n (lh_prev (h head)) head h"

definition list_add_between_rcu :: "'p \<Rightarrow> 'p \<Rightarrow> 'p \<Rightarrow> 'p lheap \<Rightarrow> 'p lheap" where
  "list_add_between_rcu n pr nx h =
     set_next pr n (set_prev nx n (set_prev n pr (set_next n nx h)))"

definition list_add_rcu :: "'p \<Rightarrow> 'p \<Rightarrow> 'p lheap \<Rightarrow> 'p lheap" where
  "list_add_rcu n head h = list_add_between_rcu n head (lh_next (h head)) h"

definition list_add_tail_rcu :: "'p \<Rightarrow> 'p \<Rightarrow> 'p lheap \<Rightarrow> 'p lheap" where
  "list_add_tail_rcu n head h = list_add_between_rcu n (lh_prev (h head)) head h"

definition list_del_between :: "'p \<Rightarrow> 'p \<Rightarrow> 'p lheap \<Rightarrow> 'p lheap" where
  "list_del_between pr nx h = set_next pr nx (set_prev nx pr h)"

text \<open>The two poison pointers are parameters: their type is the client's pointer type.\<close>

definition list_del :: "'p \<Rightarrow> 'p \<Rightarrow> 'p \<Rightarrow> 'p lheap \<Rightarrow> 'p lheap" where
  "list_del poison1 poison2 e h =
     (let h1 = list_del_between (lh_prev (h e)) (lh_next (h e)) h
      in set_prev e poison2 (set_next e poison1 h1))"

definition list_del_rcu :: "'p \<Rightarrow> 'p \<Rightarrow> 'p lheap \<Rightarrow> 'p lheap" where
  "list_del_rcu poison2 e h =
     set_prev e poison2 (list_del_between (lh_prev (h e)) (lh_next (h e)) h)"

definition list_del_init :: "'p \<Rightarrow> 'p lheap \<Rightarrow> 'p lheap" where
  "list_del_init e h =
     INIT_LIST_HEAD e (list_del_between (lh_prev (h e)) (lh_next (h e)) h)"

definition list_move :: "'p \<Rightarrow> 'p \<Rightarrow> 'p lheap \<Rightarrow> 'p lheap" where
  "list_move l head h = list_add l head (list_del_between (lh_prev (h l)) (lh_next (h l)) h)"

definition list_move_tail :: "'p \<Rightarrow> 'p \<Rightarrow> 'p lheap \<Rightarrow> 'p lheap" where
  "list_move_tail l head h =
     list_add_tail l head (list_del_between (lh_prev (h l)) (lh_next (h l)) h)"

definition list_empty :: "'p \<Rightarrow> 'p lheap \<Rightarrow> bool" where
  "list_empty head h \<longleftrightarrow> lh_next (h head) = head"

definition list_empty_careful :: "'p \<Rightarrow> 'p lheap \<Rightarrow> bool" where
  "list_empty_careful head h \<longleftrightarrow>
     (let nx = lh_next (h head) in nx = head \<and> nx = lh_prev (h head))"

definition list_splice_raw :: "'p \<Rightarrow> 'p \<Rightarrow> 'p lheap \<Rightarrow> 'p lheap" where
  "list_splice_raw l head h =
     (let first = lh_next (h l); last = lh_prev (h l); at = lh_next (h head)
      in set_prev at last (set_next last at (set_next head first (set_prev first head h))))"

definition list_splice :: "'p \<Rightarrow> 'p \<Rightarrow> 'p lheap \<Rightarrow> 'p lheap" where
  "list_splice l head h = (if \<not> list_empty l h then list_splice_raw l head h else h)"

definition list_splice_init :: "'p \<Rightarrow> 'p \<Rightarrow> 'p lheap \<Rightarrow> 'p lheap" where
  "list_splice_init l head h =
     (if \<not> list_empty l h then INIT_LIST_HEAD l (list_splice_raw l head h) else h)"

text \<open>
  The traversal macros. The loop body takes the current node and the loop state and
  says whether it leaves the loop (\<open>break\<close> or \<open>return\<close>). \<open>list_for_each\<close> reads the next
  pointer after the body has run; \<open>list_for_each_safe\<close> has read it before. The store
  is a component of the loop state, read through \<open>hp\<close>, so a body may change it.
\<close>

partial_function (option) list_for_each ::
  "('s \<Rightarrow> 'p lheap) \<Rightarrow> 'p \<Rightarrow> ('p \<Rightarrow> 's \<Rightarrow> 's \<times> bool) \<Rightarrow> 'p \<Rightarrow> 's \<Rightarrow> 's option" where
  "list_for_each hp head body pos s =
     (if pos = head then Some s
      else (case body pos s of (s', stop) \<Rightarrow>
        if stop then Some s'
        else list_for_each hp head body (lh_next (hp s' pos)) s'))"

partial_function (option) list_for_each_prev ::
  "('s \<Rightarrow> 'p lheap) \<Rightarrow> 'p \<Rightarrow> ('p \<Rightarrow> 's \<Rightarrow> 's \<times> bool) \<Rightarrow> 'p \<Rightarrow> 's \<Rightarrow> 's option" where
  "list_for_each_prev hp head body pos s =
     (if pos = head then Some s
      else (case body pos s of (s', stop) \<Rightarrow>
        if stop then Some s'
        else list_for_each_prev hp head body (lh_prev (hp s' pos)) s'))"

partial_function (option) list_for_each_safe ::
  "('s \<Rightarrow> 'p lheap) \<Rightarrow> 'p \<Rightarrow> ('p \<Rightarrow> 's \<Rightarrow> 's \<times> bool) \<Rightarrow> 'p \<Rightarrow> 'p \<Rightarrow> 's \<Rightarrow> 's option" where
  "list_for_each_safe hp head body pos n s =
     (if pos = head then Some s
      else (case body pos s of (s', stop) \<Rightarrow>
        if stop then Some s'
        else list_for_each_safe hp head body n (lh_next (hp s' n)) s'))"

text \<open>What a traversal computes on a plain list: the body on each element until it stops.\<close>

fun iterate :: "('p \<Rightarrow> 's \<Rightarrow> 's \<times> bool) \<Rightarrow> 'p list \<Rightarrow> 's \<Rightarrow> 's" where
  "iterate body [] s = s"
| "iterate body (x # xs) s =
     (case body x s of (s', stop) \<Rightarrow> if stop then s' else iterate body xs s')"

section \<open>Rings\<close>

text \<open>
  \<open>lseg h p xs q\<close>: following \<open>lh_next\<close> from \<open>p\<close> visits \<open>xs\<close> and then reaches \<open>q\<close>, and the
  \<open>lh_prev\<close> pointers lead back.
\<close>

fun lseg :: "'p lheap \<Rightarrow> 'p \<Rightarrow> 'p list \<Rightarrow> 'p \<Rightarrow> bool" where
  "lseg h p [] q \<longleftrightarrow> lh_next (h p) = q \<and> lh_prev (h q) = p"
| "lseg h p (x # xs) q \<longleftrightarrow> lh_next (h p) = x \<and> lh_prev (h x) = p \<and> lseg h x xs q"

definition ring :: "'p lheap \<Rightarrow> 'p \<Rightarrow> 'p list \<Rightarrow> bool" where
  "ring h head xs \<longleftrightarrow> distinct (head # xs) \<and> lseg h head xs head"

named_theorems link_simps \<open>reading a store after the pointer writes of the list operations\<close>

lemma set_next_simps [simp, link_simps]:
  "lh_next (set_next p q h x) = (if x = p then q else lh_next (h x))"
  "lh_prev (set_next p q h x) = lh_prev (h x)"
  by (auto simp: set_next_def)

lemma set_prev_simps [simp, link_simps]:
  "lh_prev (set_prev p q h x) = (if x = p then q else lh_prev (h x))"
  "lh_next (set_prev p q h x) = lh_next (h x)"
  by (auto simp: set_prev_def)

lemma set_other [simp]:
  "x \<noteq> p \<Longrightarrow> set_next p q h x = h x"
  "x \<noteq> p \<Longrightarrow> set_prev p q h x = h x"
  by (simp_all add: set_next_def set_prev_def)

lemma INIT_LIST_HEAD_simps [simp, link_simps]:
  "lh_next (INIT_LIST_HEAD p h x) = (if x = p then p else lh_next (h x))"
  "lh_prev (INIT_LIST_HEAD p h x) = (if x = p then p else lh_prev (h x))"
  by (auto simp: INIT_LIST_HEAD_def)

lemma INIT_LIST_HEAD_other [simp]: "x \<noteq> p \<Longrightarrow> INIT_LIST_HEAD p h x = h x"
  by (simp add: INIT_LIST_HEAD_def)

lemma lseg_append [simp]:
  "lseg h p (xs @ y # ys) q \<longleftrightarrow> lseg h p xs y \<and> lseg h y ys q"
  by (induction xs arbitrary: p) auto

lemma lseg_cong:
  assumes "\<And>x. x \<in> set (p # xs) \<Longrightarrow> lh_next (h' x) = lh_next (h x)"
    and "\<And>x. x \<in> set (q # xs) \<Longrightarrow> lh_prev (h' x) = lh_prev (h x)"
  shows "lseg h' p xs q = lseg h p xs q"
  using assms by (induction xs arbitrary: p) auto

lemma lseg_set_next [simp]: "a \<notin> set (p # xs) \<Longrightarrow> lseg (set_next a b h) p xs q = lseg h p xs q"
  by (rule lseg_cong) auto

lemma lseg_set_prev [simp]: "a \<notin> set (q # xs) \<Longrightarrow> lseg (set_prev a b h) p xs q = lseg h p xs q"
  by (rule lseg_cong) auto

lemma lseg_INIT [simp]: "a \<notin> set (p # q # xs) \<Longrightarrow> lseg (INIT_LIST_HEAD a h) p xs q = lseg h p xs q"
  by (rule lseg_cong) auto

lemma ring_distinct: "ring h head xs \<Longrightarrow> distinct xs \<and> head \<notin> set xs"
  by (simp add: ring_def)

lemma ring_frame:
  assumes "ring h head xs" and "\<And>x. x \<in> set (head # xs) \<Longrightarrow> h' x = h x"
  shows "ring h' head xs"
  using assms lseg_cong [of head xs h' h head] by (simp add: ring_def)

lemma ring_frame_except:
  assumes "ring h head xs" and "e \<notin> set (head # xs)" and "\<And>x. x \<noteq> e \<Longrightarrow> h' x = h x"
  shows "ring h' head xs"
  using assms(1)
proof (rule ring_frame)
  fix x assume "x \<in> set (head # xs)"
  with assms(2) show "h' x = h x" by (intro assms(3)) auto
qed

lemma ring_Nil: "ring h head [] \<longleftrightarrow> lh_next (h head) = head \<and> lh_prev (h head) = head"
  by (auto simp: ring_def)

lemma ring_INIT: "ring (INIT_LIST_HEAD head h) head []"
  by (simp add: ring_Nil)

lemma ring_first: "ring h head (x # xs) \<Longrightarrow> lh_next (h head) = x"
  by (simp add: ring_def)

lemma ring_next:
  "ring h head (xs @ x # ys) \<Longrightarrow> lh_next (h x) = (case ys of [] \<Rightarrow> head | y # _ \<Rightarrow> y)"
  by (cases ys) (auto simp: ring_def)

lemma ring_prev:
  "ring h head (xs @ x # ys) \<Longrightarrow> lh_prev (h x) = (if xs = [] then head else last xs)"
  by (cases xs rule: rev_cases) (auto simp: ring_def)

lemma ring_prev_head: "ring h head xs \<Longrightarrow> lh_prev (h head) = (if xs = [] then head else last xs)"
  by (cases xs rule: rev_cases) (auto simp: ring_def)

lemma ring_rotate: "ring h head (xs @ y # ys) \<Longrightarrow> ring h y (ys @ head # xs)"
  by (auto simp: ring_def)

lemma ring_unique:
  assumes "ring h head xs" and "ring h head ys"
  shows "xs = ys"
proof -
  have "xs = ys" if "lseg h p xs head" "lseg h p ys head" "head \<notin> set xs" "head \<notin> set ys" for p
    using that
  proof (induction xs arbitrary: p ys)
    case Nil
    then show ?case by (cases ys) auto
  next
    case (Cons x xs)
    then show ?case by (cases ys) auto
  qed
  from this [of head] show ?thesis using assms by (auto simp: ring_def)
qed

section \<open>The operations on rings\<close>

lemma list_empty_ring: "ring h head xs \<Longrightarrow> list_empty head h \<longleftrightarrow> xs = []"
  by (cases xs) (auto simp: ring_def list_empty_def)

lemma list_empty_careful_ring: "ring h head xs \<Longrightarrow> list_empty_careful head h \<longleftrightarrow> xs = []"
  by (cases xs) (auto simp: ring_def list_empty_careful_def Let_def)

lemma ring_list_add:
  assumes "ring h head xs" and "n \<notin> set (head # xs)"
  shows "ring (list_add n head h) head (n # xs)"
  using assms by (cases xs) (auto simp: ring_def list_add_def list_add_between_def)

lemma ring_list_add_tail:
  assumes "ring h head xs" and "n \<notin> set (head # xs)"
  shows "ring (list_add_tail n head h) head (xs @ [n])"
  using assms
  by (cases xs rule: rev_cases) (auto simp: ring_def list_add_tail_def list_add_between_def)

lemma list_add_between_rcu_eq:
  "n \<noteq> nx \<Longrightarrow> list_add_between_rcu n pr nx h = list_add_between n pr nx h"
  by (rule ext) (simp add: list_add_between_rcu_def list_add_between_def set_next_def set_prev_def)

text \<open>Inserting before an inner node, the way \<open>insert_vma\<close> does it.\<close>

lemma ring_list_add_before:
  assumes "ring h head (xs @ y # ys)" and "n \<notin> set (head # xs @ y # ys)"
  shows "ring (list_add_tail n y h) head (xs @ n # y # ys)"
proof -
  have "ring h y (ys @ head # xs)" using assms(1) by (rule ring_rotate)
  then have "ring (list_add_tail n y h) y ((ys @ head # xs) @ [n])"
    by (rule ring_list_add_tail) (use assms(2) in auto)
  then have "ring (list_add_tail n y h) y (ys @ head # (xs @ [n]))" by simp
  from ring_rotate [OF this] show ?thesis by simp
qed

lemma ring_del_between:
  assumes "ring h head (xs @ e # ys)"
  shows "ring (list_del_between (lh_prev (h e)) (lh_next (h e)) h) head (xs @ ys)"
  using assms
  by (cases xs rule: rev_cases; cases ys) (auto simp: ring_def list_del_between_def)

lemma ring_list_del:
  assumes "ring h head (xs @ e # ys)"
  shows "ring (list_del poison1 poison2 e h) head (xs @ ys)"
  by (rule ring_frame_except [OF ring_del_between [OF assms], of e])
    (use assms in \<open>auto simp: list_del_def Let_def ring_def\<close>)

lemma ring_list_del_rcu:
  assumes "ring h head (xs @ e # ys)"
  shows "ring (list_del_rcu poison2 e h) head (xs @ ys)"
  by (rule ring_frame_except [OF ring_del_between [OF assms], of e])
    (use assms in \<open>auto simp: list_del_rcu_def ring_def\<close>)

lemma ring_list_del_init:
  assumes "ring h head (xs @ e # ys)"
  shows "ring (list_del_init e h) head (xs @ ys)"
  by (rule ring_frame_except [OF ring_del_between [OF assms], of e])
    (use assms in \<open>auto simp: list_del_init_def ring_def\<close>)

lemma ring_list_del_init_self: "ring (list_del_init e h) e []"
  by (simp add: list_del_init_def ring_INIT)

text \<open>
  Which nodes an operation writes: a ring disjoint from them is untouched. The clients that
  keep several rings in one store use these to carry the other rings over.
\<close>

lemma list_add_frame:
  "x \<noteq> n \<Longrightarrow> x \<noteq> head \<Longrightarrow> x \<noteq> lh_next (h head) \<Longrightarrow> list_add n head h x = h x"
  by (simp add: list_add_def list_add_between_def)

lemma list_add_tail_frame:
  "x \<noteq> n \<Longrightarrow> x \<noteq> head \<Longrightarrow> x \<noteq> lh_prev (h head) \<Longrightarrow> list_add_tail n head h x = h x"
  by (simp add: list_add_tail_def list_add_between_def)

lemma list_del_between_frame:
  "x \<noteq> pr \<Longrightarrow> x \<noteq> nx \<Longrightarrow> list_del_between pr nx h x = h x"
  by (simp add: list_del_between_def)

lemma list_del_init_frame:
  "x \<noteq> e \<Longrightarrow> x \<noteq> lh_next (h e) \<Longrightarrow> x \<noteq> lh_prev (h e) \<Longrightarrow> list_del_init e h x = h x"
  by (simp add: list_del_init_def list_del_between_def)

lemma ring_neighbours:
  assumes "ring h head xs" and "x \<in> set (head # xs)"
  shows "lh_next (h x) \<in> set (head # xs)" and "lh_prev (h x) \<in> set (head # xs)"
proof -
  have "lh_next (h x) \<in> set (head # xs) \<and> lh_prev (h x) \<in> set (head # xs)"
  proof (cases "x = head")
    case True
    then show ?thesis
      using assms(1) ring_prev_head [OF assms(1)] by (cases xs) (auto simp: ring_def)
  next
    case False
    with assms(2) obtain as bs where "xs = as @ x # bs" by (auto dest: split_list)
    with assms(1) show ?thesis
      using ring_next [of h head as x bs] ring_prev [of h head as x bs]
      by (auto split: list.splits)
  qed
  then show "lh_next (h x) \<in> set (head # xs)" and "lh_prev (h x) \<in> set (head # xs)" by auto
qed

lemma ring_del_between_other:
  assumes "ring h head (xs @ e # ys)" and "ring h head2 zs"
    and "set (head # xs @ e # ys) \<inter> set (head2 # zs) = {}"
  shows "ring (list_del_between (lh_prev (h e)) (lh_next (h e)) h) head2 zs"
  using assms(2)
proof (rule ring_frame)
  fix x assume "x \<in> set (head2 # zs)"
  with assms(3) ring_neighbours [OF assms(1), of e]
  show "list_del_between (lh_prev (h e)) (lh_next (h e)) h x = h x"
    by (intro list_del_between_frame) auto
qed

lemma ring_list_add_other:
  assumes "ring h head xs" and "ring h head2 zs" and "n \<notin> set (head2 # zs)"
    and "set (head # xs) \<inter> set (head2 # zs) = {}"
  shows "ring (list_add n head h) head2 zs"
  using assms(2)
proof (rule ring_frame)
  fix x assume "x \<in> set (head2 # zs)"
  with assms(3,4) ring_neighbours [OF assms(1), of head]
  show "list_add n head h x = h x" by (intro list_add_frame) auto
qed

lemma ring_list_add_tail_other:
  assumes "ring h head xs" and "ring h head2 zs" and "n \<notin> set (head2 # zs)"
    and "set (head # xs) \<inter> set (head2 # zs) = {}"
  shows "ring (list_add_tail n head h) head2 zs"
  using assms(2)
proof (rule ring_frame)
  fix x assume "x \<in> set (head2 # zs)"
  with assms(3,4) ring_neighbours [OF assms(1), of head]
  show "list_add_tail n head h x = h x" by (intro list_add_tail_frame) auto
qed

lemma ring_list_del_init_other:
  assumes "ring h head (xs @ e # ys)" and "ring h head2 zs"
    and "set (head # xs @ e # ys) \<inter> set (head2 # zs) = {}"
  shows "ring (list_del_init e h) head2 zs"
  using assms(2)
proof (rule ring_frame)
  fix x assume "x \<in> set (head2 # zs)"
  with assms(3) ring_neighbours [OF assms(1), of e]
  show "list_del_init e h x = h x" by (intro list_del_init_frame) auto
qed

lemma ring_list_move:
  assumes "ring h head1 (xs @ e # ys)" and "ring h head2 zs"
    and "set (head1 # xs @ e # ys) \<inter> set (head2 # zs) = {}"
  shows "ring (list_move e head2 h) head1 (xs @ ys)"
    and "ring (list_move e head2 h) head2 (e # zs)"
proof -
  have r1: "ring (list_del_between (lh_prev (h e)) (lh_next (h e)) h) head1 (xs @ ys)"
    by (rule ring_del_between [OF assms(1)])
  have r2: "ring (list_del_between (lh_prev (h e)) (lh_next (h e)) h) head2 zs"
    by (rule ring_del_between_other [OF assms])
  show "ring (list_move e head2 h) head2 (e # zs)"
    unfolding list_move_def by (rule ring_list_add [OF r2]) (use assms(3) in auto)
  show "ring (list_move e head2 h) head1 (xs @ ys)"
    unfolding list_move_def
    by (rule ring_list_add_other [OF r2 r1]) (use assms(1,3) in \<open>auto simp: ring_def\<close>)
qed

lemma ring_list_splice_raw:
  assumes "ring h l (x # xs)" and "ring h head ys"
    and "set (l # x # xs) \<inter> set (head # ys) = {}"
  shows "ring (list_splice_raw l head h) head (x # xs @ ys)"
  using assms
  by (cases xs rule: rev_cases; cases ys)
    (auto simp: ring_def list_splice_raw_def Let_def)

section \<open>Traversals\<close>

lemma list_for_each_lseg:
  assumes "\<And>x s. x \<in> set xs \<Longrightarrow> hp (fst (body x s)) = hp s"
    and "lseg (hp s) p xs head" and "distinct xs" and "head \<notin> set xs"
  shows "list_for_each hp head body (lh_next (hp s p)) s = Some (iterate body xs s)"
  using assms
proof (induction xs arbitrary: p s)
  case Nil
  then show ?case by (simp add: list_for_each.simps)
next
  case (Cons x xs)
  obtain s' stop where b: "body x s = (s', stop)" by (cases "body x s")
  have same: "hp s' = hp s" using Cons.prems(1) [of x s] b by simp
  show ?case
  proof (cases stop)
    case True
    with Cons.prems b show ?thesis by (auto simp: list_for_each.simps [of hp head body x])
  next
    case False
    have "list_for_each hp head body (lh_next (hp s' x)) s' = Some (iterate body xs s')"
      by (rule Cons.IH) (use Cons.prems same in auto)
    with Cons.prems b False show ?thesis
      by (auto simp: list_for_each.simps [of hp head body x])
  qed
qed

theorem list_for_each_ring:
  assumes "ring (hp s) head xs" and "\<And>x s. x \<in> set xs \<Longrightarrow> hp (fst (body x s)) = hp s"
  shows "list_for_each hp head body (lh_next (hp s head)) s = Some (iterate body xs s)"
  using assms by (intro list_for_each_lseg) (auto simp: ring_def)

lemma list_for_each_prev_lseg:
  assumes "\<And>x s. x \<in> set xs \<Longrightarrow> hp (fst (body x s)) = hp s"
    and "lseg (hp s) head xs q" and "distinct xs" and "head \<notin> set xs"
  shows "list_for_each_prev hp head body (lh_prev (hp s q)) s = Some (iterate body (rev xs) s)"
  using assms
proof (induction xs arbitrary: q s rule: rev_induct)
  case Nil
  then show ?case by (simp add: list_for_each_prev.simps)
next
  case (snoc x xs)
  obtain s' stop where b: "body x s = (s', stop)" by (cases "body x s")
  have same: "hp s' = hp s" using snoc.prems(1) [of x s] b by simp
  show ?case
  proof (cases stop)
    case True
    with snoc.prems b show ?thesis by (auto simp: list_for_each_prev.simps [of hp head body x])
  next
    case False
    have "list_for_each_prev hp head body (lh_prev (hp s' x)) s' = Some (iterate body (rev xs) s')"
      by (rule snoc.IH) (use snoc.prems same in auto)
    with snoc.prems b False show ?thesis
      by (auto simp: list_for_each_prev.simps [of hp head body x])
  qed
qed

theorem list_for_each_prev_ring:
  assumes "ring (hp s) head xs" and "\<And>x s. x \<in> set xs \<Longrightarrow> hp (fst (body x s)) = hp s"
  shows "list_for_each_prev hp head body (lh_prev (hp s head)) s =
           Some (iterate body (rev xs) s)"
  using assms by (intro list_for_each_prev_lseg) (auto simp: ring_def)

lemma list_for_each_safe_lseg:
  assumes "\<And>x s. x \<in> set xs \<Longrightarrow> hp (fst (body x s)) = hp s"
    and "lseg (hp s) p xs head" and "distinct xs" and "head \<notin> set xs"
  shows "list_for_each_safe hp head body (lh_next (hp s p)) (lh_next (hp s (lh_next (hp s p)))) s =
    Some (iterate body xs s)"
  using assms
proof (induction xs arbitrary: p s)
  case Nil
  then show ?case by (simp add: list_for_each_safe.simps)
next
  case (Cons x xs)
  obtain s' stop where b: "body x s = (s', stop)" by (cases "body x s")
  have same: "hp s' = hp s" using Cons.prems(1) [of x s] b by simp
  show ?case
  proof (cases stop)
    case True
    with Cons.prems b show ?thesis by (auto simp: list_for_each_safe.simps [of hp head body x])
  next
    case False
    have "list_for_each_safe hp head body (lh_next (hp s' x)) (lh_next (hp s' (lh_next (hp s' x)))) s' =
        Some (iterate body xs s')"
      by (rule Cons.IH) (use Cons.prems same in auto)
    with Cons.prems b False same show ?thesis
      by (auto simp: list_for_each_safe.simps [of hp head body x])
  qed
qed

lemma list_for_each_safe_ring:
  assumes "ring (hp s) head xs" and "\<And>x s. x \<in> set xs \<Longrightarrow> hp (fst (body x s)) = hp s"
  shows "list_for_each_safe hp head body (lh_next (hp s head)) (lh_next (hp s (lh_next (hp s head)))) s =
    Some (iterate body xs s)"
  using assms by (intro list_for_each_safe_lseg) (auto simp: ring_def)

text \<open>
  A traversal whose body returns the first node that satisfies a test, the shape of every
  lookup in the kernel.
\<close>

definition find_body :: "('p \<Rightarrow> bool) \<Rightarrow> 'p \<Rightarrow> ('h \<times> 'p option) \<Rightarrow> ('h \<times> 'p option) \<times> bool" where
  "find_body P x s = (if P x then ((fst s, Some x), True) else (s, False))"

lemma iterate_find_body: "iterate (find_body P) xs (h, None) = (h, find P xs)"
  by (induction xs) (auto simp: find_body_def)

lemma list_for_each_find:
  assumes "ring h head xs"
  shows "list_for_each fst head (find_body P) (lh_next (h head)) (h, None) = Some (h, find P xs)"
proof -
  have "list_for_each fst head (find_body P) (lh_next (fst (h, None :: 'a option) head)) (h, None) =
        Some (iterate (find_body P) xs (h, None))"
    by (rule list_for_each_ring) (use assms in \<open>auto simp: find_body_def\<close>)
  then show ?thesis by (simp add: iterate_find_body)
qed

section \<open>The interface the clients rely on\<close>

text \<open>
  What the page allocator, the scheduler and the registries need of the list
  implementation: a representation predicate and the effect of the four operations on it. The
  facts about whole sequences of insertions are proved once here.
\<close>

locale list_store =
  fixes rep :: "'h \<Rightarrow> 'p \<Rightarrow> 'p list \<Rightarrow> bool"
    and add_front :: "'p \<Rightarrow> 'p \<Rightarrow> 'h \<Rightarrow> 'h"
    and add_back :: "'p \<Rightarrow> 'p \<Rightarrow> 'h \<Rightarrow> 'h"
    and unlink :: "'p \<Rightarrow> 'h \<Rightarrow> 'h"
    and is_empty :: "'p \<Rightarrow> 'h \<Rightarrow> bool"
  assumes rep_distinct: "rep h head xs \<Longrightarrow> distinct (head # xs)"
    and rep_add_front: "rep h head xs \<Longrightarrow> n \<notin> set (head # xs) \<Longrightarrow> rep (add_front n head h) head (n # xs)"
    and rep_add_back: "rep h head xs \<Longrightarrow> n \<notin> set (head # xs) \<Longrightarrow> rep (add_back n head h) head (xs @ [n])"
    and rep_unlink: "rep h head (xs @ e # ys) \<Longrightarrow> rep (unlink e h) head (xs @ ys)"
    and rep_is_empty: "rep h head xs \<Longrightarrow> is_empty head h \<longleftrightarrow> xs = []"
    and add_back_other: "rep h head xs \<Longrightarrow> rep h head2 zs \<Longrightarrow> n \<notin> set (head2 # zs) \<Longrightarrow>
      set (head # xs) \<inter> set (head2 # zs) = {} \<Longrightarrow> rep (add_back n head h) head2 zs"
begin

lemma rep_add_back_all:
  "rep h head xs \<Longrightarrow> distinct ns \<Longrightarrow> set ns \<inter> set (head # xs) = {} \<Longrightarrow>
   rep (fold (\<lambda>n. add_back n head) ns h) head (xs @ ns)"
proof (induction ns arbitrary: h xs)
  case Nil
  then show ?case by simp
next
  case (Cons n ns)
  have "rep (add_back n head h) head (xs @ [n])"
    by (rule rep_add_back [OF Cons.prems(1)]) (use Cons.prems(3) in auto)
  from Cons.IH [OF this] show ?case using Cons.prems by auto
qed

lemma rep_add_front_all:
  "rep h head xs \<Longrightarrow> distinct ns \<Longrightarrow> set ns \<inter> set (head # xs) = {} \<Longrightarrow>
   rep (fold (\<lambda>n. add_front n head) ns h) head (rev ns @ xs)"
proof (induction ns arbitrary: h xs)
  case Nil
  then show ?case by simp
next
  case (Cons n ns)
  have "rep (add_front n head h) head (n # xs)"
    by (rule rep_add_front [OF Cons.prems(1)]) (use Cons.prems(3) in auto)
  from Cons.IH [OF this] show ?case using Cons.prems by auto
qed

lemma add_back_all_other:
  "rep h head xs \<Longrightarrow> rep h head2 zs \<Longrightarrow> distinct ns \<Longrightarrow> set ns \<inter> set (head # xs) = {} \<Longrightarrow>
   set (ns @ head # xs) \<inter> set (head2 # zs) = {} \<Longrightarrow>
   rep (fold (\<lambda>n. add_back n head) ns h) head2 zs"
proof (induction ns arbitrary: h xs)
  case Nil
  then show ?case by simp
next
  case (Cons n ns)
  have "rep (add_back n head h) head (xs @ [n])"
    by (rule rep_add_back [OF Cons.prems(1)]) (use Cons.prems in auto)
  moreover have "rep (add_back n head h) head2 zs"
    by (rule add_back_other [OF Cons.prems(1,2)]) (use Cons.prems in auto)
  ultimately show ?case
    using Cons.IH [of "add_back n head h" "xs @ [n]"] Cons.prems by auto
qed

end

interpretation kl: list_store ring list_add list_add_tail list_del_init list_empty
proof
  show "distinct (head # xs)" if "ring h head xs" for h :: "'a lheap" and head xs
    using that by (simp add: ring_def)
qed (simp_all add: ring_list_add ring_list_add_tail ring_list_del_init list_empty_ring
  ring_list_add_tail_other)

section \<open>Properties\<close>

text \<open>
  \<open>list_move\<close> takes a node out of one list and puts it at the front of another: both
  lists are well-formed circular lists afterwards, with the other elements in their old order.
\<close>

theorem list_move_between_rings:
  assumes "ring h head1 (xs @ e # ys)" and "ring h head2 zs"
    and "set (head1 # xs @ e # ys) \<inter> set (head2 # zs) = {}"
  shows "ring (list_move e head2 h) head1 (xs @ ys) \<and> ring (list_move e head2 h) head2 (e # zs)"
  using ring_list_move [OF assms] by blast

definition two_rings :: "nat lheap" where
  "two_rings = list_add_tail 2 10 (list_add_tail 1 10 (\<lambda>x. \<lparr>lh_next = x, lh_prev = x\<rparr>))"

theorem list_move_between_rings_witness:
  "ring two_rings 10 [1, 2] \<and> ring two_rings 20 [] \<and>
   ring (list_move 1 20 two_rings) 10 [2] \<and> ring (list_move 1 20 two_rings) 20 [1]"
proof -
  have "ring two_rings 10 [1, 2]" "ring two_rings 20 []"
    by (simp_all add: two_rings_def ring_def list_add_tail_def list_add_between_def)
  with list_move_between_rings [of two_rings 10 "[]" 1 "[2]" 20 "[]"] show ?thesis by simp
qed

text \<open>
  \<open>list_for_each\<close> over a well-formed list terminates and runs its body on every element
  exactly once, in list order, until the body leaves the loop, for every body that keeps the links.
\<close>

theorem list_for_each_terminates:
  assumes "ring (hp s) head xs" and "\<And>x s. x \<in> set xs \<Longrightarrow> hp (fst (body x s)) = hp s"
  shows "list_for_each hp head body (lh_next (hp s head)) s = Some (iterate body xs s)"
  by (rule list_for_each_ring [OF assms])

definition collect_body :: "nat \<Rightarrow> nat lheap \<times> nat list \<Rightarrow> (nat lheap \<times> nat list) \<times> bool" where
  "collect_body x s = ((fst s, snd s @ [x]), x = 2)"

theorem list_for_each_terminates_witness:
  "ring two_rings 10 [1, 2] \<and>
   map_option snd (list_for_each fst 10 collect_body (lh_next (two_rings 10)) (two_rings, [])) = Some [1, 2]"
proof -
  have r: "ring two_rings 10 [1, 2]"
    by (simp add: two_rings_def ring_def list_add_tail_def list_add_between_def)
  have "ring (fst (two_rings, [])) 10 [1, 2]" using r by simp
  from list_for_each_terminates [of fst "(two_rings, [])", OF this, of collect_body] r show ?thesis
    by (simp add: collect_body_def)
qed

text \<open>
  \<open>list_splice_init\<close> puts the elements of one list, in order, in front of those of another
  and leaves the first list empty.
\<close>

theorem list_splice_init_joins:
  assumes "ring h l xs" and "ring h head ys" and "set (l # xs) \<inter> set (head # ys) = {}"
  shows "ring (list_splice_init l head h) head (xs @ ys) \<and> ring (list_splice_init l head h) l []"
proof (cases xs)
  case Nil
  with assms show ?thesis by (auto simp: list_splice_init_def list_empty_ring [OF assms(1)])
next
  case (Cons x xs')
  have "ring (list_splice_raw l head h) head (x # xs' @ ys)"
    by (rule ring_list_splice_raw) (use assms Cons in auto)
  then have "ring (INIT_LIST_HEAD l (list_splice_raw l head h)) head (x # xs' @ ys)"
    by (rule ring_frame_except [of _ _ _ l]) (use assms(1,3) Cons in \<open>auto simp: ring_def\<close>)
  moreover have "\<not> list_empty l h" using list_empty_ring [OF assms(1)] Cons by simp
  ultimately show ?thesis by (simp add: list_splice_init_def ring_INIT Cons)
qed

theorem list_splice_init_joins_witness:
  "ring two_rings 10 [1, 2] \<and> ring (list_splice_init 10 20 two_rings) 20 [1, 2] \<and>
   ring (list_splice_init 10 20 two_rings) 10 []"
proof -
  have "ring two_rings 10 [1, 2]" "ring two_rings 20 []"
    by (simp_all add: two_rings_def ring_def list_add_tail_def list_add_between_def)
  with list_splice_init_joins [of two_rings 10 "[1, 2]" 20 "[]"] show ?thesis by simp
qed

end
