(* ===== verification/Kstring.thy ===== *)
theory Kstring
  imports Kernel_Prelude
begin

text \<open>
  The memory and string routines of \<^verbatim>\<open>kernel/utils.c\<close>, \<^verbatim>\<open>kernel/str.c\<close> and
  \<^verbatim>\<open>kernel/strtol.c\<close>. Memory is a function from 64-bit addresses to bytes; a C string is a
  zero-terminated run of bytes in it. Loops that run until they meet a terminator are
  \<open>partial_function (option)\<close>, \<open>None\<close> being a loop that never meets one.
  Comparisons of \<open>char\<close> are signed, as the target's \<open>char\<close> is.
\<close>

type_synonym mem = "u64 \<Rightarrow> u8"

section \<open>utils.c\<close>

text \<open>
  \<open>memcmp\<close>: the byte differences are summed in an \<open>int\<close> and the first non-zero sum is
  returned; the sum before any non-zero difference is 0, so it never accumulates. The loop
  counter is an \<open>int\<close> compared with an unsigned bound, that is, as an unsigned number.
\<close>

function memcmp_from :: "mem \<Rightarrow> u64 \<Rightarrow> u64 \<Rightarrow> nat \<Rightarrow> nat \<Rightarrow> int \<Rightarrow> int" where
  "memcmp_from m a b bytes i acc =
     (if i < bytes then
        (let acc2 = acc + (uint (m (a + of_nat i)) - uint (m (b + of_nat i)))
         in if acc2 \<noteq> 0 then acc2 else memcmp_from m a b bytes (Suc i) acc2)
      else acc)"
  by pat_completeness auto
termination
  by (relation "measure (\<lambda>(m, a, b, bytes, i, acc). bytes - i)") auto

declare memcmp_from.simps [simp del]

definition memcmp :: "mem \<Rightarrow> u64 \<Rightarrow> u64 \<Rightarrow> u32 \<Rightarrow> int" where
  "memcmp m a b bytes = memcmp_from m a b (unat bytes) 0 0"

function memcpy_from :: "u64 \<Rightarrow> u64 \<Rightarrow> nat \<Rightarrow> nat \<Rightarrow> mem \<Rightarrow> mem" where
  "memcpy_from dst src sz i m =
     (if i < sz then memcpy_from dst src sz (Suc i) (m(dst + of_nat i := m (src + of_nat i)))
      else m)"
  by pat_completeness auto
termination
  by (relation "measure (\<lambda>(dst, src, sz, i, m). sz - i)") auto

declare memcpy_from.simps [simp del]

definition memcpy :: "u64 \<Rightarrow> u64 \<Rightarrow> u64 \<Rightarrow> mem \<Rightarrow> mem" where
  "memcpy dst src sz m = memcpy_from dst src (unat sz) 0 m"

function memset_from :: "u64 \<Rightarrow> u8 \<Rightarrow> nat \<Rightarrow> nat \<Rightarrow> mem \<Rightarrow> mem" where
  "memset_from dst val bytes i m =
     (if i < bytes then memset_from dst val bytes (Suc i) (m(dst + of_nat i := val)) else m)"
  by pat_completeness auto
termination
  by (relation "measure (\<lambda>(dst, val, bytes, i, m). bytes - i)") auto

declare memset_from.simps [simp del]

definition memset :: "u64 \<Rightarrow> u8 \<Rightarrow> u64 \<Rightarrow> mem \<Rightarrow> mem" where
  "memset dst val bytes m = memset_from dst val (unat bytes) 0 m"

partial_function (option) strcpy_loop :: "u64 \<Rightarrow> u64 \<Rightarrow> mem \<Rightarrow> mem option" where
  "strcpy_loop dest b m =
     (let m' = m(dest := m b)
      in if m b \<noteq> 0 then strcpy_loop (dest + 1) (b + 1) m' else Some m')"

text \<open>\<open>strcpy\<close> returns the destination it was given and the new memory.\<close>

definition strcpy :: "u64 \<Rightarrow> u64 \<Rightarrow> mem \<Rightarrow> (u64 \<times> mem) option" where
  "strcpy dest b m = map_option (Pair dest) (strcpy_loop dest b m)"

function strncpy_from :: "u64 \<Rightarrow> u64 \<Rightarrow> nat \<Rightarrow> nat \<Rightarrow> mem \<Rightarrow> mem" where
  "strncpy_from dst src ncount i m =
     (if i < ncount then
        (let m' = m(dst + of_nat i := m (src + of_nat i))
         in if m' (dst + of_nat i) = 0 then m' else strncpy_from dst src ncount (Suc i) m')
      else m)"
  by pat_completeness auto
termination
  by (relation "measure (\<lambda>(dst, src, ncount, i, m). ncount - i)") auto

declare strncpy_from.simps [simp del]

definition strncpy :: "u64 \<Rightarrow> u64 \<Rightarrow> u64 \<Rightarrow> mem \<Rightarrow> u64 \<times> mem" where
  "strncpy dst src ncount m = (dst, strncpy_from dst src (unat ncount) 0 m)"

section \<open>str.c\<close>

partial_function (option) strcmp :: "mem \<Rightarrow> u64 \<Rightarrow> u64 \<Rightarrow> int option" where
  "strcmp m s1 s2 =
     (if m s1 \<noteq> 0 \<and> m s2 \<noteq> 0 then
        (if sint (m s1) > sint (m s2) then Some 1
         else if sint (m s1) < sint (m s2) then Some (-1)
         else strcmp m (s1 + 1) (s2 + 1))
      else if m s1 \<noteq> 0 then Some 1
      else if m s2 \<noteq> 0 then Some (-1)
      else Some 0)"

partial_function (option) strlen_loop :: "mem \<Rightarrow> u64 \<Rightarrow> int \<Rightarrow> int option" where
  "strlen_loop m s count = (if m s \<noteq> 0 then strlen_loop m (s + 1) (count + 1) else Some count)"

definition strlen :: "mem \<Rightarrow> u64 \<Rightarrow> int option" where
  "strlen m s = strlen_loop m s 0"

text \<open>\<open>strrchr\<close>: the null pointer of the source is \<open>None\<close> in the second component.\<close>

partial_function (option) strrchr_loop ::
    "mem \<Rightarrow> u64 \<Rightarrow> u8 \<Rightarrow> u64 option \<Rightarrow> u64 option option" where
  "strrchr_loop m s c p =
     (let p' = (if m s = c then Some s else p)
      in if m s = 0 then Some p' else strrchr_loop m (s + 1) c p')"

definition strrchr :: "mem \<Rightarrow> u64 \<Rightarrow> u8 \<Rightarrow> u64 option option" where
  "strrchr m s c = strrchr_loop m s c None"

section \<open>strtol.c\<close>

text \<open>
  Characters are the bytes of memory; \<open>long\<close> arithmetic is 64-bit two's complement. The
  macro \<open>hexdigit\<close> accepts every letter, so that \<open>digitval\<close> can exceed 15; the test
  \<open>val >= base\<close> stops the loop there.
\<close>

definition chr :: "char \<Rightarrow> u8" where
  "chr c = of_char c"

definition hexdigit :: "u8 \<Rightarrow> bool" where
  "hexdigit d \<longleftrightarrow>
     (chr (CHR ''0'') \<le> d \<and> d \<le> chr (CHR ''9'')) \<or>
     (chr (CHR ''a'') \<le> d \<and> d \<le> chr (CHR ''z'')) \<or>
     (chr (CHR ''A'') \<le> d \<and> d \<le> chr (CHR ''Z''))"

definition digitval :: "u8 \<Rightarrow> int" where
  "digitval d =
     (if chr (CHR ''0'') \<le> d \<and> d \<le> chr (CHR ''9'') then uint d - uint (chr (CHR ''0''))
      else if chr (CHR ''a'') \<le> d \<and> d \<le> chr (CHR ''z'') then uint d - uint (chr (CHR ''a'')) + 10
      else uint d - uint (chr (CHR ''A'')) + 10)"

partial_function (option) strtol_loop :: "mem \<Rightarrow> u32 \<Rightarrow> u64 \<Rightarrow> u64 \<Rightarrow> (u64 \<times> u64) option" where
  "strtol_loop m base str ret =
     (if hexdigit (m str) then
        (if digitval (m str) \<ge> uint base then Some (ret, str)
         else strtol_loop m base (str + 1) (ret * ucast base + word_of_int (digitval (m str))))
      else Some (ret, str))"

text \<open>The prefix that decides the base when the caller passes 0.\<close>

definition strtol_base :: "mem \<Rightarrow> u64 \<Rightarrow> u32 \<Rightarrow> u32 \<times> u64" where
  "strtol_base m str base =
     (if base = 0 then
        (if m str = chr (CHR ''0'') then
           (if m (str + 1) = chr (CHR ''x'') then (16, str + 2) else (8, str + 1))
         else (10, str))
      else (base, str))"

text \<open>The result: the value and the pointer stored through \<open>endp\<close>.\<close>

definition strtol :: "mem \<Rightarrow> u64 \<Rightarrow> u32 \<Rightarrow> (u64 \<times> u64) option" where
  "strtol m str base = (case strtol_base m str base of (b, s) \<Rightarrow> strtol_loop m b s 0)"

section \<open>Blocks and strings in memory\<close>

definition block :: "mem \<Rightarrow> u64 \<Rightarrow> nat \<Rightarrow> u8 list" where
  "block m a n = map (\<lambda>i. m (a + of_nat i)) [0..<n]"

definition region :: "u64 \<Rightarrow> nat \<Rightarrow> u64 set" where
  "region a n = (\<lambda>i. a + of_nat i) ` {..<n}"

fun cstr :: "mem \<Rightarrow> u64 \<Rightarrow> u8 list \<Rightarrow> bool" where
  "cstr m p [] \<longleftrightarrow> m p = 0"
| "cstr m p (c # cs) \<longleftrightarrow> c \<noteq> 0 \<and> m p = c \<and> cstr m (p + 1) cs"

lemma length_block [simp]: "length (block m a n) = n"
  by (simp add: block_def)

lemma block_cong: "(\<And>x. x \<in> region a n \<Longrightarrow> m' x = m x) \<Longrightarrow> block m' a n = block m a n"
  by (auto simp: block_def region_def)

lemma of_nat_inj_u64: "i < 2 ^ 64 \<Longrightarrow> j < 2 ^ 64 \<Longrightarrow> (of_nat i :: u64) = of_nat j \<longleftrightarrow> i = j"
  by (simp add: word_of_nat_eq_iff take_bit_nat_eq_self)

lemma region_nth_inj:
  "i < n \<Longrightarrow> j < n \<Longrightarrow> n \<le> 2 ^ 64 \<Longrightarrow> (a + of_nat i :: u64) = a + of_nat j \<longleftrightarrow> i = j"
  by (simp add: of_nat_inj_u64)

lemma region_Suc: "region a (Suc n) = insert a (region (a + 1) n)"
proof -
  have "{..<Suc n} = insert 0 (Suc ` {..<n})"
    by (auto simp: less_Suc_eq_0_disj)
  then show ?thesis by (auto simp: region_def image_image algebra_simps)
qed

subsection \<open>memcmp, memcpy, memset\<close>

lemma memcmp_from_zero:
  "memcmp_from m a b n i 0 = 0 \<longleftrightarrow> (\<forall>j. i \<le> j \<and> j < n \<longrightarrow> m (a + of_nat j) = m (b + of_nat j))"
proof (induction "n - i" arbitrary: i)
  case 0
  then show ?case by (auto simp: memcmp_from.simps)
next
  case (Suc k)
  then have i: "i < n" by simp
  have IH: "memcmp_from m a b n (Suc i) 0 = 0 \<longleftrightarrow>
      (\<forall>j. Suc i \<le> j \<and> j < n \<longrightarrow> m (a + of_nat j) = m (b + of_nat j))"
    using Suc by (intro Suc.hyps(1)) simp
  show ?case
    unfolding all_from_split [OF i] IH [symmetric]
    by (subst memcmp_from.simps) (auto simp: Let_def i word_uint_eq_iff)
qed

lemma memcmp_zero_iff:
  "memcmp m a b n = 0 \<longleftrightarrow> block m a (unat n) = block m b (unat n)"
  by (auto simp: memcmp_def memcmp_from_zero block_def)

lemma memcpy_from_outside:
  "x \<notin> region dst n \<Longrightarrow> memcpy_from dst src n i m x = m x"
proof (induction dst src n i m rule: memcpy_from.induct)
  case (1 dst src sz i m)
  show ?case
  proof (cases "i < sz")
    case True
    then have "dst + of_nat i \<in> region dst sz" by (auto simp: region_def)
    with "1.prems" have "x \<noteq> dst + of_nat i" by auto
    then show ?thesis
      using "1.IH" [OF True "1.prems"] True
      by (simp add: memcpy_from.simps [of dst src sz i] fun_upd_def)
  next
    case False
    then show ?thesis by (simp add: memcpy_from.simps)
  qed
qed

lemma memcpy_from_inside:
  assumes "n \<le> 2 ^ 64" and "region dst n \<inter> region src n = {}" and "j < n"
    and "i \<le> j \<or> m (dst + of_nat j) = m (src + of_nat j)"
  shows "memcpy_from dst src n i m (dst + of_nat j) = m (src + of_nat j)"
  using assms
proof (induction dst src n i m rule: memcpy_from.induct)
  case (1 dst src sz i m)
  show ?case
  proof (cases "i < sz")
    case True
    let ?m = "m(dst + of_nat i := m (src + of_nat i))"
    have src_same: "?m (src + of_nat k) = m (src + of_nat k)" if "k < sz" for k
    proof -
      have "dst + of_nat i \<in> region dst sz" "src + of_nat k \<in> region src sz"
        using True that by (auto simp: region_def)
      then show ?thesis using "1.prems"(2) by auto
    qed
    have "memcpy_from dst src sz (Suc i) ?m (dst + of_nat j) = ?m (src + of_nat j)"
    proof (rule "1.IH" [OF True "1.prems"(1,2,3)])
      show "Suc i \<le> j \<or> ?m (dst + of_nat j) = ?m (src + of_nat j)"
        using "1.prems" True src_same [OF "1.prems"(3)]
        by (cases "i = j") (auto simp: of_nat_inj_u64)
    qed
    then show ?thesis
      using True src_same [OF "1.prems"(3)] by (subst memcpy_from.simps) simp
  next
    case False
    with "1.prems" show ?thesis by (subst memcpy_from.simps) auto
  qed
qed

lemma memcpy_block:
  assumes "region dst (unat n) \<inter> region src (unat n) = {}"
  shows "block (memcpy dst src n m) dst (unat n) = block m src (unat n)"
proof -
  have "unat n \<le> 2 ^ 64" using unat_u64_bound [of n] by simp
  then show ?thesis
    using assms by (auto simp: block_def memcpy_def intro!: memcpy_from_inside)
qed

lemma memcpy_frame: "x \<notin> region dst (unat n) \<Longrightarrow> memcpy dst src n m x = m x"
  by (simp add: memcpy_def memcpy_from_outside)

lemma memset_from_eq:
  "memset_from dst val n i m x = (if \<exists>j. i \<le> j \<and> j < n \<and> x = dst + of_nat j then val else m x)"
proof (induction dst val n i m rule: memset_from.induct)
  case (1 dst val n i m)
  show ?case
  proof (cases "i < n")
    case True
    have "memset_from dst val n i m x =
        memset_from dst val n (Suc i) (m(dst + of_nat i := val)) x"
      using True by (simp add: memset_from.simps [of dst val n i])
    then show ?thesis
      unfolding ex_from_split [OF True] using "1.IH" [OF True] by (auto simp: fun_upd_def)
  next
    case False
    then show ?thesis by (subst memset_from.simps) auto
  qed
qed

lemma memset_eq:
  "memset dst val n m x = (if x \<in> region dst (unat n) then val else m x)"
  by (auto simp: memset_def memset_from_eq region_def)

subsection \<open>strlen, strcmp, strrchr\<close>

lemma strlen_loop_cstr: "cstr m p s \<Longrightarrow> strlen_loop m p n = Some (n + int (length s))"
  by (induction s arbitrary: p n) (simp_all add: strlen_loop.simps)

lemma strlen_cstr: "cstr m p s \<Longrightarrow> strlen m p = Some (int (length s))"
  by (simp add: strlen_def strlen_loop_cstr)

text \<open>The order \<open>strcmp\<close> computes: lexicographic on signed bytes, a prefix being smaller.\<close>

fun str_order :: "u8 list \<Rightarrow> u8 list \<Rightarrow> int" where
  "str_order [] [] = 0"
| "str_order (c # cs) [] = 1"
| "str_order [] (d # ds) = -1"
| "str_order (c # cs) (d # ds) =
     (if sint c > sint d then 1 else if sint c < sint d then -1 else str_order cs ds)"

lemma strcmp_cstr: "cstr m p s \<Longrightarrow> cstr m q t \<Longrightarrow> strcmp m p q = Some (str_order s t)"
proof (induction s t arbitrary: p q rule: str_order.induct)
  case (4 c cs d ds)
  then show ?case by (auto simp: strcmp.simps [of m p q])
qed (simp_all add: strcmp.simps)

lemma str_order_zero_iff: "str_order s t = 0 \<longleftrightarrow> s = t"
  by (induction s t rule: str_order.induct) (auto simp: not_less_iff_gr_or_eq dest: signed_word_eqI)

lemma str_order_antisym: "str_order t s = - str_order s t"
  by (induction s t rule: str_order.induct) auto

fun last_index :: "'a \<Rightarrow> 'a list \<Rightarrow> nat option" where
  "last_index c [] = None"
| "last_index c (x # xs) =
     (case last_index c xs of Some i \<Rightarrow> Some (Suc i) | None \<Rightarrow> if x = c then Some 0 else None)"

lemma strrchr_loop_cstr:
  assumes "cstr m p s" and "c \<noteq> 0"
  shows "strrchr_loop m p c r =
     Some (case last_index c s of Some i \<Rightarrow> Some (p + of_nat i) | None \<Rightarrow> r)"
  using assms
proof (induction s arbitrary: p r)
  case Nil
  then show ?case by (simp add: strrchr_loop.simps)
next
  case (Cons x xs)
  then have "strrchr_loop m p c r = strrchr_loop m (p + 1) c (if x = c then Some p else r)"
    by (simp add: strrchr_loop.simps [of m p c r] Let_def)
  with Cons show ?case
    by (auto split: option.splits simp: algebra_simps)
qed

lemma strrchr_cstr:
  "cstr m p s \<Longrightarrow> c \<noteq> 0 \<Longrightarrow> strrchr m p c = Some (map_option (\<lambda>i. p + of_nat i) (last_index c s))"
  by (simp add: strrchr_def strrchr_loop_cstr split: option.splits)

lemma last_index_None: "last_index c s = None \<longleftrightarrow> c \<notin> set s"
  by (induction s) (auto simp: option.case_eq_if)

lemma last_index_Some:
  "last_index c s = Some i \<Longrightarrow> i < length s \<and> s ! i = c \<and> c \<notin> set (drop (Suc i) s)"
  by (induction s arbitrary: i) (auto simp: last_index_None split: option.splits if_splits)

subsection \<open>strcpy\<close>

lemma cstr_cong: "(\<And>x. x \<in> region p (Suc (length s)) \<Longrightarrow> m' x = m x) \<Longrightarrow> cstr m' p s = cstr m p s"
proof (induction s arbitrary: p)
  case Nil
  then show ?case by (simp add: region_Suc)
next
  case (Cons c cs)
  from Cons.prems have "m' p = m p" by (simp add: region_Suc)
  moreover from Cons.prems have "cstr m' (p + 1) cs = cstr m (p + 1) cs"
    by (intro Cons.IH) (simp add: region_Suc [of p])
  ultimately show ?case by simp
qed

lemma region_shift_notin:
  assumes "n < 2 ^ 64"
  shows "p \<notin> region (p + 1) n"
proof
  assume "p \<in> region (p + 1) n"
  then obtain i where "i < n" and "p + 0 = p + of_nat (Suc i)"
    by (auto simp: region_def algebra_simps)
  then have "(of_nat 0 :: u64) = of_nat (Suc i)" by (simp del: of_nat_Suc)
  moreover have "(of_nat 0 :: u64) = of_nat (Suc i) \<longleftrightarrow> 0 = Suc i"
    using \<open>i < n\<close> assms by (intro of_nat_inj_u64) auto
  ultimately show False by simp
qed

lemma strcpy_loop_cstr:
  assumes "cstr m b s" and "length s < 2 ^ 64"
    and "region dest (Suc (length s)) \<inter> region b (Suc (length s)) = {}"
  shows "\<exists>m'. strcpy_loop dest b m = Some m' \<and> cstr m' dest s \<and>
           (\<forall>x. x \<notin> region dest (Suc (length s)) \<longrightarrow> m' x = m x)"
  using assms
proof (induction s arbitrary: dest b m)
  case Nil
  then show ?case by (simp add: strcpy_loop.simps region_Suc)
next
  case (Cons c cs)
  let ?m = "m(dest := c)"
  have disj: "region (dest + 1) (Suc (length cs)) \<inter> region (b + 1) (Suc (length cs)) = {}"
    and dest_out: "dest \<notin> region (b + 1) (Suc (length cs))"
    using Cons.prems(3) by (auto simp: region_Suc [of dest] region_Suc [of b])
  have "cstr ?m (b + 1) cs \<longleftrightarrow> cstr m (b + 1) cs"
    by (rule cstr_cong) (use dest_out in auto)
  then have "cstr ?m (b + 1) cs" using Cons.prems(1) by simp
  from Cons.IH [OF this _ disj] Cons.prems(2)
  obtain m' where m': "strcpy_loop (dest + 1) (b + 1) ?m = Some m'" "cstr m' (dest + 1) cs"
    and frame: "\<forall>x. x \<notin> region (dest + 1) (Suc (length cs)) \<longrightarrow> m' x = ?m x"
    by (auto simp: fun_upd_def)
  have "dest \<notin> region (dest + 1) (Suc (length cs))"
    using Cons.prems(2) by (intro region_shift_notin) simp
  with frame have "m' dest = c" by simp
  moreover have "strcpy_loop dest b m = Some m'"
    using Cons.prems(1) m'(1) by (simp add: strcpy_loop.simps [of dest b] Let_def)
  ultimately show ?case
    using m'(2) Cons.prems(1) frame by (auto simp: region_Suc [of dest])
qed

subsection \<open>strtol\<close>

definition digits_value :: "u32 \<Rightarrow> u8 list \<Rightarrow> u64" where
  "digits_value base ds = foldl (\<lambda>r d. r * ucast base + word_of_int (digitval d)) 0 ds"

fun valid_digits :: "u32 \<Rightarrow> u8 list \<Rightarrow> bool" where
  "valid_digits base [] \<longleftrightarrow> True"
| "valid_digits base (d # ds) \<longleftrightarrow> hexdigit d \<and> digitval d < uint base \<and> valid_digits base ds"

text \<open>The bytes at an address, with no condition on what follows.\<close>

fun bytes_at :: "mem \<Rightarrow> u64 \<Rightarrow> u8 list \<Rightarrow> bool" where
  "bytes_at m p [] \<longleftrightarrow> True"
| "bytes_at m p (c # cs) \<longleftrightarrow> m p = c \<and> bytes_at m (p + 1) cs"

lemma strtol_loop_digits:
  assumes "bytes_at m p ds" and "valid_digits base ds"
    and "\<not> hexdigit (m (p + of_nat (length ds))) \<or>
         uint base \<le> digitval (m (p + of_nat (length ds)))"
  shows "strtol_loop m base p r =
     Some (foldl (\<lambda>r d. r * ucast base + word_of_int (digitval d)) r ds, p + of_nat (length ds))"
  using assms
proof (induction ds arbitrary: p r)
  case Nil
  then show ?case by (auto simp: strtol_loop.simps)
next
  case (Cons d ds)
  have step: "strtol_loop m base p r =
      strtol_loop m base (p + 1) (r * ucast base + word_of_int (digitval d))"
    using Cons.prems by (subst strtol_loop.simps) auto
  have "p + 1 + of_nat (length ds) = p + of_nat (length (d # ds))" by simp
  with Cons.IH [of "p + 1"] Cons.prems step show ?case by (simp add: algebra_simps)
qed

lemma strtol_digits:
  assumes "base \<noteq> 0" and "bytes_at m p ds" and "valid_digits base ds"
    and "\<not> hexdigit (m (p + of_nat (length ds))) \<or>
         uint base \<le> digitval (m (p + of_nat (length ds)))"
  shows "strtol m p base = Some (digits_value base ds, p + of_nat (length ds))"
  using assms strtol_loop_digits [OF assms(2,3,4), of 0]
  by (simp add: strtol_def strtol_base_def digits_value_def)

lemma digitval_nonneg: "hexdigit d \<Longrightarrow> 0 \<le> digitval d"
  unfolding hexdigit_def digitval_def word_le_def by (auto split: if_splits)

text \<open>Without overflow the 64-bit value is the number the digits denote.\<close>

definition digits_int :: "u32 \<Rightarrow> u8 list \<Rightarrow> int" where
  "digits_int base ds = foldl (\<lambda>r d. r * uint base + digitval d) 0 ds"

lemma digits_value_int: "digits_value base ds = word_of_int (digits_int base ds)"
proof -
  have "foldl (\<lambda>r d. r * ucast base + word_of_int (digitval d)) (word_of_int k) ds =
        (word_of_int (foldl (\<lambda>r d. r * uint base + digitval d) k ds) :: u64)" for k
  proof (induction ds arbitrary: k)
    case Nil
    then show ?case by simp
  next
    case (Cons d ds)
    have "(ucast base :: u64) = word_of_int (uint base)" by (rule ucast_eq)
    then have "(word_of_int k * ucast base + word_of_int (digitval d) :: u64) =
          word_of_int (k * uint base + digitval d)"
      by (simp only: of_int_add of_int_mult)
    then show ?case by (simp only: foldl.simps Cons.IH)
  qed
  from this [of 0] show ?thesis by (simp add: digits_value_def digits_int_def)
qed

section \<open>Properties\<close>

text \<open>
  On two terminated strings \<open>strcmp\<close> returns, its result is 0 exactly when the strings are
  equal, and exchanging the arguments negates it.
\<close>

theorem strcmp_decides_equality:
  assumes "cstr m p s" and "cstr m q t"
  shows "\<exists>r. strcmp m p q = Some r \<and> strcmp m q p = Some (- r) \<and> (r = 0 \<longleftrightarrow> s = t)"
  using strcmp_cstr [OF assms] strcmp_cstr [OF assms(2,1)] str_order_antisym [of t s]
  by (simp add: str_order_zero_iff)

definition sample_mem :: mem where
  "sample_mem a = (if a = 0x100 then 0x34 else if a = 0x101 then 0x32 else if a = 0x200 then 0x34 else 0)"

theorem strcmp_decides_equality_witness:
  "cstr sample_mem 0x100 [0x34, 0x32] \<and> cstr sample_mem 0x200 [0x34] \<and>
   (\<exists>r. strcmp sample_mem 0x100 0x200 = Some r \<and> r \<noteq> 0)"
proof -
  have "cstr sample_mem 0x100 [0x34, 0x32]" "cstr sample_mem 0x200 [0x34]"
    by (simp_all add: sample_mem_def)
  with strcmp_decides_equality [OF this] show ?thesis by auto
qed

text \<open>
  \<open>memcpy\<close> makes the destination equal to the source when the two regions do not overlap
  and changes no byte outside the destination.
\<close>

theorem memcpy_copies:
  assumes "region dst (unat n) \<inter> region src (unat n) = {}"
  shows "block (memcpy dst src n m) dst (unat n) = block m src (unat n) \<and>
    (\<forall>x. x \<notin> region dst (unat n) \<longrightarrow> memcpy dst src n m x = m x)"
  using memcpy_block [OF assms] memcpy_frame by blast

theorem memcpy_copies_witness:
  "region 0x300 (unat (2 :: u64)) \<inter> region 0x100 (unat (2 :: u64)) = {} \<and>
   block (memcpy 0x300 0x100 2 sample_mem) 0x300 2 = [0x34, 0x32]"
proof -
  have r: "region 0x300 (unat (2 :: u64)) \<inter> region 0x100 (unat (2 :: u64)) = {}"
    by (simp add: region_def lessThan_nat_numeral lessThan_Suc)
  with memcpy_copies [OF r, of sample_mem] show ?thesis
    by (simp add: block_def sample_mem_def upt_rec)
qed

text \<open>
  \<open>strtol\<close> with an explicit base reads the longest run of digits of that base, stops at the
  first character that is not one, and returns the number they denote modulo \<open>2 ^ 64\<close>.
\<close>

theorem strtol_reads_number:
  assumes "base \<noteq> 0" and "bytes_at m p ds" and "valid_digits base ds"
    and "\<not> hexdigit (m (p + of_nat (length ds))) \<or> uint base \<le> digitval (m (p + of_nat (length ds)))"
  shows "strtol m p base = Some (word_of_int (digits_int base ds), p + of_nat (length ds))"
  using strtol_digits [OF assms] by (simp add: digits_value_int)

theorem strtol_reads_number_witness: "strtol sample_mem 0x100 10 = Some (42, 0x102)"
proof -
  have "strtol sample_mem 0x100 10 =
      Some (word_of_int (digits_int 10 [0x34, 0x32]), 0x100 + of_nat (length [0x34, 0x32 :: u8]))"
    by (rule strtol_reads_number) (simp_all add: sample_mem_def hexdigit_def digitval_def chr_def of_char_def)
  then show ?thesis by (simp add: digits_int_def digitval_def chr_def of_char_def)
qed

text \<open>
  \<open>strcpy\<close> of a terminated string returns, leaves a copy of it at the destination and
  changes nothing outside the destination, when the two do not overlap.
\<close>

theorem strcpy_copies:
  assumes "cstr m b s" and "length s < 2 ^ 64"
    and "region dest (Suc (length s)) \<inter> region b (Suc (length s)) = {}"
  shows "\<exists>m'. strcpy dest b m = Some (dest, m') \<and> cstr m' dest s \<and>
           (\<forall>x. x \<notin> region dest (Suc (length s)) \<longrightarrow> m' x = m x)"
  using strcpy_loop_cstr [OF assms] by (auto simp: strcpy_def)

theorem strcpy_copies_witness:
  "cstr sample_mem 0x200 [0x34] \<and> (\<exists>m'. strcpy 0x300 0x200 sample_mem = Some (0x300, m') \<and> cstr m' 0x300 [0x34])"
proof -
  have c: "cstr sample_mem 0x200 [0x34]" by (simp add: sample_mem_def)
  have "region 0x300 (Suc (length [0x34 :: u8])) \<inter> region 0x200 (Suc (length [0x34 :: u8])) = {}"
    by (simp add: region_def lessThan_Suc)
  from strcpy_copies [OF c _ this] c show ?thesis by auto
qed

end
