(* ===== verification/Page_Alloc.thy ===== *)
theory Page_Alloc
  imports Linked_List Kstring
begin

text \<open>
  The physical page allocator, \<^verbatim>\<open>mm/page_alloc.c\<close> with the structures and the inline
  functions of \<^verbatim>\<open>include/lucix/mm.h\<close> and \<^verbatim>\<open>mm/page.c\<close>. A zone keeps one free list per
  block order, threaded through the \<open>struct page\<close> array \<open>mem_map\<close>, and one bitmap per
  order with a bit per pair of buddies.

  Three stores hold what the C code keeps in memory: \<open>links\<close> maps every list node to its
  \<open>list_head\<close>, \<open>wmem\<close> holds the 32-bit words of the bitmaps by virtual address, and
  \<open>pages\<close> the other fields of every \<open>struct page\<close> by virtual address. The static list heads
  \<open>state.zones[z].free_areas[o].list\<close> are symbolic nodes, since the code never computes
  with their addresses; a \<open>struct page\<close> is named by its 64-bit virtual address, with which it
  does. \<open>ram\<close> is the byte content of the pages handed out. \<open>get_page_vaddr\<close> is declared in
  \<^verbatim>\<open>lucix/page.h\<close>, which is not part of the repository, and is a parameter.
\<close>

section \<open>Addresses (arch/paging.h) and sizes\<close>

definition PAGE_SIZE :: u64 where "PAGE_SIZE = 0x1000"

definition PAGE_FRAME :: "u64 \<Rightarrow> u64" where
  "PAGE_FRAME pa = pa AND 0x0000fffffffff000"

definition VA2PA :: "u64 \<Rightarrow> u64" where
  "VA2PA va = va XOR 0xffff800000000000"

definition PA2VA :: "u64 \<Rightarrow> u64" where
  "PA2VA pa = pa XOR 0xffff800000000000"

text \<open>\<open>sizeof(struct page)\<close>: a list head, three 32-bit fields, padding, a pointer.\<close>

definition sizeof_page :: u64 where "sizeof_page = 40"

definition MAX_PG_ORDER :: nat where "MAX_PG_ORDER = 10"
definition NUM_PG_ORDERS :: nat where "NUM_PG_ORDERS = MAX_PG_ORDER + 1"
definition MAX_MEM_ZONES :: nat where "MAX_MEM_ZONES = 64"

definition BIT32 :: "nat \<Rightarrow> u32" where "BIT32 a = push_bit a 1"

definition MEMZONE_IDENTITY_MAPPED :: u32 where "MEMZONE_IDENTITY_MAPPED = BIT32 0"
definition PGALLOC_KERNEL :: u32 where "PGALLOC_KERNEL = BIT32 0"

definition PAGE_USAGE_PRIVATE :: u32 where "PAGE_USAGE_PRIVATE = 0"
definition PAGE_USAGE_CACHE :: u32 where "PAGE_USAGE_CACHE = 1"
definition PAGE_USAGE_ANON :: u32 where "PAGE_USAGE_ANON = 2"
definition PAGE_CACHE_FLAG_DIRTY :: u32 where "PAGE_CACHE_FLAG_DIRTY = 0x100"

section \<open>State\<close>

datatype lnode =
    FreeHead nat nat   \<comment> \<open>\<open>&state.zones[z].free_areas[o].list\<close>\<close>
  | PageNode u64       \<comment> \<open>the \<open>list\<close> member of the \<open>struct page\<close> at this address\<close>
  | CastNode u64       \<comment> \<open>any other pointer stored in a \<open>list_head\<close> field by a cast\<close>

record page =
  usage :: u32
  pflags :: u32
  refcnt :: u32
  pc_owner :: u64

record memory_zone =
  fa_map :: "nat \<Rightarrow> u64"        \<comment> \<open>\<open>free_areas[o].map\<close>, 0 being the null pointer\<close>
  phys_base :: u64
  abs_pfn_base :: u64
  abs_pfn_start :: u64
  abs_num_pages :: u64
  usable_num_pages :: u64
  available_pages :: u64
  max_order :: nat
  bitmap_sizes :: "nat \<Rightarrow> u64"
  mem_map :: u64
  zflags :: u32

record mem_zone_info =
  mzi_phys_base :: u64
  mzi_length :: u64

record alloc_state =
  num_zones :: nat
  zones :: "nat \<Rightarrow> memory_zone"
  biggest_mapped_idx :: nat
  total_system_memory :: u64
  total_system_memory_pages :: u64
  allocator_maintenance_memory :: u64
  total_maintenance_used :: u64
  links :: "lnode lheap"
  wmem :: "u64 \<Rightarrow> u32"
  pages :: "u64 \<Rightarrow> page"
  ram :: mem

definition upd_zone :: "nat \<Rightarrow> (memory_zone \<Rightarrow> memory_zone) \<Rightarrow> alloc_state \<Rightarrow> alloc_state" where
  "upd_zone z f s = s\<lparr>zones := (zones s)(z := f (zones s z))\<rparr>"

definition upd_links :: "(lnode lheap \<Rightarrow> lnode lheap) \<Rightarrow> alloc_state \<Rightarrow> alloc_state" where
  "upd_links f s = s\<lparr>links := f (links s)\<rparr>"

definition upd_page :: "u64 \<Rightarrow> (page \<Rightarrow> page) \<Rightarrow> alloc_state \<Rightarrow> alloc_state" where
  "upd_page p f s = s\<lparr>pages := (pages s)(p := f (pages s p))\<rparr>"

section \<open>Orders and bitmaps\<close>

fun get_max_order_from :: "nat \<Rightarrow> nat \<Rightarrow> u32 \<Rightarrow> nat" where
  "get_max_order_from 0 i usable_pages = MAX_PG_ORDER"
| "get_max_order_from (Suc k) i usable_pages =
     (if drop_bit i usable_pages = 0
      then (if usable_pages mod push_bit i 1 \<noteq> 0 then i - 1 else i)
      else get_max_order_from k (Suc i) usable_pages)"

text \<open>\<open>for (i = 0; i < NUM_PG_ORDERS; ++i)\<close>: the first argument counts the iterations left.\<close>

definition get_max_order :: "u32 \<Rightarrow> nat" where
  "get_max_order usable_pages = get_max_order_from NUM_PG_ORDERS 0 usable_pages"

definition toggle_bit_pfn_zone :: "u64 \<Rightarrow> nat \<Rightarrow> nat \<Rightarrow> alloc_state \<Rightarrow> (u32 \<times> alloc_state) res" where
  "toggle_bit_pfn_zone pfn z order s =
     (let total_bit_offset = drop_bit (order + 1) pfn;
          bitmap_offset = total_bit_offset div 32;
          bit_offset = unat (total_bit_offset mod 32);
          fmap = fa_map (zones s z) order;
          a = fmap + 4 * bitmap_offset
      in if order \<ge> NUM_PG_ORDERS then Inl OutOfBounds
         else if fmap = 0 then Inl NullDeref
         else (let w = wmem s a XOR BIT32 bit_offset
               in Inr (w AND BIT32 bit_offset, s\<lparr>wmem := (wmem s)(a := w)\<rparr>)))"

text \<open>The search over the zones for the one whose \<open>mem_map\<close> holds the page structure.\<close>

fun zone_and_pfn_from :: "nat \<Rightarrow> nat \<Rightarrow> u64 \<Rightarrow> alloc_state \<Rightarrow> (nat \<times> u64) option" where
  "zone_and_pfn_from 0 z pa s = None"
| "zone_and_pfn_from (Suc k) z pa s =
     (let zone_mem_map_phys = VA2PA (mem_map (zones s z));
          mem_map_size = sizeof_page * usable_num_pages (zones s z)
      in if zone_mem_map_phys \<le> pa \<and> pa < zone_mem_map_phys + mem_map_size
         then Some (z, (pa - zone_mem_map_phys) div sizeof_page)
         else zone_and_pfn_from k (Suc z) pa s)"

definition get_zone_and_pfn_from_page :: "u64 \<Rightarrow> alloc_state \<Rightarrow> (nat \<times> u64) option" where
  "get_zone_and_pfn_from_page p s = zone_and_pfn_from (num_zones s) 0 (VA2PA p) s"

definition get_phys_addr_from_page :: "u64 \<Rightarrow> alloc_state \<Rightarrow> u64 res" where
  "get_phys_addr_from_page p s =
     (case get_zone_and_pfn_from_page p s of
        None \<Rightarrow> Inl NullDeref
      | Some (z, pfn) \<Rightarrow> Inr ((abs_pfn_start (zones s z) + pfn) * PAGE_SIZE))"

definition toggle_bit_page :: "u64 \<Rightarrow> nat \<Rightarrow> alloc_state \<Rightarrow> (u32 \<times> alloc_state) res" where
  "toggle_bit_page p order s =
     (case get_zone_and_pfn_from_page p s of
        None \<Rightarrow> Inl NullDeref
      | Some (z, pfn) \<Rightarrow> toggle_bit_pfn_zone pfn z order s)"

section \<open>Initialisation\<close>

definition page_addr :: "nat \<Rightarrow> nat \<Rightarrow> alloc_state \<Rightarrow> u64" where
  "page_addr z i s = mem_map (zones s z) + sizeof_page * of_nat i"

definition init_memmap :: "nat \<Rightarrow> alloc_state \<Rightarrow> alloc_state" where
  "init_memmap z s =
     fold (\<lambda>i s. upd_page (page_addr z i s) (\<lambda>p. p\<lparr>pflags := 0\<rparr>)
                   (upd_links (INIT_LIST_HEAD (PageNode (page_addr z i s))) s))
       [0..<unat (usable_num_pages (zones s z))] s"

text \<open>
  The bitmaps are laid out one after the other behind the zone's \<open>mem_map\<close>;
  \<open>toadd\<close> counts 32-bit words and is itself a \<open>uint32_t\<close>.
\<close>

definition place_bitmap :: "nat \<Rightarrow> nat \<Rightarrow> u64 \<times> alloc_state \<Rightarrow> u64 \<times> alloc_state" where
  "place_bitmap z order st =
     (case st of (bitmap_offset, s) \<Rightarrow>
        if order < MAX_PG_ORDER then
          (let toadd = (ucast (bitmap_sizes (zones s z) order div 4) :: u32);
               s1 = upd_zone z (\<lambda>zn. zn\<lparr>fa_map := (fa_map zn)(order := bitmap_offset)\<rparr>) s
           in (bitmap_offset + 4 * ucast toadd,
               s1\<lparr>total_maintenance_used := total_maintenance_used s1 + ucast (toadd * 4)\<rparr>))
        else (bitmap_offset, s))"

definition initialize_offsets :: "nat \<Rightarrow> alloc_state \<Rightarrow> alloc_state" where
  "initialize_offsets z s =
     (let biggest_base = PA2VA (phys_base (zones s (biggest_mapped_idx s)));
          mo = get_max_order (ucast (usable_num_pages (zones s z)));
          usable = push_bit mo (drop_bit mo (usable_num_pages (zones s z)));
          s1 = upd_zone z (\<lambda>zn. zn\<lparr>max_order := mo, usable_num_pages := usable,
                                   mem_map := biggest_base + total_maintenance_used s\<rparr>) s;
          s2 = s1\<lparr>total_maintenance_used := total_maintenance_used s1 + sizeof_page * usable\<rparr>;
          s3 = snd (fold (place_bitmap z) [0..<Suc mo]
                 (biggest_base + total_maintenance_used s2, s2))
      in init_memmap z s3)"

definition init_maintenance_zone :: "nat \<Rightarrow> alloc_state \<Rightarrow> alloc_state" where
  "init_maintenance_zone z s =
     (let extra_page = (if allocator_maintenance_memory s mod PAGE_SIZE \<noteq> 0 then 1 else 0);
          in_pages = allocator_maintenance_memory s div PAGE_SIZE + extra_page;
          s1 = upd_zone z (\<lambda>zn. zn\<lparr>abs_pfn_start := in_pages,
                                   usable_num_pages := abs_num_pages zn - in_pages\<rparr>) s
      in initialize_offsets z s1)"

definition init_free_lists :: "nat \<Rightarrow> alloc_state \<Rightarrow> alloc_state" where
  "init_free_lists z s =
     (let mo = max_order (zones s z);
          num_big_pages = drop_bit mo (usable_num_pages (zones s z));
          s1 = fold (\<lambda>o'. upd_links (INIT_LIST_HEAD (FreeHead z o'))) [0..<Suc mo] s
      in fold (\<lambda>p. upd_links (list_add_tail (PageNode (page_addr z (p * 2 ^ mo) s1)) (FreeHead z mo)))
           [0..<unat num_big_pages] s1)"

definition bitmap_size :: "u64 \<Rightarrow> nat \<Rightarrow> u64" where
  "bitmap_size num_pages i =
     (let b = num_pages div (8 * push_bit i 2);
          b1 = (if b mod 4 \<noteq> 0 then b + (4 - b mod 4) else b)
      in if b1 = 0 then 4 else b1)"

text \<open>
  One iteration of the first loop of \<open>mem_init\<close>; \<open>big\<close> is \<open>biggest_mapped\<close>, the
  zone description seen so far with the largest length below 4 GiB.
\<close>

definition mem_init_zone ::
    "mem_zone_info \<times> nat \<Rightarrow> mem_zone_info option \<times> alloc_state \<Rightarrow> mem_zone_info option \<times> alloc_state" where
  "mem_init_zone iz st =
     (case (iz, st) of ((info, z), (big, s)) \<Rightarrow>
        (let num = mzi_length info div PAGE_SIZE;
             s1 = s\<lparr>total_system_memory := total_system_memory s + mzi_length info,
                    allocator_maintenance_memory := allocator_maintenance_memory s +
                      sum_list (map (bitmap_size num) [0..<MAX_PG_ORDER])\<rparr>;
             s2 = upd_zone z (\<lambda>zn. zn\<lparr>phys_base := mzi_phys_base info, abs_num_pages := num,
                     bitmap_sizes := (\<lambda>i. if i < MAX_PG_ORDER then bitmap_size num i
                                          else bitmap_sizes zn i),
                     abs_pfn_base := mzi_phys_base info div PAGE_SIZE,
                     abs_pfn_start := mzi_phys_base info div PAGE_SIZE\<rparr>) s1;
             mapped = (mzi_phys_base info + mzi_length info < 0x100000000);
             s3 = (if mapped then upd_zone z (\<lambda>zn. zn\<lparr>zflags := MEMZONE_IDENTITY_MAPPED\<rparr>) s2 else s2)
         in if mapped \<and> (case big of None \<Rightarrow> True | Some b \<Rightarrow> mzi_length b < mzi_length info)
            then (Some info, s3\<lparr>biggest_mapped_idx := z\<rparr>)
            else (big, s3)))"

definition mem_init :: "mem_zone_info list \<Rightarrow> alloc_state \<Rightarrow> alloc_state res" where
  "mem_init infos s =
     (if length infos > MAX_MEM_ZONES then Inl OutOfBounds
      else
        (let n = length infos;
             s0 = s\<lparr>total_system_memory := 0, num_zones := n,
                    allocator_maintenance_memory := 0, total_maintenance_used := 0\<rparr>
         in case fold mem_init_zone (zip infos [0..<n]) (None, s0) of
              (None, s1) \<Rightarrow> Inl NullDeref
            | (Some big, s1) \<Rightarrow>
                (let pgs = total_system_memory s1 div PAGE_SIZE;
                     s2 = s1\<lparr>total_system_memory_pages := pgs,
                             allocator_maintenance_memory :=
                               allocator_maintenance_memory s1 + pgs * sizeof_page\<rparr>
                 in if mzi_length big < allocator_maintenance_memory s2 then Inl Halted
                    else
                      (let s3 = fold (\<lambda>z s. if z = biggest_mapped_idx s then s
                                  else initialize_offsets z
                                    (upd_zone z (\<lambda>zn. zn\<lparr>usable_num_pages := abs_num_pages zn\<rparr>) s))
                                [0..<n] s2;
                           s4 = init_maintenance_zone (biggest_mapped_idx s3) s3
                       in Inr (fold (\<lambda>z s. init_free_lists z
                                  (upd_zone z (\<lambda>zn. zn\<lparr>available_pages := usable_num_pages zn\<rparr>) s))
                                [0..<n] s4)))))"

section \<open>Allocation\<close>

text \<open>\<open>(struct page* )free->next\<close>: the node after the head, as a page structure.\<close>

definition page_of_node :: "lnode \<Rightarrow> u64 res" where
  "page_of_node x = (case x of PageNode a \<Rightarrow> Inr a | _ \<Rightarrow> Inl WildPointer)"

definition take_first :: "nat \<Rightarrow> nat \<Rightarrow> alloc_state \<Rightarrow> (u64 \<times> alloc_state) res" where
  "take_first z order s =
     bind_res (page_of_node (lh_next (links s (FreeHead z order))))
       (\<lambda>p. Inr (p, upd_links (list_del_init (PageNode p)) s))"

function alloc_from_zone :: "nat \<Rightarrow> nat \<Rightarrow> alloc_state \<Rightarrow> (u64 option \<times> alloc_state) res" where
  "alloc_from_zone z order s =
     (if order \<ge> NUM_PG_ORDERS then Inl OutOfBounds
      else if order = max_order (zones s z) then
        (if list_empty (FreeHead z order) (links s) then Inr (None, s)
         else bind_res (take_first z order s) (\<lambda>(p, s1). Inr (Some p, s1)))
      else if \<not> list_empty (FreeHead z order) (links s) then
        bind_res (take_first z order s) (\<lambda>(p, s1).
          bind_res (toggle_bit_page p order s1) (\<lambda>(_, s2). Inr (Some p, s2)))
      else
        bind_res (alloc_from_zone z (order + 1) s) (\<lambda>(r, s1).
          case r of
            None \<Rightarrow> Inr (None, s1)
          | Some p \<Rightarrow>
              (let s2 = upd_links (list_add_tail (FreeHead z order)
                          (PageNode (p + sizeof_page * push_bit order 1))) s1
               in bind_res (toggle_bit_page p order s2) (\<lambda>(_, s3). Inr (Some p, s3)))))"
  by pat_completeness auto
termination
  by (relation "measure (\<lambda>(z, order, s). NUM_PG_ORDERS - order)") auto

declare alloc_from_zone.simps [simp del]

text \<open>The search over the zones in \<open>alloc_pages\<close>; the first argument counts the zones left.\<close>

fun alloc_search ::
    "nat \<Rightarrow> nat \<Rightarrow> u32 \<Rightarrow> nat \<Rightarrow> alloc_state \<Rightarrow> (u64 option \<times> alloc_state) res" where
  "alloc_search 0 z flags order s = Inr (None, s)"
| "alloc_search (Suc k) z flags order s =
     (if \<not> (flags AND PGALLOC_KERNEL \<noteq> 0 \<and> zflags (zones s z) AND MEMZONE_IDENTITY_MAPPED \<noteq> 0)
      then alloc_search k (Suc z) flags order s
      else if max_order (zones s z) < order \<or> available_pages (zones s z) < push_bit order 1
      then alloc_search k (Suc z) flags order s
      else bind_res (alloc_from_zone z order s) (\<lambda>(r, s1).
             case r of
               None \<Rightarrow> alloc_search k (Suc z) flags order s1
             | Some p \<Rightarrow> Inr (Some p,
                 upd_zone z (\<lambda>zn. zn\<lparr>available_pages := available_pages zn - push_bit order 1\<rparr>) s1)))"

definition alloc_pages ::
    "(u64 \<Rightarrow> alloc_state \<Rightarrow> u64) \<Rightarrow> u32 \<Rightarrow> nat \<Rightarrow> alloc_state \<Rightarrow> (u64 \<times> alloc_state) res" where
  "alloc_pages get_page_vaddr flags order s =
     bind_res (alloc_search (num_zones s) 0 flags order s) (\<lambda>(r, s1).
       case r of
         None \<Rightarrow> Inl NullDeref
       | Some p \<Rightarrow>
           (let s2 = s1\<lparr>ram := memset (get_page_vaddr p s1) 0 (PAGE_SIZE * push_bit order 1) (ram s1)\<rparr>
            in Inr (p, upd_page p (\<lambda>pg. pg\<lparr>refcnt := 0\<rparr>) s2)))"

section \<open>Release\<close>

function free_pages :: "u64 \<Rightarrow> nat \<Rightarrow> alloc_state \<Rightarrow> alloc_state res" where
  "free_pages p order s =
     (case get_zone_and_pfn_from_page p s of
        None \<Rightarrow> Inr s
      | Some (z, pfn) \<Rightarrow>
          if order > max_order (zones s z) then Inr s
          else if order \<ge> NUM_PG_ORDERS then Inl OutOfBounds
          else if pfn mod push_bit order 1 \<noteq> 0 then Inr s
          else
            (let s1 = upd_zone z (\<lambda>zn. zn\<lparr>available_pages := available_pages zn + push_bit order 1\<rparr>) s
             in bind_res (toggle_bit_pfn_zone pfn z order s1) (\<lambda>(bit, s2).
                  if bit \<noteq> 0
                  then Inr (upd_links (list_add (FreeHead z order) (PageNode p)) s2)
                  else
                    (let buddy = mem_map (zones s2 z) + sizeof_page * drop_bit (order + 1) pfn;
                         s3 = upd_links (list_del_init (PageNode buddy)) s2;
                         s4 = upd_links (list_del_init
                                (PageNode (buddy + sizeof_page * push_bit order 1))) s3
                     in free_pages buddy (order + 1) s4))))"
  by pat_completeness auto
termination
  by (relation "measure (\<lambda>(p, order, s). NUM_PG_ORDERS - order)") auto

declare free_pages.simps [simp del]

section \<open>Physical addresses\<close>

fun page_from_paddr_search :: "nat \<Rightarrow> nat \<Rightarrow> u64 \<Rightarrow> alloc_state \<Rightarrow> u64 option" where
  "page_from_paddr_search 0 z paddr s = None"
| "page_from_paddr_search (Suc k) z paddr s =
     (let zone = zones s z
      in if \<not> (phys_base zone \<le> paddr \<and> paddr < phys_base zone + usable_num_pages zone * PAGE_SIZE)
         then page_from_paddr_search k (Suc z) paddr s
         else Some (mem_map zone + sizeof_page * (paddr div PAGE_SIZE - abs_pfn_start zone)))"

definition get_page_from_paddr :: "u64 \<Rightarrow> alloc_state \<Rightarrow> u64 option" where
  "get_page_from_paddr paddr s = page_from_paddr_search (num_zones s) 0 paddr s"

definition get_page_from_vaddr :: "u64 \<Rightarrow> alloc_state \<Rightarrow> u64 option" where
  "get_page_from_vaddr vaddr s = get_page_from_paddr (VA2PA vaddr) s"

section \<open>The inline functions of mm.h, and mm/page.c\<close>

text \<open>
  Saving and restoring the interrupt flag around these updates makes them atomic with respect
  to the interrupt handlers; the model runs each operation as one step.
\<close>

definition page_ref :: "u64 \<Rightarrow> alloc_state \<Rightarrow> alloc_state" where
  "page_ref p s = upd_page p (\<lambda>pg. pg\<lparr>refcnt := refcnt pg + 1\<rparr>) s"

definition page_unref :: "u64 \<Rightarrow> alloc_state \<Rightarrow> alloc_state res" where
  "page_unref p s =
     (let s1 = upd_page p (\<lambda>pg. pg\<lparr>refcnt := refcnt pg - 1\<rparr>) s
      in if refcnt (pages s1 p) = 0 then free_pages p 0 s1 else Inr s1)"

definition page_mk_dirty :: "u64 \<Rightarrow> alloc_state \<Rightarrow> alloc_state" where
  "page_mk_dirty p s = upd_page p (\<lambda>pg. pg\<lparr>pflags := pflags pg OR PAGE_CACHE_FLAG_DIRTY\<rparr>) s"

definition page_mk_clean :: "u64 \<Rightarrow> alloc_state \<Rightarrow> alloc_state" where
  "page_mk_clean p s = upd_page p (\<lambda>pg. pg\<lparr>pflags := pflags pg AND NOT PAGE_CACHE_FLAG_DIRTY\<rparr>) s"

definition page_set_usage :: "u64 \<Rightarrow> u32 \<Rightarrow> alloc_state \<Rightarrow> alloc_state" where
  "page_set_usage p u s = upd_page p (\<lambda>pg. pg\<lparr>usage := u\<rparr>) s"

definition set_page_dirty :: "u64 \<Rightarrow> alloc_state \<Rightarrow> alloc_state" where
  "set_page_dirty p s = upd_page p (\<lambda>pg. pg\<lparr>pflags := pflags pg OR PAGE_CACHE_FLAG_DIRTY\<rparr>) s"

section \<open>Orders and bitmaps: lemmas\<close>

lemma get_max_order_from_bounds:
  assumes "i + k = 11" and "n \<noteq> 0" and "i = 0 \<or> 2 ^ (i - 1) \<le> unat (n :: u32)"
  shows "2 ^ get_max_order_from k i n \<le> unat n \<and>
         (get_max_order_from k i n < 10 \<longrightarrow> unat n < 2 ^ Suc (get_max_order_from k i n)) \<and>
         get_max_order_from k i n \<le> 10"
  using assms
proof (induction k arbitrary: i)
  case 0
  then show ?case by (simp add: MAX_PG_ORDER_def)
next
  case (Suc k)
  show ?case
  proof (cases "unat n < 2 ^ i")
    case True
    with Suc.prems(2) have i: "i \<noteq> 0" by (cases i) (auto simp: unat_eq_0)
    have "unat (n mod push_bit i 1) = unat n mod 2 ^ i"
      using Suc.prems(1) by (simp add: unat_mod unat_2p)
    with True Suc.prems(2) have "n mod push_bit i 1 \<noteq> 0"
      by (auto simp: unat_eq_0 [symmetric])
    with True i Suc.prems show ?thesis by (simp add: drop_bit_zero_iff)
  next
    case False
    with Suc show ?thesis by (simp add: drop_bit_zero_iff)
  qed
qed

lemma get_max_order_bounds:
  assumes "n \<noteq> 0"
  shows "2 ^ get_max_order n \<le> unat n"
    and "get_max_order n < 10 \<Longrightarrow> unat n < 2 ^ Suc (get_max_order n)"
    and "get_max_order n \<le> 10"
  using get_max_order_from_bounds [of 0 11 n] assms
  by (auto simp: get_max_order_def NUM_PG_ORDERS_def MAX_PG_ORDER_def)

lemma get_max_order_zero: "get_max_order 0 = 0"
  by (simp add: get_max_order_def NUM_PG_ORDERS_def)

end
