(* ===== verification/Buddy.thy ===== *)
theory Buddy
  imports Page_Alloc
begin

text \<open>
  The invariant of the buddy allocator and what \<open>alloc_from_zone\<close> does to it. The abstract
  state of a zone is \<open>F\<close>, the list of the first page frame numbers of the free blocks of each
  order; \<open>free_inv\<close> ties it to the links in memory. It says nothing of the bitmap words: allocation writes them
  and never reads them, and a release reads the bit of a pair, for which no value is promised here.
\<close>

section \<open>The free lists of a zone\<close>

definition pnode :: "u64 \<Rightarrow> nat \<Rightarrow> lnode" where
  "pnode a b = PageNode (a + sizeof_page * of_nat b)"

definition blk :: "nat \<Rightarrow> nat \<Rightarrow> nat set" where
  "blk k b = {b..<b + 2 ^ k}"

definition free_set :: "nat \<Rightarrow> (nat \<Rightarrow> nat list) \<Rightarrow> nat set" where
  "free_set M F = (\<Union>k\<le>M. \<Union>b\<in>set (F k). blk k b)"

definition blocks_disjoint :: "nat \<Rightarrow> (nat \<Rightarrow> nat list) \<Rightarrow> bool" where
  "blocks_disjoint M F \<longleftrightarrow>
     (\<forall>k\<le>M. \<forall>k'\<le>M. \<forall>b\<in>set (F k). \<forall>b'\<in>set (F k').
        (k, b) \<noteq> (k', b') \<longrightarrow> blk k b \<inter> blk k' b' = {})"

definition free_inv :: "lnode lheap \<Rightarrow> nat \<Rightarrow> u64 \<Rightarrow> nat \<Rightarrow> nat \<Rightarrow> (nat \<Rightarrow> nat list) \<Rightarrow> bool" where
  "free_inv h z a M n F \<longleftrightarrow>
     (\<forall>k\<le>M. ring h (FreeHead z k) (map (pnode a) (F k))) \<and>
     (\<forall>k\<le>M. \<forall>b\<in>set (F k). 2 ^ k dvd b \<and> b + 2 ^ k \<le> n) \<and>
     blocks_disjoint M F \<and>
     (\<forall>p\<in>free_set M F. (\<forall>k\<le>M. p \<notin> set (F k)) \<longrightarrow> ring h (pnode a p) [])"

lemma blk_self [simp]: "b \<in> blk k b"
  by (simp add: blk_def)

lemma free_set_head: "k \<le> M \<Longrightarrow> b \<in> set (F k) \<Longrightarrow> b \<in> free_set M F"
  using blk_self [of b k] unfolding free_set_def by blast

lemma free_set_split:
  assumes "k \<le> M"
  shows "free_set M F = (\<Union>b\<in>set (F k). blk k b) \<union> (\<Union>j\<in>{..M} - {k}. \<Union>b\<in>set (F j). blk j b)"
proof -
  have M: "insert k ({..M} - {k}) = {..M}" using assms by auto
  show ?thesis unfolding free_set_def by (subst M [symmetric]) (rule UN_insert)
qed

lemma free_set_upd:
  assumes "k \<le> M"
  shows "free_set M (F(k := bs)) =
    (\<Union>b\<in>set bs. blk k b) \<union> (\<Union>j\<in>{..M} - {k}. \<Union>b\<in>set (F j). blk j b)"
  using free_set_split [OF assms, of "F(k := bs)"] by simp

lemma blk_split: "blk (Suc k) b = blk k b \<union> blk k (b + 2 ^ k)"
  by (auto simp: blk_def)

lemma blk_halves_disjoint: "blk k b \<inter> blk k (b + 2 ^ k) = {}"
  by (auto simp: blk_def)

lemma free_inv_ring: "free_inv h z a M n F \<Longrightarrow> k \<le> M \<Longrightarrow> ring h (FreeHead z k) (map (pnode a) (F k))"
  by (simp add: free_inv_def)

lemma free_inv_block:
  "free_inv h z a M n F \<Longrightarrow> k \<le> M \<Longrightarrow> b \<in> set (F k) \<Longrightarrow> 2 ^ k dvd b \<and> b + 2 ^ k \<le> n"
  by (simp add: free_inv_def)

lemma free_inv_less:
  assumes "free_inv h z a M n F" and "k \<le> M" and "b \<in> set (F k)"
  shows "b < n"
proof -
  have "b < b + 2 ^ k" by simp
  also have "\<dots> \<le> n" using free_inv_block [OF assms] by simp
  finally show ?thesis .
qed

lemma free_inv_single:
  "free_inv h z a M n F \<Longrightarrow> p \<in> free_set M F \<Longrightarrow> (\<And>k. k \<le> M \<Longrightarrow> p \<notin> set (F k)) \<Longrightarrow> ring h (pnode a p) []"
  by (simp add: free_inv_def)

lemma free_inv_free_less:
  assumes "free_inv h z a M n F" and "p \<in> free_set M F"
  shows "p < n"
proof -
  obtain k b where "k \<le> M" "b \<in> set (F k)" "p \<in> blk k b" using assms(2) by (auto simp: free_set_def)
  with free_inv_block [OF assms(1), of k b] show ?thesis by (auto simp: blk_def)
qed

lemma free_inv_disjoint: "free_inv h z a M n F \<Longrightarrow> blocks_disjoint M F"
  by (simp add: free_inv_def)

lemma blocks_disjointD:
  assumes "blocks_disjoint M F" and "k \<le> M" and "k' \<le> M" and "b \<in> set (F k)" and "b \<in> set (F k')"
  shows "k = k'"
proof (rule ccontr)
  assume "k \<noteq> k'"
  with assms have "blk k b \<inter> blk k' b = {}" unfolding blocks_disjoint_def by blast
  then show False using blk_self [of b k] blk_self [of b k'] by blast
qed

lemma pnode_inj:
  assumes "inj_on (pnode a) {..<n}" and "b < n" and "b' < n"
  shows "pnode a b = pnode a b' \<longleftrightarrow> b = b'"
  using assms by (auto simp: inj_on_def)

lemma pnode_not_head [simp]: "pnode a b \<noteq> FreeHead z k" "FreeHead z k \<noteq> pnode a b"
  by (simp_all add: pnode_def)

lemma pnode_inj_on:
  assumes "unat a + 40 * n < 2 ^ 64"
  shows "inj_on (pnode a) {..<n}"
proof (rule inj_onI)
  fix x y assume x: "x \<in> {..<n}" and y: "y \<in> {..<n}" and eq: "pnode a x = pnode a y"
  have u: "unat (a + sizeof_page * of_nat i) = unat a + 40 * i" if "i < n" for i
  proof -
    have i: "unat (of_nat i :: u64) = i"
      using that assms by (simp add: unat_of_nat)
    have m: "unat (sizeof_page * of_nat i) = 40 * i"
      by (subst unat_mult_no_overflow) (use that assms i in \<open>simp_all add: sizeof_page_def\<close>)
    show ?thesis
      by (subst unat_add_no_overflow) (use that assms m in simp_all)
  qed
  from eq have "unat (a + sizeof_page * of_nat x) = unat (a + sizeof_page * of_nat y)"
    by (simp add: pnode_def)
  with x y u show "x = y" by simp
qed

text \<open>Removing the first block of a free list.\<close>

lemma free_set_pop:
  assumes "free_inv h z a M n F" and "k \<le> M" and "F k = b # bs" and "inj_on (pnode a) {..<n}"
  shows "free_set M (F(k := bs)) = free_set M F - blk k b" and "blk k b \<subseteq> free_set M F"
proof -
  have d: "distinct (F k)"
    using free_inv_ring [OF assms(1,2)] by (simp add: ring_def distinct_map)
  have dis: "blk k b \<inter> blk j b' = {}" if "j \<le> M" "b' \<in> set ((F(k := bs)) j)" for j b'
  proof -
    have "b' \<in> set (F j)" and "(k, b) \<noteq> (j, b')" using that d assms(3) by (auto split: if_splits)
    with assms(2,3) that(1) free_inv_disjoint [OF assms(1)] show ?thesis
      unfolding blocks_disjoint_def by (metis list.set_intros(1))
  qed
  have "free_set M F = blk k b \<union> free_set M (F(k := bs))"
    using assms(3) unfolding free_set_split [OF assms(2), of F] free_set_upd [OF assms(2)] by auto
  moreover have "blk k b \<inter> free_set M (F(k := bs)) = {}"
    using dis unfolding free_set_def by blast
  ultimately show "free_set M (F(k := bs)) = free_set M F - blk k b" and "blk k b \<subseteq> free_set M F"
    by auto
qed

lemma free_inv_pop:
  assumes inv: "free_inv h z a M n F" and k: "k \<le> M" and Fk: "F k = b # bs"
    and inj: "inj_on (pnode a) {..<n}"
  shows "free_inv (list_del_init (pnode a b) h) z a M n (F(k := bs))"
    and "\<And>p. p \<in> blk k b \<Longrightarrow> ring (list_del_init (pnode a b) h) (pnode a p) []"
proof -
  let ?h = "list_del_init (pnode a b) h"
  have r: "ring h (FreeHead z k) ([] @ pnode a b # map (pnode a) bs)"
    using free_inv_ring [OF inv k] Fk by simp
  have lt: "b' < n" if "j \<le> M" "b' \<in> set (F j)" for j b' using free_inv_less [OF inv that] .
  have other: "ring ?h (FreeHead z j) (map (pnode a) (F j))" if "j \<le> M" "j \<noteq> k" for j
  proof (rule ring_list_del_init_other [OF r free_inv_ring [OF inv that(1)]])
    have "b' \<noteq> b''" if "b' \<in> set (F k)" "b'' \<in> set (F j)" for b' b''
      using blocks_disjointD [OF free_inv_disjoint [OF inv] k \<open>j \<le> M\<close>] that \<open>j \<noteq> k\<close> by blast
    then show "set (FreeHead z k # [] @ pnode a b # map (pnode a) bs) \<inter>
        set (FreeHead z j # map (pnode a) (F j)) = {}"
      using that Fk lt k by (auto simp: pnode_inj [OF inj])
  qed
  have self: "ring ?h (pnode a p) []"
    if free: "p \<in> free_set M F" and ni: "\<And>j. j \<le> M \<Longrightarrow> p \<notin> set ((F(k := bs)) j)" for p
  proof (cases "p = b")
    case True
    then show ?thesis by (simp add: ring_list_del_init_self)
  next
    case False
    then have nk: "p \<notin> set (F j)" if "j \<le> M" for j using ni [OF that] Fk by (auto split: if_splits)
    show ?thesis
    proof (rule ring_list_del_init_other [OF r free_inv_single [OF inv free nk]])
      show "set (FreeHead z k # [] @ pnode a b # map (pnode a) bs) \<inter> set [pnode a p] = {}"
        using nk [OF k] Fk lt [OF k] free_inv_free_less [OF inv free] by (auto simp: pnode_inj [OF inj])
    qed
  qed
  have "blocks_disjoint M (F(k := bs))"
    using free_inv_disjoint [OF inv] Fk unfolding blocks_disjoint_def by (auto split: if_splits)
  moreover have "ring ?h (FreeHead z j) (map (pnode a) ((F(k := bs)) j))" if "j \<le> M" for j
    using ring_list_del_init [OF r] other that by auto
  moreover have "2 ^ j dvd b' \<and> b' + 2 ^ j \<le> n" if "j \<le> M" "b' \<in> set ((F(k := bs)) j)" for j b'
    using free_inv_block [OF inv that(1)] that(2) Fk by (auto split: if_splits)
  ultimately show "free_inv ?h z a M n (F(k := bs))"
    using self free_set_pop [OF inv k Fk inj] unfolding free_inv_def by blast
  show "ring ?h (pnode a p) []" if p: "p \<in> blk k b" for p
  proof (rule self)
    show "p \<in> free_set M F" using free_set_pop(2) [OF inv k Fk inj] p by blast
    show "p \<notin> set ((F(k := bs)) j)" if "j \<le> M" for j
      using free_set_pop(1) [OF inv k Fk inj] p free_set_head [of j M p "F(k := bs)"] that by blast
  qed
qed

text \<open>
  Adding a block to an empty free list. The source passes the arguments of
  \<open>list_add_tail\<close> in the wrong order here, \<open>list_add_tail(free, &page->list)\<close>; as long as the
  list is empty and the page is on no list, both orders build the same two-node ring.
\<close>

lemma list_add_tail_commute:
  assumes "ring h x []" and "ring h y []" and "x \<noteq> y"
  shows "list_add_tail x y h = list_add_tail y x h"
  using assms
  by (intro ext) (auto simp: list_add_tail_def list_add_between_def ring_Nil set_next_def set_prev_def)

lemma free_set_push:
  assumes "k \<le> M" and "F k = []"
  shows "free_set M (F(k := [b])) = blk k b \<union> free_set M F"
  using assms(2) unfolding free_set_upd [OF assms(1)] free_set_split [OF assms(1), of F] by simp

lemma free_inv_push:
  assumes inv: "free_inv h z a M n F" and k: "k \<le> M" and Fk: "F k = []"
    and al: "2 ^ k dvd b" and range: "b + 2 ^ k \<le> n" and fresh: "blk k b \<inter> free_set M F = {}"
    and inj: "inj_on (pnode a) {..<n}" and own: "\<And>p. p \<in> blk k b \<Longrightarrow> ring h (pnode a p) []"
  shows "free_inv (list_add_tail (FreeHead z k) (pnode a b) h) z a M n (F(k := [b]))"
proof -
  have b: "b < n" using less_le_trans [OF _ range, of b] by simp
  have nf: "b \<notin> set (F j)" if "j \<le> M" for j
    using fresh that blk_self [of b k] free_set_head [of j M b F] by blast
  have rk: "ring h (FreeHead z k) []" using free_inv_ring [OF inv k] Fk by simp
  have rb: "ring h (pnode a b) []" using own [OF blk_self] .
  let ?h = "list_add_tail (FreeHead z k) (pnode a b) h"
  have h: "?h = list_add_tail (pnode a b) (FreeHead z k) h"
    by (rule list_add_tail_commute [OF rk rb]) simp
  have new: "ring ?h (FreeHead z k) [pnode a b]"
    unfolding h using ring_list_add_tail [OF rk, of "pnode a b"] by simp
  have lt: "b' < n" if "j \<le> M" "b' \<in> set (F j)" for j b' using free_inv_less [OF inv that] .
  have old: "ring ?h (FreeHead z j) (map (pnode a) (F j))" if "j \<le> M" "j \<noteq> k" for j
    unfolding h
  proof (rule ring_list_add_tail_other [OF rk free_inv_ring [OF inv that(1)]])
    show "pnode a b \<notin> set (FreeHead z j # map (pnode a) (F j))"
      using nf [OF that(1)] lt [OF that(1)] b by (auto simp: pnode_inj [OF inj])
  qed (use that in auto)
  have self: "ring ?h (pnode a p) []"
    if free: "p \<in> blk k b \<union> free_set M F" and ni: "\<And>j. j \<le> M \<Longrightarrow> p \<notin> set ((F(k := [b])) j)" for p
    unfolding h
  proof (rule ring_list_add_tail_other [OF rk])
    have "p \<notin> set (F j)" if "j \<le> M" for j using ni [OF that] Fk by (cases "j = k") auto
    then show "ring h (pnode a p) []"
      using free free_inv_single [OF inv, of p] own [of p] by blast
    have "p < n" using free free_inv_free_less [OF inv, of p] range by (auto simp: blk_def)
    then show "pnode a b \<notin> set [pnode a p]" using ni [OF k] b by (auto simp: pnode_inj [OF inj])
  qed simp
  have "blocks_disjoint M (F(k := [b]))"
  proof -
    have "blk k b \<inter> blk j b' = {}" if "j \<le> M" "b' \<in> set (F j)" for j b'
      using fresh that unfolding free_set_def by blast
    with free_inv_disjoint [OF inv] show ?thesis
      unfolding blocks_disjoint_def by (auto simp: Int_commute split: if_splits)
  qed
  moreover have "2 ^ j dvd b' \<and> b' + 2 ^ j \<le> n" if "j \<le> M" "b' \<in> set ((F(k := [b])) j)" for j b'
    using free_inv_block [OF inv that(1)] that(2) al range by (auto split: if_splits)
  ultimately show ?thesis
    using new old self unfolding free_inv_def free_set_push [where F = F, OF k Fk] by auto
qed

section \<open>From page structures to page frame numbers\<close>

text \<open>
  All the \<open>mem_map\<close> arrays lie in the direct mapping of physical memory, which starts at
  \<open>0xffff800000000000\<close>, and do not overlap.
\<close>

definition maps_placed :: "alloc_state \<Rightarrow> bool" where
  "maps_placed s \<longleftrightarrow>
     (\<forall>z<num_zones s. 0xffff800000000000 \<le> mem_map (zones s z) \<and>
        unat (mem_map (zones s z)) + 40 * unat (usable_num_pages (zones s z)) < 2 ^ 64) \<and>
     (\<forall>z<num_zones s. \<forall>z'<num_zones s. z \<noteq> z' \<longrightarrow>
        unat (mem_map (zones s z)) + 40 * unat (usable_num_pages (zones s z)) \<le> unat (mem_map (zones s z')) \<or>
        unat (mem_map (zones s z')) + 40 * unat (usable_num_pages (zones s z')) \<le> unat (mem_map (zones s z)))"

lemma VA2PA_direct:
  assumes "0xffff800000000000 \<le> x"
  shows "unat (VA2PA x) = unat x - 0xffff800000000000"
proof -
  let ?m = "0xffff800000000000 :: u64"
  have le: "0xffff800000000000 \<le> unat x" using assms by (simp add: word_le_nat_alt)
  have xd: "unat x div 2 ^ 47 = 2 ^ 17 - 1" using le unat_u64_bound [of x] by simp
  have "drop_bit 47 x = drop_bit 47 ?m"
  proof (rule unsigned_word_eqI)
    show "unat (drop_bit 47 x) = unat (drop_bit 47 ?m)"
      by (subst (1 2) unat_drop_bit_eq, subst (1 2) drop_bit_eq_div) (use xd in simp)
  qed
  then have "bit (drop_bit 47 x) i = bit (drop_bit 47 ?m) i" for i by (rule arg_cong)
  then have hi: "bit x (47 + i) = bit ?m (47 + i)" for i by (simp only: bit_drop_bit_eq comp_apply)
  have "VA2PA x = take_bit 47 x"
  proof (rule bit_word_eqI)
    fix i assume "i < LENGTH(64)"
    have lo: "\<not> bit ?m i" if "i < 47"
    proof -
      have "?m = push_bit 47 0x1ffff" by simp
      moreover have "\<not> bit (push_bit 47 (0x1ffff :: u64)) i" using that by (simp only: bit_push_bit_iff) simp
      ultimately show ?thesis by (rule ssubst)
    qed
    show "bit (VA2PA x) i = bit (take_bit 47 x) i"
      using hi [of "i - 47"] lo by (cases "i < 47") (auto simp: VA2PA_def bit_simps)
  qed
  then have "unat (VA2PA x) = unat x mod 2 ^ 47" by (simp add: unat_mod take_bit_eq_mod)
  also have "\<dots> = unat x - 0xffff800000000000" using xd by (simp add: minus_div_mult_eq_mod [symmetric])
  finally show ?thesis .
qed

lemma unat_page_addr:
  assumes "unat (mem_map (zones s z)) + 40 * n < 2 ^ 64" and "i \<le> n"
  shows "unat (page_addr z i s) = unat (mem_map (zones s z)) + 40 * i"
proof -
  have i: "unat (of_nat i :: u64) = i" using assms by (simp add: unat_of_nat)
  have m: "unat (sizeof_page * of_nat i) = 40 * i"
    by (subst unat_mult_no_overflow) (use assms i in \<open>simp_all add: sizeof_page_def\<close>)
  show ?thesis
    unfolding page_addr_def by (subst unat_add_no_overflow) (use assms m in simp_all)
qed

lemma in_zone_map_iff:
  assumes "0xffff800000000000 \<le> mem_map zn" and "0xffff800000000000 \<le> x"
    and "unat (mem_map zn) + 40 * unat (usable_num_pages zn) < 2 ^ 64"
  shows "VA2PA (mem_map zn) \<le> VA2PA x \<and>
         VA2PA x < VA2PA (mem_map zn) + sizeof_page * usable_num_pages zn \<longleftrightarrow>
         unat (mem_map zn) \<le> unat x \<and>
         unat x < unat (mem_map zn) + 40 * unat (usable_num_pages zn)"
proof -
  have m: "unat (sizeof_page * usable_num_pages zn) = 40 * unat (usable_num_pages zn)"
    by (subst unat_mult_no_overflow) (use assms(3) in \<open>simp_all add: sizeof_page_def\<close>)
  have e: "unat (VA2PA (mem_map zn) + sizeof_page * usable_num_pages zn) =
      unat (mem_map zn) - 0xffff800000000000 + 40 * unat (usable_num_pages zn)"
    by (subst unat_add_no_overflow) (use assms(3) m in \<open>simp_all add: VA2PA_direct [OF assms(1)]\<close>)
  have "0xffff800000000000 \<le> unat x" "0xffff800000000000 \<le> unat (mem_map zn)"
    using assms(1,2) by (simp_all add: word_le_nat_alt)
  then show ?thesis
    unfolding word_le_nat_alt word_less_nat_alt e VA2PA_direct [OF assms(1)] VA2PA_direct [OF assms(2)]
    by linarith
qed

lemma zone_and_pfn_from_skip:
  assumes "z0 \<le> z" and "z < z0 + k"
    and "\<And>y. z0 \<le> y \<Longrightarrow> y < z \<Longrightarrow> \<not> (VA2PA (mem_map (zones s y)) \<le> pa \<and>
           pa < VA2PA (mem_map (zones s y)) + sizeof_page * usable_num_pages (zones s y))"
    and "VA2PA (mem_map (zones s z)) \<le> pa"
    and "pa < VA2PA (mem_map (zones s z)) + sizeof_page * usable_num_pages (zones s z)"
  shows "zone_and_pfn_from k z0 pa s = Some (z, (pa - VA2PA (mem_map (zones s z))) div sizeof_page)"
  using assms
proof (induction k arbitrary: z0)
  case 0
  then show ?case by simp
next
  case (Suc k)
  show ?case
  proof (cases "z0 = z")
    case True
    with Suc.prems show ?thesis by (simp add: Let_def)
  next
    case False
    with Suc.prems(1) have "z0 < z" by simp
    with Suc.prems(3) [of z0] Suc.IH [of "Suc z0"] Suc.prems show ?thesis by (simp add: Let_def)
  qed
qed

lemma get_zone_and_pfn_page_addr:
  assumes "maps_placed s" and "z < num_zones s" and "i < unat (usable_num_pages (zones s z))"
  shows "get_zone_and_pfn_from_page (page_addr z i s) s = Some (z, of_nat i)"
proof -
  let ?x = "page_addr z i s"
  have pl: "0xffff800000000000 \<le> mem_map (zones s y)"
    "unat (mem_map (zones s y)) + 40 * unat (usable_num_pages (zones s y)) < 2 ^ 64"
    if "y < num_zones s" for y
    using assms(1) that by (auto simp: maps_placed_def)
  have ux: "unat ?x = unat (mem_map (zones s z)) + 40 * i"
    by (rule unat_page_addr [OF pl(2)]) (use assms in auto)
  have x: "0xffff800000000000 \<le> ?x"
    using pl(1) [OF assms(2)] ux by (simp add: word_le_nat_alt)
  have here: "VA2PA (mem_map (zones s z)) \<le> VA2PA ?x \<and>
      VA2PA ?x < VA2PA (mem_map (zones s z)) + sizeof_page * usable_num_pages (zones s z)"
    unfolding in_zone_map_iff [OF pl(1) [OF assms(2)] x pl(2) [OF assms(2)]] using ux assms(3) by simp
  have nothere: "\<not> (VA2PA (mem_map (zones s y)) \<le> VA2PA ?x \<and>
      VA2PA ?x < VA2PA (mem_map (zones s y)) + sizeof_page * usable_num_pages (zones s y))"
    if "y < z" for y
  proof -
    have y: "y < num_zones s" using that assms(2) by simp
    have "unat (mem_map (zones s y)) + 40 * unat (usable_num_pages (zones s y)) \<le> unat (mem_map (zones s z)) \<or>
        unat (mem_map (zones s z)) + 40 * unat (usable_num_pages (zones s z)) \<le> unat (mem_map (zones s y))"
      using assms(1,2) y that unfolding maps_placed_def by blast
    with ux assms(3) show ?thesis
      unfolding in_zone_map_iff [OF pl(1) [OF y] x pl(2) [OF y]] by linarith
  qed
  have "(VA2PA ?x - VA2PA (mem_map (zones s z))) div sizeof_page = of_nat i"
  proof (rule unsigned_word_eqI)
    have "unat (VA2PA ?x - VA2PA (mem_map (zones s z))) = 40 * i"
      using here by (simp add: unat_sub VA2PA_direct [OF x] VA2PA_direct [OF pl(1) [OF assms(2)]] ux)
        (use pl(1) [OF assms(2)] in \<open>simp add: word_le_nat_alt\<close>)
    moreover have "i < 2 ^ 64" using assms(3) unat_u64_bound less_trans by blast
    ultimately show "unat ((VA2PA ?x - VA2PA (mem_map (zones s z))) div sizeof_page) = unat (of_nat i :: u64)"
      by (simp add: unat_div sizeof_page_def unat_of_nat)
  qed
  then show ?thesis
    unfolding get_zone_and_pfn_from_page_def
    using zone_and_pfn_from_skip [of 0 z "num_zones s" s "VA2PA ?x"] here nothere assms(2) by simp
qed

section \<open>Allocation from a zone\<close>

definition zone_ok :: "alloc_state \<Rightarrow> nat \<Rightarrow> bool" where
  "zone_ok s z \<longleftrightarrow> maps_placed s \<and> z < num_zones s \<and> max_order (zones s z) \<le> MAX_PG_ORDER \<and>
     (\<forall>k<max_order (zones s z). fa_map (zones s z) k \<noteq> 0)"

definition zone_inv :: "alloc_state \<Rightarrow> nat \<Rightarrow> (nat \<Rightarrow> nat list) \<Rightarrow> bool" where
  "zone_inv s z F \<longleftrightarrow> free_inv (links s) z (mem_map (zones s z)) (max_order (zones s z))
     (unat (usable_num_pages (zones s z))) F"

lemma zone_ok_cong:
  "zones s' = zones s \<Longrightarrow> num_zones s' = num_zones s \<Longrightarrow> zone_ok s' z = zone_ok s z"
  by (simp add: zone_ok_def maps_placed_def)

lemma page_addr_cong: "zones s' = zones s \<Longrightarrow> page_addr z i s' = page_addr z i s"
  by (simp add: page_addr_def)

lemma PageNode_page_addr: "PageNode (page_addr z i s) = pnode (mem_map (zones s z)) i"
  by (simp add: page_addr_def pnode_def)

lemma zone_ok_inj:
  "zone_ok s z \<Longrightarrow> inj_on (pnode (mem_map (zones s z))) {..<unat (usable_num_pages (zones s z))}"
  by (intro pnode_inj_on) (auto simp: zone_ok_def maps_placed_def)

lemma toggle_bit_page_ok:
  assumes "zone_ok s z" and "i < unat (usable_num_pages (zones s z))" and "k < max_order (zones s z)"
  shows "\<exists>w wm. toggle_bit_page (page_addr z i s) k s = Inr (w, s\<lparr>wmem := wm\<rparr>)"
proof -
  have "get_zone_and_pfn_from_page (page_addr z i s) s = Some (z, of_nat i)"
    using assms by (intro get_zone_and_pfn_page_addr) (auto simp: zone_ok_def)
  moreover have "fa_map (zones s z) k \<noteq> 0" "k < NUM_PG_ORDERS"
    using assms by (auto simp: zone_ok_def NUM_PG_ORDERS_def)
  ultimately show ?thesis
    by (auto simp: toggle_bit_page_def toggle_bit_pfn_zone_def Let_def)
qed

text \<open>The list nodes that belong to a zone: the heads of its free lists and its pages.\<close>

definition zone_nodes :: "alloc_state \<Rightarrow> nat \<Rightarrow> lnode set" where
  "zone_nodes s z = FreeHead z ` {..max_order (zones s z)} \<union>
     pnode (mem_map (zones s z)) ` {..<unat (usable_num_pages (zones s z))}"

lemma zone_nodes_ring:
  assumes "zone_inv s z F" and "k \<le> max_order (zones s z)"
  shows "set (FreeHead z k # map (pnode (mem_map (zones s z))) (F k)) \<subseteq> zone_nodes s z"
  using free_inv_less [OF assms(1) [unfolded zone_inv_def] assms(2)] assms(2)
  by (auto simp: zone_nodes_def)

lemma zone_inv_frame:
  assumes "zone_inv s z F" and "\<And>x. x \<in> zone_nodes s z \<Longrightarrow> links s' x = links s x"
    and "mem_map (zones s' z) = mem_map (zones s z)"
    and "max_order (zones s' z) = max_order (zones s z)"
    and "usable_num_pages (zones s' z) = usable_num_pages (zones s z)"
  shows "zone_inv s' z F"
proof -
  note inv = assms(1) [unfolded zone_inv_def]
  have "ring (links s') (FreeHead z k) (map (pnode (mem_map (zones s z))) (F k))"
    if "k \<le> max_order (zones s z)" for k
    by (rule ring_frame [OF free_inv_ring [OF inv that]])
      (use zone_nodes_ring [OF assms(1) that] assms(2) in blast)
  moreover have "ring (links s') (pnode (mem_map (zones s z)) p) []"
    if "p \<in> free_set (max_order (zones s z)) F" "\<forall>k\<le>max_order (zones s z). p \<notin> set (F k)" for p
    by (rule ring_frame [OF free_inv_single [OF inv that(1)]])
      (use that assms(2) free_inv_free_less [OF inv that(1)] in \<open>auto simp: zone_nodes_def\<close>)
  ultimately show ?thesis
    using inv unfolding zone_inv_def free_inv_def assms(3-5) by blast
qed

text \<open>Taking the first block of a non-empty free list.\<close>

lemma take_first_ok:
  assumes "zone_ok s z" and "zone_inv s z F" and "k \<le> max_order (zones s z)" and "F k = b # bs"
  shows "\<exists>s'. take_first z k s = Inr (page_addr z b s, s') \<and> s' = s\<lparr>links := links s'\<rparr> \<and>
    zone_inv s' z (F(k := bs)) \<and>
    (\<forall>i\<in>blk k b. ring (links s') (pnode (mem_map (zones s z)) i) []) \<and> (\<forall>x. x \<notin> zone_nodes s z \<longrightarrow> links s' x = links s x)"
proof -
  have "list_del_init (PageNode (page_addr z b s)) (links s) x = links s x" if "x \<notin> zone_nodes s z" for x
    unfolding PageNode_page_addr
    using that ring_neighbours [OF free_inv_ring [OF assms(2) [unfolded zone_inv_def] assms(3)],
        of "pnode (mem_map (zones s z)) b"]
      zone_nodes_ring [OF assms(2,3)] assms(4)
    by (intro list_del_init_frame) auto
  moreover have "lh_next (links s (FreeHead z k)) = PageNode (page_addr z b s)"
    using free_inv_ring [OF assms(2) [unfolded zone_inv_def] assms(3)] assms(4)
    by (simp add: ring_first PageNode_page_addr)
  moreover have "zone_inv (upd_links (list_del_init (PageNode (page_addr z b s))) s) z (F(k := bs))"
    unfolding zone_inv_def PageNode_page_addr
    using free_inv_pop(1) [where F = F and k = k, OF assms(2) [unfolded zone_inv_def] assms(3,4) zone_ok_inj [OF assms(1)]]
    by (simp add: upd_links_def)
  moreover have "\<forall>i\<in>blk k b. ring (list_del_init (PageNode (page_addr z b s)) (links s)) (pnode (mem_map (zones s z)) i) []"
    unfolding PageNode_page_addr
    using free_inv_pop(2) [where F = F and k = k, OF assms(2) [unfolded zone_inv_def] assms(3,4) zone_ok_inj [OF assms(1)]]
    by blast
  ultimately show ?thesis by (simp add: take_first_def page_of_node_def upd_links_def)
qed

text \<open>What an allocation of order \<open>k\<close> that succeeded with the page \<open>p\<close> has done.\<close>

definition alloc_result ::
    "nat \<Rightarrow> nat \<Rightarrow> (nat \<Rightarrow> nat list) \<Rightarrow> alloc_state \<Rightarrow> u64 \<Rightarrow> alloc_state \<Rightarrow> bool" where
  "alloc_result z k F s p s' \<longleftrightarrow>
     (\<exists>b F'. p = page_addr z b s \<and> 2 ^ k dvd b \<and> b + 2 ^ k \<le> unat (usable_num_pages (zones s z)) \<and>
        blk k b \<subseteq> free_set (max_order (zones s z)) F \<and> zone_inv s' z F' \<and>
        free_set (max_order (zones s z)) F' = free_set (max_order (zones s z)) F - blk k b \<and>
        (\<forall>j<k. F' j = F j) \<and> (\<forall>i\<in>blk k b. ring (links s') (pnode (mem_map (zones s z)) i) [])) \<and>
     (\<forall>x. x \<notin> zone_nodes s z \<longrightarrow> links s' x = links s x)"

lemma alloc_found:
  assumes ok: "zone_ok s z" and inv: "zone_inv s z F" and k: "k \<le> max_order (zones s z)"
    and Fk: "F k = b # bs"
  shows "\<exists>s'. alloc_from_zone z k s = Inr (Some (page_addr z b s), s') \<and>
    s' = s\<lparr>links := links s', wmem := wmem s'\<rparr> \<and> alloc_result z k F s (page_addr z b s) s'"
proof -
  note inv' = inv [unfolded zone_inv_def]
  have ne: "\<not> list_empty (FreeHead z k) (links s)"
    using list_empty_ring [OF free_inv_ring [OF inv' k]] Fk by simp
  have kb: "k < NUM_PG_ORDERS" using ok k by (simp add: zone_ok_def NUM_PG_ORDERS_def)
  obtain s1 where s1: "take_first z k s = Inr (page_addr z b s, s1)" "s1 = s\<lparr>links := links s1\<rparr>"
    "zone_inv s1 z (F(k := bs))" "\<And>x. x \<notin> zone_nodes s z \<Longrightarrow> links s1 x = links s x"
    "\<And>i. i \<in> blk k b \<Longrightarrow> ring (links s1) (pnode (mem_map (zones s z)) i) []"
    using take_first_ok [OF ok inv k Fk] by blast
  have z1: "zones s1 = zones s" "num_zones s1 = num_zones s" by (subst s1(2), simp)+
  have res: "alloc_result z k F s (page_addr z b s) s'"
    if "zone_inv s' z (F(k := bs))" "links s' = links s1" for s'
    unfolding alloc_result_def
    using that free_inv_block [OF inv' k] free_set_pop [where F = F, OF inv' k Fk zone_ok_inj [OF ok]] Fk
      s1(4,5)
    by (intro conjI exI [of _ b] exI [of _ "F(k := bs)"]) auto
  show ?thesis
  proof (cases "k = max_order (zones s z)")
    case True
    then have "alloc_from_zone z k s = Inr (Some (page_addr z b s), s1)"
      using s1(1) ne kb by (subst alloc_from_zone.simps) simp
    moreover have "s1 = s\<lparr>links := links s1, wmem := wmem s1\<rparr>" by (subst s1(2), subst (2) s1(2)) simp
    ultimately show ?thesis using res [OF s1(3) refl] by blast
  next
    case False
    have "b < unat (usable_num_pages (zones s1 z))"
      using free_inv_less [OF inv' k, of b] Fk z1 by simp
    then obtain w wm where t: "toggle_bit_page (page_addr z b s1) k s1 = Inr (w, s1\<lparr>wmem := wm\<rparr>)"
      using toggle_bit_page_ok [of s1 z b k] ok k False z1 zone_ok_cong [OF z1] by auto
    have "zone_inv (s1\<lparr>wmem := wm\<rparr>) z (F(k := bs))" using s1(3) by (simp add: zone_inv_def)
    then have "alloc_result z k F s (page_addr z b s) (s1\<lparr>wmem := wm\<rparr>)" by (rule res) simp
    moreover have "s1\<lparr>wmem := wm\<rparr> = s\<lparr>links := links (s1\<lparr>wmem := wm\<rparr>), wmem := wmem (s1\<lparr>wmem := wm\<rparr>)\<rparr>"
      by (subst s1(2)) simp
    moreover have "alloc_from_zone z k s = Inr (Some (page_addr z b s), s1\<lparr>wmem := wm\<rparr>)"
      using s1(1) ne kb False t page_addr_cong [OF z1(1), of z b] by (subst alloc_from_zone.simps) simp
    ultimately show ?thesis by blast
  qed
qed

text \<open>Splitting a block obtained from the next order.\<close>

text \<open>The upper half of a block goes onto the empty list of its order, the lower half stays off every list.\<close>

lemma split_block:
  assumes inv: "free_inv h z a M n F" and inj: "inj_on (pnode a) {..<n}" and k: "k < M" "F k = []"
    and b: "2 ^ Suc k dvd b" "b + 2 ^ Suc k \<le> n" "blk (Suc k) b \<inter> free_set M F = {}"
    and own: "\<And>i. i \<in> blk (Suc k) b \<Longrightarrow> ring h (pnode a i) []"
  shows "free_inv (list_add_tail (FreeHead z k) (pnode a (b + 2 ^ k)) h) z a M n (F(k := [b + 2 ^ k]))"
    and "free_set M (F(k := [b + 2 ^ k])) = blk k (b + 2 ^ k) \<union> free_set M F"
    and "i \<in> blk k b \<Longrightarrow> ring (list_add_tail (FreeHead z k) (pnode a (b + 2 ^ k)) h) (pnode a i) []"
    and "x \<noteq> FreeHead z k \<Longrightarrow> x \<noteq> pnode a (b + 2 ^ k) \<Longrightarrow> list_add_tail (FreeHead z k) (pnode a (b + 2 ^ k)) h x = h x"
proof -
  let ?b = "b + 2 ^ k"
  have al: "2 ^ k dvd b" using b(1) by (meson dvd_trans le_imp_power_dvd less_eq_Suc_le lessI less_imp_le)
  have bn: "?b < n" using less_le_trans [OF _ b(2)] by simp
  have rb: "ring h (pnode a ?b) []" using own blk_split [of k b] blk_self by blast
  show "free_inv (list_add_tail (FreeHead z k) (pnode a ?b) h) z a M n (F(k := [?b]))"
  proof (rule free_inv_push [OF inv])
    show "blk k ?b \<inter> free_set M F = {}" using b(3) blk_split [of k b] by auto
    show "ring h (pnode a i) []" if "i \<in> blk k ?b" for i using own that blk_split [of k b] by blast
  qed (use k al b(2) inj in auto)
  show "free_set M (F(k := [?b])) = blk k ?b \<union> free_set M F" by (rule free_set_push) (use k in auto)
  show "ring (list_add_tail (FreeHead z k) (pnode a ?b) h) (pnode a i) []" if i: "i \<in> blk k b" for i
  proof -
    have "i < n" "i \<noteq> ?b" using i b(2) by (auto simp: blk_def)
    then have "pnode a i \<noteq> pnode a ?b" using bn pnode_inj [OF inj] by blast
    moreover have "ring h (pnode a i) []" using own blk_split [of k b] i by blast
    ultimately show ?thesis using rb by (auto intro!: ring_list_add_tail_other)
  qed
  show "list_add_tail (FreeHead z k) (pnode a ?b) h x = h x" if "x \<noteq> FreeHead z k" "x \<noteq> pnode a ?b" for x
    using that rb by (simp add: ring_Nil list_add_tail_frame)
qed

lemma alloc_split:
  assumes ok: "zone_ok s z" and inv: "zone_inv s z F" and k: "k < max_order (zones s z)"
    and Fk: "F k = []"
    and up: "alloc_from_zone z (Suc k) s = Inr (Some p, s1)"
      "s1 = s\<lparr>links := links s1, wmem := wmem s1\<rparr>" "alloc_result z (Suc k) F s p s1"
  shows "\<exists>s'. alloc_from_zone z k s = Inr (Some p, s') \<and>
    s' = s\<lparr>links := links s', wmem := wmem s'\<rparr> \<and> alloc_result z k F s p s'"
proof -
  let ?M = "max_order (zones s z)" and ?n = "unat (usable_num_pages (zones s z))"
  let ?a = "mem_map (zones s z)"
  from up(3) obtain b F' where b: "p = page_addr z b s" "2 ^ Suc k dvd b" "b + 2 ^ Suc k \<le> ?n"
    "blk (Suc k) b \<subseteq> free_set ?M F" "zone_inv s1 z F'"
    "free_set ?M F' = free_set ?M F - blk (Suc k) b" "\<And>j. j < Suc k \<Longrightarrow> F' j = F j"
    "\<And>x. x \<notin> zone_nodes s z \<Longrightarrow> links s1 x = links s x"
    "\<And>i. i \<in> blk (Suc k) b \<Longrightarrow> ring (links s1) (pnode ?a i) []"
    unfolding alloc_result_def by blast
  have z1: "zones s1 = zones s" "num_zones s1 = num_zones s" by (subst up(2), simp)+
  let ?b = "b + 2 ^ k"
  define s2 where "s2 = upd_links (list_add_tail (FreeHead z k) (pnode ?a ?b)) s1"
  have z2: "zones s2 = zones s" "num_zones s2 = num_zones s" by (simp_all add: s2_def upd_links_def z1)
  have l2: "links s2 = list_add_tail (FreeHead z k) (pnode ?a ?b) (links s1)" by (simp add: s2_def upd_links_def)
  have "free_inv (links s1) z ?a ?M ?n F'" "F' k = []" "blk (Suc k) b \<inter> free_set ?M F' = {}"
    using b(5-7) z1 Fk by (auto simp: zone_inv_def)
  note sp = split_block [OF this(1) zone_ok_inj [OF ok] k this(2) b(2,3) this(3) b(9), folded l2]
  have bn: "b < unat (usable_num_pages (zones s2 z))" "?b < ?n" using less_le_trans [OF _ b(3)] by (simp_all add: z2)
  have frame: "links s2 x = links s x" if "x \<notin> zone_nodes s z" for x
  proof -
    have "x \<noteq> FreeHead z k" "x \<noteq> pnode ?a ?b" using that bn(2) k by (auto simp: zone_nodes_def)
    then show ?thesis using sp(4) b(8) [OF that] by simp
  qed
  have fs: "free_set ?M (F'(k := [?b])) = free_set ?M F - blk k b"
    using sp(2) b(4,6) blk_split [of k b] blk_halves_disjoint [of k b] by auto
  obtain w wm where t: "toggle_bit_page (page_addr z b s2) k s2 = Inr (w, s2\<lparr>wmem := wm\<rparr>)"
    using toggle_bit_page_ok [OF _ bn(1), of k] ok k zone_ok_cong [OF z2] z2 by auto
  have node: "PageNode (p + sizeof_page * push_bit k 1) = pnode ?a ?b"
    by (simp add: b(1) page_addr_def pnode_def algebra_simps)
  have ne: "list_empty (FreeHead z k) (links s)" "k < NUM_PG_ORDERS"
    using list_empty_ring [OF free_inv_ring [OF inv [unfolded zone_inv_def]]] ok k Fk by (auto simp: zone_ok_def NUM_PG_ORDERS_def)
  have "alloc_from_zone z k s = Inr (Some p, s2\<lparr>wmem := wm\<rparr>)"
    using up(1) ne k t node page_addr_cong [OF z2(1), of z b] b(1)
    by (subst alloc_from_zone.simps) (simp add: Let_def s2_def)
  moreover have "s2\<lparr>wmem := wm\<rparr> = s\<lparr>links := links (s2\<lparr>wmem := wm\<rparr>), wmem := wmem (s2\<lparr>wmem := wm\<rparr>)\<rparr>"
    unfolding s2_def upd_links_def by (subst up(2)) simp
  moreover have "alloc_result z k F s p (s2\<lparr>wmem := wm\<rparr>)"
    unfolding alloc_result_def
  proof (intro conjI exI)
    show "zone_inv (s2\<lparr>wmem := wm\<rparr>) z (F'(k := [?b]))" using sp(1) by (simp add: zone_inv_def z2)
    show "blk k b \<subseteq> free_set ?M F" using b(4) blk_split [of k b] by auto
    show "2 ^ k dvd b" using b(2) by (meson dvd_trans le_imp_power_dvd less_eq_Suc_le lessI less_imp_le)
  qed (use b fs frame sp(3) in auto)
  ultimately show ?thesis by blast
qed

lemma alloc_from_zone_ok:
  assumes "zone_ok s z" and "zone_inv s z F" and "k \<le> max_order (zones s z)"
  shows "(\<exists>j. k \<le> j \<and> j \<le> max_order (zones s z) \<and> F j \<noteq> []) \<longrightarrow>
      (\<exists>p s'. alloc_from_zone z k s = Inr (Some p, s') \<and>
         s' = s\<lparr>links := links s', wmem := wmem s'\<rparr> \<and> alloc_result z k F s p s')"
    and "(\<forall>j. k \<le> j \<and> j \<le> max_order (zones s z) \<longrightarrow> F j = []) \<longrightarrow>
      alloc_from_zone z k s = Inr (None, s)"
proof -
  let ?M = "max_order (zones s z)"
  have kb: "j < NUM_PG_ORDERS" if "j \<le> ?M" for j
    using assms that by (simp add: zone_ok_def NUM_PG_ORDERS_def)
  have emp: "list_empty (FreeHead z j) (links s)" if "j \<le> ?M" "F j = []" for j
    using list_empty_ring [OF free_inv_ring [OF assms(2) [unfolded zone_inv_def]]] that by auto
  have "((\<exists>j. k \<le> j \<and> j \<le> ?M \<and> F j \<noteq> []) \<longrightarrow>
      (\<exists>p s'. alloc_from_zone z k s = Inr (Some p, s') \<and>
         s' = s\<lparr>links := links s', wmem := wmem s'\<rparr> \<and> alloc_result z k F s p s')) \<and>
      ((\<forall>j. k \<le> j \<and> j \<le> ?M \<longrightarrow> F j = []) \<longrightarrow> alloc_from_zone z k s = Inr (None, s))"
    using assms(3)
  proof (induction rule: inc_induct)
    case base
    show ?case
    proof (cases "F ?M")
      case Nil
      then have "alloc_from_zone z ?M s = Inr (None, s)"
        using emp [of ?M] kb [of ?M] by (subst alloc_from_zone.simps) simp
      with Nil show ?thesis by (auto simp: le_antisym dest: antisym)
    next
      case (Cons b bs)
      then show ?thesis using alloc_found [OF assms(1,2), of ?M b bs] by fastforce
    qed
  next
    case (step j)
    show ?case
    proof (cases "F j")
      case Nil
      have none: "alloc_from_zone z j s = Inr (None, s)" if "alloc_from_zone z (Suc j) s = Inr (None, s)"
        using emp [of j] kb [of j] that Nil step.hyps by (subst alloc_from_zone.simps) simp
      have suc: "(\<exists>i. j \<le> i \<and> i \<le> ?M \<and> F i \<noteq> []) \<longleftrightarrow> (\<exists>i. Suc j \<le> i \<and> i \<le> ?M \<and> F i \<noteq> [])"
        using Nil by (metis Suc_leD not_less_eq_eq order_antisym_conv)
      show ?thesis
      proof (cases "\<exists>i. Suc j \<le> i \<and> i \<le> ?M \<and> F i \<noteq> []")
        case True
        with step.IH obtain p s1 where "alloc_from_zone z (Suc j) s = Inr (Some p, s1)"
          "s1 = s\<lparr>links := links s1, wmem := wmem s1\<rparr>" "alloc_result z (Suc j) F s p s1"
          by blast
        from alloc_split [OF assms(1,2) step.hyps(2) Nil this] True suc show ?thesis by blast
      next
        case False
        with step.IH none suc show ?thesis by blast
      qed
    next
      case (Cons b bs)
      have "\<exists>p s'. alloc_from_zone z j s = Inr (Some p, s') \<and>
         s' = s\<lparr>links := links s', wmem := wmem s'\<rparr> \<and> alloc_result z j F s p s'"
        using alloc_found [OF assms(1,2) less_imp_le [OF step.hyps(2)] Cons] by blast
      with Cons step.hyps show ?thesis by (auto intro: exI [of _ j])
    qed
  qed
  then show "(\<exists>j. k \<le> j \<and> j \<le> ?M \<and> F j \<noteq> []) \<longrightarrow>
      (\<exists>p s'. alloc_from_zone z k s = Inr (Some p, s') \<and>
         s' = s\<lparr>links := links s', wmem := wmem s'\<rparr> \<and> alloc_result z k F s p s')"
    and "(\<forall>j. k \<le> j \<and> j \<le> ?M \<longrightarrow> F j = []) \<longrightarrow> alloc_from_zone z k s = Inr (None, s)"
    by blast+
qed

section \<open>The free lists after initialisation\<close>

text \<open>
  \<open>init_memmap\<close> and \<open>init_free_lists\<close> together establish the invariant: every page structure
  is first made a ring of its own, then the blocks of the highest order are chained.
\<close>

lemma block_less: "b + 2 ^ k \<le> n \<Longrightarrow> b < (n :: nat)"
  by (rule less_le_trans [of _ "b + 2 ^ k"]) simp_all

definition big_blocks :: "nat \<Rightarrow> nat \<Rightarrow> nat list" where
  "big_blocks M m = map (\<lambda>i. i * 2 ^ M) [0..<m]"

lemma fold_upd_links: "fold (\<lambda>x. upd_links (f x)) xs s = upd_links (fold f xs) s"
  by (induction xs arbitrary: s) (simp_all add: upd_links_def)

lemma fold_INIT_ring:
  assumes "x \<in> set xs \<or> ring h x []"
  shows "ring (fold INIT_LIST_HEAD xs h) x []"
  using assms
proof (induction xs arbitrary: h)
  case Nil
  then show ?case by simp
next
  case (Cons y ys)
  have "ring (INIT_LIST_HEAD y h) x []" if "x = y \<or> ring h x []"
    using that by (auto simp: ring_Nil)
  with Cons show ?case by auto
qed

lemma links_init_memmap:
  "links (init_memmap z s) = fold INIT_LIST_HEAD
     (map (pnode (mem_map (zones s z))) [0..<unat (usable_num_pages (zones s z))]) (links s) \<and>
   zones (init_memmap z s) = zones s \<and> num_zones (init_memmap z s) = num_zones s"
proof -
  have "links (fold (\<lambda>i s. upd_page (page_addr z i s) (\<lambda>p. p\<lparr>pflags := 0\<rparr>)
          (upd_links (INIT_LIST_HEAD (PageNode (page_addr z i s))) s)) xs t) =
        fold INIT_LIST_HEAD (map (pnode (mem_map (zones t z))) xs) (links t) \<and>
        zones (fold (\<lambda>i s. upd_page (page_addr z i s) (\<lambda>p. p\<lparr>pflags := 0\<rparr>)
          (upd_links (INIT_LIST_HEAD (PageNode (page_addr z i s))) s)) xs t) = zones t \<and>
        num_zones (fold (\<lambda>i s. upd_page (page_addr z i s) (\<lambda>p. p\<lparr>pflags := 0\<rparr>)
          (upd_links (INIT_LIST_HEAD (PageNode (page_addr z i s))) s)) xs t) = num_zones t" for xs t
    by (induction xs arbitrary: t) (simp_all add: upd_page_def upd_links_def PageNode_page_addr)
  then show ?thesis by (simp add: init_memmap_def)
qed

lemma init_free_lists_zones: "zones (init_free_lists z s) = zones s"
  "num_zones (init_free_lists z s) = num_zones s"
  by (simp_all add: init_free_lists_def Let_def fold_upd_links upd_links_def)

lemma init_free_lists_inv:
  assumes ok: "zone_ok s z"
    and self: "\<And>p. p < unat (usable_num_pages (zones s z)) \<Longrightarrow> ring (links s) (pnode (mem_map (zones s z)) p) []"
  defines "M \<equiv> max_order (zones s z)" and "n \<equiv> unat (usable_num_pages (zones s z))"
  shows "zone_inv (init_free_lists z s) z ((\<lambda>_. [])(M := big_blocks M (n div 2 ^ M)))"
proof -
  let ?a = "mem_map (zones s z)" and ?m = "n div 2 ^ M"
  let ?xs = "map (pnode ?a) (big_blocks M ?m)"
  let ?h1 = "fold INIT_LIST_HEAD (map (FreeHead z) [0..<Suc M]) (links s)"
  let ?h2 = "fold (\<lambda>x. list_add_tail x (FreeHead z M)) ?xs ?h1"
  have m: "unat (drop_bit M (usable_num_pages (zones s z))) = ?m"
    unfolding n_def by (subst unat_drop_bit_eq, subst drop_bit_eq_div) (rule refl)
  have h2: "links (init_free_lists z s) = ?h2"
    unfolding init_free_lists_def Let_def fold_upd_links M_def [symmetric] m PageNode_page_addr
    by (simp add: upd_links_def big_blocks_def fold_map comp_def)
  have inj: "inj_on (pnode ?a) {..<n}" unfolding n_def by (rule zone_ok_inj [OF ok])
  have bl: "2 ^ M dvd b \<and> b + 2 ^ M \<le> n" if b: "b \<in> set (big_blocks M ?m)" for b
  proof -
    obtain i where i: "b = i * 2 ^ M" "i < ?m" using b by (auto simp: big_blocks_def)
    have "b + 2 ^ M = Suc i * 2 ^ M" using i by simp
    also have "\<dots> \<le> ?m * 2 ^ M" using i(2) by (intro mult_right_mono) auto
    also have "\<dots> \<le> n" by simp
    finally show ?thesis using i by simp
  qed
  have lt: "b < n" if "b \<in> set (big_blocks M ?m)" for b
    using bl [OF that] block_less by blast
  have dist: "distinct (big_blocks M ?m)"
    by (auto simp: big_blocks_def distinct_map inj_on_def)
  have r1: "ring ?h1 (FreeHead z k) []" if "k \<le> M" for k
    by (rule fold_INIT_ring) (use that in auto)
  have s1: "ring ?h1 (pnode ?a p) []" if "p < n" for p
    by (rule fold_INIT_ring) (use self [OF that [unfolded n_def]] in blast)
  have dx: "distinct ?xs" using dist lt inj by (auto simp: distinct_map inj_on_def)
  have nh: "set ?xs \<inter> set [FreeHead z M] = {}" by auto
  have rM: "ring ?h2 (FreeHead z M) ?xs"
    using kl.rep_add_back_all [OF r1 [of M, OF le_refl] dx nh] by simp
  have ro: "ring ?h2 (FreeHead z k) []" if "k \<le> M" "k \<noteq> M" for k
    by (rule kl.add_back_all_other [OF r1 [of M] r1]) (use that dx nh in \<open>auto simp del: upt_Suc\<close>)
  have fl: "p < n" if p: "p \<in> free_set M ((\<lambda>_. [])(M := big_blocks M ?m))" for p
  proof -
    obtain b where "b \<in> set (big_blocks M ?m)" "p \<in> blk M b" using p by (auto simp: free_set_def)
    with bl [of b] show ?thesis by (auto simp: blk_def)
  qed
  have so: "ring ?h2 (pnode ?a p) []" if "p < n" "p \<notin> set (big_blocks M ?m)" for p
    by (rule kl.add_back_all_other [OF r1 [of M] s1]) (use that dx nh lt in \<open>auto simp: pnode_inj [OF inj] simp del: upt_Suc\<close>)
  have "blocks_disjoint M ((\<lambda>_. [])(M := big_blocks M ?m))"
  proof -
    have "blk M (i * 2 ^ M) \<inter> blk M (j * 2 ^ M) = {}" if "i < j" for i j
    proof -
      have "i * 2 ^ M + 2 ^ M = Suc i * 2 ^ M" by simp
      also have "\<dots> \<le> j * 2 ^ M" using that by (intro mult_right_mono) auto
      finally show ?thesis by (auto simp: blk_def)
    qed
    then have "blk M (i * 2 ^ M) \<inter> blk M (j * 2 ^ M) = {}" if "i \<noteq> j" for i j
      using that by (metis Int_commute linorder_neq_iff)
    then have "x \<notin> blk M (j * 2 ^ M)" if "i \<noteq> j" "x \<in> blk M (i * 2 ^ M)" for i j x
      using that by blast
    then show ?thesis by (fastforce simp: blocks_disjoint_def big_blocks_def)
  qed
  then show ?thesis
    unfolding zone_inv_def free_inv_def h2 init_free_lists_zones M_def [symmetric] n_def [symmetric]
    using rM ro so bl fl by (auto simp del: upt_Suc)
qed

section \<open>The allocator as a whole\<close>

definition sys_inv :: "alloc_state \<Rightarrow> (nat \<Rightarrow> nat \<Rightarrow> nat list) \<Rightarrow> bool" where
  "sys_inv s F \<longleftrightarrow> (\<forall>z<num_zones s. zone_ok s z \<and> zone_inv s z (F z) \<and>
     unat (available_pages (zones s z)) = card (free_set (max_order (zones s z)) (F z)))"

definition eligible :: "alloc_state \<Rightarrow> (nat \<Rightarrow> nat \<Rightarrow> nat list) \<Rightarrow> u32 \<Rightarrow> nat \<Rightarrow> nat \<Rightarrow> bool" where
  "eligible s F flags k z \<longleftrightarrow>
     flags AND PGALLOC_KERNEL \<noteq> 0 \<and> zflags (zones s z) AND MEMZONE_IDENTITY_MAPPED \<noteq> 0 \<and>
     (\<exists>j. k \<le> j \<and> j \<le> max_order (zones s z) \<and> F z j \<noteq> [])"

lemma finite_free_set [simp]: "finite (free_set M F)"
  by (simp add: free_set_def blk_def)

lemma card_blk [simp]: "card (blk k b) = 2 ^ k"
  by (simp add: blk_def)

lemma zone_nodes_disjoint:
  assumes "maps_placed s" and "z < num_zones s" and "z' < num_zones s" and "z \<noteq> z'"
  shows "zone_nodes s z \<inter> zone_nodes s z' = {}"
proof -
  have pl: "unat (mem_map (zones s y)) + 40 * unat (usable_num_pages (zones s y)) < 2 ^ 64"
    if "y < num_zones s" for y
    using assms(1) that by (auto simp: maps_placed_def)
  have "page_addr z i s \<noteq> page_addr z' j s"
    if "i < unat (usable_num_pages (zones s z))" "j < unat (usable_num_pages (zones s z'))" for i j
  proof
    assume "page_addr z i s = page_addr z' j s"
    then have "unat (page_addr z i s) = unat (page_addr z' j s)" by simp
    then have "unat (mem_map (zones s z)) + 40 * i = unat (mem_map (zones s z')) + 40 * j"
      using unat_page_addr [OF pl [OF assms(2)], of i] unat_page_addr [OF pl [OF assms(3)], of j] that
      by simp
    moreover have "unat (mem_map (zones s z)) + 40 * unat (usable_num_pages (zones s z)) \<le> unat (mem_map (zones s z')) \<or>
        unat (mem_map (zones s z')) + 40 * unat (usable_num_pages (zones s z')) \<le> unat (mem_map (zones s z))"
      using assms unfolding maps_placed_def by blast
    ultimately show False using that by linarith
  qed
  then show ?thesis
    using assms(4) by (auto simp: zone_nodes_def pnode_def page_addr_def)
qed

text \<open>A zone with a free block that is large enough has enough pages in its counter.\<close>

lemma available_enough:
  assumes "unat (available_pages zn) = card (free_set M F)" and "k \<le> j" and "j \<le> M" and "F j \<noteq> []"
    and "j \<le> 10"
  shows "\<not> available_pages zn < push_bit k 1"
proof -
  obtain b where b: "b \<in> set (F j)" using assms(4) by (cases "F j") auto
  have "blk j b \<subseteq> free_set M F" using b assms(3) by (auto simp: free_set_def)
  from card_mono [OF finite_free_set this] have "2 ^ j \<le> card (free_set M F)" by simp
  moreover have "(2::nat) ^ k \<le> 2 ^ j" using assms(2) by simp
  ultimately have "2 ^ k \<le> card (free_set M F)" by (rule order_trans [rotated])
  moreover have "unat (2 ^ k :: u64) = 2 ^ k" using assms(2,5) by (intro unat_2p) simp
  ultimately show ?thesis using assms(1) by (simp add: word_less_nat_alt)
qed

text \<open>The zone whose turn it is gets the block; the state of every other zone is kept.\<close>

lemma sys_inv_alloc:
  assumes inv: "sys_inv s F" and z: "z < num_zones s" and k: "k \<le> 10"
    and s1: "s1 = s\<lparr>links := links s1, wmem := wmem s1\<rparr>" and res: "alloc_result z k (F z) s p s1"
    and s2: "s2 = upd_zone z (\<lambda>zn. zn\<lparr>available_pages := available_pages zn - push_bit k 1\<rparr>) s1"
  shows "\<exists>b F'. p = page_addr z b s \<and> 2 ^ k dvd b \<and> b + 2 ^ k \<le> unat (usable_num_pages (zones s z)) \<and>
     blk k b \<subseteq> free_set (max_order (zones s z)) (F z) \<and> sys_inv s2 (F(z := F')) \<and>
     free_set (max_order (zones s z)) F' = free_set (max_order (zones s z)) (F z) - blk k b"
proof -
  let ?M = "max_order (zones s z)"
  from res obtain b F' where b: "p = page_addr z b s" "2 ^ k dvd b"
    "b + 2 ^ k \<le> unat (usable_num_pages (zones s z))" "blk k b \<subseteq> free_set ?M (F z)" "zone_inv s1 z F'"
    "free_set ?M F' = free_set ?M (F z) - blk k b" and fr: "\<And>x. x \<notin> zone_nodes s z \<Longrightarrow> links s1 x = links s x"
    unfolding alloc_result_def by blast
  have z1: "zones s1 = zones s" "num_zones s1 = num_zones s" by (subst s1, simp)+
  have f2: "mem_map (zones s2 y) = mem_map (zones s y)" "max_order (zones s2 y) = max_order (zones s y)"
    "usable_num_pages (zones s2 y) = usable_num_pages (zones s y)" "fa_map (zones s2 y) = fa_map (zones s y)"
    "num_zones s2 = num_zones s" "links s2 = links s1" for y
    by (simp_all add: s2 upd_zone_def z1)
  have ok2: "zone_ok s2 y = zone_ok s y" for y by (simp add: zone_ok_def maps_placed_def f2)
  have card: "unat (available_pages (zones s2 z)) = card (free_set ?M F')"
  proof -
    have "card (free_set ?M F') = card (free_set ?M (F z)) - 2 ^ k"
      using b(4) by (simp add: b(6) card_Diff_subset finite_subset [OF b(4)])
    moreover have "2 ^ k \<le> card (free_set ?M (F z))" using card_mono [OF finite_free_set b(4)] by simp
    moreover have "unat (available_pages (zones s z)) = card (free_set ?M (F z))"
      using inv z by (simp add: sys_inv_def)
    moreover have "unat (2 ^ k :: u64) = 2 ^ k" using k by (intro unat_2p) simp
    ultimately show ?thesis by (simp add: s2 upd_zone_def z1 unat_sub word_le_nat_alt)
  qed
  have "zone_ok s2 y \<and> zone_inv s2 y ((F(z := F')) y) \<and>
      unat (available_pages (zones s2 y)) = card (free_set (max_order (zones s2 y)) ((F(z := F')) y))"
    if y: "y < num_zones s2" for y
  proof (cases "y = z")
    case True
    have "zone_inv s2 z F'" using b(5) by (simp add: zone_inv_def f2 z1)
    with True card ok2 inv z show ?thesis by (simp add: sys_inv_def f2)
  next
    case False
    have yn: "y < num_zones s" using y f2 by simp
    have "zone_nodes s y \<inter> zone_nodes s z = {}"
      using inv z by (intro zone_nodes_disjoint [OF _ yn z False]) (auto simp: sys_inv_def zone_ok_def)
    then have "zone_inv s2 y (F y)"
      using inv yn fr by (intro zone_inv_frame [of s y "F y" s2]) (auto simp: sys_inv_def f2)
    with inv yn False ok2 show ?thesis by (simp add: sys_inv_def f2) (simp add: s2 upd_zone_def z1)
  qed
  then have "sys_inv s2 (F(z := F'))" by (auto simp: sys_inv_def)
  with b show ?thesis by blast
qed

definition search_found ::
    "alloc_state \<Rightarrow> (nat \<Rightarrow> nat \<Rightarrow> nat list) \<Rightarrow> u32 \<Rightarrow> nat \<Rightarrow> nat \<Rightarrow> (u64 option \<times> alloc_state) res \<Rightarrow> bool" where
  "search_found s F flags k z r \<longleftrightarrow>
     (\<exists>y p s1. z \<le> y \<and> y < num_zones s \<and> eligible s F flags k y \<and> k \<le> 10 \<and>
        s1 = s\<lparr>links := links s1, wmem := wmem s1\<rparr> \<and> alloc_result y k (F y) s p s1 \<and>
        r = Inr (Some p,
          upd_zone y (\<lambda>zn. zn\<lparr>available_pages := available_pages zn - push_bit k 1\<rparr>) s1))"

lemma search_found_Suc: "search_found s F flags k (Suc z) r \<Longrightarrow> search_found s F flags k z r"
  unfolding search_found_def using Suc_leD by blast

lemma alloc_search_skip:
  assumes inv: "sys_inv s F" and z: "z < num_zones s" and el: "\<not> eligible s F flags k z"
  shows "alloc_search (Suc m) z flags k s = alloc_search m (Suc z) flags k s"
proof (cases "flags AND PGALLOC_KERNEL \<noteq> 0 \<and> zflags (zones s z) AND MEMZONE_IDENTITY_MAPPED \<noteq> 0 \<and>
    k \<le> max_order (zones s z)")
  case True
  with el have "\<forall>j. k \<le> j \<and> j \<le> max_order (zones s z) \<longrightarrow> F z j = []"
    by (auto simp: eligible_def)
  then have "alloc_from_zone z k s = Inr (None, s)"
    using alloc_from_zone_ok(2) [of s z "F z" k] True inv z by (auto simp: sys_inv_def)
  then show ?thesis by simp
qed auto

lemma alloc_search_take:
  assumes inv: "sys_inv s F" and z: "z < num_zones s" and el: "eligible s F flags k z"
  shows "search_found s F flags k z (alloc_search (Suc m) z flags k s)"
proof -
  have ok: "zone_ok s z" "zone_inv s z (F z)"
    "unat (available_pages (zones s z)) = card (free_set (max_order (zones s z)) (F z))"
    using inv z by (auto simp: sys_inv_def)
  obtain j where j: "k \<le> j" "j \<le> max_order (zones s z)" "F z j \<noteq> []"
    using el by (auto simp: eligible_def)
  have j10: "j \<le> 10" using j ok(1) by (simp add: zone_ok_def MAX_PG_ORDER_def)
  have km: "k \<le> max_order (zones s z)" using j by simp
  obtain p s1 where a: "alloc_from_zone z k s = Inr (Some p, s1)"
    "s1 = s\<lparr>links := links s1, wmem := wmem s1\<rparr>" "alloc_result z k (F z) s p s1"
    using alloc_from_zone_ok(1) [OF ok(1,2) km] j by blast
  have "alloc_search (Suc m) z flags k s = Inr (Some p,
      upd_zone z (\<lambda>zn. zn\<lparr>available_pages := available_pages zn - push_bit k 1\<rparr>) s1)"
    using el a(1) km available_enough [OF ok(3) j j10] by (simp add: eligible_def)
  moreover have "k \<le> 10" using j j10 by simp
  ultimately show ?thesis unfolding search_found_def using el a(2,3) z le_refl [of z] by blast
qed

lemma alloc_search_ok:
  assumes inv: "sys_inv s F" and "z + m = num_zones s"
  shows "if \<exists>y. z \<le> y \<and> y < num_zones s \<and> eligible s F flags k y
         then search_found s F flags k z (alloc_search m z flags k s)
         else alloc_search m z flags k s = Inr (None, s)"
  using assms(2)
proof (induction m arbitrary: z)
  case 0
  then show ?case by auto
next
  case (Suc m)
  have z: "z < num_zones s" using Suc.prems by simp
  have IH: "if \<exists>y. Suc z \<le> y \<and> y < num_zones s \<and> eligible s F flags k y
      then search_found s F flags k (Suc z) (alloc_search m (Suc z) flags k s)
      else alloc_search m (Suc z) flags k s = Inr (None, s)"
    using Suc.prems by (intro Suc.IH) simp
  show ?case
  proof (cases "eligible s F flags k z")
    case True
    then show ?thesis
      unfolding ex_from_split [OF z] using alloc_search_take [OF inv z True] by (simp only: if_True simp_thms)
  next
    case False
    then show ?thesis
      unfolding ex_from_split [OF z] alloc_search_skip [OF inv z False]
      using IH search_found_Suc [of s F flags k z] by (auto simp only: split: if_splits)
  qed
qed

text \<open>
  The outcome of a successful \<open>alloc_pages\<close>: a block aligned to its size, taken from a
  directly mapped zone, none of whose pages was in use; the invariant holds again for the free
  lists without that block.
\<close>

definition alloc_outcome ::
    "alloc_state \<Rightarrow> (nat \<Rightarrow> nat \<Rightarrow> nat list) \<Rightarrow> nat \<Rightarrow> u64 \<Rightarrow> alloc_state \<Rightarrow> bool" where
  "alloc_outcome s F k p s' \<longleftrightarrow>
     (\<exists>z b F'. z < num_zones s \<and> zflags (zones s z) AND MEMZONE_IDENTITY_MAPPED \<noteq> 0 \<and>
        p = page_addr z b s \<and> 2 ^ k dvd b \<and> b + 2 ^ k \<le> unat (usable_num_pages (zones s z)) \<and>
        blk k b \<subseteq> free_set (max_order (zones s z)) (F z) \<and> sys_inv s' (F(z := F')) \<and>
        free_set (max_order (zones s z)) F' = free_set (max_order (zones s z)) (F z) - blk k b)"

lemma sys_inv_cong:
  "zones s' = zones s \<Longrightarrow> num_zones s' = num_zones s \<Longrightarrow> links s' = links s \<Longrightarrow> sys_inv s' F = sys_inv s F"
  by (simp add: sys_inv_def zone_ok_def zone_inv_def maps_placed_def)

lemma alloc_pages_outcome:
  assumes inv: "sys_inv s F" and el: "\<exists>z<num_zones s. eligible s F flags k z"
  shows "\<exists>p s'. alloc_pages get_page_vaddr flags k s = Inr (p, s') \<and> alloc_outcome s F k p s' \<and>
    refcnt (pages s' p) = 0"
proof -
  have "search_found s F flags k 0 (alloc_search (num_zones s) 0 flags k s)"
    using alloc_search_ok [OF inv, of 0 "num_zones s" flags k] el by (auto split: if_splits)
  then obtain y p s1 where y: "y < num_zones s" "eligible s F flags k y" "k \<le> 10"
    "s1 = s\<lparr>links := links s1, wmem := wmem s1\<rparr>" "alloc_result y k (F y) s p s1"
    "alloc_search (num_zones s) 0 flags k s = Inr (Some p,
       upd_zone y (\<lambda>zn. zn\<lparr>available_pages := available_pages zn - push_bit k 1\<rparr>) s1)" (is "_ = Inr (_, ?s2)")
    unfolding search_found_def by blast
  obtain b F' where b: "p = page_addr y b s" "2 ^ k dvd b" "b + 2 ^ k \<le> unat (usable_num_pages (zones s y))"
    "blk k b \<subseteq> free_set (max_order (zones s y)) (F y)" "sys_inv ?s2 (F(y := F'))"
    "free_set (max_order (zones s y)) F' = free_set (max_order (zones s y)) (F y) - blk k b"
    using sys_inv_alloc [OF inv y(1,3,4,5) refl] by blast
  let ?s3 = "upd_page p (\<lambda>pg. pg\<lparr>refcnt := 0\<rparr>)
     (?s2\<lparr>ram := memset (get_page_vaddr p ?s2) 0 (PAGE_SIZE * push_bit k 1) (ram ?s2)\<rparr>)"
  have "alloc_pages get_page_vaddr flags k s = Inr (p, ?s3)"
    using y(6) by (simp add: alloc_pages_def Let_def)
  moreover have "sys_inv ?s3 (F(y := F'))"
    using b(5) by (subst sys_inv_cong [of _ ?s2]) (simp_all add: upd_page_def)
  moreover have "refcnt (pages ?s3 p) = 0" by (simp add: upd_page_def)
  ultimately show ?thesis
    using b y(1,2) unfolding alloc_outcome_def eligible_def by blast
qed

lemma alloc_pages_none:
  assumes inv: "sys_inv s F" and el: "\<not> (\<exists>z<num_zones s. eligible s F flags k z)"
  shows "alloc_pages get_page_vaddr flags k s = Inl NullDeref"
  using alloc_search_ok [OF inv, of 0 "num_zones s" flags k] el
  by (auto simp: alloc_pages_def split: if_splits)

section \<open>Release\<close>

text \<open>
  \<open>free_pages\<close> when the buddy is in use. The call \<open>list_add(free, &p->list)\<close> inserts the list
  head behind the page instead of the page behind the head: whatever the free list held
  before, it holds the freed page alone afterwards.
\<close>

lemma list_add_swapped:
  assumes "ring h p []" and "p \<noteq> head"
  shows "ring (list_add head p h) head [p]"
  using assms by (simp add: ring_def list_add_def list_add_between_def)

lemma toggle_bit_pfn_zone_bit:
  fixes pfn :: u64
  assumes "k < NUM_PG_ORDERS" and "fa_map (zones s z) k \<noteq> 0"
  defines "i \<equiv> unat (drop_bit (k + 1) pfn mod 32)"
    and "a \<equiv> fa_map (zones s z) k + 4 * (drop_bit (k + 1) pfn div 32)"
  shows "\<exists>w. toggle_bit_pfn_zone pfn z k s = Inr (w, s\<lparr>wmem := (wmem s)(a := flip_bit i (wmem s a))\<rparr>) \<and>
    (w \<noteq> 0 \<longleftrightarrow> \<not> bit (wmem s a) i)"
proof -
  have i: "i < 32" unfolding i_def by (simp add: unat_mod)
  have f: "wmem s a XOR BIT32 i = flip_bit i (wmem s a)"
    by (simp add: BIT32_def flip_bit_eq_xor push_bit_eq_mult)
  have b: "v AND BIT32 i \<noteq> 0 \<longleftrightarrow> bit v i" for v
    using i by (simp add: BIT32_def bit_iff_and_push_bit_not_eq_0)
  have "bit (flip_bit i (wmem s a)) i \<longleftrightarrow> \<not> bit (wmem s a) i" using i by (simp add: bit_flip_bit_iff)
  then show ?thesis
    using assms(1,2) f b unfolding toggle_bit_pfn_zone_def Let_def i_def [symmetric] a_def [symmetric] by auto
qed

lemma free_pages_no_merge:
  assumes "zone_ok s z" and "i < unat (usable_num_pages (zones s z))" and "k < max_order (zones s z)"
    and "2 ^ k dvd i"
    and "ring (links s) (PageNode (page_addr z i s)) []"
    and "\<not> bit (wmem s (fa_map (zones s z) k + 4 * (drop_bit (k + 1) (of_nat i) div 32)))
             (unat (drop_bit (k + 1) (of_nat i :: u64) mod 32))"
  shows "\<exists>s'. free_pages (page_addr z i s) k s = Inr s' \<and>
    ring (links s') (FreeHead z k) [PageNode (page_addr z i s)] \<and>
    available_pages (zones s' z) = available_pages (zones s z) + 2 ^ k"
proof -
  let ?p = "page_addr z i s" and ?a = "fa_map (zones s z) k + 4 * (drop_bit (k + 1) (of_nat i) div 32)"
  let ?s1 = "upd_zone z (\<lambda>zn. zn\<lparr>available_pages := available_pages zn + push_bit k 1\<rparr>) s"
  have look: "get_zone_and_pfn_from_page ?p s = Some (z, of_nat i)"
    using assms(1,2) by (intro get_zone_and_pfn_page_addr) (auto simp: zone_ok_def)
  have kb: "k < NUM_PG_ORDERS" "fa_map (zones ?s1 z) k \<noteq> 0"
    using assms(1,3) by (auto simp: zone_ok_def NUM_PG_ORDERS_def upd_zone_def)
  have k64: "k < 64" using assms(1,3) by (simp add: zone_ok_def MAX_PG_ORDER_def)
  have "(of_nat i :: u64) mod push_bit k 1 = 0"
  proof (rule unsigned_word_eqI)
    have "i < 2 ^ 64" using assms(2) unat_u64_bound less_trans by blast
    then have "unat ((of_nat i :: u64) mod 2 ^ k) = i mod 2 ^ k"
      using k64 by (simp add: unat_mod unat_of_nat unat_2p)
    then show "unat ((of_nat i :: u64) mod push_bit k 1) = unat (0 :: u64)" using assms(4) by simp
  qed
  moreover obtain w where "toggle_bit_pfn_zone (of_nat i) z k ?s1 =
      Inr (w, ?s1\<lparr>wmem := (wmem ?s1)(?a := flip_bit (unat (drop_bit (k + 1) (of_nat i :: u64) mod 32)) (wmem ?s1 ?a))\<rparr>)"
    and "w \<noteq> 0"
    using toggle_bit_pfn_zone_bit [OF kb, of "of_nat i"] assms(6) by (auto simp: upd_zone_def)
  ultimately have "free_pages ?p k s = Inr (upd_links (list_add (FreeHead z k) (PageNode ?p))
      (?s1\<lparr>wmem := (wmem ?s1)(?a := flip_bit (unat (drop_bit (k + 1) (of_nat i :: u64) mod 32)) (wmem ?s1 ?a))\<rparr>))"
    using look kb(1) assms(3) by (subst free_pages.simps) (simp add: Let_def)
  moreover have "ring (list_add (FreeHead z k) (PageNode ?p) (links s)) (FreeHead z k) [PageNode ?p]"
    by (rule list_add_swapped [OF assms(5)]) simp
  ultimately show ?thesis by (simp add: upd_links_def upd_zone_def)
qed

section \<open>Physical addresses\<close>

text \<open>The zones whose page frames are counted from the start of the zone, all of them disjoint.\<close>

definition phys_placed :: "alloc_state \<Rightarrow> bool" where
  "phys_placed s \<longleftrightarrow>
     (\<forall>z<num_zones s. 4096 * unat (abs_pfn_start (zones s z)) = unat (phys_base (zones s z)) \<and>
        unat (phys_base (zones s z)) + 4096 * unat (usable_num_pages (zones s z)) < 2 ^ 64) \<and>
     (\<forall>z<num_zones s. \<forall>z'<num_zones s. z \<noteq> z' \<longrightarrow>
        unat (phys_base (zones s z)) + 4096 * unat (usable_num_pages (zones s z)) \<le> unat (phys_base (zones s z')) \<or>
        unat (phys_base (zones s z')) + 4096 * unat (usable_num_pages (zones s z')) \<le> unat (phys_base (zones s z)))"

lemma in_zone_phys_iff:
  assumes "unat (phys_base zn) + 4096 * unat (usable_num_pages zn) < 2 ^ 64"
  shows "phys_base zn \<le> pa \<and> pa < phys_base zn + usable_num_pages zn * PAGE_SIZE \<longleftrightarrow>
    unat (phys_base zn) \<le> unat pa \<and> unat pa < unat (phys_base zn) + 4096 * unat (usable_num_pages zn)"
proof -
  have m: "unat (usable_num_pages zn * PAGE_SIZE) = 4096 * unat (usable_num_pages zn)"
    by (subst unat_mult_no_overflow) (use assms in \<open>simp_all add: PAGE_SIZE_def\<close>)
  have "unat (phys_base zn + usable_num_pages zn * PAGE_SIZE) =
      unat (phys_base zn) + 4096 * unat (usable_num_pages zn)"
    by (subst unat_add_no_overflow) (use assms m in simp_all)
  then show ?thesis by (simp add: word_le_nat_alt word_less_nat_alt)
qed

lemma page_from_paddr_search_skip:
  assumes "z0 \<le> z" and "z < z0 + k"
    and "\<And>y. z0 \<le> y \<Longrightarrow> y < z \<Longrightarrow> \<not> (phys_base (zones s y) \<le> pa \<and>
           pa < phys_base (zones s y) + usable_num_pages (zones s y) * PAGE_SIZE)"
    and "phys_base (zones s z) \<le> pa \<and> pa < phys_base (zones s z) + usable_num_pages (zones s z) * PAGE_SIZE"
  shows "page_from_paddr_search k z0 pa s =
    Some (mem_map (zones s z) + sizeof_page * (pa div PAGE_SIZE - abs_pfn_start (zones s z)))"
  using assms
proof (induction k arbitrary: z0)
  case 0
  then show ?case by simp
next
  case (Suc k)
  show ?case
  proof (cases "z0 = z")
    case True
    with Suc.prems show ?thesis by (simp add: Let_def)
  next
    case False
    with Suc.prems(1) have "z0 < z" by simp
    with Suc.prems(3) [of z0] Suc.IH [of "Suc z0"] Suc.prems show ?thesis by (auto simp: Let_def)
  qed
qed

lemma phys_addr_roundtrip:
  assumes mp: "maps_placed s" and pp: "phys_placed s" and z: "z < num_zones s"
    and i: "i < unat (usable_num_pages (zones s z))"
  shows "\<exists>pa. get_phys_addr_from_page (page_addr z i s) s = Inr pa \<and>
    unat pa = unat (phys_base (zones s z)) + 4096 * i \<and>
    get_page_from_paddr pa s = Some (page_addr z i s)"
proof -
  let ?zn = "zones s z" and ?pa = "(abs_pfn_start (zones s z) + of_nat i) * PAGE_SIZE"
  have pl: "unat (phys_base (zones s y)) + 4096 * unat (usable_num_pages (zones s y)) < 2 ^ 64"
    if "y < num_zones s" for y using pp that by (auto simp: phys_placed_def)
  have st: "4096 * unat (abs_pfn_start ?zn) = unat (phys_base ?zn)" using pp z by (simp add: phys_placed_def)
  have ui: "unat (of_nat i :: u64) = i" using pl [OF z] i by (simp add: unat_of_nat)
  have us: "unat (abs_pfn_start ?zn + of_nat i) = unat (abs_pfn_start ?zn) + i"
    by (subst unat_add_no_overflow) (use pl [OF z] st i ui in simp_all)
  have upa: "unat ?pa = unat (phys_base ?zn) + 4096 * i"
    by (subst unat_mult_no_overflow) (use pl [OF z] st i us in \<open>simp_all add: PAGE_SIZE_def\<close>)
  have here: "phys_base ?zn \<le> ?pa \<and> ?pa < phys_base ?zn + usable_num_pages ?zn * PAGE_SIZE"
    unfolding in_zone_phys_iff [OF pl [OF z]] upa using i by simp
  have nothere: "\<not> (phys_base (zones s y) \<le> ?pa \<and>
      ?pa < phys_base (zones s y) + usable_num_pages (zones s y) * PAGE_SIZE)" if "y < z" for y
  proof -
    have y: "y < num_zones s" using that z by simp
    have "unat (phys_base (zones s y)) + 4096 * unat (usable_num_pages (zones s y)) \<le> unat (phys_base ?zn) \<or>
        unat (phys_base ?zn) + 4096 * unat (usable_num_pages ?zn) \<le> unat (phys_base (zones s y))"
      using pp y z that unfolding phys_placed_def by blast
    with i show ?thesis unfolding in_zone_phys_iff [OF pl [OF y]] upa by linarith
  qed
  have "?pa div PAGE_SIZE = abs_pfn_start ?zn + of_nat i"
  proof (rule unsigned_word_eqI)
    have "unat (?pa div PAGE_SIZE) = (unat (phys_base ?zn) + 4096 * i) div 4096"
      unfolding unat_div upa by (simp add: PAGE_SIZE_def)
    also have "\<dots> = unat (abs_pfn_start ?zn + of_nat i)" unfolding us st [symmetric] by simp
    finally show "unat (?pa div PAGE_SIZE) = unat (abs_pfn_start ?zn + of_nat i)" .
  qed
  then have "get_page_from_paddr ?pa s = Some (page_addr z i s)"
    unfolding get_page_from_paddr_def
    using page_from_paddr_search_skip [of 0 z "num_zones s" s ?pa] here nothere z
    by (simp add: page_addr_def)
  moreover have "get_phys_addr_from_page (page_addr z i s) s = Inr ?pa"
    using get_zone_and_pfn_page_addr [OF mp z i] by (simp add: get_phys_addr_from_page_def)
  ultimately show ?thesis using upa by blast
qed

section \<open>A small machine\<close>

text \<open>One directly mapped zone of four pages, initialised by the code's own loops.\<close>

definition small_zone :: memory_zone where
  "small_zone = \<lparr>fa_map = (\<lambda>_. 0xffff800000010000), phys_base = 0x100000, abs_pfn_base = 0x100,
     abs_pfn_start = 0x100, abs_num_pages = 4, usable_num_pages = 4, available_pages = 4,
     max_order = 2, bitmap_sizes = (\<lambda>_. 4), mem_map = 0xffff800000001000,
     zflags = MEMZONE_IDENTITY_MAPPED\<rparr>"

definition small_boot :: alloc_state where
  "small_boot = \<lparr>num_zones = 1, zones = (\<lambda>_. small_zone), biggest_mapped_idx = 0,
     total_system_memory = 0x4000, total_system_memory_pages = 4, allocator_maintenance_memory = 0,
     total_maintenance_used = 0, links = (\<lambda>x. \<lparr>lh_next = x, lh_prev = x\<rparr>), wmem = (\<lambda>_. 0),
     pages = (\<lambda>_. \<lparr>usage = 0, pflags = 0, refcnt = 0, pc_owner = 0\<rparr>), ram = (\<lambda>_. 0)\<rparr>"

definition small_state :: alloc_state where
  "small_state = init_free_lists 0 small_boot"

definition small_free :: "nat \<Rightarrow> nat \<Rightarrow> nat list" where
  "small_free = (\<lambda>z k. if k = 2 then [0] else [])"

lemma small_zones [simp]:
  "zones small_boot = (\<lambda>_. small_zone)" "num_zones small_boot = 1"
  "zones small_state = (\<lambda>_. small_zone)" "num_zones small_state = 1"
  by (simp_all add: small_boot_def small_state_def init_free_lists_zones)

lemma small_zone_fields [simp]:
  "max_order small_zone = 2" "usable_num_pages small_zone = 4" "available_pages small_zone = 4"
  "mem_map small_zone = 0xffff800000001000" "phys_base small_zone = 0x100000"
  "abs_pfn_start small_zone = 0x100" "zflags small_zone = MEMZONE_IDENTITY_MAPPED"
  "fa_map small_zone k \<noteq> 0"
  by (simp_all add: small_zone_def)

lemma small_zone_ok: "zone_ok small_boot z \<longleftrightarrow> z = 0" "zone_ok small_state z \<longleftrightarrow> z = 0"
  by (auto simp: zone_ok_def maps_placed_def MAX_PG_ORDER_def)

lemma small_self: "ring (links small_boot) x []"
  by (simp add: small_boot_def ring_Nil)

lemma small_free_eq: "(\<lambda>_. [])(2 := big_blocks 2 1) = small_free 0"
  by (auto simp: small_free_def big_blocks_def)

lemma small_zone_inv: "zone_inv small_state 0 (small_free 0)"
  using init_free_lists_inv [of small_boot 0] small_zone_ok(1) [of 0] small_self small_free_eq
  by (simp add: small_state_def)

lemma small_free_set: "free_set 2 (small_free 0) = {0..<4}"
proof -
  have "free_set 2 ((\<lambda>_. [])(2 := [0])) = {0..<4}"
    by (subst free_set_upd) (auto simp: blk_def)
  moreover have "(\<lambda>_. [])(2 := [0]) = small_free 0" by (auto simp: small_free_def)
  ultimately show ?thesis by simp
qed

lemma small_sys_inv: "sys_inv small_state small_free"
  using small_zone_inv small_zone_ok(2) [of 0] small_free_set by (simp add: sys_inv_def)

lemma small_eligible: "k \<le> 2 \<Longrightarrow> eligible small_state small_free PGALLOC_KERNEL k 0"
  by (auto simp: eligible_def small_free_def PGALLOC_KERNEL_def MEMZONE_IDENTITY_MAPPED_def BIT32_def
      intro!: exI [of _ 2])

section \<open>Properties\<close>

text \<open>
  C1: when some directly mapped zone has a free block of at least the requested order,
  \<open>alloc_pages\<close> returns a block of exactly the requested size, aligned to it, inside the zone
  and made of free pages only; the free lists of every zone are well-formed again, the free pages
  are the old ones without the block, the counters agree with them, and the reference count is 0.
\<close>

theorem alloc_pages_gives_free_block:
  assumes "sys_inv s F" and "\<exists>z<num_zones s. eligible s F flags k z"
  shows "\<exists>p s'. alloc_pages get_page_vaddr flags k s = Inr (p, s') \<and> alloc_outcome s F k p s' \<and>
    refcnt (pages s' p) = 0"
  by (rule alloc_pages_outcome [OF assms])

theorem alloc_pages_gives_free_block_witness:
  "sys_inv small_state small_free \<and>
   (\<exists>p s'. alloc_pages (\<lambda>p s. 0) PGALLOC_KERNEL 1 small_state = Inr (p, s') \<and>
      alloc_outcome small_state small_free 1 p s')"
  using alloc_pages_gives_free_block [of small_state small_free PGALLOC_KERNEL 1 "\<lambda>p s. 0"]
    small_sys_inv small_eligible [of 1] by auto

text \<open>
  C35: when no directly mapped zone has a large enough free block, \<open>alloc_pages\<close> does not
  report the failure to its caller: it goes on to clear and initialise the page it did not find.
\<close>

theorem alloc_pages_out_of_memory:
  assumes "sys_inv s F" and "\<not> (\<exists>z<num_zones s. eligible s F flags k z)"
  shows "alloc_pages get_page_vaddr flags k s = Inl NullDeref"
  by (rule alloc_pages_none [OF assms])

theorem alloc_pages_out_of_memory_witness:
  "alloc_pages (\<lambda>p s. 0) PGALLOC_KERNEL 3 small_state = Inl NullDeref"
  by (rule alloc_pages_out_of_memory [OF small_sys_inv]) (simp add: eligible_def)

text \<open>
  C30: \<open>__alloc_from_zone\<close> fails exactly when the zone has no free block of the requested order
  or a higher one, and then changes nothing.
\<close>

theorem alloc_from_zone_complete:
  assumes "zone_ok s z" and "zone_inv s z F" and "k \<le> max_order (zones s z)"
  shows "((\<exists>s'. alloc_from_zone z k s = Inr (None, s')) \<longleftrightarrow>
      (\<forall>j. k \<le> j \<and> j \<le> max_order (zones s z) \<longrightarrow> F j = [])) \<and>
    (\<forall>s'. alloc_from_zone z k s = Inr (None, s') \<longrightarrow> s' = s)"
  using alloc_from_zone_ok [OF assms] by auto

theorem alloc_from_zone_complete_witness:
  "\<not> (\<exists>s'. alloc_from_zone 0 1 small_state = Inr (None, s'))"
  using alloc_from_zone_complete [of small_state 0 "small_free 0" 1] small_zone_ok(2) [of 0]
    small_zone_inv by (auto simp: small_free_def)

text \<open>
  C29: \<open>__init_free_lists\<close> on a zone whose page structures are off every list establishes the
  allocator's invariant, with the whole zone free in blocks of the highest order.
\<close>

theorem init_free_lists_establishes:
  assumes "zone_ok s z"
    and "\<And>p. p < unat (usable_num_pages (zones s z)) \<Longrightarrow> ring (links s) (pnode (mem_map (zones s z)) p) []"
  shows "zone_inv (init_free_lists z s) z ((\<lambda>_. [])(max_order (zones s z) :=
    big_blocks (max_order (zones s z)) (unat (usable_num_pages (zones s z)) div 2 ^ max_order (zones s z))))"
  by (rule init_free_lists_inv [OF assms])

theorem init_free_lists_establishes_witness:
  "zone_inv (init_free_lists 0 small_boot) 0 ((\<lambda>_. [])(2 := big_blocks 2 1))"
  using init_free_lists_establishes [of small_boot 0] small_zone_ok(1) [of 0] small_self by simp

text \<open>
  The physical address of a page and the page of a physical address are inverse to each
  other in every zone whose page frames are counted from its base, which holds of all zones
  except the one that keeps the allocator's own data.
\<close>

theorem page_paddr_roundtrip:
  assumes "maps_placed s" and "phys_placed s" and "z < num_zones s"
    and "i < unat (usable_num_pages (zones s z))"
  shows "\<exists>pa. get_phys_addr_from_page (page_addr z i s) s = Inr pa \<and>
    unat pa = unat (phys_base (zones s z)) + 4096 * i \<and>
    get_page_from_paddr pa s = Some (page_addr z i s)"
  by (rule phys_addr_roundtrip [OF assms])

theorem page_paddr_roundtrip_witness:
  "\<exists>pa. get_phys_addr_from_page (page_addr 0 3 small_state) small_state = Inr pa \<and>
    get_page_from_paddr pa small_state = Some (page_addr 0 3 small_state)"
  using page_paddr_roundtrip [of small_state 0 3] by (auto simp: maps_placed_def phys_placed_def)

text \<open>
  \<open>free_pages\<close> of a block whose buddy is in use leaves a free list of that order with the
  freed block as its only element, whatever the list held before: the arguments of
  \<open>list_add\<close> are exchanged in the source, so the blocks that were free are lost.
\<close>

theorem free_pages_replaces_free_list:
  assumes "zone_ok s z" and "i < unat (usable_num_pages (zones s z))" and "k < max_order (zones s z)"
    and "2 ^ k dvd i" and "ring (links s) (PageNode (page_addr z i s)) []"
    and "\<not> bit (wmem s (fa_map (zones s z) k + 4 * (drop_bit (k + 1) (of_nat i) div 32)))
             (unat (drop_bit (k + 1) (of_nat i :: u64) mod 32))"
  shows "\<exists>s'. free_pages (page_addr z i s) k s = Inr s' \<and>
    ring (links s') (FreeHead z k) [PageNode (page_addr z i s)] \<and>
    available_pages (zones s' z) = available_pages (zones s z) + 2 ^ k"
  by (rule free_pages_no_merge [OF assms])

theorem free_pages_replaces_free_list_witness:
  "\<exists>s'. free_pages (page_addr 0 2 small_boot) 1 small_boot = Inr s' \<and>
    ring (links s') (FreeHead 0 1) [PageNode (page_addr 0 2 small_boot)]"
proof -
  have "\<exists>s'. free_pages (page_addr 0 2 small_boot) 1 small_boot = Inr s' \<and>
      ring (links s') (FreeHead 0 1) [PageNode (page_addr 0 2 small_boot)] \<and>
      available_pages (zones s' 0) = available_pages (zones small_boot 0) + 2 ^ 1"
    by (rule free_pages_replaces_free_list)
      (use small_zone_ok(1) [of 0] small_self in \<open>simp_all add: small_boot_def\<close>)
  then show ?thesis by blast
qed

text \<open>
  For a zone with at least one page, \<open>__get_max_order\<close> is the largest order, at most 10,
  of a block that fits into the zone.
\<close>

theorem get_max_order_largest:
  assumes "n \<noteq> 0"
  shows "2 ^ get_max_order n \<le> unat n \<and> get_max_order n \<le> MAX_PG_ORDER \<and>
    (get_max_order n < MAX_PG_ORDER \<longrightarrow> unat n < 2 ^ Suc (get_max_order n))"
  using get_max_order_bounds [OF assms] by (simp add: MAX_PG_ORDER_def)

theorem get_max_order_largest_witness: "2 ^ get_max_order 5 \<le> unat (5 :: u32) \<and> get_max_order 5 \<le> MAX_PG_ORDER"
  using get_max_order_largest [of 5] by simp

end
