(* ===== verification/Slab.thy ===== *)
theory Slab
  imports Buddy
begin

text \<open>
  The object caches and \<open>kmalloc\<close> of \<^verbatim>\<open>kernel/slab.c\<close>, on top of the page allocator. A slab is
  a block of pages cut into objects; its free objects form a chain of indices in an array that
  follows the slab descriptor, ended by \<open>FREE_LIST_END\<close>. The \<open>list\<close> member of every page of a
  slab holds the cache and the slab it belongs to (two casts in the source, \<open>CastNode\<close> here).

  Cache and slab descriptors are kept in typed stores by address; the address of a descriptor is
  the address the code gives it (an object of the root cache, the start of the slab's pages, or
  memory from \<open>kmalloc\<close>). The object contents are the \<open>ram\<close> of the page allocator.
\<close>

section \<open>State\<close>

definition FREE_LIST_END :: u32 where "FREE_LIST_END = 0xdeadbeef"
definition OBJMEM_CACHE_SLAB_META_IN_BLOCK :: u32 where "OBJMEM_CACHE_SLAB_META_IN_BLOCK = 1"
definition KMALLOC_SIZES :: nat where "KMALLOC_SIZES = 11"
definition CACHE_NAME_SIZE :: nat where "CACHE_NAME_SIZE = 64"
definition sizeof_slab :: u32 where "sizeof_slab = 32"
definition sizeof_cache :: u32 where "sizeof_cache = 144"

text \<open>The list heads of the caches and slabs, and the two poison values of \<open>list_del\<close>.\<close>

datatype cnode =
    CacheList u64 | SlabsFree u64 | SlabsFull u64 | SlabsPartial u64 | SlabList u64
  | Poison1 | Poison2

record slab =
  sl_mem :: u64
  in_use :: u32
  next_free :: u32

record obj_mem_cache =
  cflags :: u32
  object_size :: u32
  objs_per_slab :: u32
  cpage_order :: nat
  cname :: string

record slab_state =
  pa :: alloc_state
  root_cache :: u64
  caches :: "u64 \<Rightarrow> obj_mem_cache"
  slabs :: "u64 \<Rightarrow> slab"
  free_idx :: "u64 \<Rightarrow> nat \<Rightarrow> u32"     \<comment> \<open>\<open>SLAB_FREE_LISTP(slab)[i]\<close>\<close>
  clinks :: "cnode lheap"
  malloc_cache :: "nat \<Rightarrow> u64"         \<comment> \<open>\<open>malloc_sizes[i].cache\<close>\<close>

text \<open>The table \<open>malloc_sizes\<close>: sizes, page orders and names, up to the null element.\<close>

definition malloc_sizes :: "(u64 \<times> nat \<times> string) list" where
  "malloc_sizes =
     [(32, 0, ''kmalloc-32''), (64, 0, ''kmalloc-64''), (128, 0, ''kmalloc-128''),
      (256, 1, ''kmalloc-256''), (512, 1, ''kmalloc-512''), (1024, 1, ''kmalloc-1024''),
      (2048, 1, ''kmalloc-2048''), (4096, 1, ''kmalloc-4096''), (8192, 2, ''kmalloc-8192''),
      (16384, 4, ''kmalloc-16384''), (32768, 4, ''kmalloc-32768'')]"

definition upd_slab :: "u64 \<Rightarrow> (slab \<Rightarrow> slab) \<Rightarrow> slab_state \<Rightarrow> slab_state" where
  "upd_slab sl f s = s\<lparr>slabs := (slabs s)(sl := f (slabs s sl))\<rparr>"

definition upd_cache :: "u64 \<Rightarrow> (obj_mem_cache \<Rightarrow> obj_mem_cache) \<Rightarrow> slab_state \<Rightarrow> slab_state" where
  "upd_cache c f s = s\<lparr>caches := (caches s)(c := f (caches s c))\<rparr>"

definition upd_clinks :: "(cnode lheap \<Rightarrow> cnode lheap) \<Rightarrow> slab_state \<Rightarrow> slab_state" where
  "upd_clinks f s = s\<lparr>clinks := f (clinks s)\<rparr>"

definition set_free_idx :: "u64 \<Rightarrow> nat \<Rightarrow> u32 \<Rightarrow> slab_state \<Rightarrow> slab_state" where
  "set_free_idx sl i v s = s\<lparr>free_idx := (free_idx s)(sl := (free_idx s sl)(i := v))\<rparr>"

section \<open>Cache descriptors\<close>

text \<open>
  The loop of \<open>__calc_num_objects\<close>: \<open>count\<close> runs from 1 below \<open>slab_size\<close>; the first argument
  counts the iterations left. \<open>None\<close> is the loop running out, which leaves \<open>objs_per_slab\<close> as it was.
\<close>

fun calc_num_loop :: "nat \<Rightarrow> u32 \<Rightarrow> u32 \<Rightarrow> u32 \<Rightarrow> u32 option" where
  "calc_num_loop 0 count slab_size obj_size = None"
| "calc_num_loop (Suc k) count slab_size obj_size =
     (let desc_size = sizeof_slab + count * 4;
          objs_size = obj_size * count
      in if slab_size < desc_size + objs_size then Some (count - 1)
         else calc_num_loop k (count + 1) slab_size obj_size)"

definition calc_num_objects :: "obj_mem_cache \<Rightarrow> obj_mem_cache res" where
  "calc_num_objects c =
     (let slab_size = (push_bit (cpage_order c) 0x1000 :: u32)
      in if cflags c = 0 then
           (if object_size c = 0 then Inl DivByZero
            else Inr (c\<lparr>objs_per_slab := slab_size div object_size c\<rparr>))
         else (case calc_num_loop (unat slab_size - 1) 1 slab_size (object_size c) of
                 Some n \<Rightarrow> Inr (c\<lparr>objs_per_slab := n\<rparr>)
               | None \<Rightarrow> Inr c))"

definition initialize_cache :: "u64 \<Rightarrow> u32 \<Rightarrow> nat \<Rightarrow> string \<Rightarrow> slab_state \<Rightarrow> slab_state res" where
  "initialize_cache c obj_size page_order name s =
     (if length name \<ge> CACHE_NAME_SIZE then Inl OutOfBounds
      else
        (let fl = (if ucast obj_size \<le> push_bit page_order PAGE_SIZE div 8
                   then OBJMEM_CACHE_SLAB_META_IN_BLOCK else 0)
         in bind_res (calc_num_objects ((caches s c)\<lparr>cname := name, object_size := obj_size,
                                          cpage_order := page_order, cflags := fl\<rparr>))
              (\<lambda>d. Inr (upd_clinks (list_add (CacheList c) (CacheList (root_cache s)))
                     (upd_clinks (INIT_LIST_HEAD (SlabsPartial c))
                       (upd_clinks (INIT_LIST_HEAD (SlabsFull c))
                         (upd_clinks (INIT_LIST_HEAD (SlabsFree c))
                           (upd_cache c (\<lambda>_. d) s))))))))"

section \<open>Slabs\<close>

text \<open>The back pointers kept in the page structure of an address.\<close>

definition page_backptrs :: "u64 \<Rightarrow> slab_state \<Rightarrow> (u64 \<times> u64) res" where
  "page_backptrs va s =
     (case get_page_from_vaddr va (pa s) of
        None \<Rightarrow> Inl NullDeref
      | Some p \<Rightarrow>
          (case (lh_next (links (pa s) (PageNode p)), lh_prev (links (pa s) (PageNode p))) of
             (CastNode c, CastNode sl) \<Rightarrow> Inr (c, sl)
           | _ \<Rightarrow> Inl WildPointer))"

definition set_backptrs :: "u64 \<Rightarrow> nat \<Rightarrow> u64 \<Rightarrow> u64 \<Rightarrow> alloc_state \<Rightarrow> alloc_state" where
  "set_backptrs p n c sl a =
     fold (\<lambda>i. upd_links (\<lambda>h. set_prev (PageNode (p + sizeof_page * of_nat i)) (CastNode sl)
                                (set_next (PageNode (p + sizeof_page * of_nat i)) (CastNode c) h)))
       [0..<n] a"

text \<open>The chain 0, 1, 2, ... through all objects of a fresh slab.\<close>

definition init_chain :: "u64 \<Rightarrow> u32 \<Rightarrow> slab_state \<Rightarrow> slab_state res" where
  "init_chain sl n s =
     (let s1 = fold (\<lambda>i. set_free_idx sl i (of_nat i + 1)) [0..<unat n] s
      in if n = 0 then Inl OutOfBounds
         else Inr (set_free_idx sl (unat (n - 1)) FREE_LIST_END s1))"

definition alloc_from_slab :: "u64 \<Rightarrow> slab_state \<Rightarrow> (u64 \<times> slab_state) res" where
  "alloc_from_slab sl s =
     bind_res (page_backptrs (sl_mem (slabs s sl)) s) (\<lambda>(c, _).
       let nf = next_free (slabs s sl)
       in if nf = FREE_LIST_END then Inr (0, s)
          else if nf \<ge> objs_per_slab (caches s c) then Inl OutOfBounds
          else
            (let objp = sl_mem (slabs s sl) + ucast (nf * object_size (caches s c));
                 s1 = upd_slab sl (\<lambda>d. d\<lparr>next_free := free_idx s sl (unat nf)\<rparr>) s;
                 s2 = (if next_free (slabs s1 sl) = FREE_LIST_END
                       then upd_clinks (list_add (SlabList sl) (SlabsFull c))
                              (upd_clinks (list_del_init (SlabList sl)) s1)
                       else s1)
             in Inr (objp, upd_slab sl (\<lambda>d. d\<lparr>in_use := in_use d + 1\<rparr>) s2)))"

definition slab_of_node :: "cnode \<Rightarrow> u64 res" where
  "slab_of_node x = (case x of SlabList sl \<Rightarrow> Inr sl | _ \<Rightarrow> Inl WildPointer)"

text \<open>
  The size class \<open>kmalloc\<close> takes: the first whose size is at least the request.
\<close>

fun size_class :: "u64 \<Rightarrow> (u64 \<times> nat \<times> string) list \<Rightarrow> nat \<Rightarrow> nat option" where
  "size_class sz [] i = None"
| "size_class sz ((cs, _, _) # rest) i = (if cs < sz then size_class sz rest (Suc i) else Some i)"

text \<open>
  \<open>mem_cache_alloc_obj\<close>, \<open>__new_slab\<close> and \<open>kmalloc\<close> call each other: a cache whose slab
  descriptors are off the slab takes them from \<open>kmalloc\<close>. The first argument bounds the depth of
  that recursion; \<open>None\<close> is the bound being reached.
\<close>

type_synonym vaddr_of = "u64 \<Rightarrow> alloc_state \<Rightarrow> u64"

definition new_slab ::
    "(u64 \<Rightarrow> slab_state \<Rightarrow> (u64 \<times> slab_state) res option) \<Rightarrow> vaddr_of \<Rightarrow> u64 \<Rightarrow> slab_state \<Rightarrow>
     (u64 \<times> slab_state) res option" where
  "new_slab kmalloc' get_page_vaddr c s =
     (let d = caches s c
      in case alloc_pages get_page_vaddr PGALLOC_KERNEL (cpage_order d) (pa s) of
           Inl e \<Rightarrow> Some (Inl e)
         | Inr (p, a1) \<Rightarrow>
             (let s1 = s\<lparr>pa := a1\<rparr>;
                  va = get_page_vaddr p a1;
                  meta = sizeof_slab + 4 * objs_per_slab d
              in case (if cflags d AND OBJMEM_CACHE_SLAB_META_IN_BLOCK \<noteq> 0
                       then Some (Inr ((va, ucast meta), s1))
                       else map_option (\<lambda>r. bind_res r (\<lambda>(sl, s2). Inr ((sl, 0), s2)))
                              (kmalloc' (ucast meta) s1)) of
                   None \<Rightarrow> None
                 | Some (Inl e) \<Rightarrow> Some (Inl e)
                 | Some (Inr ((sl, mem_offset :: u64), s2)) \<Rightarrow>
                     if sl = 0 then Some (Inl NullDeref)
                     else
                     (let s3 = s2\<lparr>pa := set_backptrs p (2 ^ cpage_order d) c sl (pa s2)\<rparr>
                      in Some (bind_res (init_chain sl (objs_per_slab (caches s3 c)) s3) (\<lambda>s4.
                           Inr (sl, upd_slab sl (\<lambda>_. \<lparr>sl_mem = va + mem_offset, in_use = 0,
                                                       next_free = 0\<rparr>) s4))))))"

definition cache_alloc_with ::
    "(u64 \<Rightarrow> slab_state \<Rightarrow> (u64 \<times> slab_state) res option) \<Rightarrow> vaddr_of \<Rightarrow> u64 \<Rightarrow> slab_state \<Rightarrow>
     (u64 \<times> slab_state) res option" where
  "cache_alloc_with kmalloc' get_page_vaddr c s =
     (if \<not> list_empty (SlabsPartial c) (clinks s) then
        Some (bind_res (slab_of_node (lh_next (clinks s (SlabsPartial c)))) (\<lambda>sl. alloc_from_slab sl s))
      else if \<not> list_empty (SlabsFree c) (clinks s) then
        Some (bind_res (slab_of_node (lh_next (clinks s (SlabsFree c)))) (\<lambda>sl.
          bind_res (alloc_from_slab sl s) (\<lambda>(objp, s1).
            Inr (objp, upd_clinks (list_add (SlabList sl) (SlabsPartial c))
                         (upd_clinks (list_del_init (SlabList sl)) s1)))))
      else
        map_option (\<lambda>r. bind_res r (\<lambda>(sl, s1).
            bind_res (alloc_from_slab sl s1) (\<lambda>(objp, s2).
              Inr (objp, upd_clinks (list_add (SlabList sl) (SlabsPartial c)) s2))))
          (new_slab kmalloc' get_page_vaddr c s))"

fun kmalloc_fuel :: "nat \<Rightarrow> vaddr_of \<Rightarrow> u64 \<Rightarrow> slab_state \<Rightarrow> (u64 \<times> slab_state) res option" where
  "kmalloc_fuel n get_page_vaddr sz s =
     (case size_class sz malloc_sizes 0 of
        None \<Rightarrow> Some (Inr (0, s))
      | Some i \<Rightarrow>
          if malloc_cache s i = 0 then Some (Inl NullDeref)
          else (case n of
                  0 \<Rightarrow> None
                | Suc k \<Rightarrow> cache_alloc_with (kmalloc_fuel k get_page_vaddr) get_page_vaddr (malloc_cache s i) s))"

declare kmalloc_fuel.simps [simp del]

text \<open>
  Two levels are enough for the table above: a cache with its descriptors off the slab asks
  for at most 64 bytes, and that size class keeps its descriptors on the slab.
\<close>

definition kmalloc :: "vaddr_of \<Rightarrow> u64 \<Rightarrow> slab_state \<Rightarrow> (u64 \<times> slab_state) res option" where
  "kmalloc get_page_vaddr sz s = kmalloc_fuel 2 get_page_vaddr sz s"

definition mem_cache_alloc_obj :: "vaddr_of \<Rightarrow> u64 \<Rightarrow> slab_state \<Rightarrow> (u64 \<times> slab_state) res option" where
  "mem_cache_alloc_obj get_page_vaddr c s = cache_alloc_with (kmalloc get_page_vaddr) get_page_vaddr c s"

definition create_obj_mem_cache ::
    "vaddr_of \<Rightarrow> u32 \<Rightarrow> nat \<Rightarrow> string \<Rightarrow> slab_state \<Rightarrow> (u64 \<times> slab_state) res option" where
  "create_obj_mem_cache get_page_vaddr obj_size page_order name s =
     map_option (\<lambda>r. bind_res r (\<lambda>(c, s1).
         if c = 0 then Inl NullDeref
         else bind_res (initialize_cache c obj_size page_order name s1) (\<lambda>s2. Inr (c, s2))))
       (mem_cache_alloc_obj get_page_vaddr (root_cache s) s)"

fun create_malloc_caches ::
    "vaddr_of \<Rightarrow> (u64 \<times> nat \<times> string) list \<Rightarrow> nat \<Rightarrow> slab_state \<Rightarrow> slab_state res option" where
  "create_malloc_caches get_page_vaddr [] i s = Some (Inr s)"
| "create_malloc_caches get_page_vaddr ((sz, order, name) # rest) i s =
     (case create_obj_mem_cache get_page_vaddr (ucast sz) order name s of
        None \<Rightarrow> None
      | Some (Inl e) \<Rightarrow> Some (Inl e)
      | Some (Inr (c, s1)) \<Rightarrow> create_malloc_caches get_page_vaddr rest (Suc i)
                               (s1\<lparr>malloc_cache := (malloc_cache s1)(i := c)\<rparr>))"

definition obj_mem_cache_init :: "vaddr_of \<Rightarrow> slab_state \<Rightarrow> slab_state res option" where
  "obj_mem_cache_init get_page_vaddr s =
     (let s1 = upd_clinks (INIT_LIST_HEAD (CacheList (root_cache s))) s
      in case initialize_cache (root_cache s) sizeof_cache 0 ''root_cache'' s1 of
           Inl e \<Rightarrow> Some (Inl e)
         | Inr s2 \<Rightarrow> create_malloc_caches get_page_vaddr malloc_sizes 0 s2)"

section \<open>Release\<close>

definition free_from_slab :: "u64 \<Rightarrow> u32 \<Rightarrow> slab_state \<Rightarrow> slab_state" where
  "free_from_slab sl offset s =
     (let s1 = set_free_idx sl (unat offset) (next_free (slabs s sl)) s
      in upd_slab sl (\<lambda>d. d\<lparr>next_free := offset, in_use := in_use d - 1\<rparr>) s1)"

definition mem_cache_free_obj :: "u64 \<Rightarrow> u64 \<Rightarrow> slab_state \<Rightarrow> slab_state res" where
  "mem_cache_free_obj c obj s =
     bind_res (page_backptrs obj s) (\<lambda>(_, sl).
       let mem_phys = VA2PA (sl_mem (slabs s sl));
           obj_phys = VA2PA obj;
           offset = (obj_phys - mem_phys) div ucast (object_size (caches s c))
       in if object_size (caches s c) = 0 then Inl DivByZero
          else if (ucast offset :: u32) \<ge> objs_per_slab (caches s c) then Inl OutOfBounds
          else
            (let s1 = free_from_slab sl (ucast offset) s
             in Inr (if in_use (slabs s1 sl) = 0
                     then upd_clinks (list_add (SlabList sl) (SlabsFree c))
                            (upd_clinks (list_del Poison1 Poison2 (SlabList sl)) s1)
                     else s1)))"

definition kfree :: "u64 \<Rightarrow> slab_state \<Rightarrow> slab_state res" where
  "kfree ptr s = bind_res (page_backptrs ptr s) (\<lambda>(c, _). mem_cache_free_obj c ptr s)"

section \<open>Number of objects per slab\<close>

text \<open>
  The loop finds the largest count that fits: the descriptor, the index array and the objects
  take at most the slab, and one object more does not fit.
\<close>

definition slab_bytes :: "nat \<Rightarrow> nat \<Rightarrow> nat" where
  "slab_bytes obj_size n = 32 + 4 * n + obj_size * n"

lemma calc_num_loop_correct:
  assumes "unat count + k = unat slab_size" and "unat count \<noteq> 0"
    and "slab_bytes (unat obj_size) (unat count - 1) \<le> unat slab_size"
    and "unat slab_size < 2 ^ 16" and "unat obj_size < 2 ^ 13"
  shows "\<exists>n. calc_num_loop k count slab_size obj_size = Some n \<and>
    slab_bytes (unat obj_size) (unat n) \<le> unat slab_size \<and>
    unat slab_size < slab_bytes (unat obj_size) (unat n + 1)"
  using assms
proof (induction k arbitrary: count)
  case 0
  then show ?case by (simp add: slab_bytes_def)
next
  case (Suc k)
  have c: "unat count < 2 ^ 16" using Suc.prems by simp
  have "unat obj_size * unat count < 2 ^ 13 * 2 ^ 16"
    using Suc.prems(5) c by (intro mult_strict_mono) auto
  then have p: "unat (obj_size * count) = unat obj_size * unat count"
    "unat obj_size * unat count < 2 ^ 29"
    by (auto intro: unat_mult_no_overflow)
  have d: "unat (sizeof_slab + count * 4) = 32 + unat count * 4"
    using c by (simp add: sizeof_slab_def unat_word_ariths)
  have sb: "unat (sizeof_slab + count * 4 + obj_size * count) = slab_bytes (unat obj_size) (unat count)"
    by (subst unat_add_no_overflow) (use p d c in \<open>simp_all add: slab_bytes_def\<close>)
  have cm: "unat (count - 1) = unat count - 1"
    using Suc.prems(2) by (simp add: unat_minus_one unat_gt_0 flip: unat_gt_0)
  have cp: "unat (count + 1) = unat count + 1"
    by (subst unat_add_no_overflow) (use c in simp_all)
  show ?case
  proof (cases "slab_size < sizeof_slab + count * 4 + obj_size * count")
    case True
    then have "unat slab_size < slab_bytes (unat obj_size) (unat count)"
      by (simp add: word_less_nat_alt sb)
    with True Suc.prems(2,3) cm show ?thesis by (simp add: Let_def)
  next
    case False
    then have "slab_bytes (unat obj_size) (unat count) \<le> unat slab_size"
      by (simp add: word_less_nat_alt sb)
    with Suc.IH [of "count + 1"] Suc.prems cp have "\<exists>n. calc_num_loop k (count + 1) slab_size obj_size = Some n \<and>
        slab_bytes (unat obj_size) (unat n) \<le> unat slab_size \<and>
        unat slab_size < slab_bytes (unat obj_size) (unat n + 1)"
      by simp
    with False show ?thesis by (simp add: Let_def)
  qed
qed

section \<open>The chain of free objects\<close>

fun chain :: "(nat \<Rightarrow> u32) \<Rightarrow> u32 \<Rightarrow> u32 list \<Rightarrow> bool" where
  "chain a x [] \<longleftrightarrow> x = FREE_LIST_END"
| "chain a x (i # is) \<longleftrightarrow> x = i \<and> i \<noteq> FREE_LIST_END \<and> chain a (a (unat i)) is"

definition slab_inv :: "slab_state \<Rightarrow> u64 \<Rightarrow> u32 \<Rightarrow> u32 list \<Rightarrow> bool" where
  "slab_inv s sl n fs \<longleftrightarrow> chain (free_idx s sl) (next_free (slabs s sl)) fs \<and> distinct fs \<and>
     (\<forall>i\<in>set fs. i < n) \<and> unat (in_use (slabs s sl)) + length fs = unat n"

lemma chain_cong:
  "(\<And>i. i \<in> set is \<Longrightarrow> a (unat i) = b (unat i)) \<Longrightarrow> chain a x is = chain b x is"
  by (induction "is" arbitrary: x) auto

lemma chain_upd_notin: "i \<notin> set is \<Longrightarrow> chain (a(unat i := v)) x is = chain a x is"
  by (rule chain_cong) (auto dest: word_unat_eq_iff [THEN iffD2])

lemma list_ops_keep:
  "slabs (upd_clinks f s) = slabs s" "free_idx (upd_clinks f s) = free_idx s"
  "caches (upd_clinks f s) = caches s" "pa (upd_clinks f s) = pa s"
  by (simp_all add: upd_clinks_def)

text \<open>Taking an object: the first of the chain, until the chain is empty.\<close>

lemma alloc_from_slab_pop:
  assumes "slab_inv s sl n (i # is)" and "page_backptrs (sl_mem (slabs s sl)) s = Inr (c, x)"
    and "objs_per_slab (caches s c) = n"
  shows "\<exists>s'. alloc_from_slab sl s =
      Inr (sl_mem (slabs s sl) + ucast (i * object_size (caches s c)), s') \<and> slab_inv s' sl n is \<and>
      (\<forall>y. y \<noteq> sl \<longrightarrow> slabs s' y = slabs s y) \<and> free_idx s' = free_idx s \<and> sl_mem (slabs s' sl) = sl_mem (slabs s sl)"
proof -
  have i: "next_free (slabs s sl) = i" "i \<noteq> FREE_LIST_END" "i < n"
    "chain (free_idx s sl) (free_idx s sl (unat i)) is" "distinct is" "\<forall>j\<in>set is. j < n"
    "unat (in_use (slabs s sl)) + Suc (length is) = unat n"
    using assms(1) by (auto simp: slab_inv_def)
  have "unat (in_use (slabs s sl)) + 1 < 2 ^ 32" using i(7) unat_u32_bound [of n] by simp
  then have "unat (in_use (slabs s sl) + 1) = unat (in_use (slabs s sl)) + 1"
    by (subst unat_add_no_overflow) simp_all
  with i show ?thesis
    using assms(2,3)
    by (auto simp: alloc_from_slab_def Let_def slab_inv_def upd_slab_def upd_clinks_def not_le)
qed

text \<open>Returning an object: it becomes the first of the chain.\<close>

lemma free_from_slab_push:
  assumes "slab_inv s sl n fs" and "i < n" and "i \<notin> set fs" and "i \<noteq> FREE_LIST_END"
    and "in_use (slabs s sl) \<noteq> 0"
  shows "slab_inv (free_from_slab sl i s) sl n (i # fs)"
proof -
  have "unat (in_use (slabs s sl) - 1) = unat (in_use (slabs s sl)) - 1"
    using assms(5) by (simp add: unat_minus_one)
  moreover have "0 < unat (in_use (slabs s sl))" using assms(5) by (simp add: unat_gt_0)
  ultimately show ?thesis
    using assms(1-4) chain_upd_notin [OF assms(3)]
    by (simp add: slab_inv_def free_from_slab_def Let_def upd_slab_def set_free_idx_def)
qed

lemma fold_set_free_idx:
  "fold (\<lambda>i. set_free_idx sl i (f i)) is s =
     s\<lparr>free_idx := (free_idx s)(sl := (\<lambda>i. if i \<in> set is then f i else free_idx s sl i))\<rparr>"
proof (induction "is" arbitrary: s)
  case Nil
  then show ?case by simp
next
  case (Cons j js)
  show ?case
    unfolding fold.simps comp_apply Cons.IH
    by (rule slab_state.equality) (auto simp: set_free_idx_def fun_eq_iff)
qed

lemma init_chain_full:
  assumes "n \<noteq> 0" and "n \<le> FREE_LIST_END"
  shows "\<exists>s'. init_chain sl n s = Inr s' \<and> chain (free_idx s' sl) 0 (map of_nat [0..<unat n])"
proof -
  let ?a = "(\<lambda>i. if i < unat n then of_nat i + 1 else free_idx s sl i)(unat (n - 1) := FREE_LIST_END)"
  have n0: "0 < unat n" using assms(1) by (simp add: unat_gt_0)
  have n1: "unat (n - 1) = unat n - 1" using assms(1) by (simp add: unat_minus_one)
  have ne: "(of_nat j :: u32) \<noteq> FREE_LIST_END" "unat (of_nat j :: u32) = j" if "j < unat n" for j
  proof -
    show u: "unat (of_nat j :: u32) = j" using that unat_u32_bound [of n] by (simp add: unat_of_nat)
    have "unat n \<le> unat FREE_LIST_END" using assms(2) by (simp add: word_le_nat_alt)
    with u that show "(of_nat j :: u32) \<noteq> FREE_LIST_END" by auto
  qed
  have "chain ?a (of_nat j) (map of_nat [j..<unat n])" if "j < unat n" for j
    using that
  proof (induction "unat n - j" arbitrary: j)
    case 0
    then show ?case by simp
  next
    case (Suc d)
    show ?case
    proof (cases "Suc j = unat n")
      case True
      then have "[j..<unat n] = [j]" by (simp add: upt_rec)
      moreover have "j = unat n - Suc 0" using True by simp
      ultimately show ?thesis using ne [OF Suc.prems] n1 by simp
    next
      case False
      with Suc.prems have j: "Suc j < unat n" by simp
      have "chain ?a (of_nat (Suc j)) (map of_nat [Suc j..<unat n])"
        by (rule Suc.hyps(1)) (use Suc.hyps(2) j in simp_all)
      moreover have "[j..<unat n] = j # [Suc j..<unat n]" using Suc.prems by (simp add: upt_rec)
      moreover have "?a j = of_nat (Suc j)" using Suc.prems j n1 by (auto simp: add.commute)
      ultimately show ?thesis using ne [OF Suc.prems] by simp
    qed
  qed
  from this [of 0] n0 have "chain ?a 0 (map of_nat [0..<unat n])" by simp
  then show ?thesis
    using assms(1) by (simp add: init_chain_def Let_def fold_set_free_idx set_free_idx_def)
qed

section \<open>Objects and their indices\<close>

text \<open>\<open>mem_cache_free_obj\<close> recovers the index of an object from its address.\<close>

lemma obj_index:
  fixes sz :: u32
  assumes "0xffff800000000000 \<le> base" and "unat base + unat sz * (unat i + 1) < 2 ^ 64" and "sz \<noteq> 0"
    and "unat sz * unat i < 2 ^ 32"
  shows "ucast ((VA2PA (base + ucast (i * sz)) - VA2PA base) div ucast sz :: u64) = (i :: u32)"
proof -
  let ?o = "base + ucast (i * sz) :: u64"
  have m: "unat (ucast (i * sz) :: u64) = unat sz * unat i"
    using assms(4) by (simp add: unsigned_ucast_eq unat_word_ariths mult.commute take_bit_nat_eq_self)
  have o: "unat ?o = unat base + unat sz * unat i"
    by (subst unat_add_no_overflow) (use assms(2) m in simp_all)
  have ge: "0xffff800000000000 \<le> ?o" using assms(1) o by (simp add: word_le_nat_alt)
  have b: "0xffff800000000000 \<le> unat base" using assms(1) by (simp add: word_le_nat_alt)
  have le: "VA2PA base \<le> VA2PA ?o"
    using o b by (simp add: word_le_nat_alt VA2PA_direct [OF assms(1)] VA2PA_direct [OF ge])
  have d: "unat (VA2PA ?o - VA2PA base) = unat sz * unat i"
    using unat_sub [OF le] o b by (simp add: VA2PA_direct [OF assms(1)] VA2PA_direct [OF ge])
  have s64: "unat (ucast sz :: u64) = unat sz"
    using unat_u32_bound [of sz] by (simp add: unsigned_ucast_eq take_bit_nat_eq_self)
  have "0 < unat sz" using assms(3) by (simp add: unat_gt_0)
  then have "unat ((VA2PA ?o - VA2PA base) div ucast sz) = unat i"
    unfolding unat_div d s64 by simp
  then have "unat (ucast ((VA2PA ?o - VA2PA base) div ucast sz) :: u32) = unat i"
    using unat_u32_bound [of i] by (simp add: unsigned_ucast_eq take_bit_nat_eq_self)
  then show ?thesis by (simp add: word_unat_eq_iff)
qed

section \<open>Depth of the recursion between the caches\<close>

definition cache_ok :: "obj_mem_cache \<Rightarrow> u32 \<Rightarrow> nat \<Rightarrow> bool" where
  "cache_ok d obj_size order \<longleftrightarrow> object_size d = obj_size \<and> cpage_order d = order \<and>
     cflags d = (if ucast obj_size \<le> push_bit order PAGE_SIZE div 8
                 then OBJMEM_CACHE_SLAB_META_IN_BLOCK else 0) \<and>
     calc_num_objects d = Inr d"

lemma calc_num_objects_idem: "calc_num_objects d = Inr d' \<Longrightarrow> calc_num_objects d' = Inr d' \<and>
    object_size d' = object_size d \<and> cpage_order d' = cpage_order d \<and> cflags d' = cflags d"
  by (auto simp: calc_num_objects_def Let_def split: if_splits option.splits)

lemma initialize_cache_ok:
  assumes "initialize_cache c obj_size order name s = Inr s'"
  shows "cache_ok (caches s' c) obj_size order \<and> cname (caches s' c) = name"
proof -
  obtain d where d: "calc_num_objects ((caches s c)\<lparr>cname := name, object_size := obj_size,
      cpage_order := order, cflags := (if ucast obj_size \<le> push_bit order PAGE_SIZE div 8
                   then OBJMEM_CACHE_SLAB_META_IN_BLOCK else 0)\<rparr>) = Inr d" and "caches s' c = d"
    using assms
    by (auto simp: initialize_cache_def Let_def bind_res_def upd_clinks_def upd_cache_def
        split: if_splits sum.splits)
  moreover have "cname d = name"
    using d by (auto simp: calc_num_objects_def Let_def split: if_splits option.splits)
  ultimately show ?thesis using calc_num_objects_idem [OF d] by (auto simp: cache_ok_def)
qed

definition malloc_table_ok :: "slab_state \<Rightarrow> bool" where
  "malloc_table_ok s \<longleftrightarrow> (\<forall>i<KMALLOC_SIZES. malloc_cache s i \<noteq> 0 \<and>
     cache_ok (caches s (malloc_cache s i)) (ucast (fst (malloc_sizes ! i))) (fst (snd (malloc_sizes ! i))))"

lemma size_class_bounds:
  "size_class sz xs j = Some i \<Longrightarrow> j \<le> i \<and> i - j < length xs \<and> sz \<le> fst (xs ! (i - j)) \<and>
     (\<forall>k<i - j. fst (xs ! k) < sz)"
proof (induction sz xs j rule: size_class.induct)
  case (2 sz cs a b rest j)
  show ?case
  proof (cases "cs < sz")
    case True
    with 2 have "Suc j \<le> i \<and> i - Suc j < length rest \<and> sz \<le> fst (rest ! (i - Suc j)) \<and>
        (\<forall>k<i - Suc j. fst (rest ! k) < sz)" by simp
    then obtain d where "i - j = Suc d" "i - Suc j = d" "Suc j \<le> i" "d < length rest"
      "sz \<le> fst (rest ! d)" "\<forall>k<d. fst (rest ! k) < sz"
      by (metis Suc_diff_Suc Suc_le_lessD)
    with True show ?thesis by (auto simp: less_Suc_eq_0_disj)
  next
    case False
    with 2 show ?thesis by auto
  qed
qed simp

lemma size_class_None: "size_class sz xs j = None \<longleftrightarrow> (\<forall>x\<in>set xs. fst x < sz)"
  by (induction sz xs j rule: size_class.induct) (auto simp: not_less)

lemma in_block_no_kmalloc:
  assumes "cflags (caches s c) = OBJMEM_CACHE_SLAB_META_IN_BLOCK"
  shows "new_slab km gpv c s = new_slab km' gpv c s" and "new_slab km gpv c s \<noteq> None"
proof -
  have f: "cflags (caches s c) AND OBJMEM_CACHE_SLAB_META_IN_BLOCK \<noteq> 0"
    using assms by (simp add: OBJMEM_CACHE_SLAB_META_IN_BLOCK_def)
  show "new_slab km gpv c s = new_slab km' gpv c s" and "new_slab km gpv c s \<noteq> None"
    by (auto simp: new_slab_def Let_def f split: sum.splits)
qed

lemma cache_alloc_some:
  assumes "new_slab km gpv c s \<noteq> None"
  shows "cache_alloc_with km gpv c s \<noteq> None"
  using assms by (simp add: cache_alloc_with_def)

text \<open>
  The first six size classes keep their descriptors on the slab; the others ask \<open>kmalloc\<close> for
  at most 64 bytes.
\<close>

lemma malloc_class_cases:
  assumes "malloc_table_ok s" and "i < KMALLOC_SIZES"
  shows "cflags (caches s (malloc_cache s i)) = OBJMEM_CACHE_SLAB_META_IN_BLOCK \<or>
    (5 < i \<and> cflags (caches s (malloc_cache s i)) = 0 \<and>
     size_class (ucast (sizeof_slab + 4 * objs_per_slab (caches s (malloc_cache s i)))) malloc_sizes 0 = Some 1)"
proof -
  let ?d = "caches s (malloc_cache s i)"
  have ok: "cache_ok ?d (ucast (fst (malloc_sizes ! i))) (fst (snd (malloc_sizes ! i)))"
    using assms by (simp add: malloc_table_ok_def)
  have objs: "objs_per_slab ?d = push_bit (fst (snd (malloc_sizes ! i))) 0x1000 div ucast (fst (malloc_sizes ! i))"
    if "cflags ?d = 0"
    using ok that
    by (cases ?d) (auto simp: cache_ok_def calc_num_objects_def Let_def split: if_splits)
  have "i = 0 \<or> i = 1 \<or> i = 2 \<or> i = 3 \<or> i = 4 \<or> i = 5 \<or> i = 6 \<or> i = 7 \<or> i = 8 \<or> i = 9 \<or> i = 10"
    using assms(2) unfolding KMALLOC_SIZES_def by presburger
  then show ?thesis
    using ok objs
    by (elim disjE) (simp_all add: cache_ok_def malloc_sizes_def PAGE_SIZE_def sizeof_slab_def)
qed

lemma cache_alloc_cong:
  "new_slab km gpv c s = new_slab km' gpv c s \<Longrightarrow> cache_alloc_with km gpv c s = cache_alloc_with km' gpv c s"
  by (simp add: cache_alloc_with_def)

lemma kmalloc_unfold:
  assumes "size_class sz malloc_sizes 0 = Some i" and "malloc_cache s i \<noteq> 0"
  shows "kmalloc_fuel (Suc n) gpv sz s = cache_alloc_with (kmalloc_fuel n gpv) gpv (malloc_cache s i) s"
  using assms by (simp add: kmalloc_fuel.simps [of "Suc n"])

lemma kmalloc_class1:
  assumes "malloc_table_ok s" and "size_class sz malloc_sizes 0 = Some 1"
  shows "kmalloc_fuel (Suc n) gpv sz s \<noteq> None"
    and "kmalloc_fuel (Suc n) gpv sz s = kmalloc_fuel (Suc m) gpv sz s"
proof -
  have c: "malloc_cache s 1 \<noteq> 0" using assms(1) by (simp add: malloc_table_ok_def KMALLOC_SIZES_def)
  have f: "cflags (caches s (malloc_cache s 1)) = OBJMEM_CACHE_SLAB_META_IN_BLOCK"
    using malloc_class_cases [OF assms(1), of 1] by (auto simp: KMALLOC_SIZES_def)
  show "kmalloc_fuel (Suc n) gpv sz s \<noteq> None"
    and "kmalloc_fuel (Suc n) gpv sz s = kmalloc_fuel (Suc m) gpv sz s"
    unfolding kmalloc_unfold [OF assms(2) c]
    using cache_alloc_some [OF in_block_no_kmalloc(2) [OF f]]
      cache_alloc_cong [OF in_block_no_kmalloc(1) [OF f]] by blast+
qed

lemma malloc_table_ok_pa: "malloc_table_ok (s\<lparr>pa := a\<rparr>) = malloc_table_ok s"
  by (simp add: malloc_table_ok_def)

lemma kmalloc_two_levels:
  assumes ok: "malloc_table_ok s"
  shows "kmalloc_fuel (Suc (Suc n)) gpv sz s = kmalloc_fuel 2 gpv sz s \<and> kmalloc_fuel 2 gpv sz s \<noteq> None"
proof (cases "size_class sz malloc_sizes 0")
  case None
  then show ?thesis by (simp add: kmalloc_fuel.simps)
next
  case (Some i)
  have i: "i < KMALLOC_SIZES"
    using size_class_bounds [OF Some] by (simp add: malloc_sizes_def KMALLOC_SIZES_def)
  let ?c = "malloc_cache s i"
  have c: "?c \<noteq> 0" using ok i by (simp add: malloc_table_ok_def)
  have "new_slab (kmalloc_fuel (Suc n) gpv) gpv ?c s = new_slab (kmalloc_fuel 1 gpv) gpv ?c s \<and>
      new_slab (kmalloc_fuel 1 gpv) gpv ?c s \<noteq> None"
    using malloc_class_cases [OF ok i]
  proof (elim disjE conjE)
    assume "cflags (caches s ?c) = OBJMEM_CACHE_SLAB_META_IN_BLOCK"
    from in_block_no_kmalloc [OF this] show ?thesis by blast
  next
    let ?sz = "ucast (sizeof_slab + 4 * objs_per_slab (caches s ?c))"
    assume cl: "size_class ?sz malloc_sizes 0 = Some 1" and fl: "cflags (caches s ?c) = 0"
    have t: "malloc_table_ok (s\<lparr>pa := a\<rparr>)" for a using ok by (simp add: malloc_table_ok_pa)
    have eq: "kmalloc_fuel (Suc n) gpv ?sz (s\<lparr>pa := a\<rparr>) = kmalloc_fuel 1 gpv ?sz (s\<lparr>pa := a\<rparr>)" for a
      unfolding One_nat_def by (rule kmalloc_class1(2) [OF t cl])
    have nn: "kmalloc_fuel 1 gpv ?sz (s\<lparr>pa := a\<rparr>) \<noteq> None" for a
      unfolding One_nat_def by (rule kmalloc_class1(1) [OF t cl])
    show ?thesis
      by (auto simp: new_slab_def Let_def fl eq simp del: One_nat_def split: sum.splits option.splits
          elim: nn [THEN notE])
  qed
  then show ?thesis
    unfolding numeral_2_eq_2 kmalloc_unfold [OF Some c]
    using cache_alloc_cong cache_alloc_some by (metis One_nat_def)
qed

text \<open>What a release computes, and what it leaves alone.\<close>

lemma free_from_slab_keeps:
  "sl_mem (slabs (free_from_slab sl i s) y) = sl_mem (slabs s y)" "caches (free_from_slab sl i s) = caches s"
  "pa (free_from_slab sl i s) = pa s"
  by (simp_all add: free_from_slab_def upd_slab_def set_free_idx_def Let_def)

lemma page_backptrs_pa: "pa s' = pa s \<Longrightarrow> page_backptrs va s' = page_backptrs va s"
  unfolding page_backptrs_def by (erule ssubst) (rule refl)

lemma mem_cache_free_obj_eq:
  assumes "slab_inv s sl n fs" and "i < n" and "object_size (caches s c) \<noteq> 0" and "objs_per_slab (caches s c) = n"
    and "0xffff800000000000 \<le> sl_mem (slabs s sl)"
    and "unat (sl_mem (slabs s sl)) + unat (object_size (caches s c)) * (unat i + 1) < 2 ^ 64"
    and "unat (object_size (caches s c)) * unat i < 2 ^ 32"
    and "page_backptrs (sl_mem (slabs s sl) + ucast (i * object_size (caches s c))) s = Inr (c, sl)"
  shows "mem_cache_free_obj c (sl_mem (slabs s sl) + ucast (i * object_size (caches s c))) s =
    Inr (if in_use (slabs (free_from_slab sl i s) sl) = 0
         then upd_clinks (list_add (SlabList sl) (SlabsFree c))
                (upd_clinks (list_del Poison1 Poison2 (SlabList sl)) (free_from_slab sl i s))
         else free_from_slab sl i s)"
proof -
  have "ucast ((VA2PA (sl_mem (slabs s sl) + ucast (i * object_size (caches s c))) -
      VA2PA (sl_mem (slabs s sl))) div ucast (object_size (caches s c)) :: u64) = i"
    by (rule obj_index) (use assms in auto)
  then show ?thesis using assms(2-4,8) by (simp add: mem_cache_free_obj_def Let_def not_le)
qed

section \<open>Properties\<close>

lemma slab_pages: "k \<le> 3 \<Longrightarrow> unat (push_bit k 0x1000 :: u32) = 4096 * 2 ^ k"
proof -
  assume "k \<le> 3"
  then consider "k = 0" | "k = 1" | "k = 2" | "k = 3" by linarith
  then show ?thesis by cases simp_all
qed

text \<open>
  C40: for a cache that keeps the descriptors on its slabs, with slabs of one to eight pages and objects of less than 8 KiB,
  the loop of \<open>__calc_num_objects\<close> ends with the largest number of objects that fit: together with the descriptor and
  the array of indices that many objects fit into the slab, and one more would not.
\<close>

theorem calc_num_objects_maximal:
  assumes "cflags c \<noteq> 0" and "cpage_order c \<le> 3" and "unat (object_size c) < 2 ^ 13"
  shows "\<exists>n. calc_num_objects c = Inr (c\<lparr>objs_per_slab := n\<rparr>) \<and>
    slab_bytes (unat (object_size c)) (unat n) \<le> 4096 * 2 ^ cpage_order c \<and>
    4096 * 2 ^ cpage_order c < slab_bytes (unat (object_size c)) (unat n + 1)"
proof -
  let ?S = "push_bit (cpage_order c) 0x1000 :: u32"
  have S: "unat ?S = 4096 * 2 ^ cpage_order c" by (rule slab_pages [OF assms(2)])
  have "(2 :: nat) ^ cpage_order c \<le> 2 ^ 3" using assms(2) by (intro power_increasing) auto
  then have "unat ?S < 2 ^ 16" "32 \<le> unat ?S" using S by simp_all
  then show ?thesis
    using calc_num_loop_correct [of 1 "unat ?S - 1" ?S "object_size c"] assms(1,3) S
    by (auto simp: slab_bytes_def calc_num_objects_def Let_def)
qed

theorem calc_num_objects_maximal_witness:
  "\<exists>n. calc_num_objects \<lparr>cflags = 1, object_size = 32, objs_per_slab = 0, cpage_order = 0, cname = ''c''\<rparr> =
       Inr \<lparr>cflags = 1, object_size = 32, objs_per_slab = n, cpage_order = 0, cname = ''c''\<rparr> \<and>
     slab_bytes 32 (unat n) \<le> 4096 \<and> 4096 < slab_bytes 32 (unat n + 1)"
  using calc_num_objects_maximal [of "\<lparr>cflags = 1, object_size = 32, objs_per_slab = 0, cpage_order = 0, cname = ''c''\<rparr>"] by simp

text \<open>
  \<open>__alloc_from_slab\<close> hands out the first object of the slab's chain of free objects, which
  is not in use, removes it from the chain, and keeps the count of the objects in use right.
\<close>

theorem alloc_from_slab_takes_first:
  assumes "slab_inv s sl n (i # is)" and "page_backptrs (sl_mem (slabs s sl)) s = Inr (c, x)"
    and "objs_per_slab (caches s c) = n"
  shows "\<exists>s'. alloc_from_slab sl s =
      Inr (sl_mem (slabs s sl) + ucast (i * object_size (caches s c)), s') \<and> slab_inv s' sl n is \<and> i \<notin> set is"
proof -
  have "i \<notin> set is" using assms(1) by (simp add: slab_inv_def)
  with alloc_from_slab_pop [OF assms] show ?thesis by blast
qed

definition small_slab :: slab_state where
  "small_slab = \<lparr>pa = small_boot\<lparr>links := (links small_boot)(PageNode (0xffff800000001000) :=
       \<lparr>lh_next = CastNode 0x500, lh_prev = CastNode 0x600\<rparr>)\<rparr>, root_cache = 0x400,
     caches = (\<lambda>_. \<lparr>cflags = 0, object_size = 1024, objs_per_slab = 4, cpage_order = 0, cname = ''c''\<rparr>),
     slabs = (\<lambda>_. \<lparr>sl_mem = 0xffff800000100000, in_use = 2, next_free = 1\<rparr>),
     free_idx = (\<lambda>_ i. if i = 1 then 3 else FREE_LIST_END),
     clinks = (\<lambda>x. \<lparr>lh_next = x, lh_prev = x\<rparr>), malloc_cache = (\<lambda>_. 0x500)\<rparr>"

lemma small_slab_inv: "slab_inv small_slab 0x600 4 [1, 3]"
  by (simp add: slab_inv_def small_slab_def FREE_LIST_END_def)

lemma small_slab_backptrs:
  "page_backptrs 0xffff800000100000 small_slab = Inr (0x500, 0x600)"
  "page_backptrs 0xffff800000100800 small_slab = Inr (0x500, 0x600)"
  by (simp_all add: page_backptrs_def small_slab_def small_boot_def get_page_from_vaddr_def
      get_page_from_paddr_def VA2PA_def small_zone_def PAGE_SIZE_def sizeof_page_def Let_def)

theorem alloc_from_slab_takes_first_witness:
  "slab_inv small_slab 0x600 4 [1, 3] \<and>
   (\<exists>s'. alloc_from_slab 0x600 small_slab = Inr (0xffff800000100400, s') \<and> slab_inv s' 0x600 4 [3])"
proof -
  have "\<exists>s'. alloc_from_slab 0x600 small_slab =
      Inr (sl_mem (slabs small_slab 0x600) + ucast (1 * object_size (caches small_slab 0x500)), s') \<and>
      slab_inv s' 0x600 4 [3] \<and> 1 \<notin> set [3 :: u32]"
    by (rule alloc_from_slab_takes_first [OF small_slab_inv])
      (use small_slab_backptrs in \<open>simp_all add: small_slab_def\<close>)
  then show ?thesis using small_slab_inv by (simp add: small_slab_def)
qed

text \<open>
  C5: \<open>mem_cache_free_obj\<close> computes the index of the object from its address and puts it in
  front of the chain: an object that is in use becomes free, and the next \<open>__alloc_from_slab\<close> on
  that slab returns the very same address and leaves the chain as it was before the release. This
  is for a slab whose chain and count are right, at a direct-map address without wrap-around, whose
  first page and whose page of the object both point back to the cache and the slab.
\<close>

theorem mem_cache_free_obj_returns:
  assumes "slab_inv s sl n fs" and "i < n" and "i \<notin> set fs" and "n \<le> FREE_LIST_END"
    and "in_use (slabs s sl) \<noteq> 0" and "object_size (caches s c) \<noteq> 0" and "objs_per_slab (caches s c) = n"
    and "0xffff800000000000 \<le> sl_mem (slabs s sl)"
    and "unat (sl_mem (slabs s sl)) + unat (object_size (caches s c)) * (unat i + 1) < 2 ^ 64"
    and "unat (object_size (caches s c)) * unat i < 2 ^ 32"
    and "page_backptrs (sl_mem (slabs s sl) + ucast (i * object_size (caches s c))) s = Inr (c, sl)"
    and "page_backptrs (sl_mem (slabs s sl)) s = Inr (c, sl)"
  shows "\<exists>s' s''. mem_cache_free_obj c (sl_mem (slabs s sl) + ucast (i * object_size (caches s c))) s = Inr s' \<and>
    slab_inv s' sl n (i # fs) \<and>
    alloc_from_slab sl s' = Inr (sl_mem (slabs s sl) + ucast (i * object_size (caches s c)), s'') \<and>
    slab_inv s'' sl n fs"
proof -
  let ?f = "free_from_slab sl i s"
  define s' where "s' = (if in_use (slabs ?f sl) = 0
    then upd_clinks (list_add (SlabList sl) (SlabsFree c)) (upd_clinks (list_del Poison1 Poison2 (SlabList sl)) ?f)
    else ?f)"
  note free = mem_cache_free_obj_eq [OF assms(1,2,6-11), folded s'_def]
  have "i \<noteq> FREE_LIST_END" using assms(2,4) by auto
  from free_from_slab_push [OF assms(1-3) this assms(5)]
  have inv: "slab_inv s' sl n (i # fs)" by (auto simp: s'_def slab_inv_def list_ops_keep)
  have keep: "sl_mem (slabs s' sl) = sl_mem (slabs s sl)" "caches s' = caches s" "pa s' = pa s"
    by (simp_all add: s'_def list_ops_keep free_from_slab_keeps)
  then have "page_backptrs (sl_mem (slabs s' sl)) s' = Inr (c, sl)"
    using assms(12) page_backptrs_pa [OF keep(3)] by simp
  from alloc_from_slab_pop [OF inv this] 
  obtain s'' where "alloc_from_slab sl s' = Inr (sl_mem (slabs s sl) + ucast (i * object_size (caches s c)), s'')"
    "slab_inv s'' sl n fs"
    using keep assms(7) by auto
  with free inv show ?thesis by blast
qed

theorem mem_cache_free_obj_returns_witness:
  "\<exists>s' s''. mem_cache_free_obj 0x500 0xffff800000100800 small_slab = Inr s' \<and> slab_inv s' 0x600 4 [2, 1, 3] \<and>
     alloc_from_slab 0x600 s' = Inr (0xffff800000100800, s'') \<and> slab_inv s'' 0x600 4 [1, 3]"
proof -
  let ?obj = "sl_mem (slabs small_slab 0x600) + ucast (2 * object_size (caches small_slab 0x500))"
  have "\<exists>s' s''. mem_cache_free_obj 0x500 ?obj small_slab = Inr s' \<and> slab_inv s' 0x600 4 (2 # [1, 3]) \<and>
      alloc_from_slab 0x600 s' = Inr (?obj, s'') \<and> slab_inv s'' 0x600 4 [1, 3]"
    by (rule mem_cache_free_obj_returns [OF small_slab_inv])
      (use small_slab_backptrs in \<open>simp_all add: small_slab_def FREE_LIST_END_def\<close>)
  then show ?thesis by (simp add: small_slab_def)
qed

text \<open>
  C28: with the size classes set up as at boot, the recursion from \<open>kmalloc\<close> through a cache whose
  slab descriptors are themselves allocated by \<open>kmalloc\<close> is at most two calls deep, so \<open>kmalloc\<close>
  always returns.
\<close>

theorem kmalloc_terminates:
  assumes "malloc_table_ok s"
  shows "kmalloc get_page_vaddr sz s \<noteq> None \<and>
    kmalloc_fuel (Suc (Suc n)) get_page_vaddr sz s = kmalloc get_page_vaddr sz s"
  using kmalloc_two_levels [OF assms] by (simp add: kmalloc_def)

definition boot_caches :: slab_state where
  "boot_caches = small_slab\<lparr>malloc_cache := (\<lambda>i. of_nat i + 1),
     caches := (\<lambda>a. [ \<lparr>cflags = 1, object_size = 32, objs_per_slab = 112, cpage_order = 0, cname = ''''\<rparr>,
        \<lparr>cflags = 1, object_size = 64, objs_per_slab = 59, cpage_order = 0, cname = ''''\<rparr>,
        \<lparr>cflags = 1, object_size = 128, objs_per_slab = 30, cpage_order = 0, cname = ''''\<rparr>,
        \<lparr>cflags = 1, object_size = 256, objs_per_slab = 31, cpage_order = 1, cname = ''''\<rparr>,
        \<lparr>cflags = 1, object_size = 512, objs_per_slab = 15, cpage_order = 1, cname = ''''\<rparr>,
        \<lparr>cflags = 1, object_size = 1024, objs_per_slab = 7, cpage_order = 1, cname = ''''\<rparr>,
        \<lparr>cflags = 0, object_size = 2048, objs_per_slab = 4, cpage_order = 1, cname = ''''\<rparr>,
        \<lparr>cflags = 0, object_size = 4096, objs_per_slab = 2, cpage_order = 1, cname = ''''\<rparr>,
        \<lparr>cflags = 0, object_size = 8192, objs_per_slab = 2, cpage_order = 2, cname = ''''\<rparr>,
        \<lparr>cflags = 0, object_size = 16384, objs_per_slab = 4, cpage_order = 4, cname = ''''\<rparr>,
        \<lparr>cflags = 0, object_size = 32768, objs_per_slab = 2, cpage_order = 4, cname = ''''\<rparr> ] ! (unat a - 1))\<rparr>"

lemma calc_num_objects_unique:
  assumes "cflags d = 1" and "unat (push_bit (cpage_order d) 0x1000 :: u32) < 2 ^ 16"
    and "32 \<le> unat (push_bit (cpage_order d) 0x1000 :: u32)" and "unat (object_size d) < 2 ^ 13"
    and "slab_bytes (unat (object_size d)) (unat (objs_per_slab d)) \<le> unat (push_bit (cpage_order d) 0x1000 :: u32)"
    and "unat (push_bit (cpage_order d) 0x1000 :: u32) < slab_bytes (unat (object_size d)) (unat (objs_per_slab d) + 1)"
  shows "calc_num_objects d = Inr d"
proof -
  let ?S = "push_bit (cpage_order d) 0x1000 :: u32"
  obtain n where n: "calc_num_loop (unat ?S - 1) 1 ?S (object_size d) = Some n"
    "slab_bytes (unat (object_size d)) (unat n) \<le> unat ?S"
    "unat ?S < slab_bytes (unat (object_size d)) (unat n + 1)"
    using calc_num_loop_correct [of 1 "unat ?S - 1" ?S "object_size d"] assms(2-4) by (auto simp: slab_bytes_def)
  have mono: "slab_bytes k a \<le> slab_bytes k b" if "a \<le> b" for k a b
    using that by (simp add: slab_bytes_def add_mono)
  have "\<not> unat n + 1 \<le> unat (objs_per_slab d)"
    using n(3) assms(5) mono [of "unat n + 1" "unat (objs_per_slab d)" "unat (object_size d)"] by linarith
  moreover have "\<not> unat (objs_per_slab d) + 1 \<le> unat n"
    using n(2) assms(6) mono [of "unat (objs_per_slab d) + 1" "unat n" "unat (object_size d)"] by linarith
  ultimately have "unat n = unat (objs_per_slab d)" by linarith
  then have "n = objs_per_slab d" by (simp add: word_unat_eq_iff)
  with n(1) assms(1) show ?thesis by (simp add: calc_num_objects_def Let_def)
qed

lemma boot_caches_ok: "malloc_table_ok boot_caches"
proof -
  have u: "unat (1 + word_of_nat i :: u64) - Suc 0 = i" if "i < 11" for i
    using that by (simp add: unat_word_ariths unat_of_nat)
  have "malloc_cache boot_caches i \<noteq> 0 \<and> cache_ok (caches boot_caches (malloc_cache boot_caches i))
      (ucast (fst (malloc_sizes ! i))) (fst (snd (malloc_sizes ! i)))" if i: "i < 11" for i
  proof -
    have "i = 0 \<or> i = 1 \<or> i = 2 \<or> i = 3 \<or> i = 4 \<or> i = 5 \<or> i = 6 \<or> i = 7 \<or> i = 8 \<or> i = 9 \<or> i = 10"
      using i by presburger
    then show ?thesis
      unfolding boot_caches_def cache_ok_def
      by (elim disjE)
        (simp_all add: malloc_sizes_def PAGE_SIZE_def OBJMEM_CACHE_SLAB_META_IN_BLOCK_def
          calc_num_objects_unique slab_bytes_def, simp_all add: calc_num_objects_def)
  qed
  then show ?thesis by (simp add: malloc_table_ok_def KMALLOC_SIZES_def)
qed

theorem kmalloc_terminates_witness: "kmalloc (\<lambda>p s. 0) 3000 boot_caches \<noteq> None"
  using kmalloc_terminates [OF boot_caches_ok] by blast

text \<open>
  \<open>kmalloc\<close> serves a request from the smallest size class that can hold it and returns the
  null pointer, changing nothing, exactly when the request exceeds 32 KiB.
\<close>

theorem kmalloc_size_class:
  shows "(size_class sz malloc_sizes 0 = None \<longleftrightarrow> 32768 < sz) \<and>
    (32768 < sz \<longrightarrow> kmalloc get_page_vaddr sz s = Some (Inr (0, s))) \<and>
    (\<forall>i. size_class sz malloc_sizes 0 = Some i \<longrightarrow> i < KMALLOC_SIZES \<and> sz \<le> fst (malloc_sizes ! i) \<and>
       (\<forall>j<i. fst (malloc_sizes ! j) < sz))"
proof -
  have n: "size_class sz malloc_sizes 0 = None \<longleftrightarrow> 32768 < sz"
    unfolding size_class_None malloc_sizes_def by (auto simp: word_less_nat_alt)
  moreover have "kmalloc get_page_vaddr sz s = Some (Inr (0, s))" if "32768 < sz"
    using n that by (simp add: kmalloc_def kmalloc_fuel.simps)
  moreover have "i < KMALLOC_SIZES \<and> sz \<le> fst (malloc_sizes ! i) \<and> (\<forall>j<i. fst (malloc_sizes ! j) < sz)"
    if "size_class sz malloc_sizes 0 = Some i" for i
    using size_class_bounds [OF that] by (simp add: KMALLOC_SIZES_def malloc_sizes_def)
  ultimately show ?thesis by blast
qed

theorem kmalloc_size_class_witness: "kmalloc (\<lambda>p s. 0) 40000 small_slab = Some (Inr (0, small_slab))"
  using kmalloc_size_class [of 40000 "\<lambda>p s. 0" small_slab] by simp

end
