(* ===== verification/Paging.thy ===== *)
theory Paging
  imports Slab
begin

text \<open>
  The four-level page tables of \<^verbatim>\<open>arch/x86_64/paging.c\<close> and the macros of
  \<^verbatim>\<open>arch/paging.h\<close>, with the kernel's address ranges of \<^verbatim>\<open>kernel/vm.c\<close> and \<open>ioremap\<close>. The tables
  are 64-bit words in the byte memory of the pages the allocator hands out, read and written
  through the direct mapping, so clearing a page and copying a page table act on them.

  The permission bits \<open>VM_READ\<close>, \<open>VM_WRITE\<close>, ... are defined in \<^verbatim>\<open>lucix/vma.h\<close>, which is not part of
  the repository; a record of constants carries them. Loading \<open>cr3\<close> is the field \<open>cr3\<close>.
\<close>

section \<open>Words in byte memory\<close>

definition rd64 :: "mem \<Rightarrow> u64 \<Rightarrow> u64" where
  "rd64 m a = word_rcat (map (\<lambda>i. m (a + of_nat i)) (rev [0..<8]))"

definition wr64 :: "u64 \<Rightarrow> u64 \<Rightarrow> mem \<Rightarrow> mem" where
  "wr64 a v m = (\<lambda>x. if x - a < 8 then ucast (drop_bit (8 * unat (x - a)) v) else m x)"

section \<open>Indices and flags\<close>

definition BIT :: "nat \<Rightarrow> u64" where "BIT a = push_bit a 1"

abbreviation "PML4_PRESENT_FLAG \<equiv> BIT 0"
abbreviation "PML4_RW_FLAG \<equiv> BIT 1"
abbreviation "PML4_USER \<equiv> BIT 2"
abbreviation "PDPT_PRESENT_FLAG \<equiv> BIT 0"
abbreviation "PDPT_RW_FLAG \<equiv> BIT 1"
abbreviation "PDPT_USER \<equiv> BIT 2"
abbreviation "PDET_PRESENT_FLAG \<equiv> BIT 0"
abbreviation "PDET_RW_FLAG \<equiv> BIT 1"
abbreviation "PDET_USER \<equiv> BIT 2"
abbreviation "PDET_PAGE_SIZE \<equiv> BIT 7"
abbreviation "PDET_XD \<equiv> BIT 63"
abbreviation "PTE_PRESENT_FLAG \<equiv> BIT 0"
abbreviation "PTE_RW_FLAG \<equiv> BIT 1"
abbreviation "PTE_USER \<equiv> BIT 2"
abbreviation "PTE_XD \<equiv> BIT 63"

definition PML4_FROM_VA :: "u64 \<Rightarrow> u64" where
  "PML4_FROM_VA va = drop_bit 39 (va AND 0x0000ff8000000000)"

definition PDPT_FROM_VA :: "u64 \<Rightarrow> u64" where
  "PDPT_FROM_VA va = drop_bit 30 (va AND 0x0000007fc0000000)"

definition PDET_FROM_VA :: "u64 \<Rightarrow> u64" where
  "PDET_FROM_VA va = drop_bit 21 (va AND 0x000000003fe00000)"

definition PTE_FROM_VA :: "u64 \<Rightarrow> u64" where
  "PTE_FROM_VA va = drop_bit 12 (va AND 0x00000000001ff000)"

record vm_consts =
  VM_READ :: u64
  VM_WRITE :: u64
  VM_EXEC :: u64
  VM_USER :: u64
  VM_MAYWRITE :: u64

text \<open>
  \<open>res |= cond ? : flag\<close> yields the value of the condition, 1, when it holds and the flag when it
  does not: the execute-disable bit is set for executable mappings and bit 0 for the others.
\<close>

definition get_pg_flags_pdpt :: "vm_consts \<Rightarrow> u64 \<Rightarrow> u64" where
  "get_pg_flags_pdpt K vmflags =
     (if vmflags AND VM_USER K \<noteq> 0 then PDPT_USER else 0) OR
     (if vmflags AND VM_WRITE K \<noteq> 0 then PDPT_RW_FLAG else 0) OR
     (if vmflags AND VM_EXEC K = 0 then 1 else PDET_XD)"

definition get_pg_flags_pdet :: "vm_consts \<Rightarrow> u64 \<Rightarrow> u64" where
  "get_pg_flags_pdet K vmflags =
     (if vmflags AND VM_USER K \<noteq> 0 then PDET_USER else 0) OR
     (if vmflags AND VM_WRITE K \<noteq> 0 then PDET_RW_FLAG else 0) OR
     (if vmflags AND VM_EXEC K = 0 then 1 else PDET_XD)"

definition get_pg_flags_pte :: "vm_consts \<Rightarrow> u64 \<Rightarrow> u64" where
  "get_pg_flags_pte K vmflags =
     (if vmflags AND VM_USER K \<noteq> 0 then PTE_USER else 0) OR
     (if vmflags AND VM_WRITE K \<noteq> 0 then PTE_RW_FLAG else 0) OR
     (if vmflags AND VM_EXEC K = 0 then 1 else PTE_XD)"

section \<open>Mapping\<close>

text \<open>
  The table an entry points to. An entry that is not present gets a fresh page, which
  \<open>alloc_pages\<close> has cleared; the code does the same on each of the three upper levels, with the same
  flags.
\<close>

definition next_table :: "vaddr_of \<Rightarrow> u64 \<Rightarrow> nat \<Rightarrow> alloc_state \<Rightarrow> (u64 \<times> alloc_state) res" where
  "next_table get_page_vaddr tbl i a =
     (let slot = tbl + 8 * of_nat i;
          entry = rd64 (ram a) slot
      in if entry AND PML4_PRESENT_FLAG = 0 then
           bind_res (alloc_pages get_page_vaddr PGALLOC_KERNEL 0 a) (\<lambda>(p, a1).
             let t = get_page_vaddr p a1
             in Inr (t, a1\<lparr>ram := wr64 slot (PAGE_FRAME (VA2PA t) OR PML4_PRESENT_FLAG OR
                                            PML4_RW_FLAG OR PML4_USER) (ram a1)\<rparr>))
         else Inr (PA2VA (PAGE_FRAME entry), a))"

text \<open>What one call of \<open>map_contiguous\<close> keeps fixed.\<close>

record map_job =
  mj_phys :: u64
  mj_pgsize :: u64
  mj_num :: nat
  mj_user :: bool
  mj_2mb :: bool

definition pte_entry :: "map_job \<Rightarrow> nat \<Rightarrow> u64" where
  "pte_entry J pc =
     PAGE_FRAME (mj_phys J + of_nat pc * mj_pgsize J) OR PTE_PRESENT_FLAG OR PTE_RW_FLAG OR
     (if mj_user J then PTE_USER else 0)"

text \<open>The loops, innermost first; the first argument counts the entries left in the table.\<close>

fun pte_loop :: "nat \<Rightarrow> map_job \<Rightarrow> u64 \<Rightarrow> nat \<Rightarrow> nat \<Rightarrow> alloc_state \<Rightarrow> nat \<times> alloc_state" where
  "pte_loop 0 J pte ptei pc a = (pc, a)"
| "pte_loop (Suc k) J pte ptei pc a =
     (if pc < mj_num J
      then pte_loop k J pte (Suc ptei) (Suc pc)
             (a\<lparr>ram := wr64 (pte + 8 * of_nat ptei) (pte_entry J pc) (ram a)\<rparr>)
      else (pc, a))"

fun pdet_loop ::
    "nat \<Rightarrow> vaddr_of \<Rightarrow> map_job \<Rightarrow> u64 \<Rightarrow> nat \<Rightarrow> nat \<Rightarrow> nat \<Rightarrow> alloc_state \<Rightarrow> (nat \<times> nat \<times> alloc_state) res" where
  "pdet_loop 0 gpv J pdet pdeti ptei pc a = Inr (ptei, pc, a)"
| "pdet_loop (Suc k) gpv J pdet pdeti ptei pc a =
     (if pc < mj_num J then
        (if mj_2mb J then
           pdet_loop k gpv J pdet (Suc pdeti) ptei (Suc pc)
             (a\<lparr>ram := wr64 (pdet + 8 * of_nat pdeti)
                (PAGE_FRAME (mj_phys J + of_nat pc * mj_pgsize J) OR PDET_PRESENT_FLAG OR
                 PDET_RW_FLAG OR PDET_PAGE_SIZE OR PDET_USER) (ram a)\<rparr>)
         else
           bind_res (next_table gpv pdet pdeti a) (\<lambda>(pte, a1).
             case pte_loop (512 - ptei) J pte ptei pc a1 of
               (pc', a2) \<Rightarrow> pdet_loop k gpv J pdet (Suc pdeti) 0 pc' a2))
      else Inr (ptei, pc, a))"

fun pdpt_loop ::
    "nat \<Rightarrow> vaddr_of \<Rightarrow> map_job \<Rightarrow> u64 \<Rightarrow> nat \<Rightarrow> nat \<Rightarrow> nat \<Rightarrow> nat \<Rightarrow> alloc_state \<Rightarrow>
     (nat \<times> nat \<times> nat \<times> alloc_state) res" where
  "pdpt_loop 0 gpv J pdpt pdpti pdeti ptei pc a = Inr (pdeti, ptei, pc, a)"
| "pdpt_loop (Suc k) gpv J pdpt pdpti pdeti ptei pc a =
     (if pc < mj_num J then
        bind_res (next_table gpv pdpt pdpti a) (\<lambda>(pdet, a1).
          bind_res (pdet_loop (512 - pdeti) gpv J pdet pdeti ptei pc a1) (\<lambda>(ptei', pc', a2).
            pdpt_loop k gpv J pdpt (Suc pdpti) 0 ptei' pc' a2))
      else Inr (pdeti, ptei, pc, a))"

fun pml4_loop ::
    "nat \<Rightarrow> vaddr_of \<Rightarrow> map_job \<Rightarrow> u64 \<Rightarrow> nat \<Rightarrow> nat \<Rightarrow> nat \<Rightarrow> nat \<Rightarrow> nat \<Rightarrow> alloc_state \<Rightarrow> alloc_state res" where
  "pml4_loop 0 gpv J pml4 pml4i pdpti pdeti ptei pc a = Inr a"
| "pml4_loop (Suc k) gpv J pml4 pml4i pdpti pdeti ptei pc a =
     (if pml4i \<ge> 512 then Inl OutOfBounds
      else bind_res (next_table gpv pml4 pml4i a) (\<lambda>(pdpt, a1).
        bind_res (pdpt_loop (512 - pdpti) gpv J pdpt pdpti pdeti ptei pc a1) (\<lambda>(pdeti', ptei', pc', a2).
          pml4_loop k gpv J pml4 (Suc pml4i) 0 pdeti' ptei' pc' a2)))"

definition map_contiguous ::
    "vaddr_of \<Rightarrow> vm_consts \<Rightarrow> u64 \<Rightarrow> u64 \<Rightarrow> u64 \<Rightarrow> u64 \<Rightarrow> bool \<Rightarrow> u64 \<Rightarrow> alloc_state \<Rightarrow> alloc_state res" where
  "map_contiguous gpv K pgtable phys vaddr sz two_mb vmflags a =
     (let pgsize = (if two_mb then 0x200000 else PAGE_SIZE);
          J = \<lparr>mj_phys = phys, mj_pgsize = pgsize,
               mj_num = unat (sz div pgsize + (if sz mod pgsize \<noteq> 0 then 1 else 0)),
               mj_user = (vmflags AND VM_USER K \<noteq> 0), mj_2mb = two_mb\<rparr>
      in pml4_loop (Suc (unat (PML4_FROM_VA sz))) gpv J pgtable (unat (PML4_FROM_VA vaddr))
           (unat (PDPT_FROM_VA vaddr)) (unat (PDET_FROM_VA vaddr)) (unat (PTE_FROM_VA vaddr)) 0 a)"

definition cpu_mm_map_page ::
    "vaddr_of \<Rightarrow> vm_consts \<Rightarrow> u64 \<Rightarrow> u64 \<Rightarrow> u64 \<Rightarrow> u64 \<Rightarrow> alloc_state \<Rightarrow> alloc_state res" where
  "cpu_mm_map_page gpv K pgtable phys vaddr vm_flags a =
     map_contiguous gpv K pgtable phys vaddr PAGE_SIZE False vm_flags a"

text \<open>The walk in software; \<open>0xfff\<close> says that the address is not mapped.\<close>

definition cpu_mm_get_phys_address :: "u64 \<Rightarrow> u64 \<Rightarrow> mem \<Rightarrow> u64" where
  "cpu_mm_get_phys_address pgtable vaddr m =
     (let e4 = rd64 m (pgtable + 8 * PML4_FROM_VA vaddr)
      in if e4 AND PML4_PRESENT_FLAG = 0 then 0xfff
         else let e3 = rd64 m (PA2VA (PAGE_FRAME e4) + 8 * PDPT_FROM_VA vaddr)
         in if e3 AND PDPT_PRESENT_FLAG = 0 then 0xfff
            else let e2 = rd64 m (PA2VA (PAGE_FRAME e3) + 8 * PDET_FROM_VA vaddr)
            in if e2 AND PDET_PRESENT_FLAG = 0 then 0xfff
               else if e2 AND PDET_PAGE_SIZE \<noteq> 0 then PAGE_FRAME e2
               else let e1 = rd64 m (PA2VA (PAGE_FRAME e2) + 8 * PTE_FROM_VA vaddr)
               in if e1 AND PTE_PRESENT_FLAG = 0 then 0xfff else PAGE_FRAME e1)"

section \<open>The kernel's own address space\<close>

record vm_zone =
  start_addr :: u64
  zsize :: u64
  vflags :: u64
  num_pages :: u64
  phys_addr :: u64

text \<open>
  \<open>vm_zone_list\<close> is the singly linked list of the source as the list of the addresses of its
  nodes; the nodes themselves are in \<open>vm_zones\<close>.
\<close>

record paging_state =
  kslab :: slab_state
  kernel_pgtable :: u64
  cr3 :: u64
  g_kernel_phys_base :: u64
  g_kernel_reserved_size :: u64
  vm_zone_list :: "u64 list"
  vm_zones :: "u64 \<Rightarrow> vm_zone"

definition BASE_PHYS_IDENTITY :: u64 where "BASE_PHYS_IDENTITY = 0xffff800000000000"
definition BASE_KERNEL_VA :: u64 where "BASE_KERNEL_VA = 0xffffffff80000000"
definition VMAP_ZONE_START :: u64 where "VMAP_ZONE_START = 0xffffc00000000000"
definition VMAP_ZONE_SIZE :: u64 where "VMAP_ZONE_SIZE = 0x0000010000000000"
definition sizeof_vm_zone :: u64 where "sizeof_vm_zone = 56"

definition lift_pa :: "(alloc_state \<Rightarrow> alloc_state res) \<Rightarrow> paging_state \<Rightarrow> paging_state res" where
  "lift_pa f s = bind_res (f (pa (kslab s))) (\<lambda>a. Inr (s\<lparr>kslab := (kslab s)\<lparr>pa := a\<rparr>\<rparr>))"

definition set_cr3 :: "u64 \<Rightarrow> paging_state \<Rightarrow> paging_state" where
  "set_cr3 pml4_phys s = s\<lparr>cr3 := pml4_phys\<rparr>"

definition alloc_table :: "vaddr_of \<Rightarrow> paging_state \<Rightarrow> (u64 \<times> paging_state) res" where
  "alloc_table gpv s =
     bind_res (alloc_pages gpv PGALLOC_KERNEL 0 (pa (kslab s)))
       (\<lambda>(p, a). Inr (gpv p a, s\<lparr>kslab := (kslab s)\<lparr>pa := a\<rparr>\<rparr>))"

text \<open>\<open>x86_64_vm_map_pages\<close> looks up the address of every page and does nothing with it.\<close>

fun x86_64_vm_map_pages :: "u64 list \<Rightarrow> alloc_state \<Rightarrow> unit res" where
  "x86_64_vm_map_pages [] a = Inr ()"
| "x86_64_vm_map_pages (p # ps) a = bind_res (get_phys_addr_from_page p a) (\<lambda>_. x86_64_vm_map_pages ps a)"

definition paging_init :: "vaddr_of \<Rightarrow> vm_consts \<Rightarrow> paging_state \<Rightarrow> paging_state res" where
  "paging_init gpv K s =
     bind_res (alloc_table gpv s) (\<lambda>(t, s1).
       let s2 = s1\<lparr>kernel_pgtable := t\<rparr>;
           fl = VM_WRITE K OR VM_READ K OR VM_EXEC K
       in bind_res (lift_pa (map_contiguous gpv K t 0 BASE_PHYS_IDENTITY 0x10000000000 True fl) s2) (\<lambda>s3.
          bind_res (lift_pa (map_contiguous gpv K t (g_kernel_phys_base s3) BASE_KERNEL_VA
                       (g_kernel_reserved_size s3) False fl) s3) (\<lambda>s4.
            Inr (set_cr3 (VA2PA t) s4))))"

definition map_vm_zone :: "vaddr_of \<Rightarrow> vm_consts \<Rightarrow> u64 \<Rightarrow> paging_state \<Rightarrow> (u64 \<times> paging_state) res" where
  "map_vm_zone gpv K z s =
     (let zn = vm_zones s z
      in bind_res (lift_pa (map_contiguous gpv K (kernel_pgtable s) (phys_addr zn) (start_addr zn)
                     (zsize zn) False (VM_READ K OR VM_WRITE K)) s) (\<lambda>s1.
           Inr (start_addr zn, set_cr3 (VA2PA (kernel_pgtable s1)) s1)))"

definition cpu_mm_create_page_table :: "vaddr_of \<Rightarrow> paging_state \<Rightarrow> (u64 \<times> paging_state) res" where
  "cpu_mm_create_page_table gpv s =
     bind_res (alloc_table gpv s) (\<lambda>(t, s1).
       bind_res (lift_pa (\<lambda>a. Inr (a\<lparr>ram := memcpy t (kernel_pgtable s1) PAGE_SIZE (ram a)\<rparr>)) s1)
         (\<lambda>s2. Inr (t, s2)))"

definition cpu_mm_set_pgtable :: "u64 \<Rightarrow> paging_state \<Rightarrow> paging_state" where
  "cpu_mm_set_pgtable t s = set_cr3 (VA2PA t) s"

section \<open>Ranges of kernel addresses (kernel/vm.c)\<close>

text \<open>
  The search of \<open>get_vm_zone\<close>: the address of the gap it found and the number of list elements
  in front of it, or \<open>None\<close> when the code jumps to \<open>out\<close>.
\<close>

fun gap_search :: "u64 \<Rightarrow> u64 \<Rightarrow> vm_zone list \<Rightarrow> nat \<Rightarrow> (u64 \<times> nat) option" where
  "gap_search sz addr [] i = Some (addr, i)"
| "gap_search sz addr (t # ts) i =
     (if start_addr t < addr then gap_search sz addr ts (Suc i)
      else if sz + addr < addr then None
      else if sz + addr \<le> start_addr t then Some (addr, i)
      else (let addr2 = zsize t + start_addr t
            in if addr2 > VMAP_ZONE_START + VMAP_ZONE_SIZE - sz then None
               else gap_search sz addr2 ts (Suc i)))"

definition get_vm_zone ::
    "vaddr_of \<Rightarrow> u64 \<Rightarrow> u32 \<Rightarrow> paging_state \<Rightarrow> (u64 option \<times> paging_state) res option" where
  "get_vm_zone gpv sz flags s =
     map_option (\<lambda>r. bind_res r (\<lambda>(z, sl).
         let s1 = s\<lparr>kslab := sl\<rparr>;
             give_up = bind_res (kfree z sl) (\<lambda>sl2. Inr (None, s1\<lparr>kslab := sl2\<rparr>))
         in if z = 0 then Inr (None, s1)
            else if sz + PAGE_SIZE > VMAP_ZONE_SIZE then give_up
            else (case gap_search (sz + PAGE_SIZE) VMAP_ZONE_START (map (vm_zones s) (vm_zone_list s)) 0 of
                    None \<Rightarrow> give_up
                  | Some (addr, i) \<Rightarrow>
                      Inr (Some z, s1\<lparr>vm_zone_list := take i (vm_zone_list s) @ z # drop i (vm_zone_list s),
                             vm_zones := (vm_zones s)(z := \<lparr>start_addr = addr, zsize = sz + PAGE_SIZE,
                               vflags = ucast flags, num_pages = 0, phys_addr = 0\<rparr>)\<rparr>))))
       (kmalloc gpv sizeof_vm_zone (kslab s))"

definition remove_vm_zone :: "u64 \<Rightarrow> paging_state \<Rightarrow> u64 option \<times> paging_state" where
  "remove_vm_zone addr s =
     (case find (\<lambda>z. start_addr (vm_zones s z) = addr) (vm_zone_list s) of
        None \<Rightarrow> (None, s)
      | Some z \<Rightarrow> (Some z, s\<lparr>vm_zone_list :=
          takeWhile (\<lambda>y. start_addr (vm_zones s y) \<noteq> addr) (vm_zone_list s) @
          tl (dropWhile (\<lambda>y. start_addr (vm_zones s y) \<noteq> addr) (vm_zone_list s))\<rparr>))"

definition ioremap :: "vaddr_of \<Rightarrow> vm_consts \<Rightarrow> u64 \<Rightarrow> u64 \<Rightarrow> u32 \<Rightarrow> paging_state \<Rightarrow> (u64 \<times> paging_state) res option" where
  "ioremap gpv K phys sz flags s =
     map_option (\<lambda>r. bind_res r (\<lambda>(z, s1).
         case z of
           None \<Rightarrow> Inl NullDeref
         | Some z \<Rightarrow> map_vm_zone gpv K z
             (s1\<lparr>vm_zones := (vm_zones s1)(z := (vm_zones s1 z)\<lparr>phys_addr := phys\<rparr>)\<rparr>)))
       (get_vm_zone gpv sz flags s)"

section \<open>Reading and writing words: lemmas\<close>

lemma bit_rd64:
  assumes "n < 64"
  shows "bit (rd64 m a) n \<longleftrightarrow> bit (m (a + of_nat (n div 8))) (n mod 8)"
proof -
  have "rd64 m a = word_of_int (horner_sum uint (2 ^ LENGTH(8)) (map (\<lambda>i. m (a + of_nat i)) [0..<8]))"
    by (simp add: rd64_def word_rcat_def rev_map)
  also have "bit \<dots> n \<longleftrightarrow> bit (horner_sum uint (2 ^ LENGTH(8)) (map (\<lambda>i. m (a + of_nat i)) [0..<8])) n"
    using assms by (simp add: bit_word_of_int_iff)
  also have "\<dots> \<longleftrightarrow> bit (m (a + of_nat (n div 8))) (n mod 8)"
  proof -
    have d: "n div 8 < 8" using assms by (simp add: less_mult_imp_div_less)
    then have "[0..<8] ! (n div 8) = n div 8" by (subst nth_upt) simp_all
    with d show ?thesis
      unfolding bit_horner_sum_uint_exp_iff by (simp add: nth_map del: upt_rec_numeral)
  qed
  finally show ?thesis .
qed

lemma rd64_wr64_same: "rd64 (wr64 a v m) a = v"
proof (rule bit_word_eqI)
  fix n assume n: "n < LENGTH(64)"
  then have d: "n div 8 < 8" by simp
  then have o: "unat (of_nat (n div 8) :: u64) = n div 8" by (simp add: unat_of_nat)
  have "bit (rd64 (wr64 a v m) a) n \<longleftrightarrow> bit (wr64 a v m (a + of_nat (n div 8))) (n mod 8)"
    using n by (simp add: bit_rd64)
  also have "wr64 a v m (a + of_nat (n div 8)) = ucast (drop_bit (8 * (n div 8)) v)"
  proof -
    have "(of_nat (n div 8) :: u64) < 8" using d o by (simp add: word_less_nat_alt)
    then show ?thesis using o by (simp add: wr64_def)
  qed
  also have "bit (ucast (drop_bit (8 * (n div 8)) v) :: u8) (n mod 8) \<longleftrightarrow> bit v n"
    by (simp add: bit_ucast_iff bit_drop_bit_eq)
  finally show "bit (rd64 (wr64 a v m) a) n = bit v n" .
qed

lemma rd64_cong: "(\<And>x. x \<in> region a 8 \<Longrightarrow> m x = m' x) \<Longrightarrow> rd64 m a = rd64 m' a"
  by (auto simp: rd64_def region_def intro!: arg_cong [of _ _ word_rcat] map_cong)

lemma in_region_iff: "n \<le> 2 ^ 64 \<Longrightarrow> x \<in> region a n \<longleftrightarrow> unat (x - a) < n"
proof
  assume "n \<le> 2 ^ 64" and "x \<in> region a n"
  then show "unat (x - a) < n" by (auto simp: region_def unat_of_nat)
next
  assume "unat (x - a) < n"
  moreover have "x = a + of_nat (unat (x - a))" by simp
  ultimately show "x \<in> region a n" unfolding region_def by (metis image_eqI lessThan_iff)
qed

lemma wr64_outside: "x \<notin> region a 8 \<Longrightarrow> wr64 a v m x = m x"
  by (simp add: wr64_def in_region_iff word_less_nat_alt)

lemma slot_in_page:
  assumes "i < 512"
  shows "region (t + 8 * of_nat i) 8 \<subseteq> region t 4096"
proof
  fix x :: u64 assume "x \<in> region (t + 8 * of_nat i) 8"
  then obtain k where k: "k < 8" "x = t + 8 * of_nat i + of_nat k" by (auto simp: region_def)
  have "x = t + of_nat (8 * i + k)" using k by simp
  moreover have "8 * i + k < 4096" using assms k by simp
  ultimately show "x \<in> region t 4096" unfolding region_def by blast
qed

lemma table_entry_frame:
  "PAGE_FRAME (PAGE_FRAME x OR PML4_PRESENT_FLAG OR PML4_RW_FLAG OR PML4_USER) = PAGE_FRAME x"
  "(PAGE_FRAME x OR PML4_PRESENT_FLAG OR PML4_RW_FLAG OR PML4_USER) AND PML4_PRESENT_FLAG \<noteq> 0"
  "(PAGE_FRAME x OR PML4_PRESENT_FLAG OR PML4_RW_FLAG OR PML4_USER) AND PDET_PAGE_SIZE = 0"
  by (simp_all add: PAGE_FRAME_def BIT_def bit.conj_disj_distrib2 and.assoc)

lemma pte_entry_frame:
  "PAGE_FRAME (pte_entry J pc) = PAGE_FRAME (mj_phys J + of_nat pc * mj_pgsize J)"
  "pte_entry J pc AND PTE_PRESENT_FLAG \<noteq> 0"
  by (simp_all add: pte_entry_def PAGE_FRAME_def BIT_def bit.conj_disj_distrib2 and.assoc)

lemma VA2PA_PA2VA [simp]: "VA2PA (PA2VA x) = x"
  by (simp add: VA2PA_def PA2VA_def xor.assoc)

lemma PAGE_FRAME_idem [simp]: "PAGE_FRAME (PAGE_FRAME x) = PAGE_FRAME x"
  by (simp add: PAGE_FRAME_def and.assoc)

section \<open>Mapping one page\<close>

lemma index_less_512:
  "unat (PML4_FROM_VA va) < 512" "unat (PDPT_FROM_VA va) < 512"
  "unat (PDET_FROM_VA va) < 512" "unat (PTE_FROM_VA va) < 512"
proof -
  have *: "unat (drop_bit k (va AND M)) < 512" if "unat M div 2 ^ k < 512" for k and M :: u64
  proof -
    have "unat (va AND M) \<le> unat M"
      by (simp add: word_and_le1 flip: word_le_nat_alt)
    then have "unat (va AND M) div 2 ^ k \<le> unat M div 2 ^ k" by (rule div_le_mono)
    moreover have "unat (drop_bit k (va AND M)) = unat (va AND M) div 2 ^ k"
      by (subst unat_drop_bit_eq, subst drop_bit_eq_div) (rule refl)
    ultimately show ?thesis using that by linarith
  qed
  show "unat (PML4_FROM_VA va) < 512" "unat (PDPT_FROM_VA va) < 512"
    "unat (PDET_FROM_VA va) < 512" "unat (PTE_FROM_VA va) < 512"
    unfolding PML4_FROM_VA_def PDPT_FROM_VA_def PDET_FROM_VA_def PTE_FROM_VA_def
    by (rule *, simp)+
qed

text \<open>The indices as digits of the address.\<close>

lemma unat_field: "unat (take_bit 9 (drop_bit n (va :: u64))) = unat va div 2 ^ n mod 512"
  unfolding take_bit_eq_mod unat_mod_distrib unat_drop_bit_eq by (simp add: drop_bit_eq_div)

lemma indices_nat:
  "unat (PML4_FROM_VA va) = unat va div 2 ^ 39 mod 512" "unat (PDPT_FROM_VA va) = unat va div 2 ^ 30 mod 512"
  "unat (PDET_FROM_VA va) = unat va div 2 ^ 21 mod 512" "unat (PTE_FROM_VA va) = unat va div 2 ^ 12 mod 512"
proof -
  have m: "(0x0000ff8000000000 :: u64) = push_bit 39 (mask 9)" "(0x0000007fc0000000 :: u64) = push_bit 30 (mask 9)"
    "(0x000000003fe00000 :: u64) = push_bit 21 (mask 9)" "(0x00000000001ff000 :: u64) = push_bit 12 (mask 9)"
    by (simp_all add: mask_eq_exp_minus_1 push_bit_eq_mult)
  have f: "drop_bit n (va AND push_bit n (mask 9)) = take_bit 9 (drop_bit n va)" if "n + 9 \<le> 64" for n
    using that by (intro bit_word_eqI) (auto simp: bit_simps)
  show "unat (PML4_FROM_VA va) = unat va div 2 ^ 39 mod 512" "unat (PDPT_FROM_VA va) = unat va div 2 ^ 30 mod 512"
    "unat (PDET_FROM_VA va) = unat va div 2 ^ 21 mod 512" "unat (PTE_FROM_VA va) = unat va div 2 ^ 12 mod 512"
    unfolding PML4_FROM_VA_def PDPT_FROM_VA_def PDET_FROM_VA_def PTE_FROM_VA_def m
    by (subst f, simp, rule unat_field)+
qed

text \<open>The address of a page below 2^48 is its own frame.\<close>

lemma take_bit_nat: "n < 64 \<Longrightarrow> unat (take_bit n (x :: u64)) = unat x mod 2 ^ n"
  by (simp add: take_bit_eq_mod unat_mod_distrib unat_2p)

lemma aligned_and:
  assumes "unat (y :: u64) < 2 ^ 48" and "unat y mod 2 ^ n = 0" and "n < 64"
  shows "y AND (mask 48 AND NOT (mask n)) = y"
proof (rule bit_word_eqI)
  fix i assume "i < LENGTH(64)"
  have "take_bit 48 y = y" "take_bit n y = 0"
    using assms by (simp_all add: take_bit_nat word_unat_eq_iff)
  then have "bit y i \<longrightarrow> i < 48 \<and> \<not> i < n" by (metis bit_take_bit_iff bit_0_eq bot_apply bot_bool_def)
  then show "bit (y AND (mask 48 AND NOT (mask n))) i = bit y i" using \<open>i < LENGTH(64)\<close> by (auto simp: bit_simps)
qed

lemma frame_aligned: "unat y < 2 ^ 48 \<Longrightarrow> unat y mod 0x1000 = 0 \<Longrightarrow> PAGE_FRAME y = y"
  using aligned_and [of y 12] by (simp add: PAGE_FRAME_def mask_eq_exp_minus_1)

definition page_job :: "vm_consts \<Rightarrow> u64 \<Rightarrow> u64 \<Rightarrow> map_job" where
  "page_job K phys fl = \<lparr>mj_phys = phys, mj_pgsize = PAGE_SIZE, mj_num = 1,
     mj_user = (fl AND VM_USER K \<noteq> 0), mj_2mb = False\<rparr>"

text \<open>For a single page the nested loops are a straight walk that ends in one write.\<close>

lemma cpu_mm_map_page_walk:
  "cpu_mm_map_page gpv K t phys va fl a =
     bind_res (next_table gpv t (unat (PML4_FROM_VA va)) a) (\<lambda>(t3, a1).
     bind_res (next_table gpv t3 (unat (PDPT_FROM_VA va)) a1) (\<lambda>(t2, a2).
     bind_res (next_table gpv t2 (unat (PDET_FROM_VA va)) a2) (\<lambda>(t1, a3).
       Inr (a3\<lparr>ram := wr64 (t1 + 8 * PTE_FROM_VA va) (pte_entry (page_job K phys fl) 0) (ram a3)\<rparr>))))"
proof -
  have k: "512 - unat (x va) = Suc (511 - unat (x va))"
    if "unat (x va) < 512" for x :: "u64 \<Rightarrow> u64" using that by simp
  have done1: "pte_loop m (page_job K phys fl) p j 1 b = (1, b)" for m p j b
    by (cases m) (simp_all add: page_job_def)
  have done2: "pdet_loop m gpv (page_job K phys fl) p j i 1 b = Inr (i, 1, b)" for m p j i b
    by (cases m) (simp_all add: page_job_def)
  have done3: "pdpt_loop m gpv (page_job K phys fl) p j i h 1 b = Inr (i, h, 1, b)" for m p j i h b
    by (cases m) (simp_all add: page_job_def)
  have num: "mj_num (page_job K phys fl) = 1" "mj_2mb (page_job K phys fl) = False"
    by (simp_all add: page_job_def)
  have "cpu_mm_map_page gpv K t phys va fl a =
      pml4_loop 1 gpv (page_job K phys fl) t (unat (PML4_FROM_VA va))
        (unat (PDPT_FROM_VA va)) (unat (PDET_FROM_VA va)) (unat (PTE_FROM_VA va)) 0 a"
    by (simp add: cpu_mm_map_page_def map_contiguous_def page_job_def PAGE_SIZE_def PML4_FROM_VA_def Let_def)
  then show ?thesis
    using index_less_512 [of va]
    by (simp add: k num done1 [simplified] done2 [simplified] done3 [simplified] bind_res_def split: sum.splits)
qed

text \<open>
  A table lies in the direct mapping, page aligned, so that an entry can point to it.
\<close>

definition table_ok :: "u64 \<Rightarrow> bool" where
  "table_ok t \<longleftrightarrow> PA2VA (PAGE_FRAME (VA2PA t)) = t"

text \<open>Allocation changes the contents of memory only by clearing the page it returns.\<close>

lemma toggle_bit_page_ram: "toggle_bit_page q k c = Inr (w, b) \<Longrightarrow> ram b = ram c"
  by (auto simp: toggle_bit_page_def toggle_bit_pfn_zone_def Let_def split: option.splits if_splits)

lemma take_first_ram: "take_first z k c = Inr (q, b) \<Longrightarrow> ram b = ram c"
  by (auto simp: take_first_def bind_res_def upd_links_def split: sum.splits)

lemma alloc_from_zone_ram: "alloc_from_zone z k c = Inr (r, b) \<Longrightarrow> ram b = ram c"
proof (induction z k c arbitrary: r b rule: alloc_from_zone.induct)
  case (1 z order s)
  note r = "1.prems"
  show ?case
  proof (cases "order < NUM_PG_ORDERS \<and> order \<noteq> max_order (zones s z) \<and> list_empty (FreeHead z order) (links s)")
    case True
    then obtain r1 s1 where r1: "alloc_from_zone z (order + 1) s = Inr (r1, s1)"
      using r by (subst (asm) alloc_from_zone.simps) (auto simp: bind_res_def split: sum.splits)
    have "ram s1 = ram s" using "1.IH" r1 True by auto
    with True r r1 show ?thesis
      by (subst (asm) alloc_from_zone.simps)
        (auto simp: bind_res_def Let_def upd_links_def dest!: toggle_bit_page_ram split: sum.splits option.splits)
  next
    case False
    with r show ?thesis
      by (subst (asm) alloc_from_zone.simps)
        (auto simp: bind_res_def dest!: toggle_bit_page_ram take_first_ram split: sum.splits if_splits)
  qed
qed

lemma alloc_search_ram: "alloc_search n z flags k c = Inr (r, b) \<Longrightarrow> ram b = ram c"
proof (induction n arbitrary: z c)
  case 0
  then show ?case by simp
next
  case (Suc n)
  then show ?case
    using alloc_from_zone_ram [of z k c]
    by (fastforce simp: bind_res_def upd_zone_def split: if_splits sum.splits option.splits)
qed

lemma alloc_pages_ram:
  assumes "alloc_pages (\<lambda>p _. v p) flags 0 a = Inr (p, a')"
  shows "ram a' = memset (v p) 0 PAGE_SIZE (ram a)"
  using assms by (auto simp: alloc_pages_def bind_res_def Let_def upd_page_def PAGE_SIZE_def
      dest!: alloc_search_ram split: sum.splits option.splits)

text \<open>
  After \<open>next_table\<close> the entry is present and leads to the table it returned; apart from that
  entry only the new table has changed.
\<close>

lemma next_table_ok:
  assumes "next_table (\<lambda>p _. v p) t i a = Inr (t', a')" and "table_ok t'"
  shows "rd64 (ram a') (t + 8 * of_nat i) AND PML4_PRESENT_FLAG \<noteq> 0"
    and "PA2VA (PAGE_FRAME (rd64 (ram a') (t + 8 * of_nat i))) = t'"
    and "\<And>x. x \<notin> region t' 4096 \<Longrightarrow> x \<notin> region (t + 8 * of_nat i) 8 \<Longrightarrow> ram a' x = ram a x"
proof -
  let ?s = "t + 8 * of_nat i"
  have "rd64 (ram a') ?s AND PML4_PRESENT_FLAG \<noteq> 0 \<and> PA2VA (PAGE_FRAME (rd64 (ram a') ?s)) = t' \<and>
      (\<forall>x. x \<notin> region t' 4096 \<longrightarrow> x \<notin> region ?s 8 \<longrightarrow> ram a' x = ram a x)"
  proof (cases "rd64 (ram a) ?s AND PML4_PRESENT_FLAG = 0")
    case True
    then obtain p a1 where p: "alloc_pages (\<lambda>p _. v p) PGALLOC_KERNEL 0 a = Inr (p, a1)" "t' = v p"
      "ram a' = wr64 ?s (PAGE_FRAME (VA2PA t') OR PML4_PRESENT_FLAG OR PML4_RW_FLAG OR PML4_USER) (ram a1)"
      using assms(1) by (auto simp: next_table_def Let_def bind_res_def split: sum.splits)
    have "ram a1 x = ram a x" if "x \<notin> region t' 4096" for x
      using alloc_pages_ram [OF p(1)] that p(2) by (simp add: memset_eq PAGE_SIZE_def)
    with p(3) assms(2) show ?thesis
      by (simp add: rd64_wr64_same table_entry_frame wr64_outside table_ok_def del: One_nat_def)
  next
    case False
    with assms(1) show ?thesis by (auto simp: next_table_def Let_def)
  qed
  then show "rd64 (ram a') ?s AND PML4_PRESENT_FLAG \<noteq> 0"
    and "PA2VA (PAGE_FRAME (rd64 (ram a') ?s)) = t'"
    and "\<And>x. x \<notin> region t' 4096 \<Longrightarrow> x \<notin> region ?s 8 \<Longrightarrow> ram a' x = ram a x"
    by blast+
qed

lemma next_table_keeps:
  assumes "next_table (\<lambda>p _. v p) t i a = Inr (t', a')" and "table_ok t'" and "i < 512" and "j < 512"
    and "region u 4096 \<inter> region t 4096 = {}" and "region u 4096 \<inter> region t' 4096 = {}"
  shows "rd64 (ram a') (u + 8 * of_nat j) = rd64 (ram a) (u + 8 * of_nat j)"
proof (rule rd64_cong)
  fix x assume x: "x \<in> region (u + 8 * of_nat j) 8"
  show "ram a' x = ram a x"
    by (rule next_table_ok(3) [OF assms(1,2)])
      (use x slot_in_page [OF assms(4), of u] slot_in_page [OF assms(3), of t] assms(5,6) in blast)+
qed

lemma map_page_then_translate:
  assumes n3: "next_table (\<lambda>p _. v p) t (unat (PML4_FROM_VA va)) a = Inr (t3, a1)"
    and n2: "next_table (\<lambda>p _. v p) t3 (unat (PDPT_FROM_VA va)) a1 = Inr (t2, a2)"
    and n1: "next_table (\<lambda>p _. v p) t2 (unat (PDET_FROM_VA va)) a2 = Inr (t1, a3)"
    and ok: "table_ok t3" "table_ok t2" "table_ok t1"
    and dis: "region t 4096 \<inter> region t3 4096 = {}" "region t 4096 \<inter> region t2 4096 = {}"
      "region t 4096 \<inter> region t1 4096 = {}" "region t3 4096 \<inter> region t2 4096 = {}"
      "region t3 4096 \<inter> region t1 4096 = {}" "region t2 4096 \<inter> region t1 4096 = {}"
    and big: "rd64 (ram a3) (t2 + 8 * PDET_FROM_VA va) AND PDET_PAGE_SIZE = 0"
  shows "\<exists>a'. cpu_mm_map_page (\<lambda>p _. v p) K t phys va fl a = Inr a' \<and>
    cpu_mm_get_phys_address t va (ram a') = PAGE_FRAME phys"
proof -
  let ?i4 = "unat (PML4_FROM_VA va)" and ?i3 = "unat (PDPT_FROM_VA va)" and ?i2 = "unat (PDET_FROM_VA va)"
  let ?i1 = "unat (PTE_FROM_VA va)"
  let ?m = "wr64 (t1 + 8 * PTE_FROM_VA va) (pte_entry (page_job K phys fl) 0) (ram a3)"
  have map: "cpu_mm_map_page (\<lambda>p _. v p) K t phys va fl a = Inr (a3\<lparr>ram := ?m\<rparr>)"
    by (simp add: cpu_mm_map_page_walk n3 n2 n1)
  have wr: "rd64 ?m (u + 8 * of_nat j) = rd64 (ram a3) (u + 8 * of_nat j)"
    if "region u 4096 \<inter> region t1 4096 = {}" "j < 512" for u j
  proof (rule rd64_cong)
    fix x assume "x \<in> region (u + 8 * of_nat j) 8"
    then show "?m x = ram a3 x"
      using slot_in_page [OF that(2), of u] slot_in_page [OF index_less_512(4), of t1 va] that(1)
      by (intro wr64_outside) auto
  qed
  note lt = index_less_512 [of va]
  have e4: "rd64 ?m (t + 8 * PML4_FROM_VA va) = rd64 (ram a1) (t + 8 * PML4_FROM_VA va)"
    using wr [of t ?i4] next_table_keeps [OF n1 ok(3) lt(3,1), of t] next_table_keeps [OF n2 ok(2) lt(2,1), of t] dis lt
    by simp
  have e3: "rd64 ?m (t3 + 8 * PDPT_FROM_VA va) = rd64 (ram a2) (t3 + 8 * PDPT_FROM_VA va)"
    using wr [of t3 ?i3] next_table_keeps [OF n1 ok(3) lt(3,2), of t3] dis lt by simp
  have e2: "rd64 ?m (t2 + 8 * PDET_FROM_VA va) = rd64 (ram a3) (t2 + 8 * PDET_FROM_VA va)"
    using wr [of t2 ?i2] dis lt by simp
  have "cpu_mm_get_phys_address t va ?m = PAGE_FRAME phys"
    using next_table_ok(1,2) [OF n3 ok(1)] next_table_ok(1,2) [OF n2 ok(2)] next_table_ok(1,2) [OF n1 ok(3)] big
    by (simp add: cpu_mm_get_phys_address_def Let_def e4 e3 e2 rd64_wr64_same pte_entry_frame)
      (simp add: page_job_def)
  with map show ?thesis by simp
qed

section \<open>Kernel address ranges: lemmas\<close>

text \<open>
  The list is ordered by address, its ranges do not overlap, and they lie in the area set
  aside for them.
\<close>

definition zend :: "vm_zone \<Rightarrow> nat" where
  "zend t = unat (start_addr t) + unat (zsize t)"

definition zones_inv :: "vm_zone list \<Rightarrow> bool" where
  "zones_inv ts \<longleftrightarrow> sorted_wrt (\<lambda>t u. zend t \<le> unat (start_addr u)) ts \<and>
     (\<forall>t\<in>set ts. unat VMAP_ZONE_START \<le> unat (start_addr t) \<and>
        zend t \<le> unat VMAP_ZONE_START + unat VMAP_ZONE_SIZE)"

lemma gap_search_correct:
  assumes "gap_search sz addr ts i = Some (r, k)"
    and "zones_inv ts" and "unat VMAP_ZONE_START \<le> unat addr"
    and "unat addr + unat sz \<le> unat VMAP_ZONE_START + unat VMAP_ZONE_SIZE"
    and "unat sz \<le> unat VMAP_ZONE_SIZE" and "\<forall>t\<in>set ts. unat addr \<le> unat (start_addr t)"
  shows "i \<le> k \<and> k - i \<le> length ts \<and> unat addr \<le> unat r \<and>
    unat r + unat sz \<le> unat VMAP_ZONE_START + unat VMAP_ZONE_SIZE \<and>
    (\<forall>t\<in>set (take (k - i) ts). zend t \<le> unat r) \<and>
    (\<forall>t\<in>set (drop (k - i) ts). unat r + unat sz \<le> unat (start_addr t))"
  using assms
proof (induction sz addr ts i rule: gap_search.induct)
  case (1 sz addr i)
  then show ?case by simp
next
  case (2 sz addr t ts i)
  let ?E = "unat VMAP_ZONE_START + unat VMAP_ZONE_SIZE"
  have E: "?E < 2 ^ 64" by (simp add: VMAP_ZONE_START_def VMAP_ZONE_SIZE_def)
  have sa: "unat (sz + addr) = unat sz + unat addr"
    by (rule unat_add_no_overflow) (use "2.prems"(4) E in simp)
  have inv: "zones_inv ts" "\<forall>u\<in>set ts. zend t \<le> unat (start_addr u)" "zend t \<le> ?E"
    using "2.prems"(2) by (auto simp: zones_inv_def)
  have za: "unat (zsize t + start_addr t) = zend t"
    by (subst unat_add_no_overflow) (use inv(3) E in \<open>simp_all add: zend_def\<close>)
  have ge: "\<not> start_addr t < addr" using "2.prems"(6) by (simp add: word_less_nat_alt)
  have now: "\<not> sz + addr < addr" using sa by (simp add: word_less_nat_alt)
  show ?case
  proof (cases "sz + addr \<le> start_addr t")
    case True
    then have r: "r = addr" "k = i" using "2.prems"(1) ge now by simp_all
    have "unat addr + unat sz \<le> unat (start_addr t)" using True sa by (simp add: word_le_nat_alt)
    moreover have "unat (start_addr t) \<le> unat (start_addr u)" if "u \<in> set ts" for u
      using inv(2) that by (auto simp: zend_def)
    ultimately show ?thesis using r "2.prems"(4) by (auto intro: order_trans)
  next
    case False
    have lim: "unat (VMAP_ZONE_START + VMAP_ZONE_SIZE - sz) = ?E - unat sz"
    proof -
      have e: "unat (VMAP_ZONE_START + VMAP_ZONE_SIZE) = ?E"
        by (rule unat_add_no_overflow) (use E in simp)
      have "sz \<le> VMAP_ZONE_START + VMAP_ZONE_SIZE"
        using "2.prems"(5) e by (simp add: word_le_nat_alt)
      then show ?thesis using e by (simp add: unat_sub)
    qed
    have nl: "\<not> zsize t + start_addr t > VMAP_ZONE_START + VMAP_ZONE_SIZE - sz"
      using "2.prems"(1) ge now False by (auto simp: Let_def split: if_splits)
    then have le: "zend t + unat sz \<le> ?E"
      using za lim "2.prems"(5) by (simp add: word_less_nat_alt not_less)
    have rec: "gap_search sz (zsize t + start_addr t) ts (Suc i) = Some (r, k)"
      using "2.prems"(1) ge now False nl by (simp add: Let_def)
    have ad: "unat addr \<le> unat (start_addr t)" using "2.prems"(6) by simp
    have "Suc i \<le> k \<and> k - Suc i \<le> length ts \<and> unat (zsize t + start_addr t) \<le> unat r \<and>
      unat r + unat sz \<le> ?E \<and> (\<forall>t\<in>set (take (k - Suc i) ts). zend t \<le> unat r) \<and>
      (\<forall>t\<in>set (drop (k - Suc i) ts). unat r + unat sz \<le> unat (start_addr t))"
      using "2.IH"(2) [OF ge now False refl nl rec] inv le za ad "2.prems"(3,5) by (simp add: zend_def)
    moreover from this have "k - i = Suc (k - Suc i)" by arith
    ultimately show ?thesis using za ad by (auto simp: zend_def)
  qed
qed

lemma zones_inv_insert:
  assumes "zones_inv ts" and "k \<le> length ts" and "unat VMAP_ZONE_START \<le> unat (start_addr z)"
    and "zend z \<le> unat VMAP_ZONE_START + unat VMAP_ZONE_SIZE"
    and "\<forall>t\<in>set (take k ts). zend t \<le> unat (start_addr z)"
    and "\<forall>t\<in>set (drop k ts). zend z \<le> unat (start_addr t)"
  shows "zones_inv (take k ts @ z # drop k ts)"
proof -
  have s: "sorted_wrt (\<lambda>t u. zend t \<le> unat (start_addr u)) (take k ts @ drop k ts)"
    using assms(1) by (simp add: zones_inv_def)
  have "t \<in> set ts" if "t \<in> set (take k ts) \<union> set (drop k ts)" for t
    using that by (auto dest: in_set_takeD in_set_dropD)
  then have "\<forall>t\<in>set (take k ts) \<union> set (drop k ts). unat VMAP_ZONE_START \<le> unat (start_addr t) \<and>
      zend t \<le> unat VMAP_ZONE_START + unat VMAP_ZONE_SIZE"
    using assms(1) by (auto simp: zones_inv_def)
  moreover have "sorted_wrt (\<lambda>t u. zend t \<le> unat (start_addr u)) (take k ts @ z # drop k ts)"
    using s assms(5,6) unfolding sorted_wrt_append by simp
  ultimately show ?thesis using assms(3,4) unfolding zones_inv_def by auto
qed

section \<open>Properties\<close>

text \<open>
  After \<open>cpu_mm_map_page\<close> the software walk \<open>cpu_mm_get_phys_address\<close> finds the page frame
  that was mapped, whether the intermediate tables existed or were allocated on the way, as long as
  the tables are distinct pages of the direct mapping and no 2 MiB mapping covers the address.
\<close>

theorem map_page_translates:
  assumes "next_table (\<lambda>p _. v p) t (unat (PML4_FROM_VA va)) a = Inr (t3, a1)"
    and "next_table (\<lambda>p _. v p) t3 (unat (PDPT_FROM_VA va)) a1 = Inr (t2, a2)"
    and "next_table (\<lambda>p _. v p) t2 (unat (PDET_FROM_VA va)) a2 = Inr (t1, a3)"
    and "table_ok t3" "table_ok t2" "table_ok t1"
    and "region t 4096 \<inter> region t3 4096 = {}" "region t 4096 \<inter> region t2 4096 = {}"
      "region t 4096 \<inter> region t1 4096 = {}" "region t3 4096 \<inter> region t2 4096 = {}"
      "region t3 4096 \<inter> region t1 4096 = {}" "region t2 4096 \<inter> region t1 4096 = {}"
    and "rd64 (ram a3) (t2 + 8 * PDET_FROM_VA va) AND PDET_PAGE_SIZE = 0"
  shows "\<exists>a'. cpu_mm_map_page (\<lambda>p _. v p) K t phys va fl a = Inr a' \<and>
    cpu_mm_get_phys_address t va (ram a') = PAGE_FRAME phys"
  by (rule map_page_then_translate [OF assms])

definition table_mem :: mem where
  "table_mem = wr64 0xffff800000200000 0x201007 (wr64 0xffff800000201000 0x202007
     (wr64 0xffff800000202000 0x203007 (\<lambda>_. 0)))"

lemma rd64_wr64_other: "region a 8 \<inter> region b 8 = {} \<Longrightarrow> rd64 (wr64 a w m) b = rd64 m b"
  by (rule rd64_cong) (auto intro: wr64_outside)

lemma regions_apart:
  assumes "unat a + m \<le> unat b" and "unat b + n \<le> 2 ^ 64"
  shows "region a m \<inter> region b n = {}"
proof -
  have "a + of_nat i \<noteq> b + of_nat j" if "i < m" "j < n" for i j
  proof -
    have "unat (of_nat i :: u64) = i" "unat (of_nat j :: u64) = j"
      using that assms by (simp_all add: unat_of_nat)
    then have "unat (a + of_nat i) = unat a + i" "unat (b + of_nat j) = unat b + j"
      using that assms by (simp_all add: unat_add_no_overflow)
    then have "unat (a + of_nat i) < unat (b + of_nat j)" using that assms by linarith
    then show ?thesis by auto
  qed
  then show ?thesis by (auto simp: region_def)
qed

lemma table_mem_entries:
  "rd64 table_mem 0xffff800000200000 = 0x201007" "rd64 table_mem 0xffff800000201000 = 0x202007"
  "rd64 table_mem 0xffff800000202000 = 0x203007"
  by (simp_all add: table_mem_def rd64_wr64_same rd64_wr64_other regions_apart)

theorem map_page_translates_witness:
  "\<exists>a'. cpu_mm_map_page (\<lambda>p _. 0) \<lparr>VM_READ = 1, VM_WRITE = 2, VM_EXEC = 4, VM_USER = 8, VM_MAYWRITE = 16\<rparr>
      0xffff800000200000 0x42000 0 8 (small_boot\<lparr>ram := table_mem\<rparr>) = Inr a' \<and>
    cpu_mm_get_phys_address 0xffff800000200000 0 (ram a') = 0x42000"
proof -
  let ?a = "small_boot\<lparr>ram := table_mem\<rparr>"
  have i: "PML4_FROM_VA 0 = 0" "PDPT_FROM_VA 0 = 0" "PDET_FROM_VA 0 = 0"
    by (simp_all add: PML4_FROM_VA_def PDPT_FROM_VA_def PDET_FROM_VA_def)
  have n: "next_table (\<lambda>p _. 0) 0xffff800000200000 (unat (PML4_FROM_VA 0)) ?a = Inr (0xffff800000201000, ?a)"
    "next_table (\<lambda>p _. 0) 0xffff800000201000 (unat (PDPT_FROM_VA 0)) ?a = Inr (0xffff800000202000, ?a)"
    "next_table (\<lambda>p _. 0) 0xffff800000202000 (unat (PDET_FROM_VA 0)) ?a = Inr (0xffff800000203000, ?a)"
    by (simp_all add: next_table_def i table_mem_entries BIT_def PAGE_FRAME_def PA2VA_def Let_def)
  have ok: "table_ok 0xffff800000201000" "table_ok 0xffff800000202000" "table_ok 0xffff800000203000"
    by (simp_all add: table_ok_def PAGE_FRAME_def PA2VA_def VA2PA_def)
  have f: "PAGE_FRAME 0x42000 = 0x42000" by (simp add: PAGE_FRAME_def)
  have "\<exists>a'. cpu_mm_map_page (\<lambda>p _. 0) \<lparr>VM_READ = 1, VM_WRITE = 2, VM_EXEC = 4, VM_USER = 8, VM_MAYWRITE = 16\<rparr>
      0xffff800000200000 0x42000 0 8 ?a = Inr a' \<and>
      cpu_mm_get_phys_address 0xffff800000200000 0 (ram a') = PAGE_FRAME 0x42000"
    by (rule map_page_translates [OF n ok]) (simp_all add: regions_apart i table_mem_entries BIT_def)
  then show ?thesis unfolding f .
qed

lemma get_vm_zone_cases:
  assumes "get_vm_zone gpv sz flags s = Some (Inr (Some z, s'))"
  obtains k r where "\<not> sz + PAGE_SIZE > VMAP_ZONE_SIZE"
    and "gap_search (sz + PAGE_SIZE) VMAP_ZONE_START (map (vm_zones s) (vm_zone_list s)) 0 = Some (r, k)"
    and "vm_zone_list s' = take k (vm_zone_list s) @ z # drop k (vm_zone_list s)"
    and "vm_zones s' = (vm_zones s)(z := \<lparr>start_addr = r, zsize = sz + PAGE_SIZE,
           vflags = ucast flags, num_pages = 0, phys_addr = 0\<rparr>)"
proof -
  obtain r where r: "kmalloc gpv sizeof_vm_zone (kslab s) = Some r"
    using assms by (auto simp: get_vm_zone_def)
  then obtain z' sl where "r = Inr (z', sl)"
    using assms by (cases r) (auto simp: get_vm_zone_def)
  with assms r that show thesis
    by (auto simp: get_vm_zone_def Let_def bind_res_def split: if_splits option.splits sum.splits)
qed

text \<open>
  C16: a range of kernel addresses that \<open>get_vm_zone\<close> hands out has the requested size plus the
  guard page, lies in the area set aside for such ranges and overlaps none of the ranges already
  handed out; the list of ranges stays ordered.
\<close>

theorem get_vm_zone_disjoint:
  assumes "get_vm_zone gpv sz flags s = Some (Inr (Some z, s'))"
    and "zones_inv (map (vm_zones s) (vm_zone_list s))" and "z \<notin> set (vm_zone_list s)"
    and "unat sz + 4096 < 2 ^ 64"
  shows "zones_inv (map (vm_zones s') (vm_zone_list s')) \<and> zsize (vm_zones s' z) = sz + PAGE_SIZE \<and>
    (\<exists>xs ys. vm_zone_list s = xs @ ys \<and> vm_zone_list s' = xs @ z # ys) \<and>
    (\<forall>y\<in>set (vm_zone_list s). vm_zones s' y = vm_zones s y)"
proof -
  obtain k r where lt: "\<not> sz + PAGE_SIZE > VMAP_ZONE_SIZE"
    and g: "gap_search (sz + PAGE_SIZE) VMAP_ZONE_START (map (vm_zones s) (vm_zone_list s)) 0 = Some (r, k)"
    and s': "vm_zone_list s' = take k (vm_zone_list s) @ z # drop k (vm_zone_list s)"
      "vm_zones s' = (vm_zones s)(z := \<lparr>start_addr = r, zsize = sz + PAGE_SIZE,
         vflags = ucast flags, num_pages = 0, phys_addr = 0\<rparr>)"
    by (rule get_vm_zone_cases [OF assms(1)])
  let ?z = "vm_zones s' z"
  have "unat (sz + PAGE_SIZE) \<le> unat VMAP_ZONE_SIZE" using lt by (simp add: word_less_nat_alt)
  moreover have "\<forall>t\<in>set (map (vm_zones s) (vm_zone_list s)). unat VMAP_ZONE_START \<le> unat (start_addr t)"
    using assms(2) by (auto simp: zones_inv_def)
  ultimately have c: "k \<le> length (vm_zone_list s)" "unat VMAP_ZONE_START \<le> unat r"
    "unat r + unat (sz + PAGE_SIZE) \<le> unat VMAP_ZONE_START + unat VMAP_ZONE_SIZE"
    "\<forall>t\<in>set (take k (map (vm_zones s) (vm_zone_list s))). zend t \<le> unat r"
    "\<forall>t\<in>set (drop k (map (vm_zones s) (vm_zone_list s))). unat r + unat (sz + PAGE_SIZE) \<le> unat (start_addr t)"
    using gap_search_correct [OF g assms(2)] by auto
  have "zones_inv (take k (map (vm_zones s) (vm_zone_list s)) @ ?z # drop k (map (vm_zones s) (vm_zone_list s)))"
    by (rule zones_inv_insert) (use assms(2) c s' in \<open>auto simp: zend_def\<close>)
  moreover have "map (vm_zones s') (vm_zone_list s') =
      take k (map (vm_zones s) (vm_zone_list s)) @ ?z # drop k (map (vm_zones s) (vm_zone_list s))"
    using assms(3) s' by (auto simp: take_map drop_map dest: in_set_takeD in_set_dropD)
  moreover have "\<forall>y\<in>set (vm_zone_list s). vm_zones s' y = vm_zones s y" using assms(3) s' by auto
  moreover have "vm_zone_list s = take k (vm_zone_list s) @ drop k (vm_zone_list s)" by simp
  ultimately show ?thesis using s' by (metis (no_types, lifting) fun_upd_same vm_zone.select_convs(2))
qed

definition zone_boot :: paging_state where
  "zone_boot = \<lparr>kslab = small_slab\<lparr>clinks := list_add (SlabList 0x600) (SlabsPartial 0x500) (clinks small_slab)\<rparr>,
     kernel_pgtable = 0, cr3 = 0, g_kernel_phys_base = 0, g_kernel_reserved_size = 0,
     vm_zone_list = [], vm_zones = (\<lambda>_. \<lparr>start_addr = 0, zsize = 0, vflags = 0, num_pages = 0, phys_addr = 0\<rparr>)\<rparr>"

lemma zone_boot_alloc:
  "\<exists>sl. alloc_from_slab 0x600 (kslab zone_boot) = Inr (0xffff800000100400, sl)"
  "cache_alloc_with km gpv 0x500 (kslab zone_boot) = Some (alloc_from_slab 0x600 (kslab zone_boot))"
proof -
  have n: "\<not> list_empty (SlabsPartial 0x500) (clinks (kslab zone_boot))"
    "lh_next (clinks (kslab zone_boot) (SlabsPartial 0x500)) = SlabList 0x600"
    by (simp_all add: zone_boot_def small_slab_def list_add_def list_add_between_def list_empty_def)
  then show "cache_alloc_with km gpv 0x500 (kslab zone_boot) = Some (alloc_from_slab 0x600 (kslab zone_boot))"
    by (simp add: cache_alloc_with_def slab_of_node_def)
  have "pa (kslab zone_boot) = pa small_slab" by (simp add: zone_boot_def)
  then have b: "page_backptrs 0xffff800000100000 (kslab zone_boot) = Inr (0x500, 0x600)"
    using small_slab_backptrs(1) unfolding page_backptrs_def by (simp only:)
  have f: "sl_mem (slabs (kslab zone_boot) 0x600) = 0xffff800000100000" "next_free (slabs (kslab zone_boot) 0x600) = 1"
    "objs_per_slab (caches (kslab zone_boot) 0x500) = 4" "object_size (caches (kslab zone_boot) 0x500) = 1024"
    by (simp_all add: zone_boot_def small_slab_def)
  show "\<exists>sl. alloc_from_slab 0x600 (kslab zone_boot) = Inr (0xffff800000100400, sl)"
    by (simp add: alloc_from_slab_def b f FREE_LIST_END_def Let_def word_le_nat_alt)
qed

lemma zone_boot_kmalloc:
  "\<exists>sl. kmalloc (\<lambda>p s. 0) sizeof_vm_zone (kslab zone_boot) = Some (Inr (0xffff800000100400, sl))"
proof -
  have c: "size_class sizeof_vm_zone malloc_sizes 0 = Some 1"
    by (simp add: malloc_sizes_def sizeof_vm_zone_def)
  have f: "malloc_cache (kslab zone_boot) 1 = 0x500" by (simp add: zone_boot_def small_slab_def)
  then have "malloc_cache (kslab zone_boot) 1 \<noteq> 0" by simp
  from kmalloc_unfold [OF c this, of 1 "\<lambda>p s. 0"] show ?thesis
    using f zone_boot_alloc by (simp add: kmalloc_def numeral_2_eq_2 [symmetric])
qed

theorem get_vm_zone_disjoint_witness:
  "\<exists>s'. get_vm_zone (\<lambda>p s. 0) 0x1000 0 zone_boot = Some (Inr (Some 0xffff800000100400, s')) \<and>
     zones_inv (map (vm_zones s') (vm_zone_list s'))"
proof -
  have z: "vm_zone_list zone_boot = []" by (simp add: zone_boot_def)
  obtain s' where s': "get_vm_zone (\<lambda>p s. 0) 0x1000 0 zone_boot = Some (Inr (Some 0xffff800000100400, s'))"
    using zone_boot_kmalloc z by (auto simp: get_vm_zone_def Let_def PAGE_SIZE_def VMAP_ZONE_SIZE_def)
  from get_vm_zone_disjoint [OF s'] z have "zones_inv (map (vm_zones s') (vm_zone_list s'))"
    by (simp add: zones_inv_def)
  with s' show ?thesis by blast
qed

end
