(* ===== verification/Kernel_State.thy ===== *)
theory Kernel_State
  imports Paging
begin

text \<open>
  The state shared by the memory management, file system and scheduling code: the structures
  of \<^verbatim>\<open>include/lucix/fs/*.h\<close>, \<^verbatim>\<open>include/lucix/vfs.h\<close>, \<^verbatim>\<open>include/lucix/task.h\<close>,
  \<^verbatim>\<open>fs/namecache.h\<close>, \<^verbatim>\<open>fs/inocache.h\<close> and \<^verbatim>\<open>fs/ramfs/*.h\<close>, each in a typed store indexed by
  the address the allocator gave the object. All intrusive lists live in one store of links.

  An operation is a function from states to a fault or a result with a new state; \<open>kbind\<close>
  sequences two of them. Everything the sources take from headers that are not part of the
  repository is a field of the environment \<open>env\<close>: the virtual address of a page, the bits of
  \<^verbatim>\<open>lucix/vma.h\<close> and \<^verbatim>\<open>lucix/page_fault.h\<close>, the numbering of \<^verbatim>\<open>lucix/cdev.h\<close>, object sizes.
\<close>

section \<open>What is not in the repository\<close>

record env =
  get_page_vaddr :: vaddr_of
  vm :: vm_consts
  VM_FLAG_ANON :: u32
  VM_FLAG_PRIVATE :: u32
  VM_FLAG_POPULATE :: u32
  VMA_FILE :: u32
  PGFAULT_PROTECTION :: u32
  PGFAULT_WRITE :: u32
  PGFAULT_USR :: u32
  PGFAULT_INSTRUCTION :: u32
  MAX_MAJOR :: u32
  GET_MAJOR :: "u32 \<Rightarrow> u32"
  VMA_STACK :: u32
  sizeof_vm_area :: u32
  set_page_cache_owner :: "u64 \<Rightarrow> u64 \<Rightarrow> alloc_state \<Rightarrow> alloc_state"
  cdrv_ref :: "u64 \<Rightarrow> u64"        \<comment> \<open>on the private part of a driver\<close>
  ramfs_filesystem_at :: u64    \<comment> \<open>the address of the static \<open>ramfs_filesystem\<close>\<close>
  cpu_idle_at :: u64            \<comment> \<open>the address of \<open>cpu_idle\<close>\<close>

section \<open>Structures\<close>

datatype knode =
    VmAreas u64 | VmaNode u64 | NameList | NameNode u64 | InoList | InoNode u64
  | FsList | FsNode u64 | DirEntries u64 | DirNode u64 | BinfmtList | BinfmtNode u64
  | RunQueue | TaskQ u64 | TaskList u64 | TaskChildren u64 | MountNode u64
  | DeviceTable | DeviceNode u64 | ConsoleList | ConsoleNode u64
  | KPoison1 | KPoison2 | KNull

text \<open>Tables of function pointers, by the object that holds them.\<close>

datatype vma_ops = NoVmaOps | RamfsVmaOps
datatype fops = NoFops | RamfsFileOps | DriverFops nat
datatype iops = NoIops | RamfsInoOps
datatype mapops = NoMapOps | RamfsMapOps
datatype sbops = NoSbOps | RamfsSbOps
datatype fsops = NoFsOps | RamfsFsOps

record vm_area =
  va_start :: u64
  va_end :: u64
  va_length :: u64
  va_prot :: u32
  va_flags :: u32
  va_file :: u64
  va_type :: u32
  fpg_off :: u64
  va_procmm :: u64
  vm_ops :: vma_ops

record kfile =
  f_inode :: u64
  f_ops :: fops
  f_flags :: u32
  f_offset :: u64
  f_refcnt :: u32

record inode =
  ino_id :: u32
  ino_mode :: u32
  ino_size :: u64
  ino_dev :: u32
  ino_blocks :: u32
  ino_block_size :: u32
  ino_refcnt :: u32
  f_map :: u64
  ino_ops :: iops
  default_fops :: fops
  ino_sb :: u64

record page_mapping =
  map_owner :: u64
  map_pages :: "nat \<Rightarrow> u64"      \<comment> \<open>\<open>pages[i]\<close>, 0 being the null pointer\<close>
  map_len :: nat                 \<comment> \<open>the number of pointers the array has room for\<close>
  nr_pages :: u64
  map_ops :: mapops

record name_entry =
  ne_parent :: u64
  ne_name :: "u8 list"
  ne_ino :: u64

record ino_cache_entry =
  ie_ino :: u64
  ie_sb :: u64

record dir_entry =
  de_name :: "u8 list"
  de_ino :: u64

record super_block =
  sb_root :: u64
  ino_counter :: u32
  sb_ops :: sbops

record file_system =
  fs_name :: "u8 list"
  fs_flags :: u32
  fs_ops :: fsops

record vfs_mount =
  mnt_ino :: u64
  mnt_root_ino :: u64
  mnt_sb :: u64

record task =
  t_parent :: u64
  t_mm :: u64
  t_kstack :: u64
  t_ksp :: u64
  t_kstack_size :: u64
  t_fd :: "nat \<Rightarrow> u64"           \<comment> \<open>\<open>fd_table->fd[i]\<close>\<close>
  t_fd_at :: u64                 \<comment> \<open>the address of that array\<close>
  t_table_size :: nat
  t_cpu_state :: u64
  t_needs_sched :: bool

record arch_x86_cpu_state =
  c_rip :: u64  c_cs :: u64  c_ss :: u64  c_rflags :: u64  c_rsp :: u64
  c_rdi :: u64  c_rsi :: u64  c_rbp :: u64  c_rbx :: u64  c_rdx :: u64  c_rcx :: u64  c_rax :: u64
  c_r8 :: u64  c_r9 :: u64  c_r10 :: u64  c_r11 :: u64  c_r12 :: u64  c_r13 :: u64  c_r14 :: u64  c_r15 :: u64

record device_table_element =
  device_type :: u32
  cfg_address_base :: u64
  cfg_segment :: u32
  cfg_bus_start :: u32
  cfg_bus_end :: u32

record kstate =
  ps :: paging_state
  klinks :: "knode lheap"
  vmas :: "u64 \<Rightarrow> vm_area"
  mm_pgtable :: "u64 \<Rightarrow> u64"
  files :: "u64 \<Rightarrow> kfile"
  inodes :: "u64 \<Rightarrow> inode"
  mappings :: "u64 \<Rightarrow> page_mapping"
  name_entries :: "u64 \<Rightarrow> name_entry"
  ino_entries :: "u64 \<Rightarrow> ino_cache_entry"
  dir_entries :: "u64 \<Rightarrow> dir_entry"
  supers :: "u64 \<Rightarrow> super_block"
  file_systems :: "u64 \<Rightarrow> file_system"
  mounts :: "u64 \<Rightarrow> vfs_mount"
  mnt_root :: u64
  vm_area_cache :: u64
  file_mem_cache :: u64
  name_cache_slab :: u64
  ino_cache_mem_cache :: u64
  ramfs_inode_cache :: u64
  task_cache :: u64
  procmm_cache :: u64
  char_device_drivers :: "nat \<Rightarrow> nat option"
  cdrv_private :: "nat \<Rightarrow> u64"
  console_out :: "u8 list"      \<comment> \<open>the characters given to \<open>console_putchar\<close>, in order\<close>
  tasks :: "u64 \<Rightarrow> task"
  cpu_current :: u64
  cpu_idle_task :: u64
  tss_rsp0 :: u64
  cpu_states :: "u64 \<Rightarrow> arch_x86_cpu_state"
  apic_regs :: u64              \<comment> \<open>the address the registers of the local APIC are used at\<close>
  apic_writes :: "(u64 \<times> u32) list"      \<comment> \<open>addresses and values written through \<open>apic_write32\<close>, in order\<close>
  port_writes :: "(u32 \<times> nat \<times> u32) list"   \<comment> \<open>port, bytes and data of every \<open>out\<close>, in order\<close>
  devices :: "u64 \<Rightarrow> device_table_element"
  g_device_mem_cache :: u64
  g_hpet_regs :: u64
  g_acpi_xsdt :: u64

section \<open>Operations on states\<close>

type_synonym 'a kop = "kstate \<Rightarrow> ('a \<times> kstate) res"

definition kret :: "'a \<Rightarrow> 'a kop" where
  "kret x s = Inr (x, s)"

definition kbind :: "'a kop \<Rightarrow> ('a \<Rightarrow> 'b kop) \<Rightarrow> 'b kop" where
  "kbind m f s = bind_res (m s) (\<lambda>(x, s'). f x s')"

definition kseq :: "unit kop \<Rightarrow> 'b kop \<Rightarrow> 'b kop" where
  "kseq m n = kbind m (\<lambda>_. n)"

definition kget :: "(kstate \<Rightarrow> 'a) \<Rightarrow> 'a kop" where
  "kget f s = Inr (f s, s)"

definition kmod :: "(kstate \<Rightarrow> kstate) \<Rightarrow> unit kop" where
  "kmod f s = Inr ((), f s)"

definition kfail :: "fault \<Rightarrow> 'a kop" where
  "kfail e s = Inl e"

definition kwhen :: "bool \<Rightarrow> unit kop \<Rightarrow> unit kop" where
  "kwhen b m = (if b then m else kret ())"

text \<open>An access through a pointer, which faults on the null pointer.\<close>

definition kptr :: "u64 \<Rightarrow> unit kop" where
  "kptr p = (if p = 0 then kfail NullDeref else kret ())"

lemma kop_simps [simp, res_simps]:
  "kret x s = Inr (x, s)" "kget f s = Inr (f s, s)" "kmod g s = Inr ((), g s)" "kfail e s = Inl e"
  by (simp_all add: kret_def kget_def kmod_def kfail_def)

lemma kbind_simps [simp]:
  "m s = Inr (x, s') \<Longrightarrow> kbind m f s = f x s'"
  "m s = Inl e \<Longrightarrow> kbind m f s = Inl e"
  by (simp_all add: kbind_def)

lemma kseq_simps [simp]:
  "m s = Inr (x, s') \<Longrightarrow> kseq m n s = n s'"
  "m s = Inl e \<Longrightarrow> kseq m n s = Inl e"
  by (simp_all add: kseq_def)

lemma kptr_simps [simp]: "p \<noteq> 0 \<Longrightarrow> kptr p = kret ()" "kptr 0 = kfail NullDeref"
  by (simp_all add: kptr_def)

lemma kwhen_simps [simp]: "kwhen True m = m" "kwhen False m = kret ()"
  by (simp_all add: kwhen_def)

lemma kbind_Inr_iff:
  "kbind m f s = Inr r \<longleftrightarrow> (\<exists>x s'. m s = Inr (x, s') \<and> f x s' = Inr r)"
  by (auto simp: kbind_def bind_res_def split: sum.splits)

text \<open>The stores.\<close>

definition upd_klinks :: "(knode lheap \<Rightarrow> knode lheap) \<Rightarrow> kstate \<Rightarrow> kstate" where
  "upd_klinks f s = s\<lparr>klinks := f (klinks s)\<rparr>"

definition upd_vma :: "u64 \<Rightarrow> (vm_area \<Rightarrow> vm_area) \<Rightarrow> kstate \<Rightarrow> kstate" where
  "upd_vma p f s = s\<lparr>vmas := (vmas s)(p := f (vmas s p))\<rparr>"

definition upd_file :: "u64 \<Rightarrow> (kfile \<Rightarrow> kfile) \<Rightarrow> kstate \<Rightarrow> kstate" where
  "upd_file p f s = s\<lparr>files := (files s)(p := f (files s p))\<rparr>"

definition upd_inode :: "u64 \<Rightarrow> (inode \<Rightarrow> inode) \<Rightarrow> kstate \<Rightarrow> kstate" where
  "upd_inode p f s = s\<lparr>inodes := (inodes s)(p := f (inodes s p))\<rparr>"

definition upd_mapping :: "u64 \<Rightarrow> (page_mapping \<Rightarrow> page_mapping) \<Rightarrow> kstate \<Rightarrow> kstate" where
  "upd_mapping p f s = s\<lparr>mappings := (mappings s)(p := f (mappings s p))\<rparr>"

definition upd_task :: "u64 \<Rightarrow> (task \<Rightarrow> task) \<Rightarrow> kstate \<Rightarrow> kstate" where
  "upd_task p f s = s\<lparr>tasks := (tasks s)(p := f (tasks s p))\<rparr>"

definition upd_cpu_state :: "u64 \<Rightarrow> (arch_x86_cpu_state \<Rightarrow> arch_x86_cpu_state) \<Rightarrow> kstate \<Rightarrow> kstate" where
  "upd_cpu_state p f s = s\<lparr>cpu_states := (cpu_states s)(p := f (cpu_states s p))\<rparr>"

text \<open>Memory, pages and page tables, lifted from the theories that model them.\<close>

definition upd_pa :: "(alloc_state \<Rightarrow> alloc_state) \<Rightarrow> kstate \<Rightarrow> kstate" where
  "upd_pa f s = s\<lparr>ps := (ps s)\<lparr>kslab := (kslab (ps s))\<lparr>pa := f (pa (kslab (ps s)))\<rparr>\<rparr>\<rparr>"

definition kpa :: "kstate \<Rightarrow> alloc_state" where
  "kpa s = pa (kslab (ps s))"

definition kram :: "kstate \<Rightarrow> mem" where
  "kram s = ram (kpa s)"

definition set_kram :: "(mem \<Rightarrow> mem) \<Rightarrow> kstate \<Rightarrow> kstate" where
  "set_kram f s = upd_pa (\<lambda>a. a\<lparr>ram := f (ram a)\<rparr>) s"

definition on_pa :: "(alloc_state \<Rightarrow> ('a \<times> alloc_state) res) \<Rightarrow> 'a kop" where
  "on_pa f s = bind_res (f (kpa s)) (\<lambda>(x, a). Inr (x, upd_pa (\<lambda>_. a) s))"

definition on_slab :: "(slab_state \<Rightarrow> ('a \<times> slab_state) res) \<Rightarrow> 'a kop" where
  "on_slab f s = bind_res (f (kslab (ps s))) (\<lambda>(x, sl). Inr (x, s\<lparr>ps := (ps s)\<lparr>kslab := sl\<rparr>\<rparr>))"

text \<open>
  \<open>kmalloc\<close> with the bound on its recursion being reached as a fault; under
  \<open>malloc_table_ok\<close> that does not happen.
\<close>

definition k_kmalloc :: "env \<Rightarrow> u64 \<Rightarrow> u64 kop" where
  "k_kmalloc E sz = on_slab (\<lambda>sl. returned (kmalloc (get_page_vaddr E) sz sl))"

definition k_kfree :: "u64 \<Rightarrow> unit kop" where
  "k_kfree p = on_slab (\<lambda>sl. bind_res (kfree p sl) (\<lambda>sl'. Inr ((), sl')))"

definition k_cache_alloc :: "env \<Rightarrow> u64 \<Rightarrow> u64 kop" where
  "k_cache_alloc E c = on_slab (\<lambda>sl. returned (mem_cache_alloc_obj (get_page_vaddr E) c sl))"

definition k_cache_free :: "u64 \<Rightarrow> u64 \<Rightarrow> unit kop" where
  "k_cache_free c p = on_slab (\<lambda>sl. bind_res (mem_cache_free_obj c p sl) (\<lambda>sl'. Inr ((), sl')))"

definition k_create_cache :: "env \<Rightarrow> u32 \<Rightarrow> string \<Rightarrow> u64 kop" where
  "k_create_cache E sz name = on_slab (\<lambda>sl. returned (create_obj_mem_cache (get_page_vaddr E) sz 0 name sl))"

definition k_alloc_pages :: "env \<Rightarrow> nat \<Rightarrow> u64 kop" where
  "k_alloc_pages E order = on_pa (alloc_pages (get_page_vaddr E) PGALLOC_KERNEL order)"

definition k_page_unref :: "u64 \<Rightarrow> unit kop" where
  "k_page_unref p = on_pa (\<lambda>a. bind_res (page_unref p a) (\<lambda>a'. Inr ((), a')))"

definition k_map_page :: "env \<Rightarrow> u64 \<Rightarrow> u64 \<Rightarrow> u64 \<Rightarrow> u32 \<Rightarrow> unit kop" where
  "k_map_page E t phys vaddr prot =
     on_pa (\<lambda>a. bind_res (cpu_mm_map_page (get_page_vaddr E) (vm E) t phys vaddr (ucast prot) a)
                  (\<lambda>a'. Inr ((), a')))"

section \<open>Reference counts (inode.h, file.h)\<close>

text \<open>Saving and restoring the interrupt flag makes each of these one step.\<close>

definition ino_ref :: "u64 \<Rightarrow> unit kop" where
  "ino_ref p = kseq (kptr p) (kmod (upd_inode p (\<lambda>i. i\<lparr>ino_refcnt := ino_refcnt i + 1\<rparr>)))"

definition ino_deref :: "u64 \<Rightarrow> unit kop" where
  "ino_deref p = kseq (kptr p) (kmod (upd_inode p (\<lambda>i. i\<lparr>ino_refcnt := ino_refcnt i - 1\<rparr>)))"

definition file_ref :: "u64 \<Rightarrow> unit kop" where
  "file_ref p = kseq (kptr p) (kmod (upd_file p (\<lambda>i. i\<lparr>f_refcnt := f_refcnt i + 1\<rparr>)))"

definition file_unref :: "u64 \<Rightarrow> unit kop" where
  "file_unref p = kseq (kptr p) (kmod (upd_file p (\<lambda>i. i\<lparr>f_refcnt := f_refcnt i - 1\<rparr>)))"

section \<open>Searching a list\<close>

text \<open>
  A \<open>list_for_each\<close> loop that looks for a node; \<open>Halted\<close> stands for a traversal that never
  comes back to the head.
\<close>

definition klist_find :: "knode \<Rightarrow> (knode \<Rightarrow> kstate \<Rightarrow> bool) \<Rightarrow> knode option kop" where
  "klist_find head P s =
     (case list_for_each fst head (find_body (\<lambda>x. P x s)) (lh_next (klinks s head)) (klinks s, None) of
        None \<Rightarrow> Inl Halted
      | Some (_, r) \<Rightarrow> Inr (r, s))"

lemma klist_find_ring [res_simps]:
  "ring (klinks s) head xs \<Longrightarrow> klist_find head P s = Inr (find (\<lambda>x. P x s) xs, s)"
  by (simp add: klist_find_def list_for_each_find)

section \<open>A kernel with nothing running\<close>

definition zero_cpu_state :: arch_x86_cpu_state where
  "zero_cpu_state = \<lparr>c_rip = 0, c_cs = 0, c_ss = 0, c_rflags = 0, c_rsp = 0, c_rdi = 0, c_rsi = 0, c_rbp = 0,
     c_rbx = 0, c_rdx = 0, c_rcx = 0, c_rax = 0, c_r8 = 0, c_r9 = 0, c_r10 = 0, c_r11 = 0, c_r12 = 0, c_r13 = 0,
     c_r14 = 0, c_r15 = 0\<rparr>"

definition blank_kernel :: kstate where
  "blank_kernel = \<lparr>ps = zone_boot, klinks = (\<lambda>x. \<lparr>lh_next = x, lh_prev = x\<rparr>),
     vmas = (\<lambda>_. \<lparr>va_start = 0, va_end = 0, va_length = 0, va_prot = 0, va_flags = 0, va_file = 0,
       va_type = 0, fpg_off = 0, va_procmm = 0, vm_ops = NoVmaOps\<rparr>),
     mm_pgtable = (\<lambda>_. 0),
     files = (\<lambda>_. \<lparr>f_inode = 0, f_ops = NoFops, f_flags = 0, f_offset = 0, f_refcnt = 0\<rparr>),
     inodes = (\<lambda>_. \<lparr>ino_id = 0, ino_mode = 0, ino_size = 0, ino_dev = 0, ino_blocks = 0,
       ino_block_size = 0, ino_refcnt = 0, f_map = 0, ino_ops = NoIops, default_fops = NoFops, ino_sb = 0\<rparr>),
     mappings = (\<lambda>_. \<lparr>map_owner = 0, map_pages = (\<lambda>_. 0), map_len = 0, nr_pages = 0, map_ops = NoMapOps\<rparr>),
     name_entries = (\<lambda>_. \<lparr>ne_parent = 0, ne_name = [], ne_ino = 0\<rparr>),
     ino_entries = (\<lambda>_. \<lparr>ie_ino = 0, ie_sb = 0\<rparr>),
     dir_entries = (\<lambda>_. \<lparr>de_name = [], de_ino = 0\<rparr>),
     supers = (\<lambda>_. \<lparr>sb_root = 0, ino_counter = 0, sb_ops = NoSbOps\<rparr>),
     file_systems = (\<lambda>_. \<lparr>fs_name = [], fs_flags = 0, fs_ops = NoFsOps\<rparr>),
     mounts = (\<lambda>_. \<lparr>mnt_ino = 0, mnt_root_ino = 0, mnt_sb = 0\<rparr>), mnt_root = 0,
     vm_area_cache = 0, file_mem_cache = 0, name_cache_slab = 0, ino_cache_mem_cache = 0,
     ramfs_inode_cache = 0, task_cache = 0, procmm_cache = 0, char_device_drivers = (\<lambda>_. None),
     cdrv_private = (\<lambda>_. 0), console_out = [],
     tasks = (\<lambda>_. \<lparr>t_parent = 0, t_mm = 0, t_kstack = 0, t_ksp = 0, t_kstack_size = 0,
       t_fd = (\<lambda>_. 0), t_fd_at = 0, t_table_size = 0, t_cpu_state = 0, t_needs_sched = False\<rparr>),
     cpu_current = 0, cpu_idle_task = 0, tss_rsp0 = 0,
     cpu_states = (\<lambda>_. zero_cpu_state), apic_regs = 0, apic_writes = [], port_writes = [],
     devices = (\<lambda>_. \<lparr>device_type = 0, cfg_address_base = 0, cfg_segment = 0, cfg_bus_start = 0, cfg_bus_end = 0\<rparr>),
     g_device_mem_cache = 0, g_hpet_regs = 0, g_acpi_xsdt = 0\<rparr>"

lemma blank_kernel_ring: "ring (klinks blank_kernel) x []"
  by (simp add: blank_kernel_def ring_Nil)

lemma boot_cache_alloc:
  assumes "kslab (ps s) = kslab zone_boot"
  shows "\<exists>sl. k_cache_alloc E 0x500 s = Inr (0xffff800000100400, s\<lparr>ps := (ps s)\<lparr>kslab := sl\<rparr>\<rparr>)"
  using zone_boot_alloc assms
  by (auto simp: k_cache_alloc_def on_slab_def mem_cache_alloc_obj_def returned_def)

section \<open>Postconditions\<close>

text \<open>
  \<open>kpost m s Q\<close>: if \<open>m\<close> returns from state \<open>s\<close>, its result and final state satisfy \<open>Q\<close>. The
  rules compute it along the structure of an operation; the allocators change only the memory.
\<close>

named_theorems kpost_simps "equations for postconditions"

definition kpost :: "'a kop \<Rightarrow> kstate \<Rightarrow> ('a \<Rightarrow> kstate \<Rightarrow> bool) \<Rightarrow> bool" where
  "kpost m s Q \<longleftrightarrow> (\<forall>x s'. m s = Inr (x, s') \<longrightarrow> Q x s')"

lemma kpostI: "(\<And>x s'. m s = Inr (x, s') \<Longrightarrow> Q x s') \<Longrightarrow> kpost m s Q"
  by (simp add: kpost_def)

lemma kpostD: "kpost m s Q \<Longrightarrow> m s = Inr (x, s') \<Longrightarrow> Q x s'"
  by (simp add: kpost_def)

lemma kpost_mono: "kpost m s P \<Longrightarrow> (\<And>x s'. P x s' \<Longrightarrow> Q x s') \<Longrightarrow> kpost m s Q"
  by (simp add: kpost_def)

lemma kpost_pure [kpost_simps]:
  "kpost (kret x) s Q = Q x s" "kpost (kget f) s R = R (f s) s" "kpost (kfail e) s T = True"
  by (auto simp: kpost_def)

lemma kpost_unit [kpost_simps]:
  "kpost (kmod g) s Q = Q () (g s)" "kpost (kptr p) s Q = (p \<noteq> 0 \<longrightarrow> Q () s)"
  "kpost (kwhen b m) s Q = (if b then kpost m s Q else Q () s)"
  by (auto simp: kpost_def kptr_def)

lemma kpost_kbind [kpost_simps]: "kpost (kbind m f) s Q = kpost m s (\<lambda>x s'. kpost (f x) s' Q)"
  by (auto simp: kpost_def kbind_Inr_iff)

lemma kpost_kseq [kpost_simps]: "kpost (kseq m n) s Q = kpost m s (\<lambda>_ s'. kpost n s' Q)"
  by (simp add: kseq_def kpost_kbind)

lemma kpost_if [kpost_simps]: "kpost (if b then m else n) s Q = (if b then kpost m s Q else kpost n s Q)"
  by simp

lemma on_slab_frame: "on_slab g s = Inr (x, s') \<Longrightarrow> \<exists>sl. s' = s\<lparr>ps := (ps s)\<lparr>kslab := sl\<rparr>\<rparr>"
  by (auto simp: on_slab_def bind_res_def split: sum.splits)

lemma kpost_on_slab: "(\<And>x sl. Q x (s\<lparr>ps := (ps s)\<lparr>kslab := sl\<rparr>\<rparr>)) \<Longrightarrow> kpost (on_slab g) s Q"
  by (auto simp: kpost_def dest!: on_slab_frame)

lemma kpost_k_kmalloc [intro!]: "(\<And>x sl. Q x (s\<lparr>ps := (ps s)\<lparr>kslab := sl\<rparr>\<rparr>)) \<Longrightarrow> kpost (k_kmalloc E n) s Q"
  and kpost_k_cache_alloc [intro!]: "(\<And>x sl. Q x (s\<lparr>ps := (ps s)\<lparr>kslab := sl\<rparr>\<rparr>)) \<Longrightarrow> kpost (k_cache_alloc E c) s Q"
  by (auto simp: k_kmalloc_def k_cache_alloc_def intro: kpost_on_slab)

lemma kpost_k_cache_free [intro!]: "(\<And>sl. Q () (s\<lparr>ps := (ps s)\<lparr>kslab := sl\<rparr>\<rparr>)) \<Longrightarrow> kpost (k_cache_free c p) s Q"
  by (auto simp: k_cache_free_def intro: kpost_on_slab)

text \<open>The nodes a traversal from \<open>head\<close> meets before it comes back to \<open>head\<close>.\<close>

inductive linked :: "knode lheap \<Rightarrow> knode \<Rightarrow> knode \<Rightarrow> bool" for h head where
  first: "lh_next (h head) \<noteq> head \<Longrightarrow> linked h head (lh_next (h head))"
| further: "linked h head x \<Longrightarrow> lh_next (h x) \<noteq> head \<Longrightarrow> linked h head (lh_next (h x))"

definition find_post :: "(knode \<Rightarrow> bool) \<Rightarrow> knode \<Rightarrow> knode \<Rightarrow> knode lheap \<times> knode option \<Rightarrow> knode lheap \<times> knode option \<Rightarrow> bool" where
  "find_post Q head pos st r \<longleftrightarrow> (snd st = None \<and> (pos = head \<or> linked (fst st) head pos) \<longrightarrow>
     (case snd r of Some x \<Rightarrow> linked (fst st) head x \<and> Q x | None \<Rightarrow> True))"

lemma find_loop_sound:
  assumes "list_for_each fst head (find_body Q) pos st = Some r"
  shows "find_post Q head pos st r"
proof -
  have "hp = fst \<longrightarrow> bd = find_body Q \<longrightarrow> find_post Q head pos st r"
    if "list_for_each hp head bd pos st = Some r" for hp bd
  proof (rule list_for_each.raw_induct [OF _ that])
    fix loop hp head bd pos st r
    assume ih: "\<And>hp head bd pos st r. loop hp head bd pos st = Some r \<Longrightarrow>
        hp = fst \<longrightarrow> bd = find_body Q \<longrightarrow> find_post Q head pos st r"
      and b: "(if pos = head then Some st
         else case bd pos st of (s', stop) \<Rightarrow> if stop then Some s' else loop hp head bd (lh_next (hp s' pos)) s') = Some r"
    show "hp = fst \<longrightarrow> bd = find_body Q \<longrightarrow> find_post Q head pos st r"
    proof (intro impI)
      assume e: "hp = fst" "bd = find_body Q"
      show "find_post Q head pos st r"
      proof (cases "pos = head \<or> Q pos")
        case True
        then show ?thesis using b e by (auto simp: find_body_def find_post_def split: if_splits)
      next
        case False
        then have "find_post Q head (lh_next (fst st pos)) st r" using b e ih by (simp add: find_body_def)
        then show ?thesis using False by (auto simp: find_post_def intro: linked.further)
      qed
    qed
  qed
  then show ?thesis using assms by blast
qed

lemma kpost_klist_find:
  assumes "\<And>x. linked (klinks s) head x \<Longrightarrow> P x s \<Longrightarrow> Q (Some x) s" and "Q None s"
  shows "kpost (klist_find head P) s Q"
proof (rule kpostI)
  fix r s'
  assume "klist_find head P s = Inr (r, s')"
  then obtain h where "list_for_each fst head (find_body (\<lambda>x. P x s)) (lh_next (klinks s head)) (klinks s, None) = Some (h, r)"
    and "s' = s" by (auto simp: klist_find_def split: option.splits)
  then show "Q r s'"
    using find_loop_sound [of head "\<lambda>x. P x s" _ "(klinks s, None)" "(h, r)"] assms
    by (cases r) (auto simp: find_post_def intro: linked.first)
qed

lemma lh_next_list_add:
  "lh_next (list_add n head h x) = (if x = head then n else if x = n then lh_next (h head) else lh_next (h x))"
  by (simp add: list_add_def list_add_between_def set_next_def set_prev_def)

lemma lh_next_set_next: "lh_next (set_next a b h x) = (if x = a then b else lh_next (h x))"
  by (simp add: set_next_def)

lemma linked_cong_imp:
  assumes "linked h head x" and "lh_next (h' head) = lh_next (h head)"
    and "\<And>y. linked h head y \<Longrightarrow> lh_next (h' y) = lh_next (h y)"
  shows "linked h' head x"
  using assms(1)
proof induction
  case first
  then show ?case using linked.first [of h' head] assms(2) by simp
next
  case (further x)
  then show ?case using linked.further [of h' head x] assms(3) by simp
qed

lemma linked_cong:
  assumes "lh_next (h' head) = lh_next (h head)" and "\<And>y. linked h head y \<Longrightarrow> lh_next (h' y) = lh_next (h y)"
  shows "linked h' head x = linked h head x"
proof
  assume "linked h' head x"
  then show "linked h head x"
  proof induction
    case first
    then show ?case using linked.first [of h head] assms(1) by simp
  next
    case (further x)
    then show ?case using linked.further [of h head x] assms(2) by simp
  qed
next
  assume "linked h head x"
  then show "linked h' head x" using assms by (rule linked_cong_imp)
qed

section \<open>A kernel with room\<close>

text \<open>
  All caches are one cache with a slab of eight objects of 512 bytes, of which the first \<open>k\<close> are
  in use, so that a sequence of allocations can be computed.
\<close>

definition roomy_slab :: "nat \<Rightarrow> slab_state" where
  "roomy_slab k = (kslab zone_boot)\<lparr>
     caches := (\<lambda>_. \<lparr>cflags = 0, object_size = 512, objs_per_slab = 8, cpage_order = 0, cname = ''c''\<rparr>),
     slabs := (slabs (kslab zone_boot))(0x600 := \<lparr>sl_mem = 0xffff800000100000, in_use = of_nat k, next_free = of_nat k\<rparr>),
     free_idx := (\<lambda>_ i. of_nat i + 1)\<rparr>"

definition room :: "nat \<Rightarrow> u64" where
  "room k = 0xffff800000100000 + 512 * of_nat k"

lemma small_nats_u32: "k < 8 \<Longrightarrow> of_nat k < (8 :: u32) \<and> (of_nat k :: u32) + 1 \<noteq> FREE_LIST_END \<and>
    (of_nat k :: u32) \<noteq> FREE_LIST_END \<and> unat (of_nat k :: u32) = k \<and> ucast (of_nat k * 512 :: u32) = (512 * of_nat k :: u64)"
proof -
  assume "k < 8"
  then have "k = 0 \<or> k = 1 \<or> k = 2 \<or> k = 3 \<or> k = 4 \<or> k = 5 \<or> k = 6 \<or> k = 7" by arith
  then show ?thesis by (elim disjE) (simp_all add: FREE_LIST_END_def)
qed

lemma room_nonzero [simp]: "k < 8 \<Longrightarrow> room k \<noteq> 0"
proof -
  assume "k < 8"
  then have "k = 0 \<or> k = 1 \<or> k = 2 \<or> k = 3 \<or> k = 4 \<or> k = 5 \<or> k = 6 \<or> k = 7" by arith
  then show ?thesis by (elim disjE) (simp_all add: room_def)
qed

lemma roomy_alloc:
  assumes "k < 8"
  shows "cache_alloc_with km gpv 0x500 (roomy_slab k) = Some (Inr (room k, roomy_slab (Suc k)))"
proof -
  have n: "\<not> list_empty (SlabsPartial 0x500) (clinks (roomy_slab k))"
    "lh_next (clinks (roomy_slab k) (SlabsPartial 0x500)) = SlabList 0x600"
    by (simp_all add: roomy_slab_def zone_boot_def small_slab_def list_add_def list_add_between_def list_empty_def)
  have "pa (roomy_slab k) = pa small_slab" by (simp add: roomy_slab_def zone_boot_def)
  then have b: "page_backptrs 0xffff800000100000 (roomy_slab k) = Inr (0x500, 0x600)"
    using small_slab_backptrs(1) unfolding page_backptrs_def by (simp only:)
  have "alloc_from_slab 0x600 (roomy_slab k) = Inr (room k, roomy_slab (Suc k))"
    using b small_nats_u32 [OF assms]
    by (simp add: alloc_from_slab_def Let_def roomy_slab_def upd_slab_def room_def not_le add.commute)
  then show ?thesis using n by (simp add: cache_alloc_with_def slab_of_node_def)
qed

lemma k_cache_alloc_roomy:
  assumes "kslab (ps s) = roomy_slab k" and "k < 8"
  shows "k_cache_alloc E 0x500 s = Inr (room k, s\<lparr>ps := (ps s)\<lparr>kslab := roomy_slab (Suc k)\<rparr>\<rparr>)"
  using assms by (simp add: k_cache_alloc_def on_slab_def mem_cache_alloc_obj_def roomy_alloc returned_def)

lemma k_kmalloc_roomy:
  assumes "kslab (ps s) = roomy_slab k" and "k < 8" and "n \<le> 32768"
  shows "k_kmalloc E n s = Inr (room k, s\<lparr>ps := (ps s)\<lparr>kslab := roomy_slab (Suc k)\<rparr>\<rparr>)"
proof -
  obtain i where c: "size_class n malloc_sizes 0 = Some i"
    using size_class_None [of n malloc_sizes 0] assms(3)
    by (cases "size_class n malloc_sizes 0") (auto simp: malloc_sizes_def)
  have m: "malloc_cache (roomy_slab k) i = 0x500" by (simp add: roomy_slab_def zone_boot_def small_slab_def)
  then have "malloc_cache (roomy_slab k) i \<noteq> 0" by simp
  from kmalloc_unfold [OF c this, of 1 "get_page_vaddr E"] m
  have "kmalloc (get_page_vaddr E) n (roomy_slab k) = Some (Inr (room k, roomy_slab (Suc k)))"
    by (simp add: kmalloc_def numeral_2_eq_2 [symmetric] roomy_alloc [OF assms(2)])
  then show ?thesis using assms(1) by (simp add: k_kmalloc_def on_slab_def returned_def)
qed

lemmas roomy_allocs =
  k_cache_alloc_roomy [where k = 0] k_cache_alloc_roomy [where k = "Suc 0"] k_cache_alloc_roomy [where k = "Suc (Suc 0)"]
  k_cache_alloc_roomy [where k = "Suc (Suc (Suc 0))"] k_cache_alloc_roomy [where k = "Suc (Suc (Suc (Suc 0)))"]
  k_kmalloc_roomy [where k = 0] k_kmalloc_roomy [where k = "Suc 0"] k_kmalloc_roomy [where k = "Suc (Suc 0)"]
  k_kmalloc_roomy [where k = "Suc (Suc (Suc 0))"] k_kmalloc_roomy [where k = "Suc (Suc (Suc (Suc 0)))"]

definition roomy_kernel :: kstate where
  "roomy_kernel = blank_kernel\<lparr>ps := zone_boot\<lparr>kslab := roomy_slab 0\<rparr>, vm_area_cache := 0x500, file_mem_cache := 0x500,
     name_cache_slab := 0x500, ino_cache_mem_cache := 0x500, ramfs_inode_cache := 0x500, task_cache := 0x500,
     procmm_cache := 0x500\<rparr>"

end
