(* ===== verification/Fs_Caches.thy ===== *)
theory Fs_Caches
  imports Kernel_State
begin

text \<open>
  The lists the file system layer searches by key: the registered file systems
  (\<^verbatim>\<open>fs/file_system.c\<close>), binary formats (\<^verbatim>\<open>kernel/binfmt.c\<close>), character device drivers
  (\<^verbatim>\<open>kernel/cdev.c\<close>), the cache of directory entries (\<^verbatim>\<open>fs/namecache.c\<close>) and the cache of
  inodes (\<^verbatim>\<open>fs/inocache.c\<close>). Names are byte lists without a terminator, so \<open>strcmp\<close> on them is
  equality of lists; a fixed-size name buffer is a name followed by zeros.
\<close>

section \<open>fs/file_system.c\<close>

definition fs_named :: "u8 list \<Rightarrow> knode \<Rightarrow> kstate \<Rightarrow> bool" where
  "fs_named name x s \<longleftrightarrow> (case x of FsNode p \<Rightarrow> fs_name (file_systems s p) = name | _ \<Rightarrow> False)"

definition file_system_register :: "u64 \<Rightarrow> unit kop" where
  "file_system_register p = kmod (upd_klinks (list_add_tail (FsNode p) FsList))"

definition file_system_unregister :: "u8 list \<Rightarrow> unit kop" where
  "file_system_unregister name =
     kbind (klist_find FsList (fs_named name)) (\<lambda>r.
       case r of
         None \<Rightarrow> kret ()
       | Some x \<Rightarrow> kmod (upd_klinks (list_del KPoison1 KPoison2 x)))"

definition file_system_lookup :: "u8 list \<Rightarrow> u64 kop" where
  "file_system_lookup name =
     kbind (klist_find FsList (fs_named name)) (\<lambda>r.
       kret (case r of Some (FsNode p) \<Rightarrow> p | _ \<Rightarrow> 0))"

section \<open>kernel/binfmt.c\<close>

text \<open>A binary format is known by its name; the only one in the tree is ELF.\<close>

definition fmt_named :: "(u64 \<Rightarrow> u8 list) \<Rightarrow> u8 list \<Rightarrow> knode \<Rightarrow> kstate \<Rightarrow> bool" where
  "fmt_named fmt_name name x s \<longleftrightarrow> (case x of BinfmtNode p \<Rightarrow> fmt_name p = name | _ \<Rightarrow> False)"

definition register_binfmt :: "(u64 \<Rightarrow> u8 list) \<Rightarrow> u64 \<Rightarrow> int kop" where
  "register_binfmt fmt_name p =
     kbind (kget (\<lambda>s. list_empty BinfmtList (klinks s))) (\<lambda>e.
       if e then kseq (kmod (upd_klinks (list_add (BinfmtNode p) BinfmtList))) (kret 0)
       else
         kbind (klist_find BinfmtList (fmt_named fmt_name (fmt_name p))) (\<lambda>r.
           if r \<noteq> None then kret (- EINVAL)
           else kseq (kmod (upd_klinks (list_add (BinfmtNode p) BinfmtList))) (kret 0)))"

section \<open>kernel/cdev.c\<close>

text \<open>\<open>register_char_device_driver\<close> does not check the bound its siblings check.\<close>

definition register_char_device_driver :: "env \<Rightarrow> u32 \<Rightarrow> nat \<Rightarrow> int kop" where
  "register_char_device_driver E major drv =
     (if major \<ge> MAX_MAJOR E then kfail OutOfBounds
      else kbind (kget (\<lambda>s. char_device_drivers s (unat major))) (\<lambda>d.
        if d \<noteq> None then kret (- EEXIST)
        else kseq (kmod (\<lambda>s. s\<lparr>char_device_drivers := (char_device_drivers s)(unat major := Some drv)\<rparr>)) (kret 0)))"

definition remove_char_device_driver :: "env \<Rightarrow> u32 \<Rightarrow> int kop" where
  "remove_char_device_driver E major =
     (if major \<ge> MAX_MAJOR E then kret (- EINVAL)
      else kbind (kget (\<lambda>s. char_device_drivers s (unat major))) (\<lambda>d.
        if d = None then kret (- ENOENT)
        else kseq (kmod (\<lambda>s. s\<lparr>char_device_drivers := (char_device_drivers s)(unat major := None)\<rparr>)) (kret 0)))"

definition get_driver :: "env \<Rightarrow> u32 \<Rightarrow> nat option kop" where
  "get_driver E major =
     (if major \<ge> MAX_MAJOR E then kret None else kget (\<lambda>s. char_device_drivers s (unat major)))"

section \<open>fs/namecache.c\<close>

definition MAX_NAME :: nat where "MAX_NAME = 255"

text \<open>\<open>memcmp(buf, str, len) == 0\<close> for a zero-padded buffer of \<open>n\<close> bytes.\<close>

definition buf_matches :: "nat \<Rightarrow> u8 list \<Rightarrow> u8 list \<Rightarrow> nat \<Rightarrow> bool" where
  "buf_matches n name str len \<longleftrightarrow> take len (name @ replicate (n - length name) 0) = take len str"

definition name_hit :: "u64 \<Rightarrow> u8 list \<Rightarrow> nat \<Rightarrow> knode \<Rightarrow> kstate \<Rightarrow> bool" where
  "name_hit parent str len x s \<longleftrightarrow>
     (case x of
        NameNode e \<Rightarrow> ne_parent (name_entries s e) = parent \<and> buf_matches MAX_NAME (ne_name (name_entries s e)) str len
      | _ \<Rightarrow> False)"

definition fs_name_cache_init :: "env \<Rightarrow> unit kop" where
  "fs_name_cache_init E =
     kbind (k_create_cache E 288 ''fs-name-cache'') (\<lambda>c.
       kmod (\<lambda>s. upd_klinks (INIT_LIST_HEAD NameList) (s\<lparr>name_cache_slab := c\<rparr>)))"

definition fs_name_cache_fast_lookup :: "u64 \<Rightarrow> u8 list \<Rightarrow> nat \<Rightarrow> u64 kop" where
  "fs_name_cache_fast_lookup parent str len =
     kbind (klist_find NameList (name_hit parent str len)) (\<lambda>r.
       case r of
         Some (NameNode e) \<Rightarrow> kbind (kget (\<lambda>s. ne_ino (name_entries s e))) (\<lambda>i. kseq (ino_ref i) (kret i))
       | _ \<Rightarrow> kret 0)"

definition fs_name_cache_add_inode :: "env \<Rightarrow> u64 \<Rightarrow> u8 list \<Rightarrow> nat \<Rightarrow> u64 \<Rightarrow> int kop" where
  "fs_name_cache_add_inode E parent str len i =
     kbind (kget name_cache_slab) (\<lambda>c.
     kbind (k_cache_alloc E c) (\<lambda>e.
     kseq (kptr e)
     (kseq (ino_ref i)
     (kseq (ino_ref parent)
       (if len > MAX_NAME then kfail OutOfBounds
        else kseq (kmod (\<lambda>s. upd_klinks (list_add (NameNode e) NameList)
                    (s\<lparr>name_entries := (name_entries s)(e := \<lparr>ne_parent = parent, ne_name = take len str, ne_ino = i\<rparr>)\<rparr>)))
               (kret 0))))))"

text \<open>
  The reaper frees every entry without unlinking it. The loop reads the links of the
  entries before it frees them, so it terminates on a well-formed list.
\<close>

definition reap_name_entry :: "u64 \<Rightarrow> unit kop" where
  "reap_name_entry e =
     kbind (kget (\<lambda>s. name_entries s e)) (\<lambda>d.
     kseq (ino_deref (ne_ino d))
     (kseq (ino_deref (ne_parent d))
       (kbind (kget name_cache_slab) (\<lambda>c. k_cache_free c e))))"

definition reap_body :: "knode \<Rightarrow> kstate \<times> fault option \<Rightarrow> (kstate \<times> fault option) \<times> bool" where
  "reap_body pos st =
     (case (pos, st) of
        (NameNode e, (s, _)) \<Rightarrow>
          (case reap_name_entry e s of
             Inl f \<Rightarrow> ((s, Some f), True)
           | Inr (_, s') \<Rightarrow> ((s', None), False))
      | (_, (s, _)) \<Rightarrow> ((s, Some WildPointer), True))"

definition fs_name_cache_reap :: "int kop" where
  "fs_name_cache_reap s =
     (let h = klinks s
      in case list_for_each_safe (\<lambda>st. klinks (fst st)) NameList reap_body (lh_next (h NameList))
                (lh_next (h (lh_next (h NameList)))) (s, None) of
           None \<Rightarrow> Inl Halted
         | Some (s', Some f) \<Rightarrow> Inl f
         | Some (s', None) \<Rightarrow> Inr (0, s'))"

section \<open>fs/inocache.c\<close>

definition ino_hit :: "u64 \<Rightarrow> u32 \<Rightarrow> knode \<Rightarrow> kstate \<Rightarrow> bool" where
  "ino_hit sb num x s \<longleftrightarrow>
     (case x of
        InoNode e \<Rightarrow> ino_id (inodes s (ie_ino (ino_entries s e))) = num \<and> ie_sb (ino_entries s e) = sb
      | _ \<Rightarrow> False)"

definition ino_cache_init :: "env \<Rightarrow> unit kop" where
  "ino_cache_init E =
     kbind (k_create_cache E 32 ''ino-cache-entry'') (\<lambda>c.
       kmod (\<lambda>s. upd_klinks (INIT_LIST_HEAD InoList) (s\<lparr>ino_cache_mem_cache := c\<rparr>)))"

definition ino_cache_get :: "u64 \<Rightarrow> u32 \<Rightarrow> u64 kop" where
  "ino_cache_get sb num =
     kbind (klist_find InoList (ino_hit sb num)) (\<lambda>r.
       case r of
         Some (InoNode e) \<Rightarrow> kget (\<lambda>s. ie_ino (ino_entries s e))
       | _ \<Rightarrow> kret 0)"

definition ino_cache_insert :: "env \<Rightarrow> u64 \<Rightarrow> u64 \<Rightarrow> int kop" where
  "ino_cache_insert E sb i =
     kbind (kget ino_cache_mem_cache) (\<lambda>c.
     kbind (k_cache_alloc E c) (\<lambda>e.
     kseq (kptr e)
     (kseq (kmod (\<lambda>s. upd_klinks (list_add (InoNode e) InoList)
                (s\<lparr>ino_entries := (ino_entries s)(e := \<lparr>ie_ino = i, ie_sb = sb\<rparr>)\<rparr>)))
       (kret 0))))"

text \<open>
  The loop of \<open>ino_cache_reap\<close> advances with the \<open>next\<close> pointer of the entry it has just
  unlinked and freed. The inodes in the tree are those of ramfs, whose \<open>inode_mem_free\<close> returns the
  inode to its cache.
\<close>

definition reap_ino_entry :: "u64 \<Rightarrow> unit kop" where
  "reap_ino_entry e =
     kbind (kget (\<lambda>s. ie_ino (ino_entries s e))) (\<lambda>i.
     kseq (kmod (upd_klinks (list_del KPoison1 KPoison2 (InoNode e))))
     (kseq (kbind (kget ramfs_inode_cache) (\<lambda>c. k_cache_free c i))
       (kbind (kget ino_cache_mem_cache) (\<lambda>c. k_cache_free c e))))"

definition ino_reap_body :: "knode \<Rightarrow> kstate \<times> fault option \<Rightarrow> (kstate \<times> fault option) \<times> bool" where
  "ino_reap_body pos st =
     (case (pos, st) of
        (InoNode e, (s, _)) \<Rightarrow>
          if ino_refcnt (inodes s (ie_ino (ino_entries s e))) \<noteq> 0 then (st, False)
          else (case reap_ino_entry e s of
                  Inl f \<Rightarrow> ((s, Some f), True)
                | Inr (_, s') \<Rightarrow> ((s', None), False))
      | (_, (s, _)) \<Rightarrow> ((s, Some WildPointer), True))"

definition ino_cache_reap :: "int kop" where
  "ino_cache_reap s =
     (case list_for_each (\<lambda>st. klinks (fst st)) InoList ino_reap_body (lh_next (klinks s InoList)) (s, None) of
        None \<Rightarrow> Inl Halted
      | Some (s', Some f) \<Rightarrow> Inl f
      | Some (s', None) \<Rightarrow> Inr (0, s'))"

section \<open>Lists searched by key\<close>

text \<open>
  What the registries have in common: a list of records in the store, an operation that links
  one more record, and a search for the first record with a key. Looking up after an insertion is
  proved once.
\<close>

locale keyed_list =
  fixes rep :: "kstate \<Rightarrow> u64 list \<Rightarrow> bool"
    and key :: "u64 \<Rightarrow> kstate \<Rightarrow> 'k"
    and val :: "u64 \<Rightarrow> kstate \<Rightarrow> u64"
    and ins :: "u64 \<Rightarrow> 'd \<Rightarrow> kstate \<Rightarrow> kstate"
    and look :: "'k \<Rightarrow> u64 kop"
  assumes rep_ins: "rep s xs \<Longrightarrow> p \<notin> set xs \<Longrightarrow> \<exists>ys. rep (ins p d s) ys \<and> set ys = insert p (set xs) \<and>
      (\<forall>P. (find P ys = find P xs \<or> P p))"
    and key_ins: "q \<noteq> p \<Longrightarrow> key q (ins p d s) = key q s"
    and val_ins: "q \<noteq> p \<Longrightarrow> val q (ins p d s) = val q s"
    and look_rep: "rep s xs \<Longrightarrow> look k s = Inr (case find (\<lambda>p. key p s = k) xs of None \<Rightarrow> 0 | Some p \<Rightarrow> val p s, s)"
begin

lemma look_inserted:
  assumes "rep s xs" and "p \<notin> set xs" and "\<forall>q\<in>set xs. key q s \<noteq> key p (ins p d s)"
  shows "look (key p (ins p d s)) (ins p d s) = Inr (val p (ins p d s), ins p d s)"
proof -
  let ?t = "ins p d s"
  obtain ys where ys: "rep ?t ys" "set ys = insert p (set xs)" using rep_ins [OF assms(1,2)] by blast
  have "find (\<lambda>q. key q ?t = key p ?t) ys = Some p"
  proof (cases "find (\<lambda>q. key q ?t = key p ?t) ys")
    case None
    with ys(2) show ?thesis by (auto simp: find_None_iff)
  next
    case (Some q)
    then have "q \<in> set ys" "key q ?t = key p ?t" by (auto simp: find_Some_iff)
    then have "q = p" using ys(2) assms(3) key_ins [of q p d s] by (cases "q = p") auto
    with Some show ?thesis by simp
  qed
  then show ?thesis by (simp add: look_rep [OF ys(1)])
qed

lemma look_other:
  assumes "rep s xs" and "p \<notin> set xs" and "k \<noteq> key p (ins p d s)"
  shows "look k (ins p d s) = Inr (fst (projr (look k s)), ins p d s)"
proof -
  let ?t = "ins p d s"
  obtain ys where ys: "rep ?t ys" "\<forall>P. find P ys = find P xs \<or> P p" using rep_ins [OF assms(1,2)] by blast
  have "find (\<lambda>q. key q ?t = k) ys = find (\<lambda>q. key q ?t = k) xs"
    using ys(2) [rule_format, of "\<lambda>q. key q ?t = k"] assms(3) by auto
  also have "\<dots> = find (\<lambda>q. key q s = k) xs"
  proof (rule find_cong)
    fix q assume "q \<in> set xs"
    then have "key q ?t = key q s" using assms(2) by (intro key_ins) auto
    then show "(key q ?t = k) = (key q s = k)" by simp
  qed simp
  finally have f: "find (\<lambda>q. key q ?t = k) ys = find (\<lambda>q. key q s = k) xs" .
  have "val q ?t = val q s" if "find (\<lambda>q. key q s = k) xs = Some q" for q
  proof -
    have "q \<in> set xs" using that by (auto simp: find_Some_iff)
    then show ?thesis using assms(2) by (intro val_ins) auto
  qed
  with f show ?thesis by (auto simp: look_rep [OF ys(1)] look_rep [OF assms(1)] split: option.splits)
qed

end

lemma find_append_not: "\<not> P p \<Longrightarrow> find P (xs @ [p]) = find P xs"
  by (induction xs) auto

lemma find_nodes: "find (\<lambda>x. P x) (map f xs) = map_option f (find (\<lambda>x. P (f x)) xs)"
  by (induction xs) auto

text \<open>The registered file systems.\<close>

definition fs_list :: "kstate \<Rightarrow> u64 list \<Rightarrow> bool" where
  "fs_list s xs \<longleftrightarrow> ring (klinks s) FsList (map FsNode xs)"

interpretation fsreg: keyed_list fs_list "\<lambda>p s. fs_name (file_systems s p)" "\<lambda>p s. p"
  "\<lambda>p (_ :: unit). upd_klinks (list_add_tail (FsNode p) FsList)" file_system_lookup
proof unfold_locales
  fix s xs p and d :: unit
  assume "fs_list s xs" and "p \<notin> set xs"
  then have "fs_list (upd_klinks (list_add_tail (FsNode p) FsList) s) (xs @ [p])"
    using ring_list_add_tail [of "klinks s" FsList "map FsNode xs" "FsNode p"]
    by (auto simp: fs_list_def upd_klinks_def)
  then show "\<exists>ys. fs_list (upd_klinks (list_add_tail (FsNode p) FsList) s) ys \<and> set ys = insert p (set xs) \<and>
      (\<forall>P. find P ys = find P xs \<or> P p)"
    using find_append_not by (intro exI [of _ "xs @ [p]"]) fastforce
next
  fix s xs k assume "fs_list s xs"
  then show "file_system_lookup k s =
      Inr (case find (\<lambda>p. fs_name (file_systems s p) = k) xs of None \<Rightarrow> 0 | Some p \<Rightarrow> p, s)"
    by (simp add: file_system_lookup_def fs_list_def klist_find_ring find_nodes fs_named_def split: option.splits)
qed (simp_all add: upd_klinks_def)

text \<open>The inode cache, keyed by super block and inode number.\<close>

definition ino_list :: "kstate \<Rightarrow> u64 list \<Rightarrow> bool" where
  "ino_list s xs \<longleftrightarrow> ring (klinks s) InoList (map InoNode xs)"

definition ino_key :: "u64 \<Rightarrow> kstate \<Rightarrow> u64 \<times> u32" where
  "ino_key e s = (ie_sb (ino_entries s e), ino_id (inodes s (ie_ino (ino_entries s e))))"

definition ino_link :: "u64 \<Rightarrow> u64 \<times> u64 \<Rightarrow> kstate \<Rightarrow> kstate" where
  "ino_link e d s = upd_klinks (list_add (InoNode e) InoList)
     (s\<lparr>ino_entries := (ino_entries s)(e := \<lparr>ie_ino = fst d, ie_sb = snd d\<rparr>)\<rparr>)"

interpretation inoc: keyed_list ino_list ino_key "\<lambda>e s. ie_ino (ino_entries s e)" ino_link
  "\<lambda>k. ino_cache_get (fst k) (snd k)"
proof unfold_locales
  fix s xs p and d :: "u64 \<times> u64"
  assume "ino_list s xs" and "p \<notin> set xs"
  then have "ino_list (ino_link p d s) (p # xs)"
    using ring_list_add [of "klinks s" InoList "map InoNode xs" "InoNode p"]
    by (auto simp: ino_list_def ino_link_def upd_klinks_def)
  then show "\<exists>ys. ino_list (ino_link p d s) ys \<and> set ys = insert p (set xs) \<and> (\<forall>P. find P ys = find P xs \<or> P p)"
    by (intro exI [of _ "p # xs"]) auto
next
  fix s xs and k :: "u64 \<times> u32" assume "ino_list s xs"
  then show "ino_cache_get (fst k) (snd k) s =
      Inr (case find (\<lambda>p. ino_key p s = k) xs of None \<Rightarrow> 0 | Some p \<Rightarrow> ie_ino (ino_entries s p), s)"
    by (cases k) (auto simp: ino_cache_get_def ino_list_def klist_find_ring find_nodes ino_hit_def ino_key_def conj_commute
        split: option.splits)
qed (simp_all add: ino_link_def upd_klinks_def ino_key_def)

lemma ino_cache_insert_links:
  assumes "ino_cache_insert E sb i s = Inr (r, s')"
  shows "\<exists>e s1. k_cache_alloc E (ino_cache_mem_cache s) s = Inr (e, s1) \<and> e \<noteq> 0 \<and> s' = ino_link e (i, sb) s1"
  using assms
  by (auto simp: ino_cache_insert_def kseq_def kbind_Inr_iff kptr_def ino_link_def split: if_splits)

section \<open>Properties\<close>

text \<open>
  After \<open>file_system_register\<close> the file system is found under its name if the name was not
  taken, and the search for every other name gives what it gave before.
\<close>

theorem file_system_lookup_registered:
  assumes "fs_list s xs" and "p \<notin> set xs" and "\<forall>q\<in>set xs. fs_name (file_systems s q) \<noteq> fs_name (file_systems s p)"
  shows "\<exists>s'. file_system_register p s = Inr ((), s') \<and>
    file_system_lookup (fs_name (file_systems s p)) s' = Inr (p, s') \<and>
    (\<forall>name. name \<noteq> fs_name (file_systems s p) \<longrightarrow>
       fst (projr (file_system_lookup name s')) = fst (projr (file_system_lookup name s)))"
proof -
  let ?s = "upd_klinks (list_add_tail (FsNode p) FsList) s"
  have n: "fs_name (file_systems ?s q) = fs_name (file_systems s q)" for q by (simp add: upd_klinks_def)
  have "file_system_lookup (fs_name (file_systems ?s p)) ?s = Inr (p, ?s)"
    using fsreg.look_inserted [OF assms(1,2)] assms(3) n by simp
  moreover have "file_system_lookup name ?s = Inr (fst (projr (file_system_lookup name s)), ?s)"
    if "name \<noteq> fs_name (file_systems s p)" for name
    using fsreg.look_other [OF assms(1,2), of name] that n by simp
  ultimately show ?thesis using n by (intro exI [of _ ?s]) (simp add: file_system_register_def)
qed

theorem file_system_lookup_registered_witness:
  "\<exists>s'. file_system_register 0x10 blank_kernel = Inr ((), s') \<and> file_system_lookup [] s' = Inr (0x10, s')"
proof -
  have "fs_list blank_kernel []" using blank_kernel_ring by (simp add: fs_list_def)
  from file_system_lookup_registered [OF this, of "0x10"] show ?thesis by (auto simp: blank_kernel_def)
qed

text \<open>
  An inode that \<open>ino_cache_insert\<close> has added is what \<open>ino_cache_get\<close> returns for its super
  block and number, unless one with the same key was cached before, and the other cached inodes
  are found as before.
\<close>

theorem ino_cache_get_inserted:
  assumes "ino_list s xs" and "e \<notin> set xs" and "e \<noteq> 0"
    and "k_cache_alloc E (ino_cache_mem_cache s) s = Inr (e, s1)"
    and "ino_list s1 xs" and "\<forall>q\<in>set xs. ino_key q s1 \<noteq> (sb, ino_id (inodes s1 i))"
  shows "\<exists>s'. ino_cache_insert E sb i s = Inr (0, s') \<and>
    ino_cache_get sb (ino_id (inodes s1 i)) s' = Inr (i, s') \<and>
    (\<forall>k. k \<noteq> (sb, ino_id (inodes s1 i)) \<longrightarrow>
       fst (projr (ino_cache_get (fst k) (snd k) s')) = fst (projr (ino_cache_get (fst k) (snd k) s1)))"
proof -
  let ?s = "ino_link e (i, sb) s1"
  have k: "ino_key e ?s = (sb, ino_id (inodes s1 i))" "ie_ino (ino_entries ?s e) = i"
    by (simp_all add: ino_key_def ino_link_def upd_klinks_def)
  have "ino_cache_insert E sb i s = Inr (0, ?s)"
    using assms(3,4) by (simp add: ino_cache_insert_def ino_link_def)
  moreover have "ino_cache_get sb (ino_id (inodes s1 i)) ?s = Inr (i, ?s)"
    using inoc.look_inserted [OF assms(5,2), of "(i, sb)"] assms(6) k by simp
  moreover have "ino_cache_get (fst q) (snd q) ?s = Inr (fst (projr (ino_cache_get (fst q) (snd q) s1)), ?s)"
    if "q \<noteq> (sb, ino_id (inodes s1 i))" for q
    using inoc.look_other [OF assms(5,2), of q "(i, sb)"] that k by simp
  ultimately show ?thesis by (intro exI [of _ ?s]) simp
qed

theorem ino_cache_get_inserted_witness:
  "\<forall>E. \<exists>s'. ino_cache_insert E 7 9 (blank_kernel\<lparr>ino_cache_mem_cache := 0x500\<rparr>) = Inr (0, s') \<and>
    ino_cache_get 7 0 s' = Inr (9, s')"
proof
  fix E
  let ?s = "blank_kernel\<lparr>ino_cache_mem_cache := 0x500\<rparr>"
  have "kslab (ps ?s) = kslab zone_boot" by (simp add: blank_kernel_def)
  then obtain sl where a: "k_cache_alloc E 0x500 ?s = Inr (0xffff800000100400, ?s\<lparr>ps := (ps ?s)\<lparr>kslab := sl\<rparr>\<rparr>)"
    using boot_cache_alloc by blast
  have l: "ino_list ?s []" "ino_list (?s\<lparr>ps := (ps ?s)\<lparr>kslab := sl\<rparr>\<rparr>) []"
    using blank_kernel_ring by (simp_all add: ino_list_def)
  have "\<exists>s'. ino_cache_insert E 7 9 ?s = Inr (0, s') \<and>
      ino_cache_get 7 (ino_id (inodes (?s\<lparr>ps := (ps ?s)\<lparr>kslab := sl\<rparr>\<rparr>) 9)) s' = Inr (9, s') \<and>
      (\<forall>k. k \<noteq> (7, ino_id (inodes (?s\<lparr>ps := (ps ?s)\<lparr>kslab := sl\<rparr>\<rparr>) 9)) \<longrightarrow>
       fst (projr (ino_cache_get (fst k) (snd k) s')) =
       fst (projr (ino_cache_get (fst k) (snd k) (?s\<lparr>ps := (ps ?s)\<lparr>kslab := sl\<rparr>\<rparr>))))"
    by (rule ino_cache_get_inserted [OF l(1) _ _ _ l(2), of "0xffff800000100400"]) (use a in simp_all)
  then show "\<exists>s'. ino_cache_insert E 7 9 ?s = Inr (0, s') \<and> ino_cache_get 7 0 s' = Inr (9, s')"
    by (auto simp: blank_kernel_def)
qed

text \<open>A match of a zero-padded buffer against text without zero bytes is a prefix match.\<close>

lemma buf_matches_prefix:
  assumes "len \<le> length str" and "0 \<notin> set (take len str)"
  shows "buf_matches n name str len \<longleftrightarrow> (\<exists>rest. name = take len str @ rest)"
proof
  assume b: "buf_matches n name str len"
  have "len \<le> length name"
  proof (rule ccontr)
    assume "\<not> len \<le> length name"
    then have l: "length name < len" by simp
    have e: "take len (name @ replicate (n - length name) 0) = take len str"
      using b by (simp add: buf_matches_def)
    have len: "length (take len str) = len" using assms(1) by simp
    then have le: "len \<le> length name + (n - length name)"
      by (metis e length_append length_replicate length_take min.absorb_iff2 min.commute)
    have "take len str ! length name = (name @ replicate (n - length name) 0) ! length name"
      using l by (subst e [symmetric]) (rule nth_take)
    then have "take len str ! length name = 0" using l le by (simp add: nth_append)
    moreover have "length name < length (take len str)" using l len by simp
    ultimately show False using assms(2) by (metis nth_mem)
  qed
  with b have "take len name = take len str" by (simp add: buf_matches_def)
  then show "\<exists>rest. name = take len str @ rest" by (metis append_take_drop_id)
next
  assume "\<exists>rest. name = take len str @ rest"
  then show "buf_matches n name str len" using assms(1) by (auto simp: buf_matches_def)
qed

text \<open>
  A hit of \<open>fs_name_cache_fast_lookup\<close> is only a prefix match: the search returns the inode of
  the first cached entry of the directory whose name begins with the component looked for, even when
  that is not its whole name.
\<close>

theorem name_cache_hits_prefix:
  assumes "ring (klinks s) NameList (map NameNode es)" and "len \<le> length str" and "0 \<notin> set (take len str)"
    and "\<forall>e\<in>set es. ne_ino (name_entries s e) \<noteq> 0"
  shows "\<exists>r s'. fs_name_cache_fast_lookup parent str len s = Inr (r, s') \<and>
    r = (case find (\<lambda>e. ne_parent (name_entries s e) = parent \<and>
                      (\<exists>rest. ne_name (name_entries s e) = take len str @ rest)) es of
           None \<Rightarrow> 0 | Some e \<Rightarrow> ne_ino (name_entries s e))"
proof -
  note m = buf_matches_prefix [OF assms(2,3)]
  let ?Q = "\<lambda>e. ne_parent (name_entries s e) = parent \<and> (\<exists>rest. ne_name (name_entries s e) = take len str @ rest)"
  have f: "klist_find NameList (name_hit parent str len) s = Inr (map_option NameNode (find ?Q es), s)"
    using assms(1) by (simp add: klist_find_ring find_nodes name_hit_def m)
  show ?thesis
  proof (cases "find ?Q es")
    case None
    then show ?thesis using f by (simp add: fs_name_cache_fast_lookup_def)
  next
    case (Some e)
    then have "ne_ino (name_entries s e) \<noteq> 0" using assms(4) by (auto simp: find_Some_iff)
    then show ?thesis using f Some by (simp add: fs_name_cache_fast_lookup_def ino_ref_def)
  qed
qed

definition cached_bin :: kstate where
  "cached_bin = blank_kernel\<lparr>klinks := list_add (NameNode 0x40) NameList (klinks blank_kernel),
     name_entries := (name_entries blank_kernel)(0x40 := \<lparr>ne_parent = 2, ne_name = [0x62, 0x69, 0x6e], ne_ino = 5\<rparr>)\<rparr>"

theorem name_cache_hits_prefix_witness:
  "\<exists>s'. fs_name_cache_fast_lookup 2 [0x62] 1 cached_bin = Inr (5, s')"
proof -
  have "ring (klinks cached_bin) NameList (map NameNode [0x40])"
    by (simp add: cached_bin_def blank_kernel_def ring_def list_add_def list_add_between_def)
  from name_cache_hits_prefix [OF this, of 1 "[0x62]" 2] show ?thesis by (auto simp: cached_bin_def)
qed

end
