(* ===== verification/Vm_Area.thy ===== *)
theory Vm_Area
  imports Kernel_State
begin

text \<open>
  The areas of a process's address space: \<^verbatim>\<open>mm/vma.c\<close>, \<^verbatim>\<open>arch/x86_64/vma.c\<close> and
  \<^verbatim>\<open>mm/mmap.c\<close>. The areas of a process form a list ordered by start address.
\<close>

section \<open>mm/vma.c\<close>

definition vma_holds :: "u64 \<Rightarrow> knode \<Rightarrow> kstate \<Rightarrow> bool" where
  "vma_holds addr x s \<longleftrightarrow>
     (case x of VmaNode p \<Rightarrow> va_start (vmas s p) \<le> addr \<and> addr < va_end (vmas s p) | _ \<Rightarrow> False)"

definition vma_of :: "knode option \<Rightarrow> u64" where
  "vma_of r = (case r of Some (VmaNode p) \<Rightarrow> p | _ \<Rightarrow> 0)"

definition find_vma_for_address :: "u64 \<Rightarrow> u64 \<Rightarrow> u64 kop" where
  "find_vma_for_address addr mm =
     kbind (kget (\<lambda>s. list_empty (VmAreas mm) (klinks s))) (\<lambda>e.
       if e then kret 0
       else kbind (klist_find (VmAreas mm) (vma_holds addr)) (\<lambda>r. kret (vma_of r)))"

definition mergeable :: "u64 \<Rightarrow> u64 \<Rightarrow> kstate \<Rightarrow> bool" where
  "mergeable c n s \<longleftrightarrow>
     va_end (vmas s c) = va_start (vmas s n) \<and> va_file (vmas s c) = va_file (vmas s n) \<and>
     va_flags (vmas s c) = va_flags (vmas s n) \<and> va_prot (vmas s c) = va_prot (vmas s n) \<and>
     vm_ops (vmas s c) = vm_ops (vmas s n)"

definition merge_areas :: "u64 \<Rightarrow> u64 \<Rightarrow> unit kop" where
  "merge_areas c n =
     kseq (kmod (\<lambda>s. upd_vma c (\<lambda>v. v\<lparr>va_end := va_end (vmas s n)\<rparr>) s))
     (kseq (kbind (kget (\<lambda>s. va_file (vmas s n))) (\<lambda>f. kwhen (f \<noteq> 0) (file_unref f)))
     (kseq (kmod (upd_klinks (list_del KPoison1 KPoison2 (VmaNode n))))
       (kbind (kget vm_area_cache) (\<lambda>c. k_cache_free c n))))"

text \<open>
  The loop of \<open>try_join\<close>; its state carries the fault that ended it, if any. Reading the next
  area through a pointer that is not an area is a fault.
\<close>

definition join_body :: "knode \<Rightarrow> knode \<Rightarrow> kstate \<times> fault option \<Rightarrow> (kstate \<times> fault option) \<times> bool" where
  "join_body head pos st =
     (case st of (s, f) \<Rightarrow>
        if lh_next (klinks s pos) = head then (st, True)
        else (case (pos, lh_next (klinks s pos)) of
                (VmaNode c, VmaNode n) \<Rightarrow>
                  if mergeable c n s
                  then (case merge_areas c n s of
                          Inl e \<Rightarrow> ((s, Some e), True)
                        | Inr (_, s') \<Rightarrow> ((s', None), False))
                  else (st, False)
              | _ \<Rightarrow> ((s, Some WildPointer), True)))"

definition try_join :: "u64 \<Rightarrow> unit kop" where
  "try_join mm s =
     (let h = klinks s; head = VmAreas mm
      in case list_for_each_safe (\<lambda>st. klinks (fst st)) head (join_body head) (lh_next (h head))
                (lh_next (h (lh_next (h head)))) (s, None) of
           None \<Rightarrow> Inl Halted
         | Some (s', Some e) \<Rightarrow> Inl e
         | Some (s', None) \<Rightarrow> Inr ((), s'))"

definition starts_after :: "u64 \<Rightarrow> knode \<Rightarrow> kstate \<Rightarrow> bool" where
  "starts_after v x s \<longleftrightarrow>
     (case x of VmaNode p \<Rightarrow> va_start (vmas s v) < va_start (vmas s p) | _ \<Rightarrow> False)"

definition insert_vma :: "u64 \<Rightarrow> u64 \<Rightarrow> int kop" where
  "insert_vma mm v =
     kbind (kget (\<lambda>s. list_empty (VmAreas mm) (klinks s))) (\<lambda>e.
       if e then kseq (kmod (upd_klinks (list_add (VmaNode v) (VmAreas mm)))) (kret 0)
       else
         kbind (klist_find (VmAreas mm) (starts_after v)) (\<lambda>r.
         kseq (kmod (upd_klinks (list_add_tail (VmaNode v) (case r of Some x \<Rightarrow> x | None \<Rightarrow> VmAreas mm))))
         (kseq (try_join mm) (kret 0))))"

section \<open>arch/x86_64/vma.c\<close>

definition X86_LIMIT :: u64 where "X86_LIMIT = 0x800000000000"
definition X86_LOW_LIMIT :: u64 where "X86_LOW_LIMIT = 0x400000"

definition prev_gap :: "knode \<Rightarrow> knode \<Rightarrow> kstate \<Rightarrow> u64 \<times> u64" where
  "prev_gap head x s =
     (case x of
        VmaNode p \<Rightarrow> ((case lh_prev (klinks s x) of VmaNode q \<Rightarrow> va_end (vmas s q) | _ \<Rightarrow> X86_LOW_LIMIT),
                      va_start (vmas s p))
      | _ \<Rightarrow> (0, 0))"

definition next_gap :: "knode \<Rightarrow> knode \<Rightarrow> kstate \<Rightarrow> u64 \<times> u64" where
  "next_gap head x s =
     (case x of
        VmaNode p \<Rightarrow> (va_end (vmas s p),
                      (case lh_next (klinks s x) of VmaNode q \<Rightarrow> va_start (vmas s q) | _ \<Rightarrow> X86_LIMIT))
      | _ \<Rightarrow> (0, 0))"

text \<open>The unsigned difference of the source: it wraps when the gap ends below its start.\<close>

definition gap_fits :: "u64 \<Rightarrow> u64 \<times> u64 \<Rightarrow> bool" where
  "gap_fits len g \<longleftrightarrow> snd g - fst g > len + PAGE_SIZE * 2"

definition cpu_assign_vma_vaddr :: "u64 \<Rightarrow> u64 \<Rightarrow> u64 \<Rightarrow> int kop" where
  "cpu_assign_vma_vaddr mm v len =
     kbind (klist_find (VmAreas mm) (\<lambda>x s. gap_fits len (prev_gap (VmAreas mm) x s) \<or>
                                             gap_fits len (next_gap (VmAreas mm) x s))) (\<lambda>r.
       case r of
         None \<Rightarrow> kret 1
       | Some x \<Rightarrow>
           kbind (kget (\<lambda>s. if gap_fits len (prev_gap (VmAreas mm) x s)
                            then fst (prev_gap (VmAreas mm) x s) else fst (next_gap (VmAreas mm) x s))) (\<lambda>st.
           kseq (kmod (upd_vma v (\<lambda>a. a\<lparr>va_start := st + PAGE_SIZE, va_end := st + PAGE_SIZE + len\<rparr>)))
             (kret 0)))"

section \<open>mm/mmap.c\<close>

definition vma_conflict :: "u64 \<Rightarrow> u64 \<Rightarrow> knode \<Rightarrow> kstate \<Rightarrow> bool" where
  "vma_conflict addr len x s \<longleftrightarrow>
     (case x of
        VmaNode p \<Rightarrow>
          (let st = va_start (vmas s p); en = va_end (vmas s p)
           in (st \<ge> addr \<and> en \<le> addr + len) \<or> (addr \<ge> st \<and> addr < en) \<or>
              (addr + len > st \<and> addr + len < en))
      | _ \<Rightarrow> False)"

definition is_valid_vaddr_for_vma :: "u64 \<Rightarrow> u64 \<Rightarrow> u64 \<Rightarrow> bool kop" where
  "is_valid_vaddr_for_vma mm addr len =
     kbind (kget (\<lambda>s. list_empty (VmAreas mm) (klinks s))) (\<lambda>e.
       if e then kret True
       else kbind (klist_find (VmAreas mm) (vma_conflict addr len)) (\<lambda>r. kret (r = None)))"

text \<open>
  \<open>pages[i]\<close> of a file's page mapping, with the bounds of the array. The read operation of the
  only file system, \<open>ramfs_mapping_readpage\<close>, does nothing.
\<close>

definition get_map_page :: "u64 \<Rightarrow> nat \<Rightarrow> u64 kop" where
  "get_map_page m i =
     kseq (kptr m) (kbind (kget (\<lambda>s. mappings s m)) (\<lambda>pm.
       if i \<ge> map_len pm then kfail OutOfBounds else kret (map_pages pm i)))"

definition set_map_page :: "u64 \<Rightarrow> nat \<Rightarrow> u64 \<Rightarrow> unit kop" where
  "set_map_page m i p =
     kseq (kptr m) (kbind (kget (\<lambda>s. mappings s m)) (\<lambda>pm.
       if i \<ge> map_len pm then kfail OutOfBounds
       else kmod (upd_mapping m (\<lambda>d. d\<lparr>map_pages := (map_pages d)(i := p)\<rparr>))))"

definition populate_page :: "env \<Rightarrow> u64 \<Rightarrow> nat \<Rightarrow> unit kop" where
  "populate_page E v i =
     kbind (kget (\<lambda>s. vmas s v)) (\<lambda>a.
       let vaddr = va_start a + of_nat i * PAGE_SIZE in
       kbind (if va_flags a AND VM_FLAG_ANON E \<noteq> 0 then
                kbind (k_alloc_pages E 0) (\<lambda>p.
                kbind (on_pa (\<lambda>x. bind_res (get_phys_addr_from_page p x) (\<lambda>q. Inr (q, x)))) (\<lambda>phys.
                  kret (p, phys)))
              else
                kseq (kptr (va_file a))
                (kbind (kget (\<lambda>s. f_map (inodes s (f_inode (files s (va_file a)))))) (\<lambda>m.
                 kbind (get_map_page m (i + unat (fpg_off a))) (\<lambda>p.
                   if p \<noteq> 0 then kret (p, 0)
                   else kbind (k_alloc_pages E 0) (\<lambda>q.
                        kseq (kmod (upd_pa (upd_page q (\<lambda>d. d\<lparr>pflags := PAGE_USAGE_CACHE, pc_owner := m\<rparr>))))
                        (kseq (set_map_page m (i + unat (fpg_off a)) q) (kret (q, 0))))))))
         (\<lambda>(p, phys).
            kseq (kmod (upd_pa (page_ref p)))
            (kbind (kget (\<lambda>s. mm_pgtable s (va_procmm a))) (\<lambda>t.
               k_map_page E t phys (PAGE_FRAME vaddr) (va_prot a)))))"

definition vma_populate :: "env \<Rightarrow> u64 \<Rightarrow> unit kop" where
  "vma_populate E v =
     kbind (kget (\<lambda>s. unat (va_length (vmas s v) div PAGE_SIZE))) (\<lambda>n.
       fold (\<lambda>i m. kseq m (populate_page E v i)) [0..<n] (kret ()))"

text \<open>The \<open>mmap\<close> operation of a file: only ramfs files have one.\<close>

definition file_mmap :: "u64 \<Rightarrow> u64 \<Rightarrow> unit kop" where
  "file_mmap f v =
     kbind (kget (\<lambda>s. f_ops (files s f))) (\<lambda>ops.
       kwhen (ops = RamfsFileOps) (kmod (upd_vma v (\<lambda>a. a\<lparr>vm_ops := RamfsVmaOps\<rparr>))))"

definition write_prot :: "env \<Rightarrow> u32 \<Rightarrow> u32 \<Rightarrow> u32" where
  "write_prot E prot flags =
     (if ucast prot AND VM_WRITE (vm E) \<noteq> 0 \<and> flags AND VM_FLAG_PRIVATE E \<noteq> 0
      then (prot AND NOT (ucast (VM_WRITE (vm E)))) OR ucast (VM_MAYWRITE (vm E))
      else prot)"

definition do_mmap ::
    "env \<Rightarrow> u64 \<Rightarrow> u64 \<Rightarrow> u64 \<Rightarrow> u64 \<Rightarrow> u32 \<Rightarrow> u32 \<Rightarrow> u32 \<Rightarrow> u32 \<Rightarrow> u64 kop" where
  "do_mmap E mm f addr len prot flags ty pgoff =
     (let np = len div PAGE_SIZE + (if len mod PAGE_SIZE \<noteq> 0 then 1 else 0) in
      kbind (kget vm_area_cache) (\<lambda>c.
      kbind (k_cache_alloc E c) (\<lambda>v.
      kseq (kptr v)
      (kbind (if addr \<noteq> 0 then is_valid_vaddr_for_vma mm addr (np * PAGE_SIZE) else kret False) (\<lambda>ok.
      kbind (if ok then kseq (kmod (upd_vma v (\<lambda>a. a\<lparr>va_start := addr, va_end := addr + np * PAGE_SIZE\<rparr>))) (kret 0)
             else cpu_assign_vma_vaddr mm v (np * PAGE_SIZE)) (\<lambda>_.
      kseq (kmod (upd_vma v (\<lambda>a. a\<lparr>va_procmm := mm, va_prot := write_prot E prot flags, va_flags := flags,
                                    va_length := len, va_file := f, va_type := ty, fpg_off := ucast pgoff\<rparr>)))
      (kseq (kwhen (f \<noteq> 0) (kseq (file_ref f) (file_mmap f v)))
      (kbind (insert_vma mm v) (\<lambda>_.
      kseq (kwhen (flags AND VM_FLAG_POPULATE E \<noteq> 0) (vma_populate E v))
        (kget (\<lambda>s. va_start (vmas s v))))))))))))"

section \<open>Lists of areas\<close>

abbreviation areas :: "kstate \<Rightarrow> u64 \<Rightarrow> u64 list \<Rightarrow> bool" where
  "areas s mm vs \<equiv> ring (klinks s) (VmAreas mm) (map VmaNode vs)"

lemma find_map: "find P (map f xs) = map_option f (find (\<lambda>x. P (f x)) xs)"
  by (induction xs) auto

lemma areas_find:
  "areas s mm vs \<Longrightarrow> klist_find (VmAreas mm) P s = Inr (map_option VmaNode (find (\<lambda>v. P (VmaNode v) s) vs), s)"
  by (simp add: klist_find_ring find_map)

lemma areas_empty: "areas s mm vs \<Longrightarrow> list_empty (VmAreas mm) (klinks s) \<longleftrightarrow> vs = []"
  using list_empty_ring [of "klinks s" "VmAreas mm" "map VmaNode vs"] by simp

text \<open>The areas are ordered by address, none is empty, and no two overlap.\<close>

definition areas_ordered :: "kstate \<Rightarrow> u64 list \<Rightarrow> bool" where
  "areas_ordered s vs \<longleftrightarrow>
     (\<forall>v\<in>set vs. va_start (vmas s v) < va_end (vmas s v)) \<and>
     sorted_wrt (\<lambda>v w. va_end (vmas s v) \<le> va_start (vmas s w)) vs"

lemma areas_ordered_apart:
  assumes "areas_ordered s vs" and "v \<in> set vs" and "w \<in> set vs" and "v \<noteq> w"
  shows "va_end (vmas s v) \<le> va_start (vmas s w) \<or> va_end (vmas s w) \<le> va_start (vmas s v)"
proof -
  obtain i j where i: "i < length vs" "vs ! i = v" and j: "j < length vs" "vs ! j = w"
    using assms(2,3) by (auto simp: in_set_conv_nth)
  have "i \<noteq> j" using i j assms(4) by auto
  then consider "i < j" | "j < i" by linarith
  then show ?thesis
    using assms(1) i j by cases (auto simp: areas_ordered_def sorted_wrt_iff_nth_less)
qed

lemma find_vma_areas:
  assumes "areas s mm vs" and "0 \<notin> set vs"
  shows "find_vma_for_address addr mm s =
    Inr ((case find (\<lambda>v. va_start (vmas s v) \<le> addr \<and> addr < va_end (vmas s v)) vs of
            None \<Rightarrow> 0 | Some v \<Rightarrow> v), s)"
proof (cases "vs = []")
  case True
  then show ?thesis by (simp add: find_vma_for_address_def areas_empty [OF assms(1)])
next
  case False
  then show ?thesis
    by (simp add: find_vma_for_address_def areas_empty [OF assms(1)] areas_find [OF assms(1)]
        vma_holds_def vma_of_def split: option.splits)
qed

text \<open>
  A range that \<open>is_valid_vaddr_for_vma\<close> accepts is disjoint from every area, and conversely.
\<close>

lemma vma_conflict_iff:
  assumes "va_start (vmas s v) < va_end (vmas s v)" and "unat addr + unat len < 2 ^ 64" and "len \<noteq> 0"
  shows "vma_conflict addr len (VmaNode v) s \<longleftrightarrow>
    addr < va_end (vmas s v) \<and> va_start (vmas s v) < addr + len"
proof -
  have u: "unat (addr + len) = unat addr + unat len" by (rule unat_add_no_overflow) (use assms(2) in simp)
  have l: "0 < unat len" using assms(3) by (simp add: unat_gt_0)
  show ?thesis
    using assms(1) l
    unfolding vma_conflict_def knode.case Let_def word_le_nat_alt word_less_nat_alt u by linarith
qed

lemma is_valid_areas:
  assumes "areas s mm vs" and "\<forall>v\<in>set vs. va_start (vmas s v) < va_end (vmas s v)"
    and "unat addr + unat len < 2 ^ 64" and "len \<noteq> 0"
  shows "is_valid_vaddr_for_vma mm addr len s =
    Inr (\<forall>v\<in>set vs. va_end (vmas s v) \<le> addr \<or> addr + len \<le> va_start (vmas s v), s)"
proof -
  have "(find (\<lambda>v. vma_conflict addr len (VmaNode v) s) vs = None) \<longleftrightarrow>
      (\<forall>v\<in>set vs. va_end (vmas s v) \<le> addr \<or> addr + len \<le> va_start (vmas s v))"
    using vma_conflict_iff [OF _ assms(3,4)] assms(2) by (auto simp: find_None_iff not_less)
  then show ?thesis
    by (cases "vs = []")
      (simp_all add: is_valid_vaddr_for_vma_def areas_empty [OF assms(1)] areas_find [OF assms(1)])
qed

section \<open>Insertion\<close>

fun adjacent :: "('a \<Rightarrow> 'a \<Rightarrow> bool) \<Rightarrow> 'a list \<Rightarrow> bool" where
  "adjacent P (x # y # zs) \<longleftrightarrow> P x y \<and> adjacent P (y # zs)"
| "adjacent P _ \<longleftrightarrow> True"

lemma adjacent_append: "adjacent P (xs @ y # z # zs) \<Longrightarrow> P y z"
proof (induction xs)
  case (Cons x xs)
  then show ?case by (cases xs) auto
qed simp

lemma adjacent_inner:
  assumes "adjacent P (us @ [c])" and "us = as @ x # bs"
  shows "P x (case bs of [] \<Rightarrow> c | b # _ \<Rightarrow> b)"
proof (cases bs)
  case Nil
  then show ?thesis using assms adjacent_append [of P as x c "[]"] by simp
next
  case (Cons b bs')
  then show ?thesis using assms adjacent_append [of P as x b "bs' @ [c]"] by simp
qed

text \<open>A traversal whose body changes nothing in the current state.\<close>

lemma list_for_each_safe_const:
  assumes "lseg (hp s) p xs head" and "distinct xs" and "head \<notin> set xs"
    and "\<And>x. x \<in> set xs \<Longrightarrow> fst (body x s) = s"
  shows "list_for_each_safe hp head body (lh_next (hp s p)) (lh_next (hp s (lh_next (hp s p)))) s = Some s"
  using assms
proof (induction xs arbitrary: p)
  case Nil
  then show ?case by (simp add: list_for_each_safe.simps)
next
  case (Cons x xs)
  obtain stop where b: "body x s = (s, stop)" using Cons.prems(4) [of x] by (cases "body x s") auto
  have "list_for_each_safe hp head body (lh_next (hp s x)) (lh_next (hp s (lh_next (hp s x)))) s = Some s"
    by (rule Cons.IH) (use Cons.prems in auto)
  with Cons.prems b show ?case by (auto simp: list_for_each_safe.simps [of hp head body x])
qed

text \<open>\<open>try_join\<close> leaves a list without two areas that could be merged as it is.\<close>

lemma try_join_keeps:
  assumes r: "areas s mm vs" and nm: "adjacent (\<lambda>c n. \<not> mergeable c n s) vs"
  shows "try_join mm s = Inr ((), s)"
proof -
  have b: "fst (join_body (VmAreas mm) x (s, None)) = (s, None)" if x: "x \<in> set (map VmaNode vs)" for x
  proof -
    obtain us w ws where vs: "vs = us @ w # ws" "x = VmaNode w" using x by (auto dest: split_list)
    have n: "lh_next (klinks s x) = (case ws of [] \<Rightarrow> VmAreas mm | y # _ \<Rightarrow> VmaNode y)"
      using ring_next [of "klinks s" "VmAreas mm" "map VmaNode us" x "map VmaNode ws"] r vs
      by (auto split: list.splits)
    show ?thesis
    proof (cases ws)
      case Nil
      with n show ?thesis by (simp add: join_body_def)
    next
      case (Cons y ys)
      have "\<not> mergeable w y s" using adjacent_append [of _ us w y ys] nm vs Cons by simp
      with n Cons vs show ?thesis by (simp add: join_body_def)
    qed
  qed
  have "list_for_each_safe (\<lambda>st. klinks (fst st)) (VmAreas mm) (join_body (VmAreas mm))
      (lh_next (klinks (fst (s, None :: fault option)) (VmAreas mm)))
      (lh_next (klinks (fst (s, None :: fault option)) (lh_next (klinks (fst (s, None :: fault option)) (VmAreas mm)))))
      (s, None) = Some (s, None)"
    by (rule list_for_each_safe_const [where xs = "map VmaNode vs"]) (use r b in \<open>auto simp: ring_def\<close>)
  then show ?thesis by (simp add: try_join_def Let_def)
qed

text \<open>
  Once two areas have been merged, the loop goes on from the list node it has just freed: the
  second area is no longer linked, its \<open>next\<close> pointer is the poison value.
\<close>

lemma list_for_each_safe_prefix:
  assumes "lseg (hp s) p (us @ c # rest) head" and "head \<notin> set us"
    and "\<And>x. x \<in> set us \<Longrightarrow> body x s = (s, False)"
  shows "list_for_each_safe hp head body (lh_next (hp s p)) (lh_next (hp s (lh_next (hp s p)))) s =
    list_for_each_safe hp head body c (lh_next (hp s c)) s"
  using assms
proof (induction us arbitrary: p)
  case Nil
  then show ?case by simp
next
  case (Cons x us)
  have "list_for_each_safe hp head body (lh_next (hp s x)) (lh_next (hp s (lh_next (hp s x)))) s =
      list_for_each_safe hp head body c (lh_next (hp s c)) s"
    by (rule Cons.IH) (use Cons.prems in auto)
  with Cons.prems show ?case by (auto simp: list_for_each_safe.simps [of hp head body x])
qed

lemma on_slab_klinks: "on_slab f s = Inr (x, s') \<Longrightarrow> klinks s' = klinks s"
  by (auto simp: on_slab_def bind_res_def split: sum.splits)

lemma merge_areas_klinks:
  assumes "merge_areas c n s = Inr (x, s')"
  shows "klinks s' = list_del KPoison1 KPoison2 (VmaNode n) (klinks s)"
  using assms
  by (auto simp: merge_areas_def kseq_def kbind_Inr_iff kwhen_def kptr_def file_unref_def
      k_cache_free_def upd_klinks_def upd_vma_def upd_file_def dest!: on_slab_klinks split: if_splits)

lemma join_body_pass:
  assumes r: "areas s mm (us @ c # rest)" and pre: "adjacent (\<lambda>c n. \<not> mergeable c n s) (us @ [c])"
    and x: "x \<in> set us"
  shows "join_body (VmAreas mm) (VmaNode x) (s, None) = ((s, None), False)"
proof -
  obtain as bs where us: "us = as @ x # bs" using x by (auto dest: split_list)
  let ?y = "case bs of [] \<Rightarrow> c | b # _ \<Rightarrow> b"
  have "lh_next (klinks s (VmaNode x)) = VmaNode ?y"
    using ring_next [of "klinks s" "VmAreas mm" "map VmaNode as" "VmaNode x" "map VmaNode (bs @ c # rest)"] r us
    by (auto split: list.splits)
  moreover have "\<not> mergeable x ?y s" by (rule adjacent_inner [OF pre us])
  ultimately show ?thesis by (simp add: join_body_def)
qed

lemma try_join_merge_faults:
  assumes r: "areas s mm (us @ c # n # ws)" and pre: "adjacent (\<lambda>c n. \<not> mergeable c n s) (us @ [c])"
    and m: "mergeable c n s" and step: "merge_areas c n s = Inr ((), s')"
  shows "try_join mm s = Inl WildPointer"
proof -
  let ?head = "VmAreas mm" and ?hp = "\<lambda>st :: kstate \<times> fault option. klinks (fst st)"
  let ?st = "(s, None :: fault option)"
  have nc: "lh_next (klinks s (VmaNode c)) = VmaNode n"
    using ring_next [of "klinks s" ?head "map VmaNode us" "VmaNode c" "VmaNode n # map VmaNode ws"] r by simp
  have "list_for_each_safe ?hp ?head (join_body ?head) (lh_next (?hp ?st ?head))
      (lh_next (?hp ?st (lh_next (?hp ?st ?head)))) ?st =
      list_for_each_safe ?hp ?head (join_body ?head) (VmaNode c) (lh_next (?hp ?st (VmaNode c))) ?st"
    by (rule list_for_each_safe_prefix [where us = "map VmaNode us" and rest = "VmaNode n # map VmaNode ws"])
      (use r join_body_pass [OF r pre] in \<open>auto simp: ring_def\<close>)
  also have "\<dots> = list_for_each_safe ?hp ?head (join_body ?head) (VmaNode n)
      (lh_next (klinks s' (VmaNode n))) (s', None)"
    using nc m step by (subst list_for_each_safe.simps) (simp add: join_body_def)
  also have "\<dots> = Some (s', Some WildPointer)"
    using merge_areas_klinks [OF step]
    by (subst list_for_each_safe.simps) (simp add: join_body_def list_del_def Let_def)
  finally show ?thesis by (simp add: try_join_def Let_def)
qed

definition sorted_insert :: "kstate \<Rightarrow> u64 \<Rightarrow> u64 list \<Rightarrow> u64 list" where
  "sorted_insert s v vs =
     takeWhile (\<lambda>w. \<not> va_start (vmas s v) < va_start (vmas s w)) vs @
     v # dropWhile (\<lambda>w. \<not> va_start (vmas s v) < va_start (vmas s w)) vs"

lemma find_dropWhile:
  "find P xs = (case dropWhile (\<lambda>x. \<not> P x) xs of [] \<Rightarrow> None | y # _ \<Rightarrow> Some y)"
  by (induction xs) auto

lemma mergeable_links [simp]: "mergeable c n (upd_klinks f s) = mergeable c n s"
  by (simp add: mergeable_def upd_klinks_def)

lemma insert_vma_areas:
  assumes r: "areas s mm vs" and new: "v \<notin> set vs"
    and nm: "adjacent (\<lambda>c n. \<not> mergeable c n s) (sorted_insert s v vs)"
  shows "\<exists>s'. insert_vma mm v s = Inr (0, s') \<and> areas s' mm (sorted_insert s v vs) \<and>
    s' = s\<lparr>klinks := klinks s'\<rparr>"
proof (cases "vs = []")
  case True
  have "ring (list_add (VmaNode v) (VmAreas mm) (klinks s)) (VmAreas mm) [VmaNode v]"
    using ring_list_add [of "klinks s" "VmAreas mm" "[]" "VmaNode v"] r True by simp
  with True show ?thesis
    by (simp add: insert_vma_def areas_empty [OF r] upd_klinks_def sorted_insert_def)
next
  case False
  let ?P = "\<lambda>w. va_start (vmas s v) < va_start (vmas s w)"
  let ?d = "dropWhile (\<lambda>w. \<not> ?P w) vs" and ?t = "takeWhile (\<lambda>w. \<not> ?P w) vs"
  have split: "vs = ?t @ ?d" by simp
  let ?at = "case map_option VmaNode (find ?P vs) of Some x \<Rightarrow> x | None \<Rightarrow> VmAreas mm"
  let ?s = "upd_klinks (list_add_tail (VmaNode v) ?at) s"
  have fresh: "VmaNode v \<notin> set (VmAreas mm # map VmaNode vs)" using new by auto
  have ring': "areas ?s mm (sorted_insert s v vs)"
  proof (cases ?d)
    case Nil
    then have "find ?P vs = None" by (simp only: find_dropWhile list.case)
    moreover have "sorted_insert s v vs = vs @ [v]"
      using Nil split unfolding sorted_insert_def by simp
    ultimately show ?thesis using ring_list_add_tail [OF r fresh] by (simp add: upd_klinks_def)
  next
    case (Cons d ds)
    then have at: "?at = VmaNode d" by (simp only: find_dropWhile list.case option.map option.case)
    have vs: "vs = ?t @ d # ds" using split unfolding Cons .
    have "map VmaNode vs = map VmaNode ?t @ VmaNode d # map VmaNode ds"
      by (subst vs) simp
    from ring_list_add_before [OF r [unfolded this], of "VmaNode v"] fresh [unfolded this]
    have "ring (list_add_tail (VmaNode v) (VmaNode d) (klinks s)) (VmAreas mm)
        (map VmaNode ?t @ VmaNode v # VmaNode d # map VmaNode ds)" by simp
    then show ?thesis unfolding at sorted_insert_def Cons by (simp add: upd_klinks_def)
  qed
  have "try_join mm ?s = Inr ((), ?s)"
    by (rule try_join_keeps [OF ring']) (use nm in simp)
  then have "insert_vma mm v s = Inr (0, ?s)"
    using False
    by (simp add: insert_vma_def areas_empty [OF r] areas_find [OF r] starts_after_def)
  with ring' show ?thesis by (intro exI [of _ ?s]) (simp add: upd_klinks_def)
qed

section \<open>Choosing an address\<close>

definition gap_ok :: "kstate \<Rightarrow> u64 list \<Rightarrow> u64 \<Rightarrow> u64 \<Rightarrow> bool" where
  "gap_ok s vs a b \<longleftrightarrow> X86_LOW_LIMIT \<le> a \<and> a \<le> b \<and> b \<le> X86_LIMIT \<and>
     (\<forall>v\<in>set vs. va_end (vmas s v) \<le> a \<or> b \<le> va_start (vmas s v))"

definition in_user_range :: "kstate \<Rightarrow> u64 list \<Rightarrow> bool" where
  "in_user_range s vs \<longleftrightarrow> (\<forall>v\<in>set vs. X86_LOW_LIMIT \<le> va_start (vmas s v) \<and> va_end (vmas s v) \<le> X86_LIMIT)"

lemma areas_ordered_before:
  assumes "areas_ordered s (us @ w # ws)" and "u \<in> set us"
  shows "va_end (vmas s u) \<le> va_start (vmas s w)"
  using assms by (auto simp: areas_ordered_def sorted_wrt_append)

lemma areas_ordered_after:
  assumes "areas_ordered s (us @ w # ws)" and "u \<in> set ws"
  shows "va_end (vmas s w) \<le> va_start (vmas s u)"
  using assms by (auto simp: areas_ordered_def sorted_wrt_append)

lemma areas_ordered_nonempty: "areas_ordered s vs \<Longrightarrow> v \<in> set vs \<Longrightarrow> va_start (vmas s v) \<le> va_end (vmas s v)"
  by (auto simp: areas_ordered_def intro: less_imp_le)

lemma prev_gap_ok:
  assumes r: "areas s mm (us @ w # ws)" and o: "areas_ordered s (us @ w # ws)"
    and i: "in_user_range s (us @ w # ws)"
  shows "gap_ok s (us @ w # ws) (fst (prev_gap (VmAreas mm) (VmaNode w) s)) (snd (prev_gap (VmAreas mm) (VmaNode w) s))"
proof -
  have p: "lh_prev (klinks s (VmaNode w)) = (if us = [] then VmAreas mm else VmaNode (last us))"
    using ring_prev [of "klinks s" "VmAreas mm" "map VmaNode us" "VmaNode w" "map VmaNode ws"] r
    by (auto simp: last_map)
  have after: "va_start (vmas s w) \<le> va_start (vmas s v)" if "v \<in> set (w # ws)" for v
    using areas_ordered_after [OF o] areas_ordered_nonempty [OF o, of w] that by (auto intro: order_trans)
  show ?thesis
  proof (cases us rule: rev_cases)
    case Nil
    have "va_start (vmas s w) \<le> X86_LIMIT"
      using i areas_ordered_nonempty [OF o, of w] by (auto simp: in_user_range_def intro: order_trans)
    then show ?thesis using p Nil after i by (auto simp: gap_ok_def prev_gap_def in_user_range_def)
  next
    case (snoc us' u)
    have o': "areas_ordered s (us' @ u # (w # ws))" using o snoc by simp
    have before: "va_end (vmas s v) \<le> va_end (vmas s u)" if "v \<in> set us" for v
      using that snoc areas_ordered_before [OF o'] areas_ordered_nonempty [OF o', of u] by (auto intro: order_trans)
    have lo: "X86_LOW_LIMIT \<le> va_end (vmas s u)"
      using i snoc areas_ordered_nonempty [OF o', of u] by (auto simp: in_user_range_def intro: order_trans)
    have hi: "va_start (vmas s w) \<le> X86_LIMIT"
      using i areas_ordered_nonempty [OF o, of w] by (auto simp: in_user_range_def intro: order_trans)
    have mid: "va_end (vmas s u) \<le> va_start (vmas s w)" using areas_ordered_before [OF o, of u] snoc by simp
    show ?thesis using p snoc after before lo hi mid by (auto simp: gap_ok_def prev_gap_def)
  qed
qed

lemma next_gap_ok:
  assumes r: "areas s mm (us @ w # ws)" and o: "areas_ordered s (us @ w # ws)"
    and i: "in_user_range s (us @ w # ws)"
  shows "gap_ok s (us @ w # ws) (fst (next_gap (VmAreas mm) (VmaNode w) s)) (snd (next_gap (VmAreas mm) (VmaNode w) s))"
proof -
  have n: "lh_next (klinks s (VmaNode w)) = (case ws of [] \<Rightarrow> VmAreas mm | y # _ \<Rightarrow> VmaNode y)"
    using ring_next [of "klinks s" "VmAreas mm" "map VmaNode us" "VmaNode w" "map VmaNode ws"] r
    by (auto split: list.splits)
  have before: "va_end (vmas s v) \<le> va_end (vmas s w)" if "v \<in> set (us @ [w])" for v
    using areas_ordered_before [OF o] areas_ordered_nonempty [OF o, of w] that by (auto intro: order_trans)
  have lo: "X86_LOW_LIMIT \<le> va_end (vmas s w)"
    using i areas_ordered_nonempty [OF o, of w] by (auto simp: in_user_range_def intro: order_trans)
  show ?thesis
  proof (cases ws)
    case Nil
    then show ?thesis using n before lo i by (auto simp: gap_ok_def next_gap_def in_user_range_def)
  next
    case (Cons u ws')
    have o': "areas_ordered s ((us @ [w]) @ u # ws')" using o Cons by simp
    have after: "va_start (vmas s u) \<le> va_start (vmas s v)" if "v \<in> set ws" for v
      using that Cons areas_ordered_after [OF o'] areas_ordered_nonempty [OF o', of u] by (auto intro: order_trans)
    have mid: "va_end (vmas s w) \<le> va_start (vmas s u)" using areas_ordered_after [OF o, of u] Cons by simp
    have hi: "va_start (vmas s u) \<le> X86_LIMIT"
      using i Cons areas_ordered_nonempty [OF o', of u] by (auto simp: in_user_range_def intro: order_trans)
    show ?thesis using n Cons before after mid lo hi by (auto simp: gap_ok_def next_gap_def)
  qed
qed

lemma gap_fits_inside:
  assumes "gap_fits len (a, b)" and "a \<le> b" and "b \<le> X86_LIMIT" and "unat len < 2 ^ 63"
  shows "unat (a + PAGE_SIZE) = unat a + 4096" and "unat (a + PAGE_SIZE + len) = unat a + 4096 + unat len"
    and "unat a + 4096 + unat len < unat b"
proof -
  have B: "unat b \<le> 2 ^ 47" using assms(3) by (simp add: X86_LIMIT_def word_le_nat_alt)
  have d: "unat (b - a) = unat b - unat a" using assms(2) by (rule unat_sub)
  have l: "unat (len + PAGE_SIZE * 2) = unat len + 8192"
    by (subst unat_add_no_overflow) (use assms(4) in \<open>simp_all add: PAGE_SIZE_def\<close>)
  have f: "unat len + 8192 < unat b - unat a"
    using assms(1) d l by (simp add: gap_fits_def word_less_nat_alt)
  show 1: "unat (a + PAGE_SIZE) = unat a + 4096"
    by (subst unat_add_no_overflow) (use f B in \<open>simp_all add: PAGE_SIZE_def\<close>)
  show "unat (a + PAGE_SIZE + len) = unat a + 4096 + unat len"
    by (subst unat_add_no_overflow) (use f B 1 in simp_all)
  show "unat a + 4096 + unat len < unat b" using f by simp
qed

lemma cpu_assign_areas:
  assumes r: "areas s mm vs" and o: "areas_ordered s vs" and i: "in_user_range s vs" and len: "unat len < 2 ^ 63"
    and res: "cpu_assign_vma_vaddr mm v len s = Inr (0, s')"
  shows "\<exists>a. s' = upd_vma v (\<lambda>d. d\<lparr>va_start := a, va_end := a + len\<rparr>) s \<and> unat (a + len) = unat a + unat len \<and>
    gap_ok s vs a (a + len)"
proof -
  let ?P = "\<lambda>w. gap_fits len (prev_gap (VmAreas mm) (VmaNode w) s) \<or> gap_fits len (next_gap (VmAreas mm) (VmaNode w) s)"
  obtain w where w: "find ?P vs = Some w"
    using res areas_find [OF r] by (cases "find ?P vs") (auto simp: cpu_assign_vma_vaddr_def)
  have "w \<in> set vs" "?P w" using w by (auto simp: find_Some_iff)
  then obtain us ws where vs: "vs = us @ w # ws" by (auto dest: split_list)
  let ?g = "if gap_fits len (prev_gap (VmAreas mm) (VmaNode w) s) then prev_gap (VmAreas mm) (VmaNode w) s
            else next_gap (VmAreas mm) (VmaNode w) s"
  obtain a b where g: "?g = (a, b)" by (cases ?g)
  have fits: "gap_fits len (a, b)" using \<open>?P w\<close> g by (auto split: if_splits)
  have ok: "gap_ok s vs a b"
    using prev_gap_ok [of s mm us w ws] next_gap_ok [of s mm us w ws] r o i vs g by (auto split: if_splits)
  have s': "s' = upd_vma v (\<lambda>d. d\<lparr>va_start := a + PAGE_SIZE, va_end := a + PAGE_SIZE + len\<rparr>) s"
    using res g by (auto simp: cpu_assign_vma_vaddr_def areas_find [OF r] w split: if_splits)
  note u = gap_fits_inside [OF fits _ _ len]
  have "a \<le> b" "b \<le> X86_LIMIT" using ok by (auto simp: gap_ok_def)
  note u = u [OF this]
  have "gap_ok s vs (a + PAGE_SIZE) (a + PAGE_SIZE + len)"
    using ok u unfolding gap_ok_def word_le_nat_alt by force
  with s' u show ?thesis by (intro exI [of _ "a + PAGE_SIZE"]) simp
qed

section \<open>Properties\<close>

text \<open>
  C27: \<open>find_vma_for_address\<close> returns the area of the process that contains the address, and the
  null pointer exactly when there is none.
\<close>

theorem find_vma_correct:
  assumes "areas s mm vs" and "0 \<notin> set vs" and "areas_ordered s vs"
  shows "\<exists>r. find_vma_for_address addr mm s = Inr (r, s) \<and>
    (r = 0 \<longleftrightarrow> (\<forall>v\<in>set vs. \<not> (va_start (vmas s v) \<le> addr \<and> addr < va_end (vmas s v)))) \<and>
    (\<forall>v\<in>set vs. va_start (vmas s v) \<le> addr \<and> addr < va_end (vmas s v) \<longrightarrow> r = v)"
proof -
  let ?P = "\<lambda>v. va_start (vmas s v) \<le> addr \<and> addr < va_end (vmas s v)"
  have uniq: "v = w" if "v \<in> set vs" "w \<in> set vs" "?P v" "?P w" for v w
    using areas_ordered_apart [OF assms(3) that(1,2)] that(3,4) by (meson leD le_less_trans less_le_trans order_trans)
  show ?thesis
  proof (cases "find ?P vs")
    case None
    then have "find_vma_for_address addr mm s = Inr (0, s)" by (simp add: find_vma_areas [OF assms(1,2)])
    moreover have "\<forall>v\<in>set vs. \<not> ?P v" using None by (auto simp: find_None_iff)
    ultimately show ?thesis by blast
  next
    case (Some r)
    then have "r \<in> set vs" "?P r" by (auto simp: find_Some_iff)
    moreover have "find_vma_for_address addr mm s = Inr (r, s)"
      using Some by (simp add: find_vma_areas [OF assms(1,2)])
    moreover have "r \<noteq> 0" using \<open>r \<in> set vs\<close> assms(2) by auto
    ultimately show ?thesis using uniq by blast
  qed
qed

definition two_areas :: kstate where
  "two_areas = blank_kernel\<lparr>
     klinks := list_add_tail (VmaNode 0x20) (VmAreas 1) (list_add_tail (VmaNode 0x10) (VmAreas 1) (klinks blank_kernel)),
     vmas := (vmas blank_kernel)
       (0x10 := (vmas blank_kernel 0x10)\<lparr>va_start := 0x401000, va_end := 0x402000\<rparr>,
        0x20 := (vmas blank_kernel 0x20)\<lparr>va_start := 0x500000, va_end := 0x501000\<rparr>)\<rparr>"

lemma two_areas_facts:
  "areas two_areas 1 [0x10, 0x20]" "areas_ordered two_areas [0x10, 0x20]" "in_user_range two_areas [0x10, 0x20]"
  by (simp_all add: two_areas_def blank_kernel_def ring_def list_add_tail_def list_add_between_def
      areas_ordered_def in_user_range_def X86_LOW_LIMIT_def X86_LIMIT_def)

theorem find_vma_correct_witness: "find_vma_for_address 0x500123 1 two_areas = Inr (0x20, two_areas)"
proof -
  have "(0 :: u64) \<notin> set [0x10, 0x20]" by simp
  from find_vma_correct [OF two_areas_facts(1) this two_areas_facts(2), of "0x500123"]
  show ?thesis by (auto simp: two_areas_def)
qed

text \<open>
  C4: \<open>is_valid_vaddr_for_vma\<close> accepts a non-empty range that does not wrap around exactly when it
  overlaps none of the areas of the process.
\<close>

theorem is_valid_vaddr_iff_disjoint:
  assumes "areas s mm vs" and "\<forall>v\<in>set vs. va_start (vmas s v) < va_end (vmas s v)"
    and "unat addr + unat len < 2 ^ 64" and "len \<noteq> 0"
  shows "is_valid_vaddr_for_vma mm addr len s =
    Inr (\<forall>v\<in>set vs. va_end (vmas s v) \<le> addr \<or> addr + len \<le> va_start (vmas s v), s)"
  by (rule is_valid_areas [OF assms])

theorem is_valid_vaddr_iff_disjoint_witness:
  "is_valid_vaddr_for_vma 1 0x402000 0x1000 two_areas = Inr (True, two_areas)"
proof -
  have "is_valid_vaddr_for_vma 1 0x402000 0x1000 two_areas =
      Inr (\<forall>v\<in>set [0x10, 0x20]. va_end (vmas two_areas v) \<le> 0x402000 \<or> 0x402000 + 0x1000 \<le> va_start (vmas two_areas v), two_areas)"
    by (rule is_valid_vaddr_iff_disjoint [OF two_areas_facts(1)])
      (use two_areas_facts(2) in \<open>auto simp: areas_ordered_def\<close>)
  then show ?thesis by (simp add: two_areas_def)
qed

text \<open>
  C25: when the areas of the process are ordered and all lie between \<open>X86_LOW_LIMIT\<close> and \<open>X86_LIMIT\<close>, and the requested
  length is below \<open>2 ^ 63\<close>, the address range that \<open>cpu_assign_vma_vaddr\<close> chooses when it returns 0 has the requested
  length without wrapping around, lies between these limits and overlaps none of the areas. No caller checks that the areas
  lie between the limits, and \<open>cpu_assign_below_range\<close> shows what happens when the first one does not.
\<close>

theorem cpu_assign_disjoint:
  assumes "areas s mm vs" and "areas_ordered s vs" and "in_user_range s vs" and "unat len < 2 ^ 63"
    and "cpu_assign_vma_vaddr mm v len s = Inr (0, s')"
  shows "\<exists>a. s' = upd_vma v (\<lambda>d. d\<lparr>va_start := a, va_end := a + len\<rparr>) s \<and> unat (a + len) = unat a + unat len \<and>
    gap_ok s vs a (a + len)"
  by (rule cpu_assign_areas [OF assms])

theorem cpu_assign_disjoint_witness:
  "\<exists>s' a. cpu_assign_vma_vaddr 1 0x30 0x3000 two_areas = Inr (0, s') \<and> gap_ok two_areas [0x10, 0x20] a (a + 0x3000)"
proof -
  have g: "prev_gap (VmAreas 1) (VmaNode 0x10) two_areas = (0x400000, 0x401000)"
    "next_gap (VmAreas 1) (VmaNode 0x10) two_areas = (0x402000, 0x500000)"
    by (simp_all add: prev_gap_def next_gap_def two_areas_def blank_kernel_def list_add_tail_def
        list_add_between_def X86_LOW_LIMIT_def)
  have "\<exists>s'. cpu_assign_vma_vaddr 1 0x30 0x3000 two_areas = Inr (0, s')"
    by (simp add: cpu_assign_vma_vaddr_def areas_find [OF two_areas_facts(1)] g gap_fits_def PAGE_SIZE_def)
  then obtain s' where s': "cpu_assign_vma_vaddr 1 0x30 0x3000 two_areas = Inr (0, s')" by blast
  from cpu_assign_disjoint [OF two_areas_facts _ s'] s' show ?thesis by auto
qed

lemma gap_below_fits:
  assumes "b < X86_LOW_LIMIT" and "unat len < 2 ^ 63"
  shows "gap_fits len (X86_LOW_LIMIT, b)"
proof -
  have b: "unat b < 0x400000" using assms(1) by (simp add: word_less_nat_alt X86_LOW_LIMIT_def)
  have "unat (b - X86_LOW_LIMIT) = 2 ^ 64 - (0x400000 - unat b)"
    using b by (simp add: unat_sub_if_size word_size X86_LOW_LIMIT_def)
  moreover have "unat (len + PAGE_SIZE * 2) = unat len + 0x2000"
    by (subst unat_add_no_overflow) (use assms(2) in \<open>simp_all add: PAGE_SIZE_def\<close>)
  ultimately show ?thesis using assms(2) b by (simp add: gap_fits_def word_less_nat_alt)
qed

text \<open>
  The limits are an assumption of the choice: once the first area starts below the range, as a program that
  \<^verbatim>\<open>usr/link.ld\<close> places at \<^verbatim>\<open>0x40000\<close> does, the difference in front of it wraps around, and every choice is the
  range at \<^verbatim>\<open>0x401000\<close>, whatever is there already.
\<close>

theorem cpu_assign_below_range:
  assumes "areas s mm (u # us)" and "va_start (vmas s u) < X86_LOW_LIMIT" and "unat len < 2 ^ 63"
  shows "cpu_assign_vma_vaddr mm v len s = Inr (0, upd_vma v (\<lambda>d. d\<lparr>va_start := 0x401000, va_end := 0x401000 + len\<rparr>) s)"
proof -
  have "prev_gap (VmAreas mm) (VmaNode u) s = (X86_LOW_LIMIT, va_start (vmas s u))"
    using assms(1) by (simp add: prev_gap_def ring_def)
  moreover from this have "gap_fits len (prev_gap (VmAreas mm) (VmaNode u) s)"
    using gap_below_fits [OF assms(2,3)] by simp
  ultimately show ?thesis
    by (simp add: cpu_assign_vma_vaddr_def areas_find [OF assms(1)] X86_LOW_LIMIT_def PAGE_SIZE_def)
qed

definition low_areas :: kstate where
  "low_areas = two_areas\<lparr>vmas := (vmas two_areas)
     (0x10 := (vmas two_areas 0x10)\<lparr>va_start := 0x40000, va_end := 0x41000\<rparr>,
      0x20 := (vmas two_areas 0x20)\<lparr>va_start := 0x401000, va_end := 0x404000\<rparr>)\<rparr>"

theorem cpu_assign_overlaps:
  "areas low_areas 1 [0x10, 0x20] \<and> areas_ordered low_areas [0x10, 0x20] \<and>
   cpu_assign_vma_vaddr 1 0x30 0x3000 low_areas =
     Inr (0, upd_vma 0x30 (\<lambda>d. d\<lparr>va_start := va_start (vmas low_areas 0x20), va_end := va_end (vmas low_areas 0x20)\<rparr>) low_areas)"
proof -
  have a: "areas low_areas 1 [0x10, 0x20]" using two_areas_facts(1) by (simp add: low_areas_def)
  have "va_start (vmas low_areas 0x10) < X86_LOW_LIMIT" by (simp add: low_areas_def X86_LOW_LIMIT_def)
  from cpu_assign_below_range [OF a this, where len = "0x3000" and v = "0x30"] a show ?thesis
    by (simp add: low_areas_def areas_ordered_def)
qed

text \<open>
  C26: \<open>insert_vma\<close> links the new area in front of the first area that starts behind it, keeping the
  others in their order, provided no two neighbours of the new list can be merged.
\<close>

theorem insert_vma_sorted:
  assumes "areas s mm vs" and "v \<notin> set vs"
    and "adjacent (\<lambda>c n. \<not> mergeable c n s) (sorted_insert s v vs)"
  shows "\<exists>s'. insert_vma mm v s = Inr (0, s') \<and> areas s' mm (sorted_insert s v vs) \<and> s' = s\<lparr>klinks := klinks s'\<rparr>"
  by (rule insert_vma_areas [OF assms])

theorem insert_vma_sorted_witness:
  "\<exists>s'. insert_vma 1 0x30 (upd_vma 0x30 (\<lambda>d. d\<lparr>va_start := 0x403000, va_end := 0x404000\<rparr>) two_areas) = Inr (0, s') \<and>
    areas s' 1 [0x10, 0x30, 0x20]"
proof -
  let ?s = "upd_vma 0x30 (\<lambda>d. d\<lparr>va_start := 0x403000, va_end := 0x404000\<rparr>) two_areas"
  have a: "areas ?s 1 [0x10, 0x20]" using two_areas_facts(1) by (simp add: upd_vma_def)
  have i: "sorted_insert ?s 0x30 [0x10, 0x20] = [0x10, 0x30, 0x20]"
    by (simp add: sorted_insert_def upd_vma_def two_areas_def)
  have m: "adjacent (\<lambda>c n. \<not> mergeable c n ?s) [0x10, 0x30, 0x20]"
    by (simp add: mergeable_def upd_vma_def two_areas_def)
  from insert_vma_sorted [OF a, of "0x30"] i m show ?thesis by auto
qed

text \<open>
  C36: merging two neighbouring areas always ends in a wild access: the loop of \<open>try_join\<close> has
  remembered the second area as its next node, and goes on from it after the merge has unlinked and
  freed it.
\<close>

theorem try_join_uses_freed_area:
  assumes "areas s mm (us @ c # n # ws)" and "adjacent (\<lambda>c n. \<not> mergeable c n s) (us @ [c])"
    and "mergeable c n s" and "merge_areas c n s = Inr ((), s')"
  shows "try_join mm s = Inl WildPointer"
  by (rule try_join_merge_faults [OF assms])

definition touching_areas :: kstate where
  "touching_areas = two_areas\<lparr>vm_area_cache := 0x500,
     klinks := list_add_tail (VmaNode 0xffff800000100800) (VmAreas 1) (list_add_tail (VmaNode 0x10) (VmAreas 1) (klinks blank_kernel)),
     vmas := (vmas two_areas)(0xffff800000100800 := (vmas blank_kernel 0)\<lparr>va_start := 0x402000, va_end := 0x403000\<rparr>)\<rparr>"

theorem try_join_uses_freed_area_witness: "try_join 1 touching_areas = Inl WildPointer"
proof -
  let ?n = "0xffff800000100800"
  have f: "va_file (vmas touching_areas ?n) = 0" "vm_area_cache touching_areas = 0x500"
    "pa (kslab (ps touching_areas)) = pa small_slab" "slabs (kslab (ps touching_areas)) = slabs small_slab"
    "caches (kslab (ps touching_areas)) = caches small_slab" "free_idx (kslab (ps touching_areas)) = free_idx small_slab"
    by (simp_all add: touching_areas_def two_areas_def blank_kernel_def zone_boot_def)
  have "page_backptrs ?n (kslab (ps touching_areas)) = Inr (0x500, 0x600)"
    using small_slab_backptrs(2) unfolding page_backptrs_def by (simp only: f)
  then have "\<exists>sl. mem_cache_free_obj 0x500 ?n (kslab (ps touching_areas)) = Inr sl"
    by (simp add: mem_cache_free_obj_def f small_slab_def VA2PA_def Let_def)
  then have "\<exists>s'. merge_areas 0x10 ?n touching_areas = Inr ((), s')"
    using f by (auto simp: merge_areas_def k_cache_free_def on_slab_def upd_vma_def upd_klinks_def)
  then obtain s' where s': "merge_areas 0x10 ?n touching_areas = Inr ((), s')" by blast
  have a: "areas touching_areas 1 ([] @ 0x10 # ?n # [])"
    by (simp add: touching_areas_def blank_kernel_def ring_def list_add_tail_def list_add_between_def)
  have m: "mergeable 0x10 ?n touching_areas"
    by (simp add: mergeable_def touching_areas_def two_areas_def blank_kernel_def)
  show ?thesis by (rule try_join_uses_freed_area [OF a _ m s']) simp
qed

end
