(* ===== verification/Ramfs.thy ===== *)
theory Ramfs
  imports Fs_Caches Vm_Area
begin

text \<open>
  \<^verbatim>\<open>fs/ramfs/ramfs.c\<close>: directories as lists of named entries, creation of files, directories and
  device nodes, the page mapping operations that the generic read and write routines call, and the
  fault handler of mapped files. Names are the bytes before the terminating zero; the bytes of a name
  buffer behind it are zero, as in freshly allocated memory.
\<close>

section \<open>Modes and sizes\<close>

definition S_IFCHR :: u32 where "S_IFCHR = 0x2000"
definition S_IFDIR :: u32 where "S_IFDIR = 0x4000"
definition S_IFBLK :: u32 where "S_IFBLK = 0x6000"
definition S_IFREG :: u32 where "S_IFREG = 0x8000"
definition INO_TYPE :: "inode \<Rightarrow> u32" where "INO_TYPE i = ino_mode i AND 0xF000"

definition RAMFS_MAX_FILENAME :: nat where "RAMFS_MAX_FILENAME = 256"
definition FS_NODEV :: u32 where "FS_NODEV = 1"

definition sizeof_ramfs_inode :: u32 where "sizeof_ramfs_inode = 136"
definition sizeof_dir_entry :: u64 where "sizeof_dir_entry = 280"
definition sizeof_page_mapping :: u64 where "sizeof_page_mapping = 32"
definition sizeof_ramfs_super_block :: u64 where "sizeof_ramfs_super_block = 88"

definition upd_super :: "u64 \<Rightarrow> (super_block \<Rightarrow> super_block) \<Rightarrow> kstate \<Rightarrow> kstate" where
  "upd_super p f s = s\<lparr>supers := (supers s)(p := f (supers s p))\<rparr>"

definition upd_dir_entry :: "u64 \<Rightarrow> (dir_entry \<Rightarrow> dir_entry) \<Rightarrow> kstate \<Rightarrow> kstate" where
  "upd_dir_entry p f s = s\<lparr>dir_entries := (dir_entries s)(p := f (dir_entries s p))\<rparr>"

text \<open>An operation on a page structure through a pointer.\<close>

definition on_page :: "u64 \<Rightarrow> (alloc_state \<Rightarrow> alloc_state) \<Rightarrow> unit kop" where
  "on_page p f = kseq (kptr p) (kmod (upd_pa f))"

section \<open>The page mapping\<close>

definition ramfs_mapping_readpage :: "u64 \<Rightarrow> u64 \<Rightarrow> u64 \<Rightarrow> u64 \<Rightarrow> int kop" where
  "ramfs_mapping_readpage f m p offs = kret 0"

text \<open>
  The first branch copies the old array into one that is never installed: the new page is stored
  behind the end of the old array.
\<close>

definition ramfs_mapping_write_begin :: "env \<Rightarrow> u64 \<Rightarrow> u64 \<Rightarrow> u64 \<Rightarrow> u64 \<Rightarrow> u64 kop" where
  "ramfs_mapping_write_begin E f m pos len =
     (let pg_index = unat (pos div PAGE_SIZE) in
      kseq (kptr m)
      (kseq (kbind (kget (\<lambda>s. nr_pages (mappings s m))) (\<lambda>n.
               kwhen (of_nat pg_index \<ge> n)
                 (kseq (kmod (upd_mapping m (\<lambda>d. d\<lparr>nr_pages := nr_pages d + 1\<rparr>)))
                 (kbind (k_kmalloc E (8 * (n + 1))) (\<lambda>new_array.
                  kseq (kptr new_array)
                  (kbind (k_alloc_pages E 0) (\<lambda>new_page.
                   kseq (on_page new_page (page_ref new_page))
                     (set_map_page m (unat n) new_page))))))))
      (kseq (kbind (get_map_page m pg_index) (\<lambda>p.
               kwhen (p = 0)
                 (kbind (k_alloc_pages E 0) (\<lambda>new_page.
                  kseq (on_page new_page (page_ref new_page))
                  (kseq (kmod (upd_pa (set_page_cache_owner E new_page m)))
                  (kseq (on_page new_page (page_set_usage new_page PAGE_USAGE_CACHE))
                    (set_map_page m pg_index new_page)))))))
        (get_map_page m pg_index))))"

definition blocks_of :: "u64 \<Rightarrow> u32" where
  "blocks_of sz = ucast (sz div PAGE_SIZE) + (if sz mod PAGE_SIZE \<noteq> 0 then 1 else 0)"

definition ramfs_mapping_write_end :: "u64 \<Rightarrow> u64 \<Rightarrow> u64 \<Rightarrow> u64 \<Rightarrow> u64 \<Rightarrow> u64 \<Rightarrow> int kop" where
  "ramfs_mapping_write_end f m pos len copied p =
     kbind (kget (\<lambda>s. f_inode (files s f))) (\<lambda>i.
     kseq (kptr i)
     (kseq (kmod (upd_inode i (\<lambda>d. if pos + copied \<ge> ino_size d then d\<lparr>ino_size := pos + copied\<rparr> else d)))
     (kseq (kmod (upd_inode i (\<lambda>d. d\<lparr>ino_blocks := blocks_of (ino_size d)\<rparr>)))
     (kseq (on_page p (page_mk_dirty p)) (kret 0)))))"

section \<open>Mapped files\<close>

record vm_fault =
  vf_addr :: u64
  vf_flags :: u32
  vf_vma :: u64
  vf_pgoffset :: u64
  vf_new_page :: u64
  vf_pfn :: u64

definition ramfs_vma_fault :: "env \<Rightarrow> u64 \<Rightarrow> vm_fault \<Rightarrow> (int \<times> vm_fault) kop" where
  "ramfs_vma_fault E v vf =
     kbind (kget (\<lambda>s. vmas s v)) (\<lambda>a.
     kseq (kptr (va_file a))
     (kbind (kget (\<lambda>s. f_map (inodes s (f_inode (files s (va_file a)))))) (\<lambda>m.
      kbind (get_map_page m (unat (vf_pgoffset vf + fpg_off a))) (\<lambda>page.
        if page = 0 then kret (1, vf)
        else if vf_flags vf AND PGFAULT_PROTECTION E \<noteq> 0 then
          (if vf_flags vf AND PGFAULT_WRITE E \<noteq> 0 \<and> ucast (va_prot a) AND VM_MAYWRITE (vm E) \<noteq> 0 then
             (if va_flags a AND VM_FLAG_PRIVATE E \<noteq> 0 then
                kbind (k_alloc_pages E 0) (\<lambda>new_page.
                kseq (on_page new_page (page_ref new_page))
                (kseq (k_page_unref page)
                (kbind (kget (\<lambda>s. (get_page_vaddr E new_page (kpa s), get_page_vaddr E page (kpa s)))) (\<lambda>(nv, pv).
                 kseq (kmod (set_kram (memcpy nv pv PAGE_SIZE)))
                   (kret (0, vf\<lparr>vf_new_page := new_page\<rparr>))))))
              else kseq (on_page page (page_ref page)) (kret (0, vf\<lparr>vf_new_page := page\<rparr>)))
           else kret (0, vf))
        else kseq (on_page page (page_ref page)) (kret (0, vf\<lparr>vf_new_page := page\<rparr>))))))"

definition ramfs_file_mmap :: "u64 \<Rightarrow> u64 \<Rightarrow> int kop" where
  "ramfs_file_mmap f v = kseq (kmod (upd_vma v (\<lambda>a. a\<lparr>vm_ops := RamfsVmaOps\<rparr>))) (kret 0)"

section \<open>Directories\<close>

text \<open>
  The list of entries shares its memory with the block pointer of a regular file, whose null value
  is then the \<open>next\<close> pointer of the list: searching a file as a directory dereferences it.
\<close>

definition dir_find :: "u64 \<Rightarrow> (knode \<Rightarrow> kstate \<Rightarrow> bool) \<Rightarrow> knode option kop" where
  "dir_find d P =
     kbind (kget (\<lambda>s. lh_next (klinks s (DirEntries d)))) (\<lambda>x.
       if x = KNull then kfail NullDeref else klist_find (DirEntries d) P)"

definition entry_begins :: "u8 list \<Rightarrow> nat \<Rightarrow> knode \<Rightarrow> kstate \<Rightarrow> bool" where
  "entry_begins name len x s \<longleftrightarrow>
     (case x of DirNode e \<Rightarrow> buf_matches RAMFS_MAX_FILENAME (de_name (dir_entries s e)) name len | _ \<Rightarrow> False)"

definition entry_named :: "u8 list \<Rightarrow> knode \<Rightarrow> kstate \<Rightarrow> bool" where
  "entry_named name x s \<longleftrightarrow> (case x of DirNode e \<Rightarrow> de_name (dir_entries s e) = name | _ \<Rightarrow> False)"

definition ramfs_ino_lookup :: "u64 \<Rightarrow> u8 list \<Rightarrow> nat \<Rightarrow> (int \<times> u64 option) kop" where
  "ramfs_ino_lookup dir name len =
     kbind (dir_find dir (entry_begins name len)) (\<lambda>r.
       case r of
         Some (DirNode e) \<Rightarrow>
           kbind (kget (\<lambda>s. de_ino (dir_entries s e))) (\<lambda>i. kseq (ino_ref i) (kret (0, Some i)))
       | _ \<Rightarrow> kret (- ENOENT, None))"

text \<open>Allocation of a directory entry, \<open>strcpy\<close> of its name and its link.\<close>

definition new_dir_entry :: "env \<Rightarrow> u8 list \<Rightarrow> u64 \<Rightarrow> u64 kop" where
  "new_dir_entry E name i =
     kbind (k_kmalloc E sizeof_dir_entry) (\<lambda>e.
     kseq (kptr e)
     (if length name \<ge> RAMFS_MAX_FILENAME then kfail OutOfBounds
      else kseq (kmod (upd_dir_entry e (\<lambda>_. \<lparr>de_name = name, de_ino = i\<rparr>))) (kret e)))"

definition add_dir_entry :: "env \<Rightarrow> u64 \<Rightarrow> u8 list \<Rightarrow> u64 \<Rightarrow> unit kop" where
  "add_dir_entry E dir name i =
     kbind (new_dir_entry E name i) (\<lambda>e. kmod (upd_klinks (list_add (DirNode e) (DirEntries dir))))"

definition ramfs_ino_create_generic :: "env \<Rightarrow> u64 \<Rightarrow> u8 list \<Rightarrow> u32 \<Rightarrow> (int \<times> u64) kop" where
  "ramfs_ino_create_generic E dir name mode =
     kseq (kptr dir)
     (kbind (kget (\<lambda>s. ino_sb (inodes s dir))) (\<lambda>sb.
      kbind (dir_find dir (entry_named name)) (\<lambda>r.
        if r \<noteq> None then kret (- EEXIST, 0)
        else
          kbind (kget ramfs_inode_cache) (\<lambda>c.
          kbind (k_cache_alloc E c) (\<lambda>new_ino.
          kbind (new_dir_entry E name new_ino) (\<lambda>new_entry.
          kseq (kptr new_ino)
          (kseq (kptr sb)
          (kseq (kmod (\<lambda>s. upd_inode new_ino (\<lambda>d. d\<lparr>ino_mode := mode, ino_id := ino_counter (supers s sb),
                   ino_blocks := 0, ino_block_size := ucast PAGE_SIZE, ino_sb := sb,
                   ino_ops := RamfsInoOps, default_fops := RamfsFileOps\<rparr>) s))
          (kseq (kmod (upd_super sb (\<lambda>d. d\<lparr>ino_counter := ino_counter d + 1\<rparr>)))
          (kseq (kmod (upd_klinks (list_add (DirNode new_entry) (DirEntries dir))))
          (kseq (kmod (upd_klinks (set_next (DirEntries new_ino) KNull)))
          (kseq (ino_ref new_ino)
          (kbind (ino_cache_insert E sb new_ino) (\<lambda>_.
           kbind (k_kmalloc E sizeof_page_mapping) (\<lambda>m.
           kseq (kmod (upd_inode new_ino (\<lambda>d. d\<lparr>f_map := m\<rparr>)))
           (kseq (kptr m)
           (kbind (k_kmalloc E 16) (\<lambda>arr.
            kseq (kptr arr)
            (kseq (kmod (upd_mapping m (\<lambda>_. \<lparr>map_owner = new_ino, map_pages = (\<lambda>_. 0), map_len = 2,
                     nr_pages = 2, map_ops = RamfsMapOps\<rparr>)))
              (kret (0, new_ino)))))))))))))))))))))"

text \<open>The second reference is taken through \<open>*res\<close>, which is null when the name existed.\<close>

definition ramfs_ino_create :: "env \<Rightarrow> u64 \<Rightarrow> u8 list \<Rightarrow> u32 \<Rightarrow> (int \<times> u64) kop" where
  "ramfs_ino_create E dir name mode =
     kbind (ramfs_ino_create_generic E dir name ((mode AND 0xfff) OR S_IFREG)) (\<lambda>(ret, res).
       kseq (ino_ref res) (kret (ret, res)))"

definition ramfs_ino_mkdir :: "env \<Rightarrow> u64 \<Rightarrow> u8 list \<Rightarrow> u32 \<Rightarrow> int kop" where
  "ramfs_ino_mkdir E dir name mode =
     kbind (ramfs_ino_create_generic E dir name ((mode AND 0xfff) OR S_IFDIR)) (\<lambda>(ret, res).
       if ret \<noteq> 0 then kret ret
       else
         kseq (kmod (upd_klinks (INIT_LIST_HEAD (DirEntries res))))
         (kseq (add_dir_entry E res [46, 46] dir)
         (kseq (add_dir_entry E res [46] res) (kret ret))))"

definition ramfs_ino_mknod :: "env \<Rightarrow> u64 \<Rightarrow> u8 list \<Rightarrow> u32 \<Rightarrow> u32 \<Rightarrow> int kop" where
  "ramfs_ino_mknod E dir name mode device =
     (if \<not> (mode AND 0xf000 = S_IFBLK \<or> mode AND 0xf000 = S_IFCHR) then kret EINVAL
      else
        kbind (ramfs_ino_create_generic E dir name mode) (\<lambda>(ret, res).
          kseq (kptr res)
          (kseq (kmod (upd_inode res (\<lambda>d. d\<lparr>ino_dev := device\<rparr>))) (kret ret))))"

section \<open>Super blocks\<close>

definition ramfs_sb_inode_mem_alloc :: "env \<Rightarrow> u64 \<Rightarrow> u64 kop" where
  "ramfs_sb_inode_mem_alloc E sb = kbind (kget ramfs_inode_cache) (k_cache_alloc E)"

definition ramfs_sb_inode_mem_free :: "u64 \<Rightarrow> u64 \<Rightarrow> int kop" where
  "ramfs_sb_inode_mem_free sb i =
     kbind (kget ramfs_inode_cache) (\<lambda>c. kseq (k_cache_free c i) (kret 0))"

definition ramfs_sb_inode_read :: "u64 \<Rightarrow> u64 \<Rightarrow> int kop" where
  "ramfs_sb_inode_read sb i = kret (- EINVAL)"

definition ramfs_sb_inode_write :: "u64 \<Rightarrow> u64 \<Rightarrow> int kop" where
  "ramfs_sb_inode_write sb i = kret 0"

definition ramfs_sb_inode_delete :: "u64 \<Rightarrow> u64 \<Rightarrow> int kop" where
  "ramfs_sb_inode_delete sb i = kret 0"

definition ramfs_sb_get_root_inode :: "u64 \<Rightarrow> u64 kop" where
  "ramfs_sb_get_root_inode sb = kget (\<lambda>s. sb_root (supers s sb))"

definition ramfs_sb_write :: "u64 \<Rightarrow> int kop" where
  "ramfs_sb_write sb = kret 0"

definition ramfs_sb_put :: "u64 \<Rightarrow> int kop" where
  "ramfs_sb_put sb = kret 0"

definition ramfs_alloc_sb :: "env \<Rightarrow> u64 kop" where
  "ramfs_alloc_sb E = k_kmalloc E sizeof_ramfs_super_block"

definition ramfs_dealloc_sb :: "u64 \<Rightarrow> int kop" where
  "ramfs_dealloc_sb sb = kseq (k_kfree sb) (kret 0)"

definition ramfs_read_sb :: "env \<Rightarrow> u64 \<Rightarrow> u32 \<Rightarrow> int kop" where
  "ramfs_read_sb E sb device =
     kseq (kptr sb)
     (kseq (kmod (upd_super sb (\<lambda>d. d\<lparr>ino_counter := 2\<rparr>)))
     (kbind (kget ramfs_inode_cache) (\<lambda>c.
      kbind (k_cache_alloc E c) (\<lambda>root.
      kseq (kmod (upd_super sb (\<lambda>d. d\<lparr>sb_root := root\<rparr>)))
      (kseq (kptr root)
      (kseq (kmod (\<lambda>s. upd_inode root (\<lambda>d. d\<lparr>ino_id := ino_counter (supers s sb),
               ino_mode := S_IFDIR OR 0x1b6, ino_sb := sb\<rparr>) s))
      (kseq (kmod (upd_super sb (\<lambda>d. d\<lparr>ino_counter := ino_counter d + 1\<rparr>)))
      (kseq (ino_ref root)
      (kbind (ino_cache_insert E sb root) (\<lambda>_.
       kseq (kmod (upd_klinks (INIT_LIST_HEAD (DirEntries root))))
       (kseq (kmod (upd_super sb (\<lambda>d. d\<lparr>sb_ops := RamfsSbOps\<rparr>)))
       (kseq (kmod (upd_inode root (\<lambda>d. d\<lparr>ino_ops := RamfsInoOps\<rparr>)))
       (kseq (add_dir_entry E root [46, 46] root)
       (kseq (add_dir_entry E root [46] root) (kret 0)))))))))))))))"

definition ramfs_filesystem :: file_system where
  "ramfs_filesystem = \<lparr>fs_name = [114, 97, 109, 102, 115], fs_flags = FS_NODEV, fs_ops = RamfsFsOps\<rparr>"

definition ramfs_init :: "env \<Rightarrow> int kop" where
  "ramfs_init E =
     kbind (k_create_cache E sizeof_ramfs_inode ''ramfs-inode-cache'') (\<lambda>c.
     kseq (kmod (\<lambda>s. s\<lparr>ramfs_inode_cache := c\<rparr>))
       (if c = 0 then kret (- 1)
        else kseq (kmod (\<lambda>s. s\<lparr>file_systems := (file_systems s)(ramfs_filesystem_at E := ramfs_filesystem)\<rparr>))
             (kseq (file_system_register (ramfs_filesystem_at E)) (kret 0))))"

definition ramfs_unload :: "int kop" where
  "ramfs_unload = kret 0"

section \<open>Creating and finding files\<close>

lemma klist_find_first:
  "lh_next (klinks s head) = x \<Longrightarrow> x \<noteq> head \<Longrightarrow> P x s \<Longrightarrow> klist_find head P s = Inr (Some x, s)"
  by (simp add: klist_find_def list_for_each.simps find_body_def)

text \<open>What creation leaves behind of the directory: the new entry in front, with its name and inode.\<close>

definition entry_first :: "u64 \<Rightarrow> u8 list \<Rightarrow> u64 \<Rightarrow> kstate \<Rightarrow> bool" where
  "entry_first dir name i s \<longleftrightarrow>
     (\<exists>e. lh_next (klinks s (DirEntries dir)) = DirNode e \<and> dir_entries s e = \<lparr>de_name = name, de_ino = i\<rparr>)"

lemma kpost_dir_find: "(\<And>r. Q r s) \<Longrightarrow> kpost (dir_find d P) s Q"
  by (auto simp: dir_find_def kpost_simps intro: kpost_klist_find)

lemma kpost_ino_cache_insert:
  "(\<And>r e sl. Q r (upd_klinks (list_add (InoNode e) InoList)
      (s\<lparr>ps := (ps s)\<lparr>kslab := sl\<rparr>, ino_entries := (ino_entries s)(e := \<lparr>ie_ino = j, ie_sb = sb\<rparr>)\<rparr>))) \<Longrightarrow>
   kpost (ino_cache_insert E sb j) s Q"
  by (auto simp: ino_cache_insert_def kpost_simps)

lemma create_generic_entry_first:
  "kpost (ramfs_ino_create_generic E dir name mode) s
     (\<lambda>(ret, i) s'. ret = 0 \<and> i \<noteq> dir \<longrightarrow> entry_first dir name i s' \<and> i \<noteq> 0)"
  by (auto simp: ramfs_ino_create_generic_def new_dir_entry_def ino_ref_def kpost_simps errno_defs entry_first_def
      upd_klinks_def upd_inode_def upd_super_def upd_dir_entry_def upd_mapping_def lh_next_list_add lh_next_set_next
      intro!: kpost_dir_find kpost_ino_cache_insert)

text \<open>
  C34: a file that \<open>ramfs_ino_create_generic\<close> has created is what \<open>ramfs_ino_lookup\<close> finds in the
  directory under its name, with one more reference, and under every shorter beginning of the name.
\<close>

theorem ramfs_create_then_lookup:
  assumes "ramfs_ino_create_generic E dir name mode s = Inr ((0, i), s')" and "i \<noteq> dir" and "len \<le> length name"
  shows "\<exists>s''. ramfs_ino_lookup dir name len s' = Inr ((0, Some i), s'') \<and>
    inodes s'' = (inodes s')(i := (inodes s' i)\<lparr>ino_refcnt := ino_refcnt (inodes s' i) + 1\<rparr>)"
proof -
  obtain e where e: "lh_next (klinks s' (DirEntries dir)) = DirNode e" "dir_entries s' e = \<lparr>de_name = name, de_ino = i\<rparr>"
    and i: "i \<noteq> 0"
    using kpostD [OF create_generic_entry_first assms(1)] assms(2) by (auto simp: entry_first_def)
  have "klist_find (DirEntries dir) (entry_begins name len) s' = Inr (Some (DirNode e), s')"
    using e assms(3) by (intro klist_find_first) (simp_all add: entry_begins_def buf_matches_def)
  then show ?thesis using e i by (simp add: ramfs_ino_lookup_def dir_find_def ino_ref_def upd_inode_def)
qed

definition empty_dir :: kstate where
  "empty_dir = roomy_kernel\<lparr>inodes := (inodes blank_kernel)(0x70 := (inodes blank_kernel 0)\<lparr>ino_sb := 0x80\<rparr>)\<rparr>"

lemma empty_dir_fields:
  "kslab (ps empty_dir) = roomy_slab 0" "ino_sb (inodes empty_dir 0x70) = 0x80" "ramfs_inode_cache empty_dir = 0x500"
  "ino_cache_mem_cache empty_dir = 0x500" "klinks empty_dir = klinks blank_kernel"
  by (simp_all add: empty_dir_def roomy_kernel_def)

lemma create_in_empty_dir:
  assumes "length name < 256"
  shows "\<exists>s'. ramfs_ino_create_generic E 0x70 name mode empty_dir = Inr ((0, room 0), s')"
proof -
  have "ring (klinks empty_dir) (DirEntries 0x70) []" using blank_kernel_ring by (simp add: empty_dir_fields)
  then have "dir_find 0x70 (entry_named name) empty_dir = Inr (None, empty_dir)"
    by (simp add: dir_find_def klist_find_ring empty_dir_fields) (simp add: blank_kernel_def)
  then show ?thesis
    using assms
    by (simp add: ramfs_ino_create_generic_def empty_dir_fields new_dir_entry_def roomy_allocs upd_dir_entry_def
        upd_inode_def upd_super_def upd_klinks_def ino_ref_def ino_cache_insert_def sizeof_dir_entry_def
        sizeof_page_mapping_def RAMFS_MAX_FILENAME_def)
qed

theorem ramfs_create_then_lookup_witness:
  "\<forall>E. \<exists>s' s''. ramfs_ino_create_generic E 0x70 [98, 105, 110] 0x81a4 empty_dir = Inr ((0, room 0), s') \<and>
    ramfs_ino_lookup 0x70 [98, 105, 110] 3 s' = Inr ((0, Some (room 0)), s'')"
proof
  fix E
  obtain s' where s': "ramfs_ino_create_generic E 0x70 [98, 105, 110] 0x81a4 empty_dir = Inr ((0, room 0), s')"
    using create_in_empty_dir [of "[98, 105, 110]"] by auto
  have "room 0 \<noteq> 0x70" by (simp add: room_def)
  from ramfs_create_then_lookup [OF s' this, of 3] s'
  show "\<exists>s' s''. ramfs_ino_create_generic E 0x70 [98, 105, 110] 0x81a4 empty_dir = Inr ((0, room 0), s') \<and>
    ramfs_ino_lookup 0x70 [98, 105, 110] 3 s' = Inr ((0, Some (room 0)), s'')" by auto
qed

text \<open>
  Creating a name the directory already has is refused and changes nothing; \<open>mkdir\<close> reports
  \<open>EEXIST\<close>, but the creation of a regular file then takes a reference through the null inode.
\<close>

theorem ramfs_create_existing:
  assumes "ring (klinks s) (DirEntries dir) (map DirNode es)" and "e \<in> set es"
    and "de_name (dir_entries s e) = name" and "dir \<noteq> 0"
  shows "ramfs_ino_create_generic E dir name mode s = Inr ((- EEXIST, 0), s) \<and>
    ramfs_ino_mkdir E dir name mode s = Inr (- EEXIST, s) \<and> ramfs_ino_create E dir name mode s = Inl NullDeref"
proof -
  have "lh_next (klinks s (DirEntries dir)) \<noteq> KNull"
    using assms(1,2) by (cases es) (auto simp: ring_def)
  moreover have "find (\<lambda>x. entry_named name x s) (map DirNode es) \<noteq> None"
    using assms(2,3) by (auto simp: find_None_iff entry_named_def)
  ultimately have g: "ramfs_ino_create_generic E dir name m s = Inr ((- EEXIST, 0), s)" for m
    using assms(4) klist_find_ring [OF assms(1)] by (auto simp: ramfs_ino_create_generic_def dir_find_def)
  then show ?thesis
    by (simp add: ramfs_ino_mkdir_def ramfs_ino_create_def ino_ref_def errno_defs)
qed

definition one_entry_dir :: kstate where
  "one_entry_dir = empty_dir\<lparr>klinks := list_add (DirNode 0x90) (DirEntries 0x70) (klinks blank_kernel),
     dir_entries := (\<lambda>_. \<lparr>de_name = [98, 105, 110], de_ino = 0xa0\<rparr>)\<rparr>"

lemma one_entry_ring: "ring (klinks one_entry_dir) (DirEntries 0x70) [DirNode 0x90]"
  using ring_list_add [OF blank_kernel_ring, of "DirNode 0x90" "DirEntries 0x70"] by (simp add: one_entry_dir_def)

theorem ramfs_create_existing_witness:
  "\<forall>E. ramfs_ino_create_generic E 0x70 [98, 105, 110] 0 one_entry_dir = Inr ((- EEXIST, 0), one_entry_dir) \<and>
    ramfs_ino_mkdir E 0x70 [98, 105, 110] 0 one_entry_dir = Inr (- EEXIST, one_entry_dir) \<and>
    ramfs_ino_create E 0x70 [98, 105, 110] 0 one_entry_dir = Inl NullDeref"
  using ramfs_create_existing [of one_entry_dir "0x70" "[0x90]" "0x90" "[98, 105, 110]"] one_entry_ring
  by (simp add: one_entry_dir_def)

end
