(* ===== verification/Vfs.thy ===== *)
theory Vfs
  imports Ramfs
begin

text \<open>
  The virtual file system: path lookup (\<^verbatim>\<open>fs/lookup.c\<close>), the operations of \<^verbatim>\<open>fs/vfs.c\<close> and the
  generic read and write routines of \<^verbatim>\<open>fs/read_write.c\<close>. Paths are the bytes before the
  terminating zero.
\<close>

section \<open>lookup.c\<close>

definition LOOKUP_PARENT :: u32 where "LOOKUP_PARENT = 1"

abbreviation slash :: u8 where "slash \<equiv> 47"

definition get_next_component :: "u8 list \<Rightarrow> nat" where
  "get_next_component path = length (takeWhile (\<lambda>c. c \<noteq> slash) path)"

text \<open>The \<open>lookup\<close> operation of a directory.\<close>

definition ops_lookup :: "u64 \<Rightarrow> u8 list \<Rightarrow> nat \<Rightarrow> (int \<times> u64 option) kop" where
  "ops_lookup dir str len =
     kseq (kptr dir) (kbind (kget (\<lambda>s. ino_ops (inodes s dir))) (\<lambda>ops.
       case ops of NoIops \<Rightarrow> kfail NullDeref | RamfsInoOps \<Rightarrow> ramfs_ino_lookup dir str len))"

text \<open>
  The search of one component: the inode found and 0, or the error of the directory. A component
  found in the directory is added to the name cache.
\<close>

definition find_component :: "env \<Rightarrow> u64 \<Rightarrow> u8 list \<Rightarrow> nat \<Rightarrow> (int \<times> u64) kop" where
  "find_component E current str len =
     kbind (fs_name_cache_fast_lookup current str len) (\<lambda>ino.
       if ino \<noteq> 0 then kret (0, ino)
       else
         kbind (ops_lookup current str len) (\<lambda>(ret, r).
           if ret \<noteq> 0 then kret (ret, 0)
           else case r of
                  None \<Rightarrow> kfail NullDeref
                | Some i \<Rightarrow> kbind (fs_name_cache_add_inode E current str len i) (\<lambda>_. kret (0, i))))"

definition deref_if :: "u64 \<Rightarrow> unit kop" where
  "deref_if i = kwhen (i \<noteq> 0) (ino_deref i)"

lemma lookup_shorter:
  "get_next_component (dropWhile (\<lambda>c. c = slash) p) \<noteq> 0 \<Longrightarrow>
   length (drop (get_next_component (dropWhile (\<lambda>c. c = slash) p)) (dropWhile (\<lambda>c. c = slash) p)) < length p"
  using length_dropWhile_le [of "\<lambda>c. c = slash" p]
  by (cases "dropWhile (\<lambda>c. c = slash) p") (auto simp: get_next_component_def split: if_splits)

text \<open>
  The loop: \<open>nd.remaining_path\<close>, \<open>nd.parent\<close>, \<open>nd.current\<close> and \<open>last_code\<close>. The second component
  of the result is what was stored in \<open>*res\<close>, \<open>None\<close> when nothing was.
\<close>

function lookup_loop ::
    "env \<Rightarrow> u32 \<Rightarrow> u8 list \<Rightarrow> u64 \<Rightarrow> u64 \<Rightarrow> int \<Rightarrow> (int \<times> u64 option) kop" where
  "lookup_loop E flags rem_path parent current last_code =
     (let path = dropWhile (\<lambda>c. c = slash) rem_path; len = get_next_component path in
      if len = 0 then
        (if flags AND LOOKUP_PARENT \<noteq> 0 then kseq (deref_if current) (kret (0, Some parent))
         else kseq (deref_if parent) (kret (last_code, Some current)))
      else if last_code \<noteq> 0 then
        kseq (deref_if parent) (kseq (deref_if current) (kret (last_code, None)))
      else
        kbind (find_component E current path len) (\<lambda>(ret, ino).
          kseq (ino_deref parent)
            (if ret \<noteq> 0 then lookup_loop E flags (drop len path) current 0 ret
             else lookup_loop E flags (drop len path) current ino 0)))"
  by pat_completeness auto
termination
  by (relation "measure (\<lambda>(E, flags, p, parent, current, c). length p)") (simp_all add: lookup_shorter del: length_drop)

declare lookup_loop.simps [simp del]

definition vfs_lookup :: "env \<Rightarrow> u8 list \<Rightarrow> u32 \<Rightarrow> (int \<times> u64 option) kop" where
  "vfs_lookup E path flags =
     (case path of
        c # rest \<Rightarrow>
          if c = slash then
            kbind (kget mnt_root) (\<lambda>m.
            kseq (kptr m)
            (kbind (kget (\<lambda>s. mnt_root_ino (mounts s m))) (\<lambda>root.
             kseq (ino_ref root) (kseq (ino_ref root)
               (lookup_loop E flags rest root root 0)))))
          else kseq (ino_ref 0) (lookup_loop E flags path 0 0 0)
      | [] \<Rightarrow> kseq (ino_ref 0) (lookup_loop E flags path 0 0 0))"

section \<open>read_write.c\<close>

text \<open>
  One round of the loop of \<open>generic_file_write\<close>; \<open>*pos\<close>, \<open>src\<close> and \<open>total\<close> are threaded, and \<open>idx\<close>,
  which the source advances together with \<open>*pos\<close>, separately as in the source.
\<close>

definition write_chunk :: "env \<Rightarrow> u64 \<Rightarrow> u64 \<Rightarrow> u64 \<Rightarrow> u64 \<Rightarrow> u64 \<Rightarrow> unit kop" where
  "write_chunk E f ino src pos to_write =
     kseq (kptr ino)
     (kbind (kget (\<lambda>s. f_map (inodes s ino))) (\<lambda>m.
      kseq (kptr m)
      (kbind (kget (\<lambda>s. map_ops (mappings s m))) (\<lambda>ops.
       if ops = NoMapOps then kfail NullDeref
       else
         kbind (ramfs_mapping_write_begin E f m pos to_write) (\<lambda>dst_page.
         kbind (kget (\<lambda>s. get_page_vaddr E dst_page (kpa s))) (\<lambda>page_vaddr.
         kseq (kmod (set_kram (memcpy (page_vaddr + pos mod PAGE_SIZE) src to_write)))
         (kseq (on_page dst_page (page_mk_dirty dst_page))
         (kbind (ramfs_mapping_write_end f m pos to_write to_write dst_page) (\<lambda>_. kret ())))))))))"

definition write_size :: "u64 \<Rightarrow> u64 \<Rightarrow> u64" where
  "write_size remaining pos = (if remaining \<ge> PAGE_SIZE then PAGE_SIZE - pos mod PAGE_SIZE else remaining)"

partial_function (option) write_loop ::
    "env \<Rightarrow> u64 \<Rightarrow> u64 \<Rightarrow> u64 \<Rightarrow> u64 \<Rightarrow> u64 \<Rightarrow> u64 \<Rightarrow> u64 \<Rightarrow> u64 \<Rightarrow> kstate \<Rightarrow> ((u64 \<times> u64) \<times> kstate) res option" where
  "write_loop E f ino count start idx src pos tot s =
     (if idx < start + count then
        (let to_write = write_size (count - tot) pos in
         case write_chunk E f ino src pos to_write s of
           Inl e \<Rightarrow> Some (Inl e)
         | Inr (_, s') \<Rightarrow>
             write_loop E f ino count start (idx + to_write) (src + to_write) (pos + to_write) (tot + to_write) s')
      else Some (Inr ((tot, pos), s)))"

text \<open>The result is the number of bytes written and the new \<open>*pos\<close>; \<open>None\<close> is a loop that never ends.\<close>

definition generic_file_write ::
    "env \<Rightarrow> u64 \<Rightarrow> u64 \<Rightarrow> u64 \<Rightarrow> u64 \<Rightarrow> kstate \<Rightarrow> ((u64 \<times> u64) \<times> kstate) res option" where
  "generic_file_write E f src count pos s =
     write_loop E f (f_inode (files s f)) count pos pos src pos 0 s"

definition read_size :: "u64 \<Rightarrow> u64 \<Rightarrow> u64 \<Rightarrow> u64 \<Rightarrow> u64" where
  "read_size remaining idx pos fsize =
     (let n = (if sint remaining \<ge> 4096 then PAGE_SIZE - idx mod PAGE_SIZE else remaining)
      in if pos + n > fsize then fsize - pos else n)"

text \<open>
  One round of the loop of \<open>generic_file_read\<close>. The indices are signed in the source: a position
  beyond the signed range gives an index outside the array.
\<close>

definition read_chunk :: "env \<Rightarrow> u64 \<Rightarrow> u64 \<Rightarrow> u64 \<Rightarrow> u64 \<Rightarrow> u64 \<Rightarrow> u64 \<Rightarrow> u64 kop" where
  "read_chunk E f ino dst idx pos remaining =
     (if sint idx < 0 then kfail OutOfBounds
      else
        kbind (kget (\<lambda>s. f_map (inodes s ino))) (\<lambda>m.
        let i = unat (idx div PAGE_SIZE) in
        kbind (get_map_page m i) (\<lambda>p.
        kseq (kwhen (p = 0)
                (kbind (k_alloc_pages E 0) (\<lambda>new_page.
                 kseq (kmod (upd_pa (set_page_cache_owner E new_page m)))
                 (kseq (on_page new_page (page_set_usage new_page PAGE_USAGE_CACHE))
                 (kseq (on_page new_page (page_ref new_page))
                 (kseq (set_map_page m i new_page)
                   (kbind (ramfs_mapping_readpage f m new_page (of_nat i * PAGE_SIZE)) (\<lambda>_. kret ()))))))))
        (kbind (get_map_page m i) (\<lambda>q.
         kbind (kget (\<lambda>s. (read_size remaining idx pos (ino_size (inodes s ino)), get_page_vaddr E q (kpa s)))) (\<lambda>(n, v).
           kseq (kmod (set_kram (memcpy dst (v + idx mod PAGE_SIZE) n))) (kret n))))))) "

partial_function (option) read_loop ::
    "env \<Rightarrow> u64 \<Rightarrow> u64 \<Rightarrow> u64 \<Rightarrow> u64 \<Rightarrow> u64 \<Rightarrow> u64 \<Rightarrow> u64 \<Rightarrow> u64 \<Rightarrow> kstate \<Rightarrow> ((u64 \<times> u64) \<times> kstate) res option" where
  "read_loop E f ino count start idx dst pos tot s =
     (if idx < count + start then
        (case read_chunk E f ino dst idx pos (count - tot) s of
           Inl e \<Rightarrow> Some (Inl e)
         | Inr (n, s') \<Rightarrow> read_loop E f ino count start (idx + n) (dst + n) (pos + n) (tot + n) s')
      else Some (Inr ((tot, pos), s)))"

definition generic_file_read ::
    "env \<Rightarrow> u64 \<Rightarrow> u64 \<Rightarrow> u64 \<Rightarrow> u64 \<Rightarrow> kstate \<Rightarrow> ((u64 \<times> u64) \<times> kstate) res option" where
  "generic_file_read E f dst count pos s =
     (let ino = f_inode (files s f) in
      if ino = 0 then Some (Inl NullDeref)
      else if pos \<ge> ino_size (inodes s ino) then Some (Inr ((0, pos), s))
      else read_loop E f ino count pos pos dst pos 0 s)"

section \<open>vfs.c\<close>

definition O_RDONLY :: u32 where "O_RDONLY = 0x0"
definition O_CREAT :: u32 where "O_CREAT = 0x100"
definition SEEK_SET :: u32 where "SEEK_SET = 0"
definition SEEK_CUR :: u32 where "SEEK_CUR = 1"
definition SEEK_END :: u32 where "SEEK_END = 2"
definition sizeof_file :: u32 where "sizeof_file = 48"
definition sizeof_vfs_mount :: u64 where "sizeof_vfs_mount = 40"

fun get_last_slash_from :: "u8 list \<Rightarrow> int \<Rightarrow> int \<Rightarrow> int" where
  "get_last_slash_from [] i slash_at = slash_at"
| "get_last_slash_from (c # cs) i slash_at =
     get_last_slash_from cs (i + 1) (if c = slash \<and> cs \<noteq> [] then i else slash_at)"

definition get_last_slash :: "u8 list \<Rightarrow> int" where
  "get_last_slash path = get_last_slash_from path 0 (- 1)"

text \<open>\<open>strrchr(path, '/')\<close> advanced by one, \<open>None\<close> when there is no slash.\<close>

definition last_name :: "u8 list \<Rightarrow> u8 list option" where
  "last_name path = (if slash \<in> set path then Some (rev (takeWhile (\<lambda>c. c \<noteq> slash) (rev path))) else None)"

definition vfs_init :: "env \<Rightarrow> unit kop" where
  "vfs_init E =
     kbind (k_create_cache E sizeof_file ''vfs-file-struct'') (\<lambda>c.
     kseq (kmod (\<lambda>s. s\<lparr>file_mem_cache := c\<rparr>))
     (kseq (ino_cache_init E) (fs_name_cache_init E)))"

definition alloc_sb :: "env \<Rightarrow> u64 \<Rightarrow> u64 kop" where
  "alloc_sb E fs =
     kbind (kget (\<lambda>s. fs_ops (file_systems s fs))) (\<lambda>ops.
       case ops of NoFsOps \<Rightarrow> kfail NullDeref | RamfsFsOps \<Rightarrow> ramfs_alloc_sb E)"

definition read_sb :: "env \<Rightarrow> u64 \<Rightarrow> u64 \<Rightarrow> u32 \<Rightarrow> int kop" where
  "read_sb E fs sb device =
     kbind (kget (\<lambda>s. fs_ops (file_systems s fs))) (\<lambda>ops.
       case ops of NoFsOps \<Rightarrow> kfail NullDeref | RamfsFsOps \<Rightarrow> ramfs_read_sb E sb device)"

definition get_root_inode :: "u64 \<Rightarrow> u64 kop" where
  "get_root_inode sb =
     kbind (kget (\<lambda>s. sb_ops (supers s sb))) (\<lambda>ops.
       case ops of NoSbOps \<Rightarrow> kfail NullDeref | RamfsSbOps \<Rightarrow> ramfs_sb_get_root_inode sb)"

definition vfs_root :: "env \<Rightarrow> u8 list \<Rightarrow> u32 \<Rightarrow> u32 \<Rightarrow> int kop" where
  "vfs_root E fs_type device flags =
     kbind (kget mnt_root) (\<lambda>m0.
       if m0 \<noteq> 0 then kret (- EINVAL)
       else
         kbind (k_kmalloc E sizeof_vfs_mount) (\<lambda>m.
         kseq (kmod (\<lambda>s. s\<lparr>mnt_root := m\<rparr>))
         (kbind (file_system_lookup fs_type) (\<lambda>fs.
            if fs = 0 then kret (- EINVAL)
            else
              kbind (alloc_sb E fs) (\<lambda>sb.
              kbind (read_sb E fs sb device) (\<lambda>_.
              kbind (get_root_inode sb) (\<lambda>root.
                if root = 0 then kret (- EINVAL)
                else
                  kseq (kptr m)
                  (kseq (kmod (upd_klinks (INIT_LIST_HEAD (MountNode m))))
                  (kseq (kmod (\<lambda>s. s\<lparr>mounts := (mounts s)(m := \<lparr>mnt_ino = root, mnt_root_ino = root, mnt_sb = sb\<rparr>)\<rparr>))
                  (kseq (ino_ref root) (kret 0))))))))))) "

definition vfs_mount_fs :: "env \<Rightarrow> u8 list \<Rightarrow> u8 list \<Rightarrow> u32 \<Rightarrow> u32 \<Rightarrow> int kop" where
  "vfs_mount_fs E mount_point fs_type device flags =
     kbind (file_system_lookup fs_type) (\<lambda>fs.
       if fs = 0 then kret (- ENOENT)
       else
         kbind (alloc_sb E fs) (\<lambda>sb.
         kbind (read_sb E fs sb device) (\<lambda>_.
         kbind (k_kmalloc E sizeof_vfs_mount) (\<lambda>new_mnt.
         kbind (file_system_lookup fs_type) (\<lambda>_. kret 0)))))"

definition vfs_mount_nodev :: "u8 list \<Rightarrow> u8 list \<Rightarrow> u32 \<Rightarrow> int kop" where
  "vfs_mount_nodev mount_point fs_type flags = kret 0"

text \<open>The operations of a directory inode.\<close>

definition ops_create :: "env \<Rightarrow> u64 \<Rightarrow> u8 list option \<Rightarrow> u32 \<Rightarrow> (int \<times> u64) kop" where
  "ops_create E parent name mode =
     kseq (kptr parent) (kbind (kget (\<lambda>s. ino_ops (inodes s parent))) (\<lambda>ops.
       case (ops, name) of
         (RamfsInoOps, Some n) \<Rightarrow> ramfs_ino_create E parent n mode
       | _ \<Rightarrow> kfail NullDeref))"

definition ops_mkdir :: "env \<Rightarrow> u64 \<Rightarrow> u8 list option \<Rightarrow> u32 \<Rightarrow> int kop" where
  "ops_mkdir E parent name mode =
     kseq (kptr parent) (kbind (kget (\<lambda>s. ino_ops (inodes s parent))) (\<lambda>ops.
       case (ops, name) of
         (RamfsInoOps, Some n) \<Rightarrow> ramfs_ino_mkdir E parent n mode
       | _ \<Rightarrow> kfail NullDeref))"

definition ops_mknod :: "env \<Rightarrow> u64 \<Rightarrow> u8 list option \<Rightarrow> u32 \<Rightarrow> u32 \<Rightarrow> int kop" where
  "ops_mknod E parent name mode device =
     kseq (kptr parent) (kbind (kget (\<lambda>s. ino_ops (inodes s parent))) (\<lambda>ops.
       case (ops, name) of
         (RamfsInoOps, Some n) \<Rightarrow> ramfs_ino_mknod E parent n mode device
       | _ \<Rightarrow> kfail NullDeref))"

text \<open>
  The character drivers of the tree, by number; \<open>fops\<close> of the console driver of
  \<^verbatim>\<open>drivers/console/console.c\<close>.
\<close>

definition dev_console_device_driver :: nat where "dev_console_device_driver = 0"
definition CONSOLE_DEV_MAJ :: u32 where "CONSOLE_DEV_MAJ = 5"

definition driver_fops :: "nat \<Rightarrow> fops" where
  "driver_fops d = (if d = dev_console_device_driver then DriverFops d else NoFops)"

text \<open>
  The file operations for an inode: \<open>None\<close> where \<open>vfs_open\<close> gives up.
\<close>

definition open_fops :: "env \<Rightarrow> u64 \<Rightarrow> fops option kop" where
  "open_fops E ino =
     kbind (kget (\<lambda>s. inodes s ino)) (\<lambda>i.
       if INO_TYPE i = S_IFCHR then
         kbind (get_driver E (GET_MAJOR E (ino_dev i))) (\<lambda>d.
           case d of
             None \<Rightarrow> kret None
           | Some n \<Rightarrow>
               kseq (kmod (\<lambda>s. s\<lparr>cdrv_private := (cdrv_private s)(n := cdrv_ref E (cdrv_private s n))\<rparr>))
                 (kret (Some (driver_fops n))))
       else if INO_TYPE i = S_IFBLK then kret None
       else if INO_TYPE i = S_IFREG \<or> INO_TYPE i = S_IFDIR then kret (Some (default_fops i))
       else kret (Some NoFops))"

text \<open>None of the operation tables of the tree has an \<open>open\<close>, \<open>release\<close> or \<open>lseek\<close> entry.\<close>

definition open_inode :: "env \<Rightarrow> u64 \<Rightarrow> u32 \<Rightarrow> u64 kop" where
  "open_inode E ino oflags =
     kseq (kptr ino)
     (kbind (open_fops E ino) (\<lambda>fo.
        case fo of
          None \<Rightarrow> kret 0
        | Some ops \<Rightarrow>
            kbind (kget file_mem_cache) (\<lambda>c.
            kbind (k_cache_alloc E c) (\<lambda>f.
            kseq (kptr f)
            (kseq (kmod (upd_file f (\<lambda>d. d\<lparr>f_inode := ino\<rparr>)))
            (kseq (ino_ref ino)
            (kseq (kmod (upd_file f (\<lambda>d. d\<lparr>f_flags := oflags, f_offset := 0, f_ops := ops\<rparr>)))
            (kseq (if ops = NoFops then kfail NullDeref else kret ())
            (kseq (file_ref f) (kret f))))))))))"

definition vfs_open :: "env \<Rightarrow> u8 list \<Rightarrow> u32 \<Rightarrow> u32 \<Rightarrow> u64 kop" where
  "vfs_open E path oflags mode =
     kbind (vfs_lookup E path 0) (\<lambda>(ret, r).
       let ino = (case r of None \<Rightarrow> 0 | Some i \<Rightarrow> i) in
       if ret \<noteq> 0 \<and> ino = 0 then
         (if oflags AND O_CREAT \<noteq> 0 \<and> \<not> oflags AND O_RDONLY \<noteq> 0 then
            kbind (vfs_lookup E path LOOKUP_PARENT) (\<lambda>(_, p).
            kbind (ops_create E (case p of None \<Rightarrow> 0 | Some i \<Rightarrow> i) (last_name path) mode) (\<lambda>(_, new_ino).
              open_inode E new_ino oflags))
          else kret 0)
       else open_inode E ino oflags)"

definition vfs_close :: "u64 \<Rightarrow> int kop" where
  "vfs_close f =
     kseq (file_unref f)
     (kbind (kget (\<lambda>s. files s f)) (\<lambda>d.
      kseq (kwhen (f_refcnt d = 0)
              (if f_ops d = NoFops then kfail NullDeref
               else kseq (ino_deref (f_inode d)) (kbind (kget file_mem_cache) (\<lambda>c. k_cache_free c f))))
        (kret 0)))"

definition vfs_mkdir :: "env \<Rightarrow> u8 list \<Rightarrow> u32 \<Rightarrow> int kop" where
  "vfs_mkdir E path mode =
     kbind (vfs_lookup E path LOOKUP_PARENT) (\<lambda>(ret, r).
       if ret \<noteq> 0 then kret ret
       else
         let parent_ino = (case r of None \<Rightarrow> 0 | Some i \<Rightarrow> i) in
         kbind (ops_mkdir E parent_ino (last_name path) mode) (\<lambda>ret'.
           kseq (ino_deref parent_ino) (kret ret')))"

definition vfs_mknod :: "env \<Rightarrow> u8 list \<Rightarrow> u32 \<Rightarrow> u32 \<Rightarrow> int kop" where
  "vfs_mknod E path mode device =
     kbind (vfs_lookup E path LOOKUP_PARENT) (\<lambda>(ret, r).
       if ret \<noteq> 0 then kret ret
       else
         let parent_ino = (case r of None \<Rightarrow> 0 | Some i \<Rightarrow> i) in
         kbind (ops_mknod E parent_ino (last_name path) mode device) (\<lambda>ret'.
           kseq (ino_deref parent_ino) (kret ret')))"

definition vfs_lseek :: "u64 \<Rightarrow> u64 \<Rightarrow> u32 \<Rightarrow> int kop" where
  "vfs_lseek f offset whence =
     kseq (kptr f)
       (if whence = SEEK_SET then kseq (kmod (upd_file f (\<lambda>d. d\<lparr>f_offset := offset\<rparr>))) (kret 0)
        else if whence = SEEK_CUR then kseq (kmod (upd_file f (\<lambda>d. d\<lparr>f_offset := f_offset d + offset\<rparr>))) (kret 0)
        else if whence = SEEK_END then
          kbind (kget (\<lambda>s. f_inode (files s f))) (\<lambda>i.
          kseq (kptr i)
          (kseq (kmod (\<lambda>s. upd_file f (\<lambda>d. d\<lparr>f_offset := ino_size (inodes s i) + offset\<rparr>) s)) (kret 0)))
        else kret (- EINVAL))"

section \<open>Reading past the end\<close>

text \<open>
  A file whose pages up to index \<open>n\<close> are in its mapping, at fixed addresses.
\<close>

definition paged :: "env \<Rightarrow> u64 \<Rightarrow> nat \<Rightarrow> kstate \<Rightarrow> bool" where
  "paged E ino n s \<longleftrightarrow> ino \<noteq> 0 \<and> f_map (inodes s ino) \<noteq> 0 \<and>
     map_ops (mappings s (f_map (inodes s ino))) = RamfsMapOps \<and>
     n < map_len (mappings s (f_map (inodes s ino))) \<and> n < unat (nr_pages (mappings s (f_map (inodes s ino)))) \<and>
     (\<forall>i\<le>n. map_pages (mappings s (f_map (inodes s ino))) i \<noteq> 0)"

lemma set_kram_fields [simp]:
  "inodes (set_kram f s) = inodes s" "mappings (set_kram f s) = mappings s" "files (set_kram f s) = files s"
  "klinks (set_kram f s) = klinks s" "dir_entries (set_kram f s) = dir_entries s"
  "kram (set_kram f s) = f (kram s)"
  by (simp_all add: set_kram_def upd_pa_def kram_def kpa_def)

lemma paged_set_kram [simp]: "paged E ino n (set_kram f s) = paged E ino n s"
  by (simp add: paged_def)

lemma get_map_page_paged:
  "paged E ino n s \<Longrightarrow> i \<le> n \<Longrightarrow>
   get_map_page (f_map (inodes s ino)) i s = Inr (map_pages (mappings s (f_map (inodes s ino))) i, s)"
  by (auto simp: get_map_page_def paged_def)

abbreviation page_at :: "env \<Rightarrow> u64 \<Rightarrow> nat \<Rightarrow> kstate \<Rightarrow> u64" where
  "page_at E ino i s \<equiv> map_pages (mappings s (f_map (inodes s ino))) i"

lemma read_chunk_paged:
  assumes "paged E ino n s" and "unat (idx div PAGE_SIZE) \<le> n" and "0 \<le> sint idx"
  shows "read_chunk E f ino dst idx pos rem s =
    Inr (read_size rem idx pos (ino_size (inodes s ino)),
      set_kram (memcpy dst (get_page_vaddr E (page_at E ino (unat (idx div PAGE_SIZE)) s) (kpa s) + idx mod PAGE_SIZE)
        (read_size rem idx pos (ino_size (inodes s ino)))) s)"
proof -
  have "page_at E ino (unat (idx div PAGE_SIZE)) s \<noteq> 0" using assms(1,2) by (auto simp: paged_def)
  then show ?thesis
    using assms(3) get_map_page_paged [OF assms(1,2)] by (simp add: read_chunk_def Let_def)
qed


lemma sint_uint_small: "(x :: u64) < 2 ^ 63 \<Longrightarrow> sint x = uint x"
proof -
  assume "x < 2 ^ 63"
  then have "uint x < 2 ^ 63" by (simp add: word_less_def)
  moreover have "- (2 ^ 63) \<le> uint x" by (rule order_trans [OF _ uint_ge_0]) simp
  ultimately show ?thesis using signed_take_bit_int_eq_self [of 63 "uint x"] by (simp add: sint_uint)
qed

lemma sint_small: "(x :: u64) \<le> y \<Longrightarrow> y < 2 ^ 63 \<Longrightarrow> 0 \<le> sint x"
  by (subst sint_uint_small) auto






definition small_file :: kstate where
  "small_file = blank_kernel\<lparr>
     files := (\<lambda>_. \<lparr>f_inode = 0x20, f_ops = RamfsFileOps, f_flags = 0, f_offset = 0, f_refcnt = 1\<rparr>),
     inodes := (\<lambda>_. (inodes blank_kernel 0)\<lparr>ino_size := 5, f_map := 0x30\<rparr>),
     mappings := (\<lambda>_. \<lparr>map_owner = 0x20, map_pages = (\<lambda>_. 0x1000), map_len = 2, nr_pages = 2,
       map_ops = RamfsMapOps\<rparr>)\<rparr>"


section \<open>Writing\<close>

lemma write_size_bounds:
  assumes "remaining \<noteq> 0"
  shows "0 < unat (write_size remaining pos)" and "unat (write_size remaining pos) \<le> unat remaining"
proof -
  have m: "unat (pos mod PAGE_SIZE) < 4096" by (simp add: unat_mod PAGE_SIZE_def)
  then have "pos mod PAGE_SIZE \<le> PAGE_SIZE" by (simp add: word_le_nat_alt PAGE_SIZE_def)
  then have d: "unat (PAGE_SIZE - pos mod PAGE_SIZE) = 4096 - unat (pos mod PAGE_SIZE)"
    by (simp add: unat_sub PAGE_SIZE_def)
  show "0 < unat (write_size remaining pos)" using m d assms by (auto simp: write_size_def unat_gt_0)
  show "unat (write_size remaining pos) \<le> unat remaining"
    using d by (auto simp: write_size_def word_le_nat_alt PAGE_SIZE_def)
qed

lemma write_loop_returns:
  assumes "unat start + unat count < 2 ^ 64" and "unat tot \<le> unat count" and "idx = start + tot"
  shows "write_loop E f ino count start idx src pos tot s \<noteq> None"
  using assms
proof (induction "unat count - unat tot" arbitrary: idx src pos tot s rule: less_induct)
  case less
  have i: "unat idx = unat start + unat tot" "unat (start + count) = unat start + unat count"
    using less.prems by (auto simp: unat_add_no_overflow)
  show ?case
  proof (cases "idx < start + count")
    case True
    then have lt: "unat tot < unat count" using i by (simp add: word_less_nat_alt)
    then have "tot \<le> count" by (simp add: word_le_nat_alt)
    then have r: "unat (count - tot) = unat count - unat tot" by (simp add: unat_sub)
    then have "count - tot \<noteq> 0" using lt by auto
    note w = write_size_bounds [OF this, of pos]
    have t: "unat (tot + write_size (count - tot) pos) = unat tot + unat (write_size (count - tot) pos)"
      using w(2) r lt less.prems(1) by (intro unat_add_no_overflow) simp
    have "write_loop E f ino count start (idx + write_size (count - tot) pos) (src + write_size (count - tot) pos)
        (pos + write_size (count - tot) pos) (tot + write_size (count - tot) pos) s' \<noteq> None" for s'
      using less.hyps [of "tot + write_size (count - tot) pos"] t w r lt less.prems by (simp add: add.assoc)
    then show ?thesis by (subst write_loop.simps) (auto simp: Let_def split: sum.split)
  next
    case False
    then show ?thesis by (subst write_loop.simps) simp
  qed
qed

text \<open>
  C33: the loop of \<open>generic_file_write\<close> always ends: every round writes at least one byte and none
  writes more than is left, whatever the offset in the page.
\<close>

theorem generic_file_write_returns:
  assumes "unat pos + unat count < 2 ^ 64"
  shows "generic_file_write E f src count pos s \<noteq> None"
  unfolding generic_file_write_def by (rule write_loop_returns) (use assms in simp_all)

theorem generic_file_write_returns_witness:
  "\<forall>E f src s. generic_file_write E f src 10000 5 s \<noteq> None"
  using generic_file_write_returns [of 5 10000] by simp

lemma write_begin_paged:
  assumes "paged E ino n s" and "unat (pos div PAGE_SIZE) \<le> n" and "m = f_map (inodes s ino)"
  shows "ramfs_mapping_write_begin E f m pos len s = Inr (page_at E ino (unat (pos div PAGE_SIZE)) s, s)"
proof -
  have "\<not> nr_pages (mappings s m) \<le> pos div PAGE_SIZE"
    using assms by (auto simp: paged_def word_le_nat_alt)
  moreover have "page_at E ino (unat (pos div PAGE_SIZE)) s \<noteq> 0" "m \<noteq> 0" using assms by (auto simp: paged_def)
  ultimately show ?thesis
    using get_map_page_paged [OF assms(1,2)] assms(3) by (simp add: ramfs_mapping_write_begin_def Let_def)
qed

lemma upd_pa_fields [simp]:
  "inodes (upd_pa g s) = inodes s" "mappings (upd_pa g s) = mappings s" "files (upd_pa g s) = files s"
  "klinks (upd_pa g s) = klinks s" "dir_entries (upd_pa g s) = dir_entries s" "kpa (upd_pa g s) = g (kpa s)"
  by (simp_all add: upd_pa_def kpa_def)

lemma upd_inode_fields [simp]:
  "inodes (upd_inode i g s) = (inodes s)(i := g (inodes s i))" "mappings (upd_inode i g s) = mappings s"
  "files (upd_inode i g s) = files s" "klinks (upd_inode i g s) = klinks s"
  "dir_entries (upd_inode i g s) = dir_entries s" "kpa (upd_inode i g s) = kpa s" "kram (upd_inode i g s) = kram s"
  by (simp_all add: upd_inode_def kpa_def kram_def)

lemma kram_dirty [simp]: "kram (upd_pa (page_mk_dirty p) s) = kram s"
  by (simp add: kram_def page_mk_dirty_def upd_page_def)

definition grown :: "u64 \<Rightarrow> inode \<Rightarrow> inode" where
  "grown e d = (let n = (if e \<ge> ino_size d then e else ino_size d) in d\<lparr>ino_size := n, ino_blocks := blocks_of n\<rparr>)"

lemma write_chunk_paged:
  assumes "paged E ino n s" and "unat (pos div PAGE_SIZE) \<le> n" and "f_inode (files s f) = ino"
    and "p = page_at E ino (unat (pos div PAGE_SIZE)) s" and "\<And>a. get_page_vaddr E p a = v"
  shows "\<exists>s'. write_chunk E f ino src pos k s = Inr ((), s') \<and>
    kram s' = memcpy (v + pos mod PAGE_SIZE) src k (kram s) \<and> mappings s' = mappings s \<and> files s' = files s \<and>
    inodes s' = (inodes s)(ino := grown (pos + k) (inodes s ino))"
proof -
  have "p \<noteq> 0" "ino \<noteq> 0" "f_map (inodes s ino) \<noteq> 0" "map_ops (mappings s (f_map (inodes s ino))) \<noteq> NoMapOps"
    using assms(1,2,4) by (auto simp: paged_def)
  then show ?thesis
    using write_begin_paged [OF assms(1,2) refl, of f k] assms(3-5)
    by (simp add: write_chunk_def on_page_def ramfs_mapping_write_end_def grown_def Let_def)
qed

lemma one_page_size:
  assumes "unat (pos mod PAGE_SIZE) + unat k \<le> 4096" and "k \<noteq> 0"
  shows "write_size k pos = k" and "0 \<le> sint k" and "sint k \<ge> 4096 \<longleftrightarrow> PAGE_SIZE \<le> k"
proof -
  have k: "unat k \<le> 4096" using assms(1) by simp
  show "write_size k pos = k"
  proof (cases "PAGE_SIZE \<le> k")
    case True
    then have "unat k = 4096" "unat (pos mod PAGE_SIZE) = 0"
      using k assms(1) by (simp_all add: word_le_nat_alt PAGE_SIZE_def)
    then have "k = PAGE_SIZE" "pos mod PAGE_SIZE = 0" by (simp_all add: word_unat_eq_iff PAGE_SIZE_def)
    then show ?thesis by (simp add: write_size_def)
  qed (simp add: write_size_def)
  show "0 \<le> sint k" using k by (intro sint_small [of k 4096]) (simp_all add: word_le_nat_alt)
  have "k < 2 ^ 63" using k by (simp add: word_less_nat_alt)
  then have "sint k = uint k" by (rule sint_uint_small)
  then show "sint k \<ge> 4096 \<longleftrightarrow> PAGE_SIZE \<le> k" by (simp add: word_le_def PAGE_SIZE_def)
qed

lemma one_page_read:
  assumes "unat (pos mod PAGE_SIZE) + unat k \<le> 4096" and "k \<noteq> 0" and "pos + k \<le> sz"
  shows "read_size k pos pos sz = k"
  using one_page_size [OF assms(1,2)] assms(3) by (auto simp: read_size_def write_size_def Let_def split: if_splits)

lemma write_once:
  assumes "unat (pos mod PAGE_SIZE) + unat k \<le> 4096" and "k \<noteq> 0" and "unat pos + unat k < 2 ^ 64"
    and "write_chunk E f (f_inode (files s f)) src pos k s = Inr ((), s')"
  shows "generic_file_write E f src k pos s = Some (Inr ((k, pos + k), s'))"
proof -
  have "pos < pos + k" using assms(2,3) by (simp add: word_less_nat_alt unat_add_no_overflow unat_gt_0)
  then show ?thesis
    unfolding generic_file_write_def
    using assms(4) one_page_size(1) [OF assms(1,2)]
    by (subst write_loop.simps) (simp add: Let_def write_loop.simps)
qed

lemma read_once:
  assumes "unat (pos mod PAGE_SIZE) + unat k \<le> 4096" and "k \<noteq> 0" and "unat pos + unat k < 2 ^ 63"
    and "f_inode (files s f) = ino" and "pos + k \<le> ino_size (inodes s ino)"
    and "paged E ino (unat (pos div PAGE_SIZE)) s"
  shows "generic_file_read E f dst k pos s = Some (Inr ((k, pos + k),
    set_kram (memcpy dst (get_page_vaddr E (page_at E ino (unat (pos div PAGE_SIZE)) s) (kpa s) + pos mod PAGE_SIZE) k) s))"
proof -
  have "unat (pos + k) = unat pos + unat k" using assms(3) by (simp add: unat_add_no_overflow)
  then have lt: "pos < pos + k" "pos \<le> pos + k" "pos < 2 ^ 63"
    using assms(2,3) by (simp_all add: word_less_nat_alt word_le_nat_alt unat_gt_0)
  have i: "ino \<noteq> 0" using assms(6) by (simp add: paged_def)
  have "0 \<le> sint pos" by (rule sint_small [OF order_refl lt(3)])
  note rc = read_chunk_paged [OF assms(6) order_refl this, of f dst pos k, unfolded one_page_read [OF assms(1,2,5)]]
  have "\<not> ino_size (inodes s ino) \<le> pos" using assms(5) lt(1) by simp
  then show ?thesis
    unfolding generic_file_read_def
    using assms(4) i lt(1) rc by (subst read_loop.simps) (simp add: Let_def add.commute read_loop.simps)
qed

text \<open>
  C9: bytes written to a page of a file are read back: a write that stays inside a page that is in
  the mapping stores all its bytes, advances the position and extends the file if needed, and a read
  of as many bytes at the same position delivers them.
\<close>

theorem write_then_read:
  assumes "paged E ino (unat (pos div PAGE_SIZE)) s" and "f_inode (files s f) = ino"
    and "p = page_at E ino (unat (pos div PAGE_SIZE)) s" and "\<forall>a. get_page_vaddr E p a = v"
    and "unat (pos mod PAGE_SIZE) + unat k \<le> 4096" and "k \<noteq> 0" and "unat pos + unat k < 2 ^ 63"
    and "region (v + pos mod PAGE_SIZE) (unat k) \<inter> region src (unat k) = {}"
    and "region dst (unat k) \<inter> region (v + pos mod PAGE_SIZE) (unat k) = {}"
  shows "\<exists>s1 s2. generic_file_write E f src k pos s = Some (Inr ((k, pos + k), s1)) \<and>
    ino_size (inodes s1 ino) = max (ino_size (inodes s ino)) (pos + k) \<and>
    generic_file_read E f dst k pos s1 = Some (Inr ((k, pos + k), s2)) \<and>
    block (kram s2) dst (unat k) = block (kram s) src (unat k)"
proof -
  obtain s1 where w: "write_chunk E f ino src pos k s = Inr ((), s1)"
    and r1: "kram s1 = memcpy (v + pos mod PAGE_SIZE) src k (kram s)"
    and m1: "mappings s1 = mappings s" "files s1 = files s"
    and i1: "inodes s1 = (inodes s)(ino := grown (pos + k) (inodes s ino))"
    using write_chunk_paged [OF assms(1) order_refl assms(2,3), of v src k] assms(4) by blast
  have p1: "paged E ino (unat (pos div PAGE_SIZE)) s1" "page_at E ino (unat (pos div PAGE_SIZE)) s1 = p"
    using assms(1,3) by (simp_all add: paged_def m1 i1 grown_def Let_def)
  have sz: "ino_size (inodes s1 ino) = max (ino_size (inodes s ino)) (pos + k)"
    by (auto simp: i1 grown_def Let_def max_def)
  let ?s2 = "set_kram (memcpy dst (v + pos mod PAGE_SIZE) k) s1"
  have "generic_file_write E f src k pos s = Some (Inr ((k, pos + k), s1))"
    using write_once [OF assms(5,6) _ w [folded assms(2)]] assms(7) by simp
  moreover have "generic_file_read E f dst k pos s1 = Some (Inr ((k, pos + k), ?s2))"
    using read_once [OF assms(5-7) _ _ p1(1), of f dst] assms(2,4) sz m1 p1(2) by simp
  moreover have "block (kram ?s2) dst (unat k) = block (kram s) src (unat k)"
    using memcpy_block [OF assms(9)] memcpy_block [OF assms(8)] r1 by simp
  ultimately show ?thesis using sz by blast
qed

theorem write_then_read_witness:
  "\<forall>E :: env. \<exists>s1 s2. generic_file_write (E\<lparr>get_page_vaddr := (\<lambda>_ _. 0xffff800000200000)\<rparr>) 0x10 0x9000 5 3 small_file
      = Some (Inr ((5, 8), s1)) \<and> ino_size (inodes s1 0x20) = 8 \<and>
    generic_file_read (E\<lparr>get_page_vaddr := (\<lambda>_ _. 0xffff800000200000)\<rparr>) 0x10 0xa000 5 3 s1
      = Some (Inr ((5, 8), s2)) \<and> block (kram s2) 0xa000 5 = block (kram small_file) 0x9000 5"
proof
  fix E :: env
  let ?E = "E\<lparr>get_page_vaddr := (\<lambda>_ _. 0xffff800000200000)\<rparr>"
  have z: "unat (3 div PAGE_SIZE) = 0" "3 mod PAGE_SIZE = 3" by (simp_all add: PAGE_SIZE_def)
  have p: "paged ?E 0x20 (unat (3 div PAGE_SIZE)) small_file" "f_inode (files small_file 0x10) = 0x20"
    "0x1000 = page_at ?E 0x20 (unat (3 div PAGE_SIZE)) small_file"
    by (simp_all add: small_file_def paged_def z)
  have i: "ino_size (inodes small_file 0x20) = 5" by (simp add: small_file_def)
  have r1: "region (0xffff800000200000 + 3 mod PAGE_SIZE) (unat (5 :: u64)) \<inter> region 0x9000 (unat (5 :: u64)) = {}"
    unfolding z by (subst Int_commute, rule regions_apart) simp_all
  have r2: "region 0xa000 (unat (5 :: u64)) \<inter> region (0xffff800000200000 + 3 mod PAGE_SIZE) (unat (5 :: u64)) = {}"
    unfolding z by (rule regions_apart) simp_all
  obtain s1 s2 where "generic_file_write ?E 0x10 0x9000 5 3 small_file = Some (Inr ((5, 3 + 5), s1))"
    "ino_size (inodes s1 0x20) = max (ino_size (inodes small_file 0x20)) (3 + 5)"
    "generic_file_read ?E 0x10 0xa000 5 3 s1 = Some (Inr ((5, 3 + 5), s2))"
    "block (kram s2) 0xa000 (unat (5 :: u64)) = block (kram small_file) 0x9000 (unat (5 :: u64))"
    using write_then_read [OF p _ _ _ _ r1 r2] z by fastforce
  then show "\<exists>s1 s2. generic_file_write ?E 0x10 0x9000 5 3 small_file = Some (Inr ((5, 8), s1)) \<and>
      ino_size (inodes s1 0x20) = 8 \<and> generic_file_read ?E 0x10 0xa000 5 3 s1 = Some (Inr ((5, 8), s2)) \<and>
      block (kram s2) 0xa000 5 = block (kram small_file) 0x9000 5"
    by (intro exI [of _ s1] exI [of _ s2]) (simp add: i max_def)
qed

section \<open>What a path resolves to\<close>

text \<open>
  \<open>dir_has s d c i\<close>: directory \<open>d\<close> has an entry for inode \<open>i\<close> whose name begins with \<open>c\<close>, which is
  all that the comparison of names establishes.
\<close>

definition dir_has :: "kstate \<Rightarrow> u64 \<Rightarrow> u8 list \<Rightarrow> u64 \<Rightarrow> bool" where
  "dir_has s d c i \<longleftrightarrow>
     (\<exists>e rest. linked (klinks s) (DirEntries d) (DirNode e) \<and> dir_entries s e = \<lparr>de_name = c @ rest, de_ino = i\<rparr>)"

inductive resolves :: "kstate \<Rightarrow> u64 \<Rightarrow> u8 list list \<Rightarrow> u64 \<Rightarrow> bool" for s where
  here: "resolves s d [] d"
| into: "dir_has s d c i \<Longrightarrow> resolves s i cs r \<Longrightarrow> resolves s d (c # cs) r"

inductive_simps resolves_Nil: "resolves s d [] r"
inductive_simps resolves_Cons: "resolves s d (c # cs) r"

function components :: "u8 list \<Rightarrow> u8 list list" where
  "components p =
     (let path = dropWhile (\<lambda>c. c = slash) p; len = get_next_component path in
      if len = 0 then [] else take len path # components (drop len path))"
  by pat_completeness auto
termination
  by (relation "measure length") (simp_all add: lookup_shorter del: length_drop)

declare components.simps [simp del]

text \<open>Directories hold only entries, and every cached name is in its directory.\<close>

definition lookup_inv :: "kstate \<Rightarrow> bool" where
  "lookup_inv s \<longleftrightarrow> (\<forall>d x. linked (klinks s) (DirEntries d) x \<longrightarrow> (\<exists>e. x = DirNode e)) \<and>
     (\<forall>e. ne_ino (name_entries s e) \<noteq> 0 \<longrightarrow>
        dir_has s (ne_parent (name_entries s e)) (ne_name (name_entries s e)) (ne_ino (name_entries s e)))"

lemma dir_has_prefix: "dir_has s d (c @ c') i \<Longrightarrow> dir_has s d c i"
  by (auto simp: dir_has_def)

lemma dir_has_ino_ref [simp]: "dir_has (upd_inode i f s) = dir_has s" "lookup_inv (upd_inode i f s) = lookup_inv s"
  by (simp_all add: dir_has_def [abs_def] lookup_inv_def) (simp add: upd_inode_def)

lemma fast_lookup_post:
  assumes "lookup_inv s" and "len \<le> length str" and "0 \<notin> set (take len str)"
  shows "kpost (fs_name_cache_fast_lookup cur str len) s
    (\<lambda>i s'. lookup_inv s' \<and> dir_has s' = dir_has s \<and> (i \<noteq> 0 \<longrightarrow> dir_has s cur (take len str) i))"
proof -
  have "dir_has s cur (take len str) (ne_ino (name_entries s e))"
    if h: "name_hit cur str len (NameNode e) s" "ne_ino (name_entries s e) \<noteq> 0" for e
  proof -
    obtain rest where "ne_parent (name_entries s e) = cur" "ne_name (name_entries s e) = take len str @ rest"
      using h(1) by (auto simp: name_hit_def buf_matches_prefix [OF assms(2,3)])
    then have "dir_has s cur (take len str @ rest) (ne_ino (name_entries s e))"
      using assms(1) h(2) unfolding lookup_inv_def by metis
    then show ?thesis by (rule dir_has_prefix)
  qed
  then show ?thesis
    unfolding fs_name_cache_fast_lookup_def kpost_simps
    by (intro kpost_klist_find) (auto simp: kpost_simps ino_ref_def assms(1) split: knode.split)
qed

lemma ops_lookup_post:
  assumes "len \<le> length str" and "0 \<notin> set (take len str)"
  shows "kpost (ops_lookup cur str len) s
    (\<lambda>(ret, r) s'. lookup_inv s' = lookup_inv s \<and> dir_has s' = dir_has s \<and>
       (\<forall>i. r = Some i \<longrightarrow> dir_has s cur (take len str) i))"
proof -
  have "dir_has s cur (take len str) (de_ino (dir_entries s e))"
    if "linked (klinks s) (DirEntries cur) (DirNode e)" "entry_begins str len (DirNode e) s" for e
    using that by (cases "dir_entries s e") (auto simp: entry_begins_def buf_matches_prefix [OF assms] dir_has_def)
  then show ?thesis
    unfolding ops_lookup_def ramfs_ino_lookup_def dir_find_def
    by (auto simp: kpost_simps ino_ref_def split: iops.split knode.split intro!: kpost_klist_find)
qed

lemma add_inode_post:
  assumes "lookup_inv s" and "dir_has s cur (take len str) i"
  shows "kpost (fs_name_cache_add_inode E cur str len i) s (\<lambda>_ s'. lookup_inv s' \<and> dir_has s' = dir_has s)"
proof -
  have l: "linked (list_add (NameNode e) NameList (klinks s)) (DirEntries d) x = linked (klinks s) (DirEntries d) x" for e d x
  proof (rule linked_cong)
    fix y
    assume "linked (klinks s) (DirEntries d) y"
    then obtain f where "y = DirNode f" using assms(1) by (auto simp: lookup_inv_def)
    then show "lh_next (list_add (NameNode e) NameList (klinks s) y) = lh_next (klinks s y)"
      by (simp add: lh_next_list_add)
  qed (simp add: lh_next_list_add)
  show ?thesis
    using assms
    by (auto simp: fs_name_cache_add_inode_def kpost_simps ino_ref_def upd_inode_def upd_klinks_def lookup_inv_def
        dir_has_def l fun_eq_iff)
qed

lemma find_component_post:
  assumes "lookup_inv s" and "len \<le> length str" and "0 \<notin> set (take len str)"
  shows "kpost (find_component E cur str len) s
    (\<lambda>(ret, i) s'. lookup_inv s' \<and> dir_has s' = dir_has s \<and> (ret = 0 \<longrightarrow> dir_has s cur (take len str) i))"
    (is "kpost _ _ ?Q")
  unfolding find_component_def kpost_kbind
proof (rule kpost_mono [OF fast_lookup_post [OF assms]], elim conjE)
  fix ino s1
  assume s1: "lookup_inv s1" "dir_has s1 = dir_has s" "ino \<noteq> 0 \<longrightarrow> dir_has s cur (take len str) ino"
  let ?add = "\<lambda>(ret, r). if ret \<noteq> 0 then kret (ret, 0)
     else case r of None \<Rightarrow> kfail NullDeref
        | Some i \<Rightarrow> kbind (fs_name_cache_add_inode E cur str len i) (\<lambda>_. kret (0, i))"
  have "kpost (kbind (ops_lookup cur str len) ?add) s1 ?Q"
    unfolding kpost_kbind
  proof (rule kpost_mono [OF ops_lookup_post [OF assms(2,3)]], clarify, goal_cases)
    case (1 ret r s2)
    then have "kpost (fs_name_cache_add_inode E cur str len i) s2 (\<lambda>_ s'. lookup_inv s' \<and> dir_has s' = dir_has s2)"
      if "r = Some i" for i
      using that s1 by (intro add_inode_post) auto
    then show ?case
      using 1 s1 by (auto simp: kpost_simps split: option.split elim!: kpost_mono)
  qed
  then show "kpost (if ino \<noteq> 0 then kret (0, ino) else kbind (ops_lookup cur str len) ?add) s1 ?Q"
    using s1 by (simp add: kpost_simps)
qed

lemma kpost_deref [simp]: "kpost (deref_if i) s (\<lambda>_ s'. kpost (kret x) s' Q) \<longleftrightarrow> kpost (deref_if i) s (\<lambda>_ s'. Q x s')"
  by (simp add: kpost_simps)

lemma resolves_cong: "dir_has s' = dir_has s \<Longrightarrow> resolves s' d cs r = resolves s d cs r"
  by (induction cs arbitrary: d) (simp_all add: resolves_Nil resolves_Cons)

definition walked :: "kstate \<Rightarrow> u64 \<Rightarrow> u8 list \<Rightarrow> int \<Rightarrow> int \<times> u64 option \<Rightarrow> bool" where
  "walked s cur p code res \<longleftrightarrow>
     (code \<noteq> 0 \<longrightarrow> fst res \<noteq> 0) \<and>
     (code = 0 \<and> fst res = 0 \<longrightarrow> (\<exists>q. snd res = Some q \<and> resolves s cur (components p) q))"

lemma no_zero_drop: "0 \<notin> set p \<Longrightarrow> 0 \<notin> set (drop n (dropWhile P p)) \<and> 0 \<notin> set (take n (dropWhile P p))"
  by (meson in_set_dropD in_set_takeD set_dropWhileD)

lemma lookup_loop_sound:
  assumes "lookup_inv s" and "0 \<notin> set p"
  shows "kpost (lookup_loop E 0 p parent cur code) s (\<lambda>res s'. walked s cur p code res)"
  using assms
proof (induction "length p" arbitrary: p parent cur code s rule: less_induct)
  case less
  let ?path = "dropWhile (\<lambda>c. c = slash) p"
  let ?len = "get_next_component ?path"
  have c: "components p = (if ?len = 0 then [] else take ?len ?path # components (drop ?len ?path))"
    by (subst components.simps) (simp add: Let_def)
  show ?case
  proof (cases "?len = 0 \<or> code \<noteq> 0")
    case True
    then show ?thesis
      by (subst lookup_loop.simps)
        (auto simp: Let_def kpost_simps walked_def c resolves_Nil deref_if_def ino_deref_def)
  next
    case False
    have len: "?len \<le> length ?path" by (simp add: get_next_component_def length_takeWhile_le)
    note nz = no_zero_drop [OF less.prems(2), of ?len "\<lambda>c. c = slash"]
    have short: "length (drop ?len ?path) < length p" using False by (intro lookup_shorter) simp
    have rest: "kpost (lookup_loop E 0 (drop ?len ?path) q j r) s2 (\<lambda>res s'. walked s2 j (drop ?len ?path) r res)"
      if "lookup_inv s2" for q j r s2
      using less.hyps [OF short that] nz by blast
    have "kpost (kbind (find_component E cur ?path ?len) (\<lambda>(ret, ino). kseq (ino_deref parent)
        (if ret \<noteq> 0 then lookup_loop E 0 (drop ?len ?path) cur 0 ret
         else lookup_loop E 0 (drop ?len ?path) cur ino 0))) s (\<lambda>res s'. walked s cur p code res)"
      unfolding kpost_kbind
    proof (rule kpost_mono [OF find_component_post [OF less.prems(1) len]], use nz in simp, clarify, goal_cases)
      case (1 ret i s1)
      have s2: "lookup_inv (upd_inode parent f s1)" "dir_has (upd_inode parent f s1) = dir_has s" for f
        using 1 by simp_all
      show ?case
        using False 1(3)
        by (auto simp: ino_deref_def kpost_simps walked_def c resolves_Cons resolves_cong [OF s2(2)]
            intro!: kpost_mono [OF rest [OF s2(1)]]) blast
    qed
    then show ?thesis
      using False by (subst lookup_loop.simps) (simp add: Let_def)
  qed
qed

text \<open>
  C11: a successful \<open>vfs_lookup\<close> of an absolute path follows directory entries from the root: the inode
  it returns is reached by taking, for each component of the path in turn, an entry of the directory
  reached so far whose name begins with the component, whether the name cache or the directory itself
  answered.
\<close>

theorem vfs_lookup_resolves:
  assumes "lookup_inv s" and "0 \<notin> set path" and "vfs_lookup E (slash # path) 0 s = Inr ((0, r), s')"
  shows "\<exists>q. r = Some q \<and> resolves s (mnt_root_ino (mounts s (mnt_root s))) (components path) q"
proof -
  have "kpost (vfs_lookup E (slash # path) 0) s (\<lambda>res s'. walked s (mnt_root_ino (mounts s (mnt_root s))) path 0 res)"
  proof -
    have "kpost (lookup_loop E 0 path root root 0) (upd_inode root f (upd_inode root g s)) (\<lambda>res s'. walked s root path 0 res)"
      for root f g
      using lookup_loop_sound [of "upd_inode root f (upd_inode root g s)" path E root root 0] assms(1,2)
      by (simp add: walked_def resolves_cong [of "upd_inode root f (upd_inode root g s)" s])
    then show ?thesis by (auto simp: vfs_lookup_def kpost_simps ino_ref_def)
  qed
  from kpostD [OF this assms(3)] show ?thesis by (simp add: walked_def)
qed

lemma linked_ring:
  assumes "linked h head x" and "ring h head xs"
  shows "x \<in> set xs"
  using assms(1)
proof induction
  case first
  then show ?case using assms(2) by (cases xs) (auto simp: ring_def)
next
  case (further x)
  then obtain us vs where "xs = us @ x # vs" by (meson split_list)
  then show ?case using assms(2) further.hyps(2) by (cases vs) (auto simp: ring_def)
qed

definition bin_root :: kstate where
  "bin_root = one_entry_dir\<lparr>mnt_root := 0x60, mounts := (\<lambda>_. \<lparr>mnt_ino = 0x70, mnt_root_ino = 0x70, mnt_sb = 0x80\<rparr>),
     inodes := (\<lambda>_. (inodes blank_kernel 0)\<lparr>ino_ops := RamfsInoOps\<rparr>)\<rparr>"

lemma bin_root_rings:
  "ring (klinks bin_root) (DirEntries 0x70) [DirNode 0x90]" "ring (klinks bin_root) NameList []"
  "d \<noteq> 0x70 \<Longrightarrow> ring (klinks bin_root) (DirEntries d) []"
proof -
  have k: "klinks bin_root = klinks one_entry_dir" by (simp add: bin_root_def)
  show "ring (klinks bin_root) (DirEntries 0x70) [DirNode 0x90]" using one_entry_ring by (simp add: k)
  have "ring (klinks one_entry_dir) x []" if "x \<noteq> DirEntries 0x70" "x \<noteq> DirNode 0x90" for x
    using that by (simp add: one_entry_dir_def ring_Nil list_add_def list_add_between_def blank_kernel_def set_next_def set_prev_def)
  then show "ring (klinks bin_root) NameList []" "d \<noteq> 0x70 \<Longrightarrow> ring (klinks bin_root) (DirEntries d) []"
    by (simp_all add: k)
qed

lemma bin_root_inv: "lookup_inv bin_root"
proof -
  have "\<exists>e. x = DirNode e" if "linked (klinks bin_root) (DirEntries d) x" for d x
    using linked_ring [OF that] bin_root_rings by (cases "d = 0x70") fastforce+
  then show ?thesis
    by (simp add: lookup_inv_def) (simp add: bin_root_def one_entry_dir_def empty_dir_def roomy_kernel_def blank_kernel_def)
qed

lemma bin_root_fields:
  "mnt_root bin_root = 0x60" "mounts bin_root = (\<lambda>_. \<lparr>mnt_ino = 0x70, mnt_root_ino = 0x70, mnt_sb = 0x80\<rparr>)"
  "ino_ops (inodes bin_root i) = RamfsInoOps" "dir_entries bin_root = (\<lambda>_. \<lparr>de_name = [98, 105, 110], de_ino = 0xa0\<rparr>)"
  "kslab (ps bin_root) = roomy_slab 0" "name_cache_slab bin_root = 0x500"
  by (simp_all add: bin_root_def one_entry_dir_def empty_dir_def roomy_kernel_def)

lemma lookup_bin: "\<exists>s'. vfs_lookup E [slash, 98, 105, 110] 0 bin_root = Inr ((0, Some 0xa0), s')"
proof -
  let ?s = "upd_inode 0x70 (\<lambda>i. i\<lparr>ino_refcnt := ino_refcnt i + 1\<rparr>)
     (upd_inode 0x70 (\<lambda>i. i\<lparr>ino_refcnt := ino_refcnt i + 1\<rparr>) bin_root)"
  have s: "klinks ?s = klinks bin_root" "dir_entries ?s = dir_entries bin_root" "ino_ops (inodes ?s 0x70) = RamfsInoOps"
    by (simp_all add: bin_root_fields)
  have c: "get_next_component [98, 105, 110] = 3" "get_next_component [] = 0" by (simp_all add: get_next_component_def)
  have k: "lh_next (klinks bin_root (DirEntries 0x70)) \<noteq> KNull" using bin_root_rings(1) by (simp add: ring_def)
  have m: "klist_find (DirEntries 0x70) (entry_begins [98, 105, 110] 3) ?s = Inr (Some (DirNode 0x90), ?s)"
    using bin_root_rings(1) by (simp add: klist_find_ring s entry_begins_def bin_root_fields buf_matches_def)
  have n: "klist_find NameList (name_hit 0x70 [98, 105, 110] 3) ?s = Inr (None, ?s)"
    using bin_root_rings(2) by (simp add: klist_find_ring s)
  have "\<exists>s'. find_component E 0x70 [98, 105, 110] 3 ?s = Inr ((0, 0xa0), s')"
    using m n k
    by (simp add: find_component_def fs_name_cache_fast_lookup_def ops_lookup_def s ramfs_ino_lookup_def dir_find_def
        ino_ref_def bin_root_fields fs_name_cache_add_inode_def upd_inode_def roomy_allocs MAX_NAME_def)
  then show ?thesis
    by (auto simp: vfs_lookup_def bin_root_fields ino_ref_def ino_deref_def c lookup_loop.simps [of E 0] Let_def deref_if_def)
qed

theorem vfs_lookup_resolves_witness: "resolves bin_root 0x70 [[98, 105, 110]] 0xa0"
proof -
  obtain s' where "vfs_lookup undefined [slash, 98, 105, 110] 0 bin_root = Inr ((0, Some 0xa0), s')"
    using lookup_bin by blast
  from vfs_lookup_resolves [OF bin_root_inv _ this] have "resolves bin_root 0x70 (components [98, 105, 110]) 0xa0"
    by (simp add: bin_root_fields)
  moreover have "components [98, 105, 110] = [[98, 105, 110]]"
    by (simp add: components.simps Let_def get_next_component_def)
  ultimately show ?thesis by simp
qed

end
