(* ===== verification/Syscalls.thy ===== *)
theory Syscalls
  imports Vfs
begin

text \<open>
  System calls and what they use: the table of open files (\<^verbatim>\<open>fs/fd_table.c\<close>), copying from user
  space (\<^verbatim>\<open>kernel/user.c\<close>), \<^verbatim>\<open>fs/sys_open.c\<close>, \<^verbatim>\<open>fs/sys_read.c\<close>, \<^verbatim>\<open>fs/sys_write.c\<close>, the dispatch table
  of \<^verbatim>\<open>kernel/syscall.c\<close> and the console device of \<^verbatim>\<open>drivers/console/console.c\<close>.

  Reading a byte of user memory is an operation of the processor, with a page fault on the way if
  need be: it is the parameter \<open>rd\<close>. The buffers on the kernel stack are given by their addresses and
  sizes; a store outside of them is a fault.
\<close>

section \<open>fd_table.c\<close>

text \<open>The first free slot among \<open>i, ..., n - 1\<close>.\<close>

fun free_slot :: "(nat \<Rightarrow> u64) \<Rightarrow> nat \<Rightarrow> nat \<Rightarrow> nat option" where
  "free_slot fd i 0 = None"
| "free_slot fd i (Suc n) = (if fd i = 0 then Some i else free_slot fd (Suc i) n)"

text \<open>The bytes in the size class that serves a request.\<close>

definition class_bytes :: "u64 \<Rightarrow> u64" where
  "class_bytes sz = (case size_class sz malloc_sizes 0 of None \<Rightarrow> 0 | Some i \<Rightarrow> fst (malloc_sizes ! i))"

text \<open>
  The new table is cleared and filled; a store behind the object that \<open>kmalloc\<close> has returned is a
  fault.
\<close>

definition task_fd_table_get_free_fd_slot :: "env \<Rightarrow> u64 \<Rightarrow> nat kop" where
  "task_fd_table_get_free_fd_slot E t =
     kseq (kptr t)
     (kbind (kget (\<lambda>s. tasks s t)) (\<lambda>d.
        case free_slot (t_fd d) 0 (t_table_size d) of
          Some i \<Rightarrow> kret i
        | None \<Rightarrow>
            let n = t_table_size d; request = 8 * of_nat n + 32 in
            kbind (k_kmalloc E request) (\<lambda>new_table.
            kseq (kptr new_table)
            (if 8 * (of_nat n + 32) > class_bytes request then kfail OutOfBounds
             else
               kseq (k_kfree (t_fd_at d))
               (kseq (kmod (upd_task t (\<lambda>d. d\<lparr>t_fd := (\<lambda>i. if i < n then t_fd d i else 0), t_fd_at := new_table,
                                               t_table_size := n + 32\<rparr>)))
                 (kret n))))))"

section \<open>user.c\<close>

text \<open>
  The loops run while \<open>total <= count\<close>. The first argument counts the remaining rounds, so that the
  definition is by structural recursion; \<open>count + 1\<close> rounds are the loop of the source.
\<close>

fun copy_user_loop ::
    "(u64 \<Rightarrow> u8 kop) \<Rightarrow> u64 \<Rightarrow> nat \<Rightarrow> u64 \<Rightarrow> nat \<Rightarrow> u64 \<Rightarrow> nat \<Rightarrow> int kop" where
  "copy_user_loop rd mm 0 dst cap usr i = kret (int i)"
| "copy_user_loop rd mm (Suc n) dst cap usr i =
     kbind (find_vma_for_address (usr + of_nat i) mm) (\<lambda>vma.
       if vma = 0 then kret (- 1)
       else
         kbind (rd (usr + of_nat i)) (\<lambda>b.
         if i \<ge> cap then kfail OutOfBounds
         else kseq (kmod (set_kram (\<lambda>m. m(dst + of_nat i := b)))) (copy_user_loop rd mm n dst cap usr (Suc i))))"

definition current_mm :: "u64 kop" where
  "current_mm = kbind (kget cpu_current) (\<lambda>c. kseq (kptr c) (kget (\<lambda>s. t_mm (tasks s c))))"

definition copy_from_user :: "(u64 \<Rightarrow> u8 kop) \<Rightarrow> u64 \<Rightarrow> nat \<Rightarrow> u64 \<Rightarrow> nat \<Rightarrow> int kop" where
  "copy_from_user rd dst cap usr count =
     kbind current_mm (\<lambda>mm. copy_user_loop rd mm (Suc count) dst cap usr 0)"

fun strncpy_user_loop ::
    "(u64 \<Rightarrow> u8 kop) \<Rightarrow> u64 \<Rightarrow> nat \<Rightarrow> u64 \<Rightarrow> nat \<Rightarrow> u64 \<Rightarrow> nat \<Rightarrow> int kop" where
  "strncpy_user_loop rd mm 0 dst cap usr i = kret (int i)"
| "strncpy_user_loop rd mm (Suc n) dst cap usr i =
     kbind (find_vma_for_address (usr + of_nat i) mm) (\<lambda>vma.
       if vma = 0 then kret (- 1)
       else
         kbind (rd (usr + of_nat i)) (\<lambda>b.
         if i \<ge> cap then kfail OutOfBounds
         else
           kseq (kmod (set_kram (\<lambda>m. m(dst + of_nat i := b))))
             (if b = 0 then kret (int i + 1) else strncpy_user_loop rd mm n dst cap usr (Suc i))))"

definition strncpy_from_user :: "(u64 \<Rightarrow> u8 kop) \<Rightarrow> u64 \<Rightarrow> nat \<Rightarrow> u64 \<Rightarrow> nat \<Rightarrow> int kop" where
  "strncpy_from_user rd dst cap usr n =
     kbind current_mm (\<lambda>mm. strncpy_user_loop rd mm (Suc n) dst cap usr 0)"

section \<open>The console device\<close>

definition console_write :: "u64 \<Rightarrow> u64 \<Rightarrow> u64 kop" where
  "console_write src bytes =
     kseq (kmod (\<lambda>s. s\<lparr>console_out := console_out s @ block (kram s) src (unat bytes)\<rparr>)) (kret bytes)"

section \<open>sys_open, sys_read, sys_write\<close>

text \<open>The string in a buffer, and a fault if its terminating zero is outside.\<close>

definition buffer_string :: "u64 \<Rightarrow> nat \<Rightarrow> u8 list kop" where
  "buffer_string a cap =
     kbind (kget (\<lambda>s. block (kram s) a cap)) (\<lambda>bs.
       if 0 \<in> set bs then kret (takeWhile (\<lambda>b. b \<noteq> 0) bs) else kfail OutOfBounds)"

definition sys_open :: "env \<Rightarrow> (u64 \<Rightarrow> u8 kop) \<Rightarrow> u64 \<Rightarrow> u64 \<Rightarrow> u64 \<Rightarrow> u64 \<Rightarrow> int kop" where
  "sys_open E rd pathk path flags mode =
     kbind (strncpy_from_user rd pathk 256 path 256) (\<lambda>_.
     kbind (buffer_string pathk 256) (\<lambda>p.
     kbind (vfs_open E p (ucast flags) (ucast mode)) (\<lambda>fp.
       if fp = 0 then kret (- 1)
       else
         kbind (kget cpu_current) (\<lambda>c.
         kbind (task_fd_table_get_free_fd_slot E c) (\<lambda>fd.
         kseq (kmod (upd_task c (\<lambda>d. d\<lparr>t_fd := (t_fd d)(fd := fp)\<rparr>)))
           (kret 0))))))"

definition sys_read :: "u64 \<Rightarrow> u64 \<Rightarrow> u64 \<Rightarrow> int kop" where
  "sys_read fd dst count = kret 0"

text \<open>The \<open>write\<close> operation of a file, with its offset; \<open>None\<close> where there is no such operation.\<close>

definition returned_op :: "((u64 \<times> u64) \<times> kstate) res option \<Rightarrow> ((u64 \<times> u64) \<times> kstate) res" where
  "returned_op r = (case r of None \<Rightarrow> Inl Halted | Some x \<Rightarrow> x)"

definition file_write :: "env \<Rightarrow> u64 \<Rightarrow> u64 \<Rightarrow> u64 \<Rightarrow> u64 kop" where
  "file_write E f src n =
     kbind (kget (\<lambda>s. files s f)) (\<lambda>d.
       case f_ops d of
         NoFops \<Rightarrow> kfail NullDeref
       | DriverFops _ \<Rightarrow> console_write src n
       | RamfsFileOps \<Rightarrow>
           kbind (\<lambda>s. returned_op (generic_file_write E f src n (f_offset d) s)) (\<lambda>(tot, pos).
             kseq (kmod (upd_file f (\<lambda>d. d\<lparr>f_offset := pos\<rparr>))) (kret tot)))"

text \<open>
  The loop of \<open>sys_write\<close>; \<open>i\<close> runs over the multiples of 256 below \<open>count\<close>, and \<open>buff\<close> is cleared in
  every round. The overflow of the \<open>int\<close> counter for counts beyond 2 GiB is not modelled.
\<close>

function sys_write_loop ::
    "env \<Rightarrow> (u64 \<Rightarrow> u8 kop) \<Rightarrow> u64 \<Rightarrow> u64 \<Rightarrow> u64 \<Rightarrow> int \<Rightarrow> int \<Rightarrow> u64 \<Rightarrow> u64 kop" where
  "sys_write_loop E rd buff f src count i tot =
     (if i < count then
        (let n = nat (if count - i > 256 then 256 else count - i) in
         kseq (kmod (set_kram (memset buff 0 256)))
         (kbind (copy_from_user rd buff 256 (src + of_int i) n) (\<lambda>_.
          kbind (file_write E f buff (of_nat n)) (\<lambda>w.
            sys_write_loop E rd buff f src count (i + 256) (tot + w)))))
      else kret tot)"
  by pat_completeness auto
termination
  by (relation "measure (\<lambda>(E, rd, buff, f, src, count, i, tot). nat (count - i))") auto

declare sys_write_loop.simps [simp del]

text \<open>
  Arguments are signed in the source: a negative descriptor passes the test against the size of the
  table and indexes in front of it.
\<close>

definition sys_write :: "env \<Rightarrow> (u64 \<Rightarrow> u8 kop) \<Rightarrow> u64 \<Rightarrow> u64 \<Rightarrow> u64 \<Rightarrow> u64 \<Rightarrow> int kop" where
  "sys_write E rd buff fd src count =
     kbind (kget cpu_current) (\<lambda>c.
     kseq (kptr c)
     (kbind (kget (\<lambda>s. tasks s c)) (\<lambda>d.
        if sint fd \<ge> int (t_table_size d) then kret (- EBADF)
        else if sint fd < 0 then kfail OutOfBounds
        else
          let f = t_fd d (unat fd) in
          if f = 0 then kret (- EBADF)
          else
            kbind (kget (\<lambda>s. f_ops (files s f))) (\<lambda>ops.
              if ops = NoFops then kret (- EINVAL)
              else kbind (sys_write_loop E rd buff f src (sint count) 0 0) (\<lambda>tot. kret (sint tot))))))"

section \<open>syscall.c and the dispatcher\<close>

definition SYSCALLS_NR :: u64 where "SYSCALLS_NR = 4"

datatype syscall_fp = SysRead | SysWrite | SysOpen

text \<open>The fourth entry of the table is not initialised, hence null.\<close>

definition syscall_table :: "syscall_fp option list" where
  "syscall_table = [Some SysRead, Some SysWrite, Some SysOpen, None]"

section \<open>The size of a grown table\<close>

lemma malloc_sizes_fst:
  "map fst malloc_sizes = [32, 64, 128, 256, 512, 1024, 2048, 4096, 8192, 16384, 32768]"
  by (simp add: malloc_sizes_def)

lemma class_bytes_eq:
  "class_bytes sz = (if sz \<le> 32 then 32 else if sz \<le> 64 then 64 else if sz \<le> 128 then 128 else if sz \<le> 256 then 256
     else if sz \<le> 512 then 512 else if sz \<le> 1024 then 1024 else if sz \<le> 2048 then 2048 else if sz \<le> 4096 then 4096
     else if sz \<le> 8192 then 8192 else if sz \<le> 16384 then 16384 else if sz \<le> 32768 then 32768 else 0)"
  by (simp add: class_bytes_def malloc_sizes_def not_less [symmetric])

text \<open>
  The table of open files grows by a request that is 224 bytes short of what is then cleared, and
  yet never overruns: tables have a multiple of 32 slots, and every size class that can hold the
  request also holds the larger table.
\<close>

theorem fd_table_growth_fits:
  assumes "n = 32 * k" and "0 < k" and "8 * n + 32 \<le> 32768"
  shows "8 * (of_nat n + 32) \<le> class_bytes (8 * of_nat n + 32)"
proof -
  have k: "256 * k + 32 \<le> 32768" using assms by simp
  have "(8 * of_nat n + 32 :: u64) = of_nat (256 * k + 32)" "(8 * (of_nat n + 32) :: u64) = of_nat (256 * k + 256)"
    by (simp_all add: assms(1))
  then have e: "unat (8 * of_nat n + 32 :: u64) = 256 * k + 32" "unat (8 * (of_nat n + 32) :: u64) = 256 * k + 256"
    using k by (simp_all add: unat_of_nat del: of_nat_add of_nat_mult)
  show ?thesis
    using k assms(2) e by (simp add: class_bytes_eq word_le_nat_alt)
qed

theorem fd_table_growth_fits_witness: "8 * (of_nat 96 + 32) \<le> class_bytes (8 * of_nat 96 + 32)"
  using fd_table_growth_fits [of 96 3] by simp

section \<open>Copying from user space\<close>

text \<open>
  The bytes at \<open>usr\<close> are in areas of the process and reading them needs no page fault.
\<close>

definition user_bytes :: "(u64 \<Rightarrow> u8 kop) \<Rightarrow> (u64 \<Rightarrow> u8) \<Rightarrow> kstate \<Rightarrow> u64 list \<Rightarrow> u64 \<Rightarrow> nat \<Rightarrow> bool" where
  "user_bytes rd u s vs usr n \<longleftrightarrow> (\<forall>i<n. (\<forall>s'. rd (usr + of_nat i) s' = Inr (u (usr + of_nat i), s')) \<and>
     (\<exists>v\<in>set vs. va_start (vmas s v) \<le> usr + of_nat i \<and> usr + of_nat i < va_end (vmas s v)))"

lemma find_vma_hit:
  assumes "areas s mm vs" and "0 \<notin> set vs" and "\<exists>v\<in>set vs. va_start (vmas s v) \<le> a \<and> a < va_end (vmas s v)"
  shows "\<exists>v. v \<noteq> 0 \<and> find_vma_for_address a mm s = Inr (v, s)"
proof -
  obtain v where "find (\<lambda>v. va_start (vmas s v) \<le> a \<and> a < va_end (vmas s v)) vs = Some v"
    using assms(3) by (metis (mono_tags, lifting) find_None_iff2 option.exhaust)
  moreover from this have "v \<in> set vs" by (auto simp: find_Some_iff)
  ultimately show ?thesis using assms(2) find_vma_areas [OF assms(1,2), of a] by auto
qed

lemma set_kram_vmas [simp]: "vmas (set_kram f s) = vmas s" "cpu_current (set_kram f s) = cpu_current s" "tasks (set_kram f s) = tasks s"
  by (simp_all add: set_kram_def upd_pa_def)

fun user_stores :: "(u64 \<Rightarrow> u8) \<Rightarrow> u64 \<Rightarrow> u64 \<Rightarrow> nat \<Rightarrow> nat \<Rightarrow> mem \<Rightarrow> mem" where
  "user_stores u dst usr i 0 m = m"
| "user_stores u dst usr i (Suc n) m =
     user_stores u dst usr (Suc i) n (m(dst + of_nat i := u (usr + of_nat i)))"

lemma set_kram_comp: "set_kram f (set_kram g s) = set_kram (\<lambda>m. f (g m)) s"
  by (simp add: set_kram_def upd_pa_def)

lemma copy_user_loop_runs:
  assumes "areas s mm vs" and "0 \<notin> set vs" and "user_bytes rd u s vs usr (i + n)" and "i + n \<le> cap"
  shows "copy_user_loop rd mm n dst cap usr i s =
    Inr (int (i + n), set_kram (user_stores u dst usr i n) s)"
  using assms
proof (induction n arbitrary: i s)
  case 0
  have "user_stores u dst usr i 0 = (\<lambda>m. m)" by (simp add: fun_eq_iff)
  then show ?case by (simp add: set_kram_def upd_pa_def)
next
  case (Suc n)
  let ?s = "set_kram (\<lambda>m. m(dst + of_nat i := u (usr + of_nat i))) s"
  have u: "(\<exists>v\<in>set vs. va_start (vmas s v) \<le> usr + of_nat i \<and> usr + of_nat i < va_end (vmas s v))"
    "rd (usr + of_nat i) s = Inr (u (usr + of_nat i), s)"
    using Suc.prems(3) by (auto simp: user_bytes_def)
  obtain v where v: "v \<noteq> 0" "find_vma_for_address (usr + of_nat i) mm s = Inr (v, s)"
    using find_vma_hit [OF Suc.prems(1,2) u(1)] by blast
  have "user_bytes rd u ?s vs usr (Suc i + n)" using Suc.prems(3) by (simp add: user_bytes_def)
  moreover have "areas ?s mm vs" using Suc.prems(1) by simp
  ultimately have "copy_user_loop rd mm n dst cap usr (Suc i) ?s = Inr (int (Suc i + n),
      set_kram (user_stores u dst usr (Suc i) n) ?s)"
    using Suc.IH [of ?s "Suc i"] Suc.prems(2,4) by simp
  then show ?case
    using v u(2) Suc.prems(4) by (simp add: set_kram_comp)
qed

lemma copy_user_loop_overflows:
  assumes "areas s mm vs" and "0 \<notin> set vs" and "user_bytes rd u s vs usr (i + Suc n)" and "i + n = cap"
  shows "copy_user_loop rd mm (Suc n) dst cap usr i s = Inl OutOfBounds"
  using assms
proof (induction n arbitrary: i s)
  case 0
  have "user_bytes rd u s vs usr (Suc i)" using 0 by simp
  then have u: "(\<exists>v\<in>set vs. va_start (vmas s v) \<le> usr + of_nat i \<and> usr + of_nat i < va_end (vmas s v))"
    "rd (usr + of_nat i) s = Inr (u (usr + of_nat i), s)"
    by (auto simp: user_bytes_def)
  obtain v where "v \<noteq> 0" "find_vma_for_address (usr + of_nat i) mm s = Inr (v, s)"
    using find_vma_hit [OF 0(1,2) u(1)] by blast
  then show ?case using u(2) 0(4) by simp
next
  case (Suc n)
  let ?s = "set_kram (\<lambda>m. m(dst + of_nat i := u (usr + of_nat i))) s"
  have u: "(\<exists>v\<in>set vs. va_start (vmas s v) \<le> usr + of_nat i \<and> usr + of_nat i < va_end (vmas s v))"
    "rd (usr + of_nat i) s = Inr (u (usr + of_nat i), s)"
    using Suc.prems(3) by (auto simp: user_bytes_def)
  obtain v where v: "v \<noteq> 0" "find_vma_for_address (usr + of_nat i) mm s = Inr (v, s)"
    using find_vma_hit [OF Suc.prems(1,2) u(1)] by blast
  have "user_bytes rd u ?s vs usr (Suc i + Suc n)" using Suc.prems(3) by (simp add: user_bytes_def)
  moreover have "areas ?s mm vs" using Suc.prems(1) by simp
  ultimately have "copy_user_loop rd mm (Suc n) dst cap usr (Suc i) ?s = Inl OutOfBounds"
    using Suc.IH [of ?s "Suc i"] Suc.prems(2,4) by simp
  then show ?case
    using v u(2) Suc.prems(4) by (subst copy_user_loop.simps) (simp del: copy_user_loop.simps)
qed

lemma user_stores_other: "(\<And>j. i \<le> j \<Longrightarrow> j < i + n \<Longrightarrow> a \<noteq> dst + of_nat j) \<Longrightarrow> user_stores u dst usr i n m a = m a"
  by (induction n arbitrary: i m) auto

lemma user_stores_nth:
  assumes "i \<le> j" and "j < i + n" and "i + n \<le> 2 ^ 64"
  shows "user_stores u dst usr i n m (dst + of_nat j) = u (usr + of_nat j)"
  using assms
proof (induction n arbitrary: i m)
  case (Suc n)
  show ?case
  proof (cases "i = j")
    case True
    have "user_stores u dst usr (Suc i) n (m(dst + of_nat i := u (usr + of_nat i))) (dst + of_nat j) =
        (m(dst + of_nat i := u (usr + of_nat i))) (dst + of_nat j)"
    proof (rule user_stores_other)
      fix k
      assume "Suc i \<le> k" "k < Suc i + n"
      then have "of_nat j \<noteq> (of_nat k :: u64)"
        using True Suc.prems(3) by (auto simp: word_unat_eq_iff unat_of_nat)
      then show "dst + of_nat j \<noteq> dst + of_nat k" by simp
    qed
    then show ?thesis using True by simp
  qed (use Suc in simp)
qed simp

text \<open>
  C37: \<open>copy_from_user\<close> copies one byte more than it is asked for: with a buffer that has room it returns
  \<open>count + 1\<close> and has stored that many bytes of the user's memory, and a request for exactly the size
  of the buffer writes behind its end.
\<close>

theorem copy_from_user_one_more:
  assumes "areas s mm vs" and "0 \<notin> set vs" and "user_bytes rd u s vs usr (Suc n)"
    and "cpu_current s = c" "c \<noteq> 0" "t_mm (tasks s c) = mm" and "n \<le> cap" and "cap < 2 ^ 64"
  shows "(n < cap \<longrightarrow> (\<exists>s'. copy_from_user rd dst cap usr n s = Inr (int n + 1, s') \<and>
      block (kram s') dst (Suc n) = map (\<lambda>i. u (usr + of_nat i)) [0..<Suc n])) \<and>
    (n = cap \<longrightarrow> copy_from_user rd dst cap usr n s = Inl OutOfBounds)"
proof -
  have mm: "current_mm s = Inr (mm, s)" using assms(4-6) by (simp add: current_mm_def)
  have "copy_user_loop rd mm (Suc n) dst cap usr 0 s = Inl OutOfBounds" if "n = cap"
    using copy_user_loop_overflows [OF assms(1,2), of rd u usr 0 n cap] assms(3) that by (simp del: copy_user_loop.simps)
  moreover have "copy_user_loop rd mm (Suc n) dst cap usr 0 s = Inr (int n + 1, set_kram (user_stores u dst usr 0 (Suc n)) s)"
    if "n < cap"
    using copy_user_loop_runs [OF assms(1,2), of rd u usr 0 "Suc n" cap dst] assms(3) that
    by (simp del: copy_user_loop.simps user_stores.simps)
  moreover have "block (user_stores u dst usr 0 (Suc n) m) dst (Suc n) = map (\<lambda>i. u (usr + of_nat i)) [0..<Suc n]" for m
    using user_stores_nth [of 0 _ "Suc n" u dst usr m] assms(7,8)
    by (simp add: block_def del: user_stores.simps upt_Suc)
  ultimately show ?thesis
    using mm by (auto simp: copy_from_user_def simp del: copy_user_loop.simps user_stores.simps upt_Suc)
qed

definition user_task :: kstate where
  "user_task = two_areas\<lparr>cpu_current := 0x30, tasks := (\<lambda>_. (tasks blank_kernel 0)\<lparr>t_mm := 1\<rparr>)\<rparr>"

theorem copy_from_user_one_more_witness:
  "(\<exists>s'. copy_from_user (\<lambda>a. kret 7) 0x9000 8 0x500100 2 user_task = Inr (3, s') \<and>
      block (kram s') 0x9000 3 = [7, 7, 7]) \<and>
    copy_from_user (\<lambda>a. kret 7) 0x9000 2 0x500100 2 user_task = Inl OutOfBounds"
proof -
  have a: "areas user_task 1 [0x10, 0x20]" using two_areas_facts(1) by (simp add: user_task_def)
  have u: "user_bytes (\<lambda>a. kret 7) (\<lambda>_. 7) user_task [0x10, 0x20] 0x500100 (Suc 2)"
    unfolding user_bytes_def
  proof (intro allI impI)
    fix i
    assume "i < Suc 2"
    then have "i = 0 \<or> i = 1 \<or> i = 2" by arith
    then show "(\<forall>s'. kret 7 s' = Inr (7, s')) \<and> (\<exists>v\<in>set [0x10, 0x20]. va_start (vmas user_task v) \<le> 0x500100 + of_nat i \<and>
        0x500100 + of_nat i < va_end (vmas user_task v))"
      by (elim disjE) (simp_all add: user_task_def two_areas_def)
  qed
  have t: "cpu_current user_task = 0x30" "t_mm (tasks user_task 0x30) = 1" by (simp_all add: user_task_def)
  show ?thesis
    using copy_from_user_one_more [OF a _ u t(1) _ t(2), of 8 "0x9000"] copy_from_user_one_more [OF a _ u t(1) _ t(2), of 2 "0x9000"]
    by (simp add: upt_rec)
qed

end
