(* ===== verification/Faults.thy ===== *)
theory Faults
  imports Syscalls
begin

text \<open>
  Page faults: \<^verbatim>\<open>mm/page_fault.c\<close> and the flags of \<^verbatim>\<open>arch/x86_64/page_fault.c\<close>
  (its entry is in \<open>Traps\<close>, with the interrupt frame). A fault in an area of a
  mapped file goes to the file system, every other one to the anonymous handler, which allocates
  pages on demand and copies pages on write. The endless \<open>hlt\<close> loops are the fault \<open>Halted\<close>.
\<close>

section \<open>The anonymous handler\<close>

text \<open>The copy of a shared page, and the page to map: a new one, or the old one if nobody else has it.\<close>

definition copy_on_write :: "env \<Rightarrow> u64 \<Rightarrow> vm_fault \<Rightarrow> (int \<times> vm_fault) kop" where
  "copy_on_write E page vf =
     kbind (kget (\<lambda>s. refcnt (pages (kpa s) page))) (\<lambda>n.
       if n > 1 then
         kbind (kget (\<lambda>s. get_page_vaddr E page (kpa s))) (\<lambda>page_vaddr.
         kbind (k_alloc_pages E 0) (\<lambda>new_page.
         kbind (kget (\<lambda>s. get_page_vaddr E new_page (kpa s))) (\<lambda>new_page_vaddr.
         kseq (kmod (set_kram (memcpy new_page_vaddr page_vaddr PAGE_SIZE)))
         (kseq (on_page new_page (page_ref new_page))
         (kseq (k_page_unref page)
         (kseq (on_page new_page (page_set_usage new_page PAGE_USAGE_ANON))
           (kret (0, vf\<lparr>vf_new_page := new_page\<rparr>))))))))
       else kret (0, vf\<lparr>vf_new_page := page\<rparr>))"

definition anonymous_page_handler :: "env \<Rightarrow> vm_fault \<Rightarrow> (int \<times> vm_fault) kop" where
  "anonymous_page_handler E vf =
     kbind (kget (\<lambda>s. vmas s (vf_vma vf))) (\<lambda>a.
       if vf_flags vf AND PGFAULT_PROTECTION E \<noteq> 0 then
         if vf_flags vf AND PGFAULT_WRITE E \<noteq> 0 then
           kbind (kget (\<lambda>s. cpu_mm_get_phys_address (mm_pgtable s (va_procmm a)) (vf_addr vf) (kram s))) (\<lambda>page_phys.
             if ucast (va_prot a) AND VM_MAYWRITE (vm E) = 0 \<and> ucast (va_prot a) AND VM_WRITE (vm E) = 0
             then kret (1, vf)
             else if page_phys AND 1 \<noteq> 0 then kfail Halted
             else
               kbind (kget (\<lambda>s. get_page_from_paddr page_phys (kpa s))) (\<lambda>p.
                 case p of
                   None \<Rightarrow> kfail Halted
                 | Some page \<Rightarrow>
                     if ucast (va_prot a) AND VM_MAYWRITE (vm E) \<noteq> 0 then copy_on_write E page vf
                     else kret (0, vf)))
         else kret (1, vf)
       else
         kbind (k_alloc_pages E 0) (\<lambda>new_page.
         kseq (on_page new_page (page_ref new_page))
           (kret (0, vf\<lparr>vf_new_page := new_page\<rparr>))))"

section \<open>kernel_page_fault\<close>

definition call_fault_handler :: "env \<Rightarrow> u64 \<Rightarrow> vm_fault \<Rightarrow> (int \<times> vm_fault) kop" where
  "call_fault_handler E v vf =
     kbind (kget (\<lambda>s. vm_ops (vmas s v))) (\<lambda>ops.
       case ops of NoVmaOps \<Rightarrow> anonymous_page_handler E vf | RamfsVmaOps \<Rightarrow> ramfs_vma_fault E v vf)"

definition fault_prot :: "env \<Rightarrow> u32 \<Rightarrow> u32 \<Rightarrow> u32" where
  "fault_prot E flags prot =
     (if flags AND PGFAULT_PROTECTION E \<noteq> 0 \<and> flags AND PGFAULT_WRITE E \<noteq> 0 \<and> ucast prot AND VM_MAYWRITE (vm E) \<noteq> 0
      then prot OR ucast (VM_WRITE (vm E)) else prot)"

definition map_fault :: "env \<Rightarrow> u64 \<Rightarrow> u64 \<Rightarrow> vm_fault \<Rightarrow> unit kop" where
  "map_fault E addr v vf =
     kbind (kget (\<lambda>s. vmas s v)) (\<lambda>a.
     kbind (kget (\<lambda>s. mm_pgtable s (va_procmm a))) (\<lambda>t.
       if vf_new_page vf \<noteq> 0 then
         kbind (on_pa (\<lambda>x. bind_res (get_phys_addr_from_page (vf_new_page vf) x) (\<lambda>q. Inr (q, x)))) (\<lambda>phys.
           k_map_page E t phys (PAGE_FRAME addr) (fault_prot E (vf_flags vf) (va_prot a)))
       else kwhen (vf_pfn vf \<noteq> 0) (k_map_page E t (vf_pfn vf * PAGE_SIZE) (PAGE_FRAME addr) (va_prot a))))"

definition kernel_page_fault :: "env \<Rightarrow> u64 \<Rightarrow> u32 \<Rightarrow> u64 \<Rightarrow> int kop" where
  "kernel_page_fault E addr flags pc =
     kbind (kget cpu_current) (\<lambda>current_task.
       if current_task = 0 then kfail Halted
       else
         kbind (kget (\<lambda>s. t_mm (tasks s current_task))) (\<lambda>mm.
         kbind (find_vma_for_address addr mm) (\<lambda>v.
           if v = 0 then kfail Halted
           else
             kbind (kget (\<lambda>s. va_start (vmas s v))) (\<lambda>start.
             kbind (call_fault_handler E v \<lparr>vf_addr = addr, vf_flags = flags, vf_vma = v,
                      vf_pgoffset = (addr - start) div PAGE_SIZE, vf_new_page = 0, vf_pfn = 0\<rparr>) (\<lambda>(ret, vf).
               if ret \<noteq> 0 then kfail Halted
               else kseq (map_fault E addr v vf) (kret 0))))))"

section \<open>The flags of a fault\<close>

definition fault_flags :: "env \<Rightarrow> u64 \<Rightarrow> u32" where
  "fault_flags E err =
     (if err AND 0x01 \<noteq> 0 then PGFAULT_PROTECTION E else 0) OR
     (if err AND 0x02 \<noteq> 0 then PGFAULT_WRITE E else 0) OR
     (if err AND 0x04 \<noteq> 0 then PGFAULT_USR E else 0) OR
     (if err AND 0x10 \<noteq> 0 then PGFAULT_INSTRUCTION E else 0)"

section \<open>What an allocation leaves alone\<close>

lemma toggle_bit_page_frame:
  "toggle_bit_page p k s = Inr (b, s') \<Longrightarrow> pages s' = pages s \<and> ram s' = ram s"
  by (auto simp: toggle_bit_page_def toggle_bit_pfn_zone_def Let_def bind_res_def split: option.splits if_splits sum.splits)

lemma take_first_frame: "take_first z k s = Inr (p, s') \<Longrightarrow> pages s' = pages s \<and> ram s' = ram s"
  by (auto simp: take_first_def bind_res_def upd_links_def split: sum.splits)

lemma alloc_from_zone_frame:
  "alloc_from_zone z k s = Inr (r, s') \<Longrightarrow> pages s' = pages s \<and> ram s' = ram s"
proof (induction z k s arbitrary: r s' rule: alloc_from_zone.induct)
  case (1 z k s)
  from 1(2) show ?case
    by (subst (asm) alloc_from_zone.simps)
      (auto simp: bind_res_def Let_def upd_links_def split: if_splits sum.splits option.splits
        dest!: 1(1) toggle_bit_page_frame take_first_frame)
qed

lemma alloc_search_frame:
  "alloc_search n z fl k s = Inr (r, s') \<Longrightarrow> pages s' = pages s \<and> ram s' = ram s"
  by (induction n z fl k s arbitrary: r s' rule: alloc_search.induct)
    (auto simp: bind_res_def upd_zone_def split: if_splits sum.splits option.splits dest!: alloc_from_zone_frame)

lemma alloc_pages_frame:
  assumes "alloc_pages gpv fl k s = Inr (p, s')"
  shows "pages s' = (pages s)(p := (pages s p)\<lparr>refcnt := 0\<rparr>) \<and>
    (\<exists>a. ram s' = memset (gpv p a) 0 (PAGE_SIZE * push_bit k 1) (ram s))"
  using assms
  by (auto simp: alloc_pages_def bind_res_def upd_page_def Let_def split: sum.splits option.splits dest!: alloc_search_frame)
    blast

lemma k_alloc_pages_frame:
  assumes "k_alloc_pages E 0 s = Inr (p, s')"
  shows "\<exists>a x. s' = upd_pa (\<lambda>_. a) s \<and> pages a = (pages (kpa s))(p := (pages (kpa s) p)\<lparr>refcnt := 0\<rparr>) \<and>
    ram a = memset (get_page_vaddr E p x) 0 PAGE_SIZE (kram s)"
proof -
  obtain a where a: "alloc_pages (get_page_vaddr E) PGALLOC_KERNEL 0 (kpa s) = Inr (p, a)" "s' = upd_pa (\<lambda>_. a) s"
    using assms by (auto simp: k_alloc_pages_def on_pa_def bind_res_def split: sum.splits)
  show ?thesis using alloc_pages_frame [OF a(1)] a(2) by (auto simp: kram_def)
qed

section \<open>Copy on write\<close>

text \<open>
  C21: a write to a page that is shared gets its own copy: the handler allocates a page, fills it with the
  contents of the old one, hands it to the faulting area with one reference and drops one reference
  of the old page, whose contents stay as they were.
\<close>

theorem copy_on_write_copies:
  assumes "k_alloc_pages E 0 s = Inr (np, s1)" and "np \<noteq> 0" and "np \<noteq> page" and "1 < refcnt (pages (kpa s) page)"
    and "\<forall>a. get_page_vaddr E page a = pv" and "\<forall>a. get_page_vaddr E np a = nv"
    and "region nv 4096 \<inter> region pv 4096 = {}"
  shows "\<exists>s'. copy_on_write E page vf s = Inr ((0, vf\<lparr>vf_new_page := np\<rparr>), s') \<and>
    block (kram s') nv 4096 = block (kram s) pv 4096 \<and> block (kram s') pv 4096 = block (kram s) pv 4096 \<and>
    refcnt (pages (kpa s') np) = 1 \<and> refcnt (pages (kpa s') page) = refcnt (pages (kpa s) page) - 1"
proof -
  obtain a where a: "s1 = upd_pa (\<lambda>_. a) s" "pages a = (pages (kpa s))(np := (pages (kpa s) np)\<lparr>refcnt := 0\<rparr>)"
    "ram a = memset nv 0 PAGE_SIZE (kram s)"
    using k_alloc_pages_frame [OF assms(1)] assms(6) by metis
  have u: "unat PAGE_SIZE = 4096" by (simp add: PAGE_SIZE_def)
  have old: "block (ram a) pv 4096 = block (kram s) pv 4096"
    by (rule block_cong) (use assms(7) u in \<open>auto simp: a(3) memset_eq\<close>)
  have copy: "block (memcpy nv pv PAGE_SIZE (ram a)) nv 4096 = block (kram s) pv 4096"
    using memcpy_block [of nv PAGE_SIZE pv "ram a"] assms(7) old u by simp
  have keep: "block (memcpy nv pv PAGE_SIZE (ram a)) pv 4096 = block (kram s) pv 4096"
    unfolding old [symmetric]
  proof (rule block_cong)
    fix x
    assume "x \<in> region pv 4096"
    then have "x \<notin> region nv (unat PAGE_SIZE)" using assms(7) u by auto
    then show "memcpy nv pv PAGE_SIZE (ram a) x = ram a x" by (rule memcpy_frame)
  qed
  have "refcnt (pages (kpa s) page) - 1 \<noteq> 0" using assms(4) by auto
  then show ?thesis
    using assms(1-6) copy keep
    by (simp add: copy_on_write_def a(1,2) on_page_def k_page_unref_def on_pa_def page_unref_def page_ref_def
        page_set_usage_def upd_page_def set_kram_def upd_pa_def kpa_def kram_def Let_def)
qed

text \<open>An allocator with one free page, every page structure counting two references.\<close>

definition one_page :: alloc_state where
  "one_page = small_boot\<lparr>zones := (\<lambda>_. small_zone\<lparr>max_order := 0, available_pages := 1\<rparr>),
     links := list_add (PageNode 0xffff800000001028) (FreeHead 0 0) (links small_boot),
     pages := (\<lambda>_. \<lparr>usage = 0, pflags = 0, refcnt = 2, pc_owner = 0\<rparr>)\<rparr>"

definition one_page_kernel :: kstate where
  "one_page_kernel = upd_pa (\<lambda>_. one_page) blank_kernel"

lemma one_page_alloc:
  "\<exists>a. alloc_pages gpv PGALLOC_KERNEL 0 (one_page\<lparr>ram := m\<rparr>) = Inr (0xffff800000001028, a) \<and> num_zones a = 1 \<and>
     zones a 0 = small_zone\<lparr>max_order := 0, available_pages := 0\<rparr>"
proof -
  have l: "lh_next (links one_page (FreeHead 0 0)) = PageNode 0xffff800000001028" "num_zones one_page = 1"
    "\<not> list_empty (FreeHead 0 0) (links one_page)" "zones one_page 0 = small_zone\<lparr>max_order := 0, available_pages := 1\<rparr>"
    by (simp_all add: one_page_def small_boot_def list_add_def list_add_between_def list_empty_def set_next_def set_prev_def)
  have "alloc_from_zone 0 0 (one_page\<lparr>ram := m\<rparr>) = Inr (Some 0xffff800000001028,
      upd_links (list_del_init (PageNode 0xffff800000001028)) (one_page\<lparr>ram := m\<rparr>))"
    using l by (subst alloc_from_zone.simps) (simp add: take_first_def page_of_node_def NUM_PG_ORDERS_def)
  then show ?thesis
    using l by (simp add: alloc_pages_def small_zone_def PGALLOC_KERNEL_def MEMZONE_IDENTITY_MAPPED_def BIT32_def Let_def
        upd_zone_def upd_page_def upd_links_def)
qed

theorem copy_on_write_copies_witness:
  "\<forall>vf. \<forall>E :: env. \<exists>s'. copy_on_write (E\<lparr>get_page_vaddr := (\<lambda>p _. if p = 0x100 then 0xffff800000400000 else 0xffff800000500000)\<rparr>)
      0x100 vf one_page_kernel = Inr ((0, vf\<lparr>vf_new_page := 0xffff800000001028\<rparr>), s') \<and>
    block (kram s') 0xffff800000500000 4096 = block (kram one_page_kernel) 0xffff800000400000 4096"
proof (intro allI)
  fix vf :: vm_fault and E :: env
  let ?E = "E\<lparr>get_page_vaddr := (\<lambda>p _. if p = 0x100 then 0xffff800000400000 else 0xffff800000500000)\<rparr>"
  have "one_page\<lparr>ram := ram one_page\<rparr> = one_page" by simp
  then obtain s1 where s1: "k_alloc_pages ?E 0 one_page_kernel = Inr (0xffff800000001028, s1)"
    using one_page_alloc [of "get_page_vaddr ?E" "ram one_page"]
    by (auto simp: k_alloc_pages_def on_pa_def one_page_kernel_def)
  have r: "region 0xffff800000500000 4096 \<inter> region 0xffff800000400000 4096 = {}"
    by (subst Int_commute, rule regions_apart) simp_all
  have c: "1 < refcnt (pages (kpa one_page_kernel) 0x100)" by (simp add: one_page_kernel_def one_page_def)
  show "\<exists>s'. copy_on_write ?E 0x100 vf one_page_kernel = Inr ((0, vf\<lparr>vf_new_page := 0xffff800000001028\<rparr>), s') \<and>
    block (kram s') 0xffff800000500000 4096 = block (kram one_page_kernel) 0xffff800000400000 4096"
    using copy_on_write_copies [OF s1 _ _ c _ _ r, of vf] by fastforce
qed

section \<open>Demand paging\<close>

text \<open>
  The tables on the way to an address: present or allocated on the way, distinct pages of the direct
  mapping, and no 2 MiB page in between.
\<close>

definition walkable :: "(u64 \<Rightarrow> u64) \<Rightarrow> u64 \<Rightarrow> u64 \<Rightarrow> alloc_state \<Rightarrow> bool" where
  "walkable v t va a \<longleftrightarrow>
     (\<exists>t3 a1 t2 a2 t1 a3. next_table (\<lambda>p _. v p) t (unat (PML4_FROM_VA va)) a = Inr (t3, a1) \<and>
        next_table (\<lambda>p _. v p) t3 (unat (PDPT_FROM_VA va)) a1 = Inr (t2, a2) \<and>
        next_table (\<lambda>p _. v p) t2 (unat (PDET_FROM_VA va)) a2 = Inr (t1, a3) \<and>
        table_ok t3 \<and> table_ok t2 \<and> table_ok t1 \<and>
        region t 4096 \<inter> region t3 4096 = {} \<and> region t 4096 \<inter> region t2 4096 = {} \<and>
        region t 4096 \<inter> region t1 4096 = {} \<and> region t3 4096 \<inter> region t2 4096 = {} \<and>
        region t3 4096 \<inter> region t1 4096 = {} \<and> region t2 4096 \<inter> region t1 4096 = {} \<and>
        rd64 (ram a3) (t2 + 8 * PDET_FROM_VA va) AND PDET_PAGE_SIZE = 0)"

lemma walkable_maps:
  assumes "walkable v t va a"
  shows "\<exists>a'. cpu_mm_map_page (\<lambda>p _. v p) K t phys va fl a = Inr a' \<and>
    cpu_mm_get_phys_address t va (ram a') = PAGE_FRAME phys"
  using assms unfolding walkable_def by (elim exE conjE) (rule map_page_then_translate)

lemma frame_indices:
  "PML4_FROM_VA (PAGE_FRAME a) = PML4_FROM_VA a" "PDPT_FROM_VA (PAGE_FRAME a) = PDPT_FROM_VA a"
  "PDET_FROM_VA (PAGE_FRAME a) = PDET_FROM_VA a" "PTE_FROM_VA (PAGE_FRAME a) = PTE_FROM_VA a"
  by (simp_all add: PML4_FROM_VA_def PDPT_FROM_VA_def PDET_FROM_VA_def PTE_FROM_VA_def PAGE_FRAME_def and.assoc)

lemma phys_of_frame: "cpu_mm_get_phys_address t (PAGE_FRAME a) m = cpu_mm_get_phys_address t a m"
  unfolding cpu_mm_get_phys_address_def frame_indices ..

lemma upd_pa_more [simp]:
  "vmas (upd_pa g s) = vmas s" "mm_pgtable (upd_pa g s) = mm_pgtable s" "kram (upd_pa g s) = ram (g (kpa s))"
  "upd_pa f (upd_pa g s) = upd_pa (\<lambda>a. f (g a)) s"
  by (simp_all add: upd_pa_def kram_def kpa_def)

text \<open>
  C6: the first access to a page of an anonymous area is served: the fault handler returns, and in the
  page table of the process the address then translates to the frame of a newly allocated page.
\<close>

theorem demand_paging:
  assumes "cpu_current s = c" "c \<noteq> 0" "t_mm (tasks s c) = mm" and "find_vma_for_address addr mm s = Inr (v, s)" "v \<noteq> 0"
    and "vm_ops (vmas s v) = NoVmaOps" and "flags AND PGFAULT_PROTECTION E = 0"
    and "k_alloc_pages E 0 s = Inr (p, s1)" "p \<noteq> 0" and "get_phys_addr_from_page p (page_ref p (kpa s1)) = Inr phys"
    and "get_page_vaddr E = (\<lambda>p _. va p)" and "t = mm_pgtable s (va_procmm (vmas s v))"
    and "walkable va t addr (page_ref p (kpa s1))"
  shows "\<exists>s'. kernel_page_fault E addr flags pc s = Inr (0, s') \<and>
    cpu_mm_get_phys_address t addr (kram s') = PAGE_FRAME phys"
proof -
  obtain b where b: "s1 = upd_pa (\<lambda>_. b) s" using k_alloc_pages_frame [OF assms(8)] by blast
  have w: "walkable va t (PAGE_FRAME addr) (page_ref p b)"
    using assms(13) by (simp add: walkable_def frame_indices b)
  obtain a' where a': "cpu_mm_map_page (\<lambda>p _. va p) (vm E) t phys (PAGE_FRAME addr)
      (ucast (va_prot (vmas s v))) (page_ref p b) = Inr a'"
    "cpu_mm_get_phys_address t (PAGE_FRAME addr) (ram a') = PAGE_FRAME phys"
    using walkable_maps [OF w] by blast
  show ?thesis
    using assms(1-12) a'
    by (simp add: kernel_page_fault_def call_fault_handler_def anonymous_page_handler_def on_page_def b
        map_fault_def on_pa_def k_map_page_def fault_prot_def phys_of_frame)
qed

definition fault_kernel :: kstate where
  "fault_kernel = upd_pa (\<lambda>_. one_page\<lparr>ram := table_mem\<rparr>) (user_task\<lparr>mm_pgtable := (\<lambda>_. 0xffff800000200000),
     vmas := (vmas blank_kernel)(0x20 := (vmas blank_kernel 0)\<lparr>va_start := 0x1000, va_end := 0x2000\<rparr>)\<rparr>)"

lemma walkable_tables:
  assumes "\<forall>i<3. rd64 (ram a) (0xffff800000200000 + 0x1000 * of_nat i) = rd64 table_mem (0xffff800000200000 + 0x1000 * of_nat i)"
  shows "walkable v 0xffff800000200000 0x1000 a"
proof -
  have e: "rd64 (ram a) 0xffff800000200000 = 0x201007" "rd64 (ram a) 0xffff800000201000 = 0x202007"
    "rd64 (ram a) 0xffff800000202000 = 0x203007"
    using assms [rule_format, of 0] assms [rule_format, of 1] assms [rule_format, of 2] by (simp_all add: table_mem_entries)
  have i: "PML4_FROM_VA 0x1000 = 0" "PDPT_FROM_VA 0x1000 = 0" "PDET_FROM_VA 0x1000 = 0"
    by (simp_all add: PML4_FROM_VA_def PDPT_FROM_VA_def PDET_FROM_VA_def)
  have "next_table (\<lambda>p _. v p) 0xffff800000200000 0 a = Inr (0xffff800000201000, a)"
    "next_table (\<lambda>p _. v p) 0xffff800000201000 0 a = Inr (0xffff800000202000, a)"
    "next_table (\<lambda>p _. v p) 0xffff800000202000 0 a = Inr (0xffff800000203000, a)"
    by (simp_all add: next_table_def e BIT_def PAGE_FRAME_def PA2VA_def Let_def)
  moreover have "table_ok 0xffff800000201000" "table_ok 0xffff800000202000" "table_ok 0xffff800000203000"
    by (simp_all add: table_ok_def PAGE_FRAME_def PA2VA_def VA2PA_def)
  ultimately show ?thesis
    unfolding walkable_def
    by (intro exI [of _ "0xffff800000201000"], intro exI [of _ a], intro exI [of _ "0xffff800000202000"], intro exI [of _ a],
        intro exI [of _ "0xffff800000203000"], intro exI [of _ a]) (simp add: i e BIT_def regions_apart)
qed

theorem demand_paging_witness:
  "\<forall>E :: env. \<exists>s'. kernel_page_fault (E\<lparr>get_page_vaddr := (\<lambda>_ _. 0xffff800000500000)\<rparr>) 0x1000 0 0 fault_kernel = Inr (0, s') \<and>
    cpu_mm_get_phys_address 0xffff800000200000 0x1000 (kram s') = 0x101000"
proof
  fix E :: env
  let ?E = "E\<lparr>get_page_vaddr := (\<lambda>_ _. 0xffff800000500000)\<rparr>"
  obtain a where a: "alloc_pages (get_page_vaddr ?E) PGALLOC_KERNEL 0 (one_page\<lparr>ram := table_mem\<rparr>) = Inr (0xffff800000001028, a)"
    "num_zones a = 1" "zones a 0 = small_zone\<lparr>max_order := 0, available_pages := 0\<rparr>"
    using one_page_alloc by blast
  have k: "k_alloc_pages ?E 0 fault_kernel = Inr (0xffff800000001028, upd_pa (\<lambda>_. a) fault_kernel)"
    using a(1) by (simp add: k_alloc_pages_def on_pa_def fault_kernel_def)
  have r: "ram a = memset 0xffff800000500000 0 PAGE_SIZE table_mem"
    using alloc_pages_frame [OF a(1)] by simp
  have "rd64 (ram a) (0xffff800000200000 + 0x1000 * of_nat i) = rd64 table_mem (0xffff800000200000 + 0x1000 * of_nat i)"
    if "i < 3" for i
  proof -
    have "i = 0 \<or> i = 1 \<or> i = 2" using that by arith
    then have "region (0xffff800000200000 + 0x1000 * of_nat i) 8 \<inter> region 0xffff800000500000 4096 = {}"
      by (elim disjE) (simp_all add: regions_apart)
    then show ?thesis by (intro rd64_cong) (auto simp: r memset_eq PAGE_SIZE_def)
  qed
  then have w: "walkable (\<lambda>_. 0xffff800000500000) 0xffff800000200000 0x1000 (page_ref 0xffff800000001028 a)"
    by (intro walkable_tables) (simp add: page_ref_def upd_page_def)
  have ph: "get_phys_addr_from_page 0xffff800000001028 (page_ref 0xffff800000001028 a) = Inr 0x101000"
    using a(2,3) by (simp add: get_phys_addr_from_page_def get_zone_and_pfn_from_page_def page_ref_def upd_page_def VA2PA_def
        sizeof_page_def small_zone_def PAGE_SIZE_def Let_def)
  have vs: "areas fault_kernel 1 [0x10, 0x20]" using two_areas_facts(1) by (simp add: fault_kernel_def user_task_def)
  have f: "find_vma_for_address 0x1000 1 fault_kernel = Inr (0x20, fault_kernel)"
    using find_vma_areas [OF vs, of "0x1000"] by (simp add: fault_kernel_def blank_kernel_def)
  have s: "cpu_current fault_kernel = 0x30" "t_mm (tasks fault_kernel 0x30) = 1" "vm_ops (vmas fault_kernel 0x20) = NoVmaOps"
    "0xffff800000200000 = mm_pgtable fault_kernel (va_procmm (vmas fault_kernel 0x20))"
    by (simp_all add: fault_kernel_def user_task_def blank_kernel_def upd_pa_def)
  have g: "get_page_vaddr ?E = (\<lambda>p _. (\<lambda>_. 0xffff800000500000) p)" by simp
  have z: "0 AND PGFAULT_PROTECTION ?E = 0" by simp
  have p: "PAGE_FRAME 0x101000 = 0x101000" by (simp add: PAGE_FRAME_def)
  show "\<exists>s'. kernel_page_fault ?E 0x1000 0 0 fault_kernel = Inr (0, s') \<and>
      cpu_mm_get_phys_address 0xffff800000200000 0x1000 (kram s') = 0x101000"
    using demand_paging [OF s(1) _ s(2) f _ s(3) z k _ _ g s(4), of "0x101000" 0] ph w p by simp
qed

end
