(* ===== verification/Sched.thy ===== *)
theory Sched
  imports Faults
begin

text \<open>
  Tasks and the round-robin scheduler: \<^verbatim>\<open>kernel/task.c\<close>, \<^verbatim>\<open>kernel/sched.c\<close>, \<^verbatim>\<open>arch/x86_64/arch_sched.c\<close>,
  \<^verbatim>\<open>arch/x86_64/process.c\<close> and the stack switch \<^verbatim>\<open>cpu_switch_to\<close> of \<^verbatim>\<open>arch/x86_64/jmp_user.s\<close>.

  There is one processor, so \<^verbatim>\<open>cpu_get_cpu()\<close> is the state itself: \<open>cpu_current\<close>, \<open>cpu_idle_task\<close>, the
  list \<open>RunQueue\<close> and the ring-0 stack pointer \<open>tss_rsp0\<close> of the task state segment. Saving and restoring
  the interrupt flag around a list operation makes it one step.
\<close>

section \<open>task.c\<close>

definition TASK_KERNEL :: u32 where "TASK_KERNEL = 1"
definition TASK_USER :: u32 where "TASK_USER = 2"

definition on_ps :: "(paging_state \<Rightarrow> ('a \<times> paging_state) res) \<Rightarrow> 'a kop" where
  "on_ps f s = bind_res (f (ps s)) (\<lambda>(x, p). Inr (x, s\<lparr>ps := p\<rparr>))"

definition init_task_lists :: "u64 \<Rightarrow> unit kop" where
  "init_task_lists t =
     kmod (upd_klinks (\<lambda>h. INIT_LIST_HEAD (TaskChildren t) (INIT_LIST_HEAD (TaskList t) (INIT_LIST_HEAD (TaskQ t) h))))"

definition new_kstack :: "env \<Rightarrow> u64 \<Rightarrow> unit kop" where
  "new_kstack E t =
     kseq (kmod (upd_task t (\<lambda>k. k\<lparr>t_cpu_state := 0\<rparr>)))
     (kbind (k_alloc_pages E 1) (\<lambda>p.
      kbind (kget (\<lambda>s. get_page_vaddr E p (kpa s))) (\<lambda>stack.
        kmod (upd_task t (\<lambda>k. k\<lparr>t_kstack := stack, t_kstack_size := push_bit 1 PAGE_SIZE,
                                 t_ksp := stack + push_bit 1 PAGE_SIZE, t_needs_sched := False\<rparr>)))))"

definition new_mm :: "env \<Rightarrow> u64 \<Rightarrow> unit kop" where
  "new_mm E t =
     kbind (kget procmm_cache) (\<lambda>c.
     kbind (k_cache_alloc E c) (\<lambda>mm.
     kseq (kmod (upd_task t (\<lambda>k. k\<lparr>t_mm := mm\<rparr>)))
     (kseq (kptr mm)
     (kbind (on_ps (cpu_mm_create_page_table (get_page_vaddr E))) (\<lambda>pt.
      kseq (kmod (\<lambda>s. s\<lparr>mm_pgtable := (mm_pgtable s)(mm := pt)\<rparr>))
        (kmod (upd_klinks (INIT_LIST_HEAD (VmAreas mm)))))))))"

definition new_fd_table :: "env \<Rightarrow> u64 \<Rightarrow> unit kop" where
  "new_fd_table E t =
     kbind (k_kmalloc E 16) (\<lambda>tab.
     kseq (kptr tab)
     (kbind (k_kmalloc E (8 * 32)) (\<lambda>fd.
      kseq (kmod (upd_task t (\<lambda>k. k\<lparr>t_fd_at := fd, t_table_size := 32\<rparr>)))
      (kseq (kptr fd)
        (kmod (upd_task t (\<lambda>k. k\<lparr>t_fd := (\<lambda>i. if i < 32 then 0 else t_fd k i)\<rparr>)))))))"

definition create_task :: "env \<Rightarrow> u64 \<Rightarrow> u32 \<Rightarrow> u64 kop" where
  "create_task E inplace flags =
     kbind (if inplace = 0 then kbind (kget task_cache) (k_cache_alloc E) else kret inplace) (\<lambda>t.
       if t = 0 then kret t
       else
         kseq (init_task_lists t)
         (kseq (new_kstack E t)
         (kseq (kwhen (flags = TASK_USER) (new_mm E t))
         (kseq (new_fd_table E t)
           (kret t)))))"

definition task_add_child :: "u64 \<Rightarrow> u64 \<Rightarrow> unit kop" where
  "task_add_child t child =
     kseq (kptr t)
     (kseq (kptr child)
     (kseq (kmod (upd_klinks (list_add (TaskList child) (TaskChildren t))))
       (kmod (upd_task child (\<lambda>k. k\<lparr>t_parent := t\<rparr>)))))"

section \<open>arch_sched.c, process.c\<close>

definition KERNEL_CS :: u64 where "KERNEL_CS = push_bit 3 1"
definition KERNEL_DS :: u64 where "KERNEL_DS = push_bit 3 2"
definition USER_CS :: u64 where "USER_CS = push_bit 3 3"
definition USER_DS :: u64 where "USER_DS = push_bit 3 4"

definition sizeof_cpu_state :: u64 where "sizeof_cpu_state = 160"

definition cpu_ktask_setup :: "env \<Rightarrow> u64 \<Rightarrow> u64 \<Rightarrow> u64 \<Rightarrow> unit kop" where
  "cpu_ktask_setup E t entry args =
     kseq (kptr t)
     (kbind (kget (\<lambda>s. t_cpu_state (tasks s t))) (\<lambda>c.
      kbind (if c = 0 then
               kbind (k_kmalloc E sizeof_cpu_state) (\<lambda>c'.
                 kseq (kmod (upd_task t (\<lambda>k. k\<lparr>t_cpu_state := c'\<rparr>))) (kret c'))
             else kret c) (\<lambda>cpu.
      kseq (kptr cpu)
      (kseq (kmod (upd_task t (\<lambda>k. k\<lparr>t_ksp := t_kstack k + t_kstack_size k\<rparr>)))
      (kbind (kget (\<lambda>s. t_kstack (tasks s t) + t_kstack_size (tasks s t))) (\<lambda>sp.
        kmod (upd_cpu_state cpu (\<lambda>_. zero_cpu_state\<lparr>c_cs := KERNEL_CS, c_ss := KERNEL_DS, c_rip := entry,
                                        c_rsp := sp, c_rdi := args, c_rflags := 0x200\<rparr>))))))))"

text \<open>
  The words of an interrupt frame, in memory order: the interrupt number, the general registers, and
  what \<^verbatim>\<open>iretq\<close> pops. The frame of an exception with an error code has one word more, which is the size
  \<open>sizeof_interrupt_frame\<close> of the union.
\<close>

definition frame_words :: "arch_x86_cpu_state \<Rightarrow> u64 list" where
  "frame_words c = [c_r8 c, c_r9 c, c_r10 c, c_r11 c, c_r12 c, c_r13 c, c_r14 c, c_r15 c, c_rdi c, c_rsi c, c_rbp c,
     c_rbx c, c_rdx c, c_rcx c, c_rax c, c_rip c, c_cs c, c_rflags c, c_rsp c, c_ss c]"

definition sizeof_interrupt_frame :: u64 where "sizeof_interrupt_frame = 176"

fun store_words :: "u64 \<Rightarrow> u64 list \<Rightarrow> mem \<Rightarrow> mem" where
  "store_words a [] m = m"
| "store_words a (w # ws) m = store_words (a + 8) ws (wr64 a w m)"

text \<open>
  The result is what \<open>__iret_context_switch\<close> is called with: the data selector and the frame. The first
  word of the frame, the interrupt number, is not written. After \<open>kfree(new_cpu_state)\<close> the selector is
  read from the freed object, whose contents the allocator has not touched.
\<close>

definition cpu_context_switch :: "u64 \<Rightarrow> (u64 \<times> u64) kop" where
  "cpu_context_switch new_cpu_state =
     kbind (kget (\<lambda>s. if cpu_current s \<noteq> 0 then cpu_current s else cpu_idle_task s)) (\<lambda>t.
     kseq (kptr t)
     (kbind (kget (\<lambda>s. tasks s t)) (\<lambda>k.
      let frame = (if new_cpu_state = 0 then t_ksp k - sizeof_interrupt_frame + 8 else t_kstack k);
          cs = (if new_cpu_state = 0 then t_cpu_state k else new_cpu_state) in
      kseq (kmod (\<lambda>s. s\<lparr>tss_rsp0 := t_kstack k + PAGE_SIZE * 2\<rparr>))
      (kseq (kptr cs)
      (kbind (kget (\<lambda>s. cpu_states s cs)) (\<lambda>c.
       kseq (kmod (set_kram (store_words (frame + 8) (frame_words c))))
       (kseq (kwhen (new_cpu_state \<noteq> 0) (k_kfree new_cpu_state))
         (kret (c_ss c, frame)))))))))"

definition cpu_schedule :: "u64 \<Rightarrow> u64 \<Rightarrow> unit kop" where
  "cpu_schedule prev nxt =
     kseq (kptr nxt) (kmod (\<lambda>s. s\<lparr>tss_rsp0 := t_kstack (tasks s nxt) + PAGE_SIZE * 2\<rparr>))"

definition USER_STACK_SIZE :: u64 where "USER_STACK_SIZE = 2048 * PAGE_SIZE"
definition USER_STACK_BOTTOM :: u64 where "USER_STACK_BOTTOM = 0x00007fffff000000"

text \<open>The new state goes to \<open>*cpu_state\<close>; 0 stands for a variable that is left as it was.\<close>

definition cpu_setup_process :: "env \<Rightarrow> u64 \<Rightarrow> u64 kop" where
  "cpu_setup_process E entry =
     kbind (kget cpu_current) (\<lambda>t.
       if t = 0 then kret 0
       else
         kbind (k_kmalloc E sizeof_cpu_state) (\<lambda>c.
         kbind (kget (\<lambda>s. t_mm (tasks s t))) (\<lambda>mm.
         kbind (do_mmap E mm 0 USER_STACK_BOTTOM USER_STACK_SIZE
                  (ucast (VM_READ (vm E) OR VM_WRITE (vm E) OR VM_USER (vm E))) (VM_FLAG_ANON E) (VMA_STACK E) 0) (\<lambda>start.
         kseq (kptr c)
         (kseq (kmod (upd_cpu_state c (\<lambda>_. zero_cpu_state\<lparr>c_cs := USER_CS OR 3, c_ss := USER_DS OR 3,
                        c_rsp := start + USER_STACK_SIZE, c_rip := entry, c_rflags := 0x202\<rparr>)))
           (kret c))))))"

section \<open>sched.c\<close>

definition sizeof_task :: u32 where "sizeof_task = 120"
definition sizeof_procmm :: u32 where "sizeof_procmm = 24"

definition sched_init :: "env \<Rightarrow> unit kop" where
  "sched_init E =
     kbind (k_create_cache E sizeof_task ''task-cache'') (\<lambda>c.
     kseq (kmod (\<lambda>s. s\<lparr>task_cache := c\<rparr>))
     (kbind (k_create_cache E (sizeof_vm_area E) ''vma-cache'') (\<lambda>c.
     kseq (kmod (\<lambda>s. s\<lparr>vm_area_cache := c\<rparr>))
     (kbind (k_create_cache E sizeof_procmm ''procmm-cache'') (\<lambda>c.
       kmod (\<lambda>s. s\<lparr>procmm_cache := c\<rparr>))))))"

definition mk_kernel_task :: "env \<Rightarrow> u64 \<Rightarrow> u64 \<Rightarrow> u64 kop" where
  "mk_kernel_task E entry args =
     kbind (create_task E 0 TASK_USER) (\<lambda>t.
     kseq (cpu_ktask_setup E t entry args)
     (kbind (kget (\<lambda>s. t_ksp (tasks s t) - 8)) (\<lambda>sp.
      kseq (kmod (set_kram (wr64 sp entry)))
      (kseq (kmod (upd_task t (\<lambda>k. k\<lparr>t_ksp := sp - 8 * 6\<rparr>)))
        (kret t)))))"

text \<open>\<open>cpu_idle\<close> stops the processor again after every interrupt and never returns.\<close>

definition cpu_idle :: "unit kop" where
  "cpu_idle = kfail Halted"

definition sched_per_cpu_init :: "env \<Rightarrow> unit kop" where
  "sched_per_cpu_init E =
     kbind (mk_kernel_task E (cpu_idle_at E) 0) (\<lambda>t.
     kseq (kmod (\<lambda>s. s\<lparr>cpu_idle_task := t\<rparr>))
     (kseq (kmod (upd_task t (\<lambda>k. k\<lparr>t_ksp := cpu_idle_at E\<rparr>)))
     (kseq (kmod (\<lambda>s. s\<lparr>cpu_current := 0\<rparr>))
       (kmod (upd_klinks (INIT_LIST_HEAD RunQueue))))))"

definition sched_irq :: "unit kop" where
  "sched_irq =
     kbind (kget (\<lambda>s. procmm_cache s = 0 \<or> task_cache s = 0 \<or> vm_area_cache s = 0)) (\<lambda>early.
     kbind (kget cpu_current) (\<lambda>c.
       kwhen (\<not> early \<and> c \<noteq> 0) (kmod (upd_task c (\<lambda>k. k\<lparr>t_needs_sched := True\<rparr>)))))"

definition sched_add_task :: "u64 \<Rightarrow> int kop" where
  "sched_add_task t =
     kseq (kptr t) (kseq (kmod (upd_klinks (list_add_tail (TaskQ t) RunQueue))) (kret 0))"

text \<open>
  \<open>container_of\<close> for the queue. The head of the queue is part of no task, and neither is the link of any
  other list: following the pointer then is a fault.
\<close>

definition task_of_node :: "knode \<Rightarrow> u64 kop" where
  "task_of_node x = (case x of TaskQ t \<Rightarrow> kret t | _ \<Rightarrow> kfail WildPointer)"

definition set_pgtable_of :: "u64 \<Rightarrow> unit kop" where
  "set_pgtable_of mm = kmod (\<lambda>s. s\<lparr>ps := cpu_mm_set_pgtable (mm_pgtable s mm) (ps s)\<rparr>)"

definition sched_start :: "(u64 \<times> u64) kop" where
  "sched_start =
     kbind (kbind (kget (\<lambda>s. lh_next (klinks s RunQueue))) task_of_node) (\<lambda>t.
     kseq (kmod (\<lambda>s. s\<lparr>cpu_current := t\<rparr>))
     (kseq (kptr t)
     (kbind (kget (\<lambda>s. t_mm (tasks s t))) (\<lambda>mm.
      kseq (kptr mm)
      (kseq (set_pgtable_of mm)
        (cpu_context_switch 0))))))"

definition sched_pick_next_task :: "u64 kop" where
  "sched_pick_next_task =
     kbind (kget cpu_current) (\<lambda>c.
     kbind (kget klinks) (\<lambda>h.
       if c = 0 \<and> list_empty RunQueue h then kret 0
       else if c = 0 \<or> lh_next (h (TaskQ c)) = RunQueue then task_of_node (lh_next (h RunQueue))
       else task_of_node (lh_next (h (TaskQ c)))))"

text \<open>
  The result is the call of \<open>cpu_switch_to\<close> the function ends with, as the pair of its arguments;
  \<open>None\<close> when there is nothing to switch to.
\<close>

definition schedule :: "(u64 \<times> u64) option kop" where
  "schedule =
     kbind sched_pick_next_task (\<lambda>picked.
     kbind (kget cpu_current) (\<lambda>c.
     kbind (kget cpu_idle_task) (\<lambda>idle.
      let prev = (if c \<noteq> 0 then c else idle);
          nxt = (if picked \<noteq> 0 then picked else idle) in
      kseq (kwhen (c \<noteq> 0) (kmod (upd_task c (\<lambda>k. k\<lparr>t_needs_sched := False\<rparr>))))
      (if nxt = prev then kret None
       else
         kseq (kptr nxt)
         (kbind (kget (\<lambda>s. t_mm (tasks s nxt))) (\<lambda>mm.
          kseq (kwhen (mm \<noteq> 0) (set_pgtable_of mm))
          (kseq (kmod (\<lambda>s. s\<lparr>cpu_current := nxt\<rparr>))
          (kseq (cpu_schedule prev nxt)
            (kret (Some (prev, nxt)))))))))))"

section \<open>The switch of stacks (jmp_user.s)\<close>

record regs =
  r_rsp :: u64
  r_rip :: u64
  r_rbp :: u64
  r_rbx :: u64
  r_r12 :: u64
  r_r13 :: u64
  r_r14 :: u64
  r_r15 :: u64

text \<open>
  Six pushes, the exchange of the stack pointers at offset \<^verbatim>\<open>0x40\<close> of the two task structures, six pops and
  \<^verbatim>\<open>ret\<close>. Three list heads of 16 bytes and two pointers are in front of \<open>kstack\<close>, which is thus the field at
  offset \<^verbatim>\<open>0x40\<close>; \<open>ksp\<close> is at \<^verbatim>\<open>0x48\<close>. Memory has no holes here: a stack pointer that points to
  no stack does not fault, so what is said of a run below asks that the stacks are real.
\<close>

definition cpu_switch_to :: "u64 \<Rightarrow> u64 \<Rightarrow> regs \<Rightarrow> regs kop" where
  "cpu_switch_to prev nxt r =
     kseq (kmod (set_kram (store_words (r_rsp r - 48) [r_r15 r, r_r14 r, r_r13 r, r_r12 r, r_rbx r, r_rbp r])))
     (kseq (kmod (upd_task prev (\<lambda>k. k\<lparr>t_kstack := r_rsp r - 48\<rparr>)))
     (kbind (kget (\<lambda>s. t_kstack (tasks s nxt))) (\<lambda>sp.
        kget (\<lambda>s. \<lparr>r_rsp = sp + 56, r_rip = rd64 (kram s) (sp + 48), r_rbp = rd64 (kram s) (sp + 40),
          r_rbx = rd64 (kram s) (sp + 32), r_r12 = rd64 (kram s) (sp + 24), r_r13 = rd64 (kram s) (sp + 16),
          r_r14 = rd64 (kram s) (sp + 8), r_r15 = rd64 (kram s) sp\<rparr>))))"

section \<open>The timer interrupt (interrupt.c, apic.c)\<close>

definition APIC_EOI_REG :: u32 where "APIC_EOI_REG = 0xB0"

definition apic_write32 :: "u32 \<Rightarrow> u32 \<Rightarrow> unit kop" where
  "apic_write32 reg val = kmod (\<lambda>s. s\<lparr>apic_writes := apic_writes s @ [(apic_regs s + ucast reg, val)]\<rparr>)"

text \<open>
  The branch of \<open>__irq_handler_stub\<close> for vector \<^verbatim>\<open>0x20\<close>. When the first \<open>schedule\<close> switches stacks, the rest
  runs when the task is current again, and does nothing then.
\<close>

definition timer_irq :: "(u64 \<times> u64) option kop" where
  "timer_irq =
     kseq (apic_write32 APIC_EOI_REG 0)
     (kseq sched_irq
     (kbind (kget (\<lambda>s. cpu_current s \<noteq> 0 \<and> t_needs_sched (tasks s (cpu_current s)))) (\<lambda>needs.
      kbind (if needs then schedule else kret None) (\<lambda>sw.
        if sw \<noteq> None then kret sw
        else
          kbind (kget (\<lambda>s. cpu_current s = 0 \<and> \<not> list_empty RunQueue (klinks s))) (\<lambda>waiting.
            if waiting then schedule else kret None)))))"

section \<open>The run queue\<close>

abbreviation queue :: "kstate \<Rightarrow> u64 list \<Rightarrow> bool" where
  "queue s ts \<equiv> ring (klinks s) RunQueue (map TaskQ ts)"

lemma queue_distinct: "queue s ts \<Longrightarrow> distinct ts"
  using ring_distinct [of "klinks s" RunQueue "map TaskQ ts"] by (simp add: distinct_map)

lemma queue_head_next: "queue s ts \<Longrightarrow> ts \<noteq> [] \<Longrightarrow> lh_next (klinks s RunQueue) = TaskQ (hd ts)"
  by (cases ts) (auto dest: ring_first)

lemma queue_next:
  assumes "queue s ts" and "i < length ts"
  shows "lh_next (klinks s (TaskQ (ts ! i))) = (if Suc i = length ts then RunQueue else TaskQ (ts ! Suc i))"
proof -
  have "ts = take i ts @ ts ! i # drop (Suc i) ts" using assms(2) by (rule id_take_nth_drop)
  then have "map TaskQ ts = map TaskQ (take i ts) @ TaskQ (ts ! i) # map TaskQ (drop (Suc i) ts)"
    by (metis list.simps(9) map_append)
  then have "lh_next (klinks s (TaskQ (ts ! i))) = (case map TaskQ (drop (Suc i) ts) of [] \<Rightarrow> RunQueue | y # _ \<Rightarrow> y)"
    using ring_next assms(1) by metis
  then show ?thesis
    using assms(2) by (cases "Suc i = length ts") (simp_all add: Cons_nth_drop_Suc [symmetric])
qed

text \<open>A task whose link is initialised is not in the queue.\<close>

lemma unlinked_not_queued:
  assumes "queue s ts" and "lh_next (klinks s (TaskQ t)) = TaskQ t"
  shows "t \<notin> set ts"
proof
  assume "t \<in> set ts"
  then obtain i where i: "i < length ts" "t = ts ! i" by (auto simp: in_set_conv_nth)
  have "lh_next (klinks s (TaskQ t)) = (if Suc i = length ts then RunQueue else TaskQ (ts ! Suc i))"
    using queue_next [OF assms(1) i(1)] i(2) by simp
  then have "Suc i < length ts" "ts ! Suc i = ts ! i"
    using assms(2) i by (auto split: if_splits)
  then show False using queue_distinct [OF assms(1)] by (simp add: nth_eq_iff_index_eq)
qed

section \<open>Round robin\<close>

text \<open>The abstract scheduler: the successor of the running task in the queue, cyclically.\<close>

definition rr_next :: "u64 list \<Rightarrow> nat \<Rightarrow> nat" where
  "rr_next ts i = (if Suc i = length ts then 0 else Suc i)"

lemma rr_next_mod: "i < length ts \<Longrightarrow> rr_next ts i = Suc i mod length ts"
  by (simp add: rr_next_def)

lemma task_of_TaskQ [simp]: "task_of_node (TaskQ t) = kret t"
  by (simp add: task_of_node_def)

lemma pick_running:
  assumes "queue s ts" and "0 \<notin> set ts" and "i < length ts" and "cpu_current s = ts ! i"
  shows "sched_pick_next_task s = Inr (ts ! rr_next ts i, s)"
proof -
  have "ts ! i \<noteq> 0" "ts \<noteq> []" using assms(2,3) by (metis nth_mem) (use assms(3) in auto)
  then show ?thesis
    using assms queue_next [OF assms(1,3)] queue_head_next [OF assms(1)]
    by (simp add: sched_pick_next_task_def rr_next_def hd_conv_nth)
qed

lemma pick_first:
  assumes "queue s ts" and "cpu_current s = 0"
  shows "sched_pick_next_task s = Inr (if ts = [] then 0 else hd ts, s)"
  using assms queue_head_next [OF assms(1)] list_empty_ring [OF assms(1)]
  by (simp add: sched_pick_next_task_def)

section \<open>The invariant\<close>

text \<open>
  The processor is set up for a task: the stack pointer for interrupts from user mode is two pages above the value of the
  field \<open>kstack\<close>, and the page table is the one of its address space. The field is the lowest address of the kernel stack
  until the task is switched away for the first time; from then on it is the stack pointer the switch has saved there, and the
  stack pointer for interrupts is not the end of the kernel stack any more (see \<open>switch_overwrites_kstack\<close>).
\<close>

definition cpu_runs :: "u64 \<Rightarrow> kstate \<Rightarrow> bool" where
  "cpu_runs t s \<longleftrightarrow> tss_rsp0 s = t_kstack (tasks s t) + PAGE_SIZE * 2 \<and>
     (t_mm (tasks s t) \<noteq> 0 \<longrightarrow> cr3 (ps s) = VA2PA (mm_pgtable s (t_mm (tasks s t))))"

definition sched_inv :: "u64 list \<Rightarrow> kstate \<Rightarrow> bool" where
  "sched_inv ts s \<longleftrightarrow> queue s ts \<and> 0 \<notin> set ts \<and> cpu_idle_task s \<noteq> 0 \<and> cpu_idle_task s \<notin> set ts \<and>
     (cpu_current s = 0 \<or> cpu_current s \<in> set ts \<and> cpu_runs (cpu_current s) s)"

lemma sched_invD:
  assumes "sched_inv ts s"
  shows "queue s ts" "0 \<notin> set ts" "cpu_idle_task s \<noteq> 0" "cpu_idle_task s \<notin> set ts" "distinct ts"
    "cpu_current s \<noteq> cpu_idle_task s"
  using assms queue_distinct by (auto simp: sched_inv_def)

lemma sched_inv_cong:
  assumes "sched_inv ts s" and "klinks s' = klinks s" and "cpu_idle_task s' = cpu_idle_task s"
    and "cpu_current s' = cpu_current s" and "tss_rsp0 s' = tss_rsp0 s" and "cr3 (ps s') = cr3 (ps s)"
    and "mm_pgtable s' = mm_pgtable s" and "\<And>t. t \<in> set ts \<Longrightarrow> t = cpu_current s \<Longrightarrow> t_kstack (tasks s' t) = t_kstack (tasks s t)"
    and "\<And>t. t \<in> set ts \<Longrightarrow> t_mm (tasks s' t) = t_mm (tasks s t)"
  shows "sched_inv ts s'"
  using assms by (auto simp: sched_inv_def cpu_runs_def)

text \<open>What a switch to \<open>n\<close> leaves behind.\<close>

definition switched_to :: "u64 \<Rightarrow> kstate \<Rightarrow> kstate \<Rightarrow> bool" where
  "switched_to n s s' \<longleftrightarrow> cpu_current s' = n \<and> cpu_runs n s' \<and> klinks s' = klinks s \<and> cpu_idle_task s' = cpu_idle_task s \<and>
     mm_pgtable s' = mm_pgtable s \<and> task_cache s' = task_cache s \<and> procmm_cache s' = procmm_cache s \<and>
     vm_area_cache s' = vm_area_cache s \<and> kram s' = kram s \<and>
     (\<forall>t. t_kstack (tasks s' t) = t_kstack (tasks s t) \<and> t_mm (tasks s' t) = t_mm (tasks s t))"

lemma upd_task_fields [simp]:
  "cpu_current (upd_task t f s) = cpu_current s" "klinks (upd_task t f s) = klinks s"
  "cpu_idle_task (upd_task t f s) = cpu_idle_task s" "mm_pgtable (upd_task t f s) = mm_pgtable s"
  "ps (upd_task t f s) = ps s" "tss_rsp0 (upd_task t f s) = tss_rsp0 s" "task_cache (upd_task t f s) = task_cache s"
  "procmm_cache (upd_task t f s) = procmm_cache s" "vm_area_cache (upd_task t f s) = vm_area_cache s"
  "kram (upd_task t f s) = kram s" "tasks (upd_task t f s) = (tasks s)(t := f (tasks s t))"
  "vmas (upd_task t f s) = vmas s"
  by (simp_all add: upd_task_def kram_def kpa_def)

definition clear_needs :: "kstate \<Rightarrow> kstate" where
  "clear_needs s = (if cpu_current s \<noteq> 0 then upd_task (cpu_current s) (\<lambda>k. k\<lparr>t_needs_sched := False\<rparr>) s else s)"

lemma clear_needs_fields [simp]:
  "cpu_current (clear_needs s) = cpu_current s" "klinks (clear_needs s) = klinks s"
  "cpu_idle_task (clear_needs s) = cpu_idle_task s" "mm_pgtable (clear_needs s) = mm_pgtable s"
  "ps (clear_needs s) = ps s" "tss_rsp0 (clear_needs s) = tss_rsp0 s" "task_cache (clear_needs s) = task_cache s"
  "procmm_cache (clear_needs s) = procmm_cache s" "vm_area_cache (clear_needs s) = vm_area_cache s"
  "t_kstack (tasks (clear_needs s) t) = t_kstack (tasks s t)" "t_mm (tasks (clear_needs s) t) = t_mm (tasks s t)"
  "kram (clear_needs s) = kram s"
  by (simp_all add: clear_needs_def)

lemma clear_needs_step [simp]:
  "kseq (kwhen (cpu_current s \<noteq> 0) (kmod (upd_task (cpu_current s) (\<lambda>k. k\<lparr>t_needs_sched := False\<rparr>)))) m s = m (clear_needs s)"
  by (simp add: clear_needs_def)

definition load_pgtable :: "u64 \<Rightarrow> kstate \<Rightarrow> kstate" where
  "load_pgtable mm s = (if mm \<noteq> 0 then s\<lparr>ps := cpu_mm_set_pgtable (mm_pgtable s mm) (ps s)\<rparr> else s)"

lemma load_pgtable_step [simp]: "kseq (kwhen (mm \<noteq> 0) (set_pgtable_of mm)) m s = m (load_pgtable mm s)"
  by (simp add: load_pgtable_def set_pgtable_of_def)

lemma load_pgtable_fields [simp]:
  "cpu_current (load_pgtable mm s) = cpu_current s" "klinks (load_pgtable mm s) = klinks s"
  "cpu_idle_task (load_pgtable mm s) = cpu_idle_task s" "mm_pgtable (load_pgtable mm s) = mm_pgtable s"
  "task_cache (load_pgtable mm s) = task_cache s" "tasks (load_pgtable mm s) = tasks s"
  "procmm_cache (load_pgtable mm s) = procmm_cache s" "vm_area_cache (load_pgtable mm s) = vm_area_cache s"
  "kram (load_pgtable mm s) = kram s" "mm \<noteq> 0 \<Longrightarrow> cr3 (ps (load_pgtable mm s)) = VA2PA (mm_pgtable s mm)"
  by (simp_all add: load_pgtable_def cpu_mm_set_pgtable_def set_cr3_def kram_def kpa_def)

lemma kram_other [simp]: "kram (s\<lparr>cpu_current := c\<rparr>) = kram s" "kram (s\<lparr>tss_rsp0 := w\<rparr>) = kram s"
  by (simp_all add: kram_def kpa_def)

lemma schedule_eq:
  assumes "sched_pick_next_task s = Inr (q, s)" and "p = (if cpu_current s \<noteq> 0 then cpu_current s else cpu_idle_task s)"
    and "n = (if q \<noteq> 0 then q else cpu_idle_task s)"
  shows "schedule s =
    (if n = p then Inr (None, clear_needs s)
     else if n = 0 then Inl NullDeref
     else Inr (Some (p, n), (load_pgtable (t_mm (tasks s n)) (clear_needs s))
            \<lparr>cpu_current := n, tss_rsp0 := t_kstack (tasks s n) + PAGE_SIZE * 2\<rparr>))"
  using assms(1) unfolding assms(2,3)
  by (simp add: schedule_def Let_def cpu_schedule_def del: kwhen_simps)

lemma schedule_switches:
  assumes "sched_pick_next_task s = Inr (n, s)" and "n \<noteq> 0" and "cpu_idle_task s \<noteq> n" and "cpu_current s \<noteq> n"
    and "p = (if cpu_current s \<noteq> 0 then cpu_current s else cpu_idle_task s)"
  shows "\<exists>s'. schedule s = Inr (Some (p, n), s') \<and> switched_to n s s'"
proof -
  have "n \<noteq> p" "n = (if n \<noteq> 0 then n else cpu_idle_task s)" using assms(2-5) by (auto split: if_splits)
  then show ?thesis
    using schedule_eq [OF assms(1,5)] assms(2) by (simp add: switched_to_def cpu_runs_def)
qed

lemma schedule_stays:
  assumes "sched_pick_next_task s = Inr (cpu_current s, s)" and "cpu_current s \<noteq> 0"
  shows "schedule s = Inr (None, clear_needs s)"
  using schedule_eq [OF assms(1), of "cpu_current s" "cpu_current s"] assms(2) by simp

lemma pick_keeps: "sched_pick_next_task s = Inr (q, s') \<Longrightarrow> s' = s"
  by (auto simp: sched_pick_next_task_def kbind_def task_of_node_def split: if_splits knode.splits)

lemma schedule_None_current: "schedule s = Inr (None, s') \<Longrightarrow> cpu_current s' = cpu_current s"
proof -
  assume a: "schedule s = Inr (None, s')"
  then obtain q s1 where q: "sched_pick_next_task s = Inr (q, s1)"
    by (auto simp: schedule_def kbind_Inr_iff)
  then have "sched_pick_next_task s = Inr (q, s)" using pick_keeps by metis
  from schedule_eq [OF this refl refl] a show ?thesis by (auto split: if_splits)
qed

text \<open>The caches of the scheduler exist, which is what \<open>sched_irq\<close> tests.\<close>

definition sched_ready :: "kstate \<Rightarrow> bool" where
  "sched_ready s \<longleftrightarrow> procmm_cache s \<noteq> 0 \<and> task_cache s \<noteq> 0 \<and> vm_area_cache s \<noteq> 0"

definition after_irq :: "kstate \<Rightarrow> kstate" where
  "after_irq s = (let s' = s\<lparr>apic_writes := apic_writes s @ [(apic_regs s + ucast APIC_EOI_REG, 0)]\<rparr> in
     if sched_ready s \<and> cpu_current s \<noteq> 0 then upd_task (cpu_current s) (\<lambda>k. k\<lparr>t_needs_sched := True\<rparr>) s' else s')"

lemma after_irq_fields [simp]:
  "cpu_current (after_irq s) = cpu_current s" "klinks (after_irq s) = klinks s"
  "cpu_idle_task (after_irq s) = cpu_idle_task s" "mm_pgtable (after_irq s) = mm_pgtable s"
  "ps (after_irq s) = ps s" "tss_rsp0 (after_irq s) = tss_rsp0 s" "task_cache (after_irq s) = task_cache s"
  "procmm_cache (after_irq s) = procmm_cache s" "vm_area_cache (after_irq s) = vm_area_cache s"
  "t_kstack (tasks (after_irq s) t) = t_kstack (tasks s t)" "t_mm (tasks (after_irq s) t) = t_mm (tasks s t)"
  "kram (after_irq s) = kram s"
  by (simp_all add: after_irq_def Let_def upd_task_def kram_def kpa_def)

lemma apic_sched_irq: "kseq (apic_write32 APIC_EOI_REG 0) (kseq sched_irq m) s = m (after_irq s)"
  by (simp add: apic_write32_def sched_irq_def after_irq_def sched_ready_def kwhen_def Let_def)

lemma timer_irq_eq:
  "timer_irq s =
     (if cpu_current s \<noteq> 0 \<and> t_needs_sched (tasks (after_irq s) (cpu_current s)) \<or> cpu_current s = 0 \<and> \<not> list_empty RunQueue (klinks s)
      then schedule (after_irq s) else Inr (None, after_irq s))"
proof (cases "cpu_current s = 0")
  case True
  then show ?thesis by (simp add: timer_irq_def apic_sched_irq kbind_def)
next
  case False
  then show ?thesis
    using schedule_None_current [of "after_irq s"]
    by (cases "schedule (after_irq s)" rule: sum.exhaust [case_product option.exhaust [of "fst (projr (schedule (after_irq s)))"]])
      (auto simp: timer_irq_def apic_sched_irq kbind_def)
qed

section \<open>Every step keeps the invariant\<close>

lemma sched_inv_after_irq: "sched_inv ts s \<Longrightarrow> sched_inv ts (after_irq s)"
  by (erule sched_inv_cong) simp_all

lemma sched_inv_clear_needs: "sched_inv ts s \<Longrightarrow> sched_inv ts (clear_needs s)"
  by (erule sched_inv_cong) simp_all

lemma sched_inv_switched:
  assumes "sched_inv ts s" and "switched_to n s s'" and "n \<in> set ts"
  shows "sched_inv ts s'"
  using assms by (auto simp: sched_inv_def switched_to_def)

text \<open>A timer interrupt: what it decides, for every state in which the invariant holds.\<close>

definition tick_ok :: "u64 list \<Rightarrow> kstate \<Rightarrow> (u64 \<times> u64) option \<times> kstate \<Rightarrow> bool" where
  "tick_ok ts s r \<longleftrightarrow> (case r of
       (None, s') \<Rightarrow> sched_inv ts s' \<and> cpu_current s' = cpu_current s \<and> sched_ready s' = sched_ready s
     | (Some (p, n), s') \<Rightarrow> sched_inv ts s' \<and> cpu_current s' = n \<and> n \<in> set ts \<and> p \<noteq> n \<and> p \<noteq> 0 \<and>
         sched_ready s' = sched_ready s)"

lemma timer_irq_idle:
  assumes "sched_inv ts s" and "cpu_current s = 0"
  shows "\<exists>r. timer_irq s = Inr r \<and> tick_ok ts s r \<and> cpu_current (snd r) = (if ts = [] then 0 else hd ts)"
proof (cases "ts = []")
  case True
  then have "list_empty RunQueue (klinks s)" using list_empty_ring [OF sched_invD(1) [OF assms(1)]] by simp
  then show ?thesis
    using assms True sched_inv_after_irq [OF assms(1)] by (simp add: timer_irq_eq tick_ok_def sched_ready_def)
next
  case False
  note d = sched_invD [OF assms(1)]
  have m: "hd ts \<in> set ts" using False by simp
  have q: "queue (after_irq s) ts" using d(1) by simp
  have p: "sched_pick_next_task (after_irq s) = Inr (hd ts, after_irq s)"
    using pick_first [OF q] assms(2) False by simp
  have n: "hd ts \<noteq> 0" "hd ts \<noteq> cpu_idle_task s" using m d(2,4) by metis+
  obtain s' where s': "schedule (after_irq s) = Inr (Some (cpu_idle_task s, hd ts), s')" "switched_to (hd ts) (after_irq s) s'"
    using schedule_switches [OF p n(1)] n assms(2) by auto
  have "\<not> list_empty RunQueue (klinks s)" using list_empty_ring [OF d(1)] False by simp
  then show ?thesis
    using s' False assms(2) m n d(3) sched_inv_switched [OF sched_inv_after_irq [OF assms(1)] s'(2) m]
    by (auto simp: timer_irq_eq tick_ok_def sched_ready_def switched_to_def)
qed

lemma timer_irq_running:
  assumes "sched_inv ts s" and "i < length ts" and "cpu_current s = ts ! i"
  shows "\<exists>r. timer_irq s = Inr r \<and> tick_ok ts s r \<and>
    (sched_ready s \<longrightarrow> cpu_current (snd r) = ts ! rr_next ts i)"
proof (cases "t_needs_sched (tasks (after_irq s) (cpu_current s))")
  case False
  then have "\<not> sched_ready s \<or> cpu_current s = 0" by (auto simp: after_irq_def Let_def split: if_splits)
  moreover have c: "cpu_current s \<noteq> 0" using sched_invD(2) [OF assms(1)] assms(2,3) by (metis nth_mem)
  ultimately show ?thesis
    using False sched_inv_after_irq [OF assms(1)] by (auto simp: timer_irq_eq tick_ok_def sched_ready_def)
next
  case True
  note d = sched_invD [OF assms(1)]
  let ?n = "ts ! rr_next ts i"
  have l: "rr_next ts i < length ts" using assms(2) by (auto simp: rr_next_def)
  have m: "?n \<in> set ts" using l by simp
  have c: "cpu_current s \<noteq> 0" using d(2) assms(2,3) by (metis nth_mem)
  have n: "?n \<noteq> 0" "cpu_idle_task s \<noteq> ?n" using m d(2,4) by metis+
  have q: "queue (after_irq s) ts" using d(1) by simp
  have p: "sched_pick_next_task (after_irq s) = Inr (?n, after_irq s)"
    using pick_running [OF q d(2) assms(2)] assms(3) by simp
  show ?thesis
  proof (cases "?n = cpu_current s")
    case eq: True
    then have "schedule (after_irq s) = Inr (None, clear_needs (after_irq s))"
      using schedule_stays [of "after_irq s"] p c by simp
    then show ?thesis
      using True c eq sched_inv_clear_needs [OF sched_inv_after_irq [OF assms(1)]]
      by (simp add: timer_irq_eq tick_ok_def sched_ready_def)
  next
    case ne: False
    obtain s' where s': "schedule (after_irq s) = Inr (Some (cpu_current s, ?n), s')" "switched_to ?n (after_irq s) s'"
      using schedule_switches [OF p n(1)] n ne c by auto
    then show ?thesis
      using True c ne m sched_inv_switched [OF sched_inv_after_irq [OF assms(1)] s'(2) m]
      by (auto simp: timer_irq_eq tick_ok_def sched_ready_def switched_to_def)
  qed
qed

lemma timer_irq_ok: "sched_inv ts s \<Longrightarrow> \<exists>r. timer_irq s = Inr r \<and> tick_ok ts s r"
proof (cases "cpu_current s = 0")
  case True
  assume "sched_inv ts s"
  with True show ?thesis using timer_irq_idle by blast
next
  case False
  assume i: "sched_inv ts s"
  with False obtain k where "k < length ts" "cpu_current s = ts ! k" by (auto simp: sched_inv_def in_set_conv_nth)
  with i show ?thesis using timer_irq_running by blast
qed

lemma cpu_switch_to_keeps:
  assumes "cpu_switch_to p n r s = Inr (r', s')" and "p \<noteq> cpu_current s" and "sched_inv ts s"
  shows "sched_inv ts s' \<and> cpu_current s' = cpu_current s \<and> sched_ready s' = sched_ready s"
proof -
  have "s' = upd_task p (\<lambda>k. k\<lparr>t_kstack := r_rsp r - 48\<rparr>) (set_kram (store_words (r_rsp r - 48)
      [r_r15 r, r_r14 r, r_r13 r, r_r12 r, r_rbx r, r_rbp r]) s)"
    using assms(1) by (simp add: cpu_switch_to_def)
  then show ?thesis
    using assms(2) sched_inv_cong [OF assms(3), of s'] by (simp add: set_kram_def upd_pa_def sched_ready_def)
qed

lemma cpu_switch_to_returns: "\<exists>r' s'. cpu_switch_to p n r s = Inr (r', s')"
  by (simp add: cpu_switch_to_def)

section \<open>Runs of the scheduler\<close>

text \<open>
  The steps that reach the scheduler: a timer interrupt, with the switch of stacks it may end in (the
  registers at that moment are whatever the interrupted code left), the start on the first task, and
  the queueing of a task whose link has been initialised.
\<close>

inductive sched_step :: "kstate \<Rightarrow> kstate \<Rightarrow> bool" where
  tick: "timer_irq s = Inr (None, s') \<Longrightarrow> sched_step s s'"
| switch: "timer_irq s = Inr (Some (p, n), s1) \<Longrightarrow> cpu_switch_to p n r s1 = Inr (r', s') \<Longrightarrow> sched_step s s'"
| add: "lh_next (klinks s (TaskQ t)) = TaskQ t \<Longrightarrow> t \<noteq> cpu_idle_task s \<Longrightarrow> sched_add_task t s = Inr (x, s') \<Longrightarrow> sched_step s s'"
| start: "sched_start s = Inr (x, s') \<Longrightarrow> sched_step s s'"

inductive_cases sched_stepE: "sched_step s s'"

lemma sched_add_task_inv:
  assumes "sched_inv ts s" and "lh_next (klinks s (TaskQ t)) = TaskQ t" and "t \<noteq> cpu_idle_task s"
    and "sched_add_task t s = Inr (x, s')"
  shows "sched_inv (ts @ [t]) s'"
proof -
  note d = sched_invD [OF assms(1)]
  have t: "t \<noteq> 0" "s' = upd_klinks (list_add_tail (TaskQ t) RunQueue) s"
    using assms(4) by (auto simp: sched_add_task_def kptr_def split: if_splits)
  have "t \<notin> set ts" using unlinked_not_queued [OF d(1) assms(2)] .
  then have "ring (list_add_tail (TaskQ t) RunQueue (klinks s)) RunQueue (map TaskQ (ts @ [t]))"
    using ring_list_add_tail [OF d(1), of "TaskQ t"] by auto
  then show ?thesis
    using assms(1,3) t by (auto simp: sched_inv_def cpu_runs_def upd_klinks_def)
qed

lemma sched_start_inv:
  assumes "sched_inv ts s" and "sched_start s = Inr (x, s')"
  shows "sched_inv ts s'"
proof -
  note d = sched_invD [OF assms(1)]
  have ne: "ts \<noteq> []"
  proof
    assume "ts = []"
    then have "lh_next (klinks s RunQueue) = RunQueue" using d(1) by (simp add: ring_Nil)
    then show False using assms(2) by (simp add: sched_start_def task_of_node_def)
  qed
  let ?t = "hd ts"
  have m: "?t \<in> set ts" "?t \<noteq> 0" using ne d(2) by auto (metis list.set_sel(1))
  have "t_mm (tasks s ?t) \<noteq> 0" "t_cpu_state (tasks s ?t) \<noteq> 0"
    using assms(2) m queue_head_next [OF d(1) ne]
    by (auto simp: sched_start_def kptr_def cpu_context_switch_def set_pgtable_of_def Let_def split: if_splits)
  then have "klinks s' = klinks s \<and> cpu_idle_task s' = cpu_idle_task s \<and> cpu_current s' = ?t \<and> cpu_runs ?t s'"
    using assms(2) m queue_head_next [OF d(1) ne]
    by (auto simp: sched_start_def cpu_context_switch_def set_pgtable_of_def Let_def cpu_runs_def set_kram_def upd_pa_def
        cpu_mm_set_pgtable_def set_cr3_def)
  then show ?thesis using assms(1) m by (simp add: sched_inv_def)
qed

text \<open>
  C3: from any state with the invariant on, such as the one the start of the scheduler leaves, whatever the order of timer interrupts, stack switches and new
  tasks: the run queue is a well-formed ring to which tasks are only added, the running task is in it and is never the idle task, the
  page table of that task is loaded, and the stack pointer for interrupts from user mode is two pages above the value its
  field \<open>kstack\<close> has. That is the end of its kernel stack only until the task is first switched away, since the switch saves the stack
  pointer in the same field.
\<close>

theorem sched_invariant:
  assumes "sched_step\<^sup>*\<^sup>* s s'" and "sched_inv ts s"
  shows "\<exists>us. sched_inv (ts @ us) s'"
  using assms(1)
proof induction
  case base
  then show ?case using assms(2) by (auto intro: exI [of _ "[]"])
next
  case (step y z)
  then obtain us where us: "sched_inv (ts @ us) y" by blast
  obtain r where r: "timer_irq y = Inr r" "tick_ok (ts @ us) y r" using timer_irq_ok [OF us] by blast
  from step(2) show ?case
  proof (cases rule: sched_step.cases)
    case tick
    then show ?thesis using r by (auto simp: tick_ok_def)
  next
    case (switch p n s1 x x')
    then show ?thesis using r cpu_switch_to_keeps [OF switch(2)] by (auto simp: tick_ok_def)
  next
    case (add t x)
    then show ?thesis using sched_add_task_inv [OF us] by (metis append.assoc)
  next
    case (start x)
    then show ?thesis using sched_start_inv [OF us] by blast
  qed
qed

text \<open>Two tasks in the queue, none of them running yet.\<close>

definition two_tasks :: kstate where
  "two_tasks = blank_kernel\<lparr>klinks := list_add_tail (TaskQ 0x200) RunQueue (list_add_tail (TaskQ 0x100) RunQueue (klinks blank_kernel)),
     cpu_idle_task := 0x50, task_cache := 1, procmm_cache := 1, vm_area_cache := 1\<rparr>"

lemma two_tasks_inv: "sched_inv [0x100, 0x200] two_tasks"
  by (simp add: sched_inv_def two_tasks_def blank_kernel_def ring_def list_add_tail_def list_add_between_def)

theorem sched_invariant_witness:
  "\<exists>s'. sched_step two_tasks s' \<and> cpu_current s' = 0x100 \<and> (\<exists>us. sched_inv ([0x100, 0x200] @ us) s')"
proof -
  have c: "cpu_current two_tasks = 0" by (simp add: two_tasks_def blank_kernel_def)
  obtain p n s1 where s1: "timer_irq two_tasks = Inr (Some (p, n), s1)" "tick_ok [0x100, 0x200] two_tasks (Some (p, n), s1)"
    "cpu_current s1 = 0x100"
    using timer_irq_idle [OF two_tasks_inv c] c by (auto simp: tick_ok_def split: option.splits)
  obtain r' s' where s': "cpu_switch_to p n undefined s1 = Inr (r', s')" using cpu_switch_to_returns by blast
  have "cpu_current s' = 0x100" using cpu_switch_to_keeps [OF s'] s1(2,3) by (auto simp: tick_ok_def)
  moreover have st: "sched_step two_tasks s'" using sched_step.switch s1(1) s' by blast
  moreover have "sched_step\<^sup>*\<^sup>* two_tasks s'" using st by blast
  ultimately show ?thesis using sched_invariant [OF _ two_tasks_inv] by blast
qed

section \<open>Switching away and back\<close>

definition some_regs :: regs where
  "some_regs = \<lparr>r_rsp = 0x9000, r_rip = 0, r_rbp = 0, r_rbx = 0, r_r12 = 0, r_r13 = 0, r_r14 = 0, r_r15 = 0\<rparr>"

definition running_tasks :: kstate where
  "running_tasks = two_tasks\<lparr>cpu_current := 0x100, tss_rsp0 := 0x2000\<rparr>"

lemma running_tasks_ok: "sched_inv [0x100, 0x200] running_tasks" "sched_ready running_tasks"
  using two_tasks_inv
  by (simp_all add: running_tasks_def sched_inv_def cpu_runs_def sched_ready_def two_tasks_def blank_kernel_def PAGE_SIZE_def)

lemma regions_offset:
  assumes "m \<le> d" and "d + n \<le> 2 ^ 64"
  shows "region a m \<inter> region (a + of_nat d) n = {}"
proof -
  have "a + of_nat i \<noteq> a + of_nat d + of_nat j" if "i < m" "j < n" for i j
  proof -
    have "unat (of_nat i :: u64) = i" "unat (of_nat (d + j) :: u64) = d + j"
      using that assms by (simp_all add: unat_of_nat del: of_nat_add)
    then have "(of_nat i :: u64) \<noteq> of_nat (d + j)" using that assms by (metis not_le trans_le_add1 less_le_trans less_irrefl)
    then show ?thesis by (simp add: add.assoc)
  qed
  then show ?thesis by (auto simp: region_def)
qed

lemma region_shift_sub: "k + n \<le> m \<Longrightarrow> region (a + of_nat k) n \<subseteq> region a m"
proof
  fix x
  assume h: "k + n \<le> m" "x \<in> region (a + of_nat k) n"
  then obtain i where "i < n" "x = a + of_nat (k + i)" by (auto simp: region_def add.assoc)
  then show "x \<in> region a m" using h(1) by (auto simp: region_def intro!: image_eqI [of _ _ "k + i"])
qed

lemma store_words_outside: "x \<notin> region a (8 * length ws) \<Longrightarrow> store_words a ws m x = m x"
proof (induction ws arbitrary: a m)
  case (Cons w ws)
  have "region (a + of_nat 8) (8 * length ws) \<subseteq> region a (8 * length (w # ws))" "region (a + of_nat 0) 8 \<subseteq> region a (8 * length (w # ws))"
    by (rule region_shift_sub, simp)+
  then have "x \<notin> region (a + 8) (8 * length ws)" "x \<notin> region a 8" using Cons.prems by auto
  then show ?case using Cons.IH [of "a + 8"] by (simp add: wr64_outside)
qed simp

lemma rd64_store_words:
  "i < length ws \<Longrightarrow> 8 * length ws \<le> 2 ^ 64 \<Longrightarrow> rd64 (store_words a ws m) (a + 8 * of_nat i) = ws ! i"
proof (induction ws arbitrary: a m i)
  case (Cons w ws)
  show ?case
  proof (cases i)
    case 0
    have "region a 8 \<inter> region (a + of_nat 8) (8 * length ws) = {}"
      using Cons.prems(2) by (intro regions_offset) auto
    then have "rd64 (store_words (a + 8) ws (wr64 a w m)) a = rd64 (wr64 a w m) a"
      by (intro rd64_cong store_words_outside) auto
    then show ?thesis using 0 by (simp add: rd64_wr64_same)
  next
    case (Suc j)
    then show ?thesis using Cons.IH [of j "a + 8" "wr64 a w m"] Cons.prems by (simp add: algebra_simps)
  qed
qed simp

lemma switch_words:
  assumes "m = store_words (r_rsp r - 48) [r_r15 r, r_r14 r, r_r13 r, r_r12 r, r_rbx r, r_rbp r] m0" and "sp = r_rsp r - 48"
  shows "rd64 m sp = r_r15 r" "rd64 m (sp + 8) = r_r14 r" "rd64 m (sp + 16) = r_r13 r" "rd64 m (sp + 24) = r_r12 r"
    "rd64 m (sp + 32) = r_rbx r" "rd64 m (sp + 40) = r_rbp r" "rd64 m (sp + 48) = rd64 m0 (r_rsp r)"
proof -
  let ?ws = "[r_r15 r, r_r14 r, r_r13 r, r_r12 r, r_rbx r, r_rbp r]"
  have w: "rd64 m (sp + 8 * of_nat i) = ?ws ! i" if "i < 6" for i
    unfolding assms using that by (intro rd64_store_words) simp_all
  show "rd64 m sp = r_r15 r" "rd64 m (sp + 8) = r_r14 r" "rd64 m (sp + 16) = r_r13 r" "rd64 m (sp + 24) = r_r12 r"
    "rd64 m (sp + 32) = r_rbx r" "rd64 m (sp + 40) = r_rbp r"
    using w [of 0] w [of 1] w [of 2] w [of 3] w [of 4] w [of 5] by simp_all
  have "region sp 48 \<inter> region (sp + of_nat 48) 8 = {}" by (rule regions_offset) simp_all
  then have "rd64 m (sp + 48) = rd64 m0 (sp + 48)"
    unfolding assms by (intro rd64_cong store_words_outside) auto
  then show "rd64 m (sp + 48) = rd64 m0 (r_rsp r)" by (simp add: assms(2))
qed

text \<open>
  C19: switching away from a task and back is a round trip: with the seven words it left on its stack
  untouched in between, the task continues at its return address with its stack pointer and all
  callee-saved registers as they were, whatever ran in the meantime.
\<close>

theorem switch_back_restores:
  assumes "cpu_switch_to p n r s = Inr (r1, s1)" and "p \<noteq> n"
    and "t_kstack (tasks s2 p) = t_kstack (tasks s1 p)" and "\<And>x. x \<in> region (r_rsp r - 48) 56 \<Longrightarrow> kram s2 x = kram s1 x"
    and "region (r_rsp r2 - 48) 48 \<inter> region (r_rsp r - 48) 56 = {}"
  shows "\<exists>s3. cpu_switch_to n p r2 s2 = Inr (r\<lparr>r_rsp := r_rsp r + 8, r_rip := rd64 (kram s) (r_rsp r)\<rparr>, s3)"
proof -
  let ?m = "store_words (r_rsp r - 48) [r_r15 r, r_r14 r, r_r13 r, r_r12 r, r_rbx r, r_rbp r] (kram s)"
  have k: "kram s1 = ?m" "t_kstack (tasks s1 p) = r_rsp r - 48"
    using assms(1) by (auto simp: cpu_switch_to_def set_kram_def kram_def kpa_def upd_pa_def)
  let ?m2 = "store_words (r_rsp r2 - 48) [r_r15 r2, r_r14 r2, r_r13 r2, r_r12 r2, r_rbx r2, r_rbp r2] (kram s2)"
  have e: "?m2 x = ?m x" if "x \<in> region (r_rsp r - 48) 56" for x
    using that assms(4) [OF that] assms(5) k(1) by (subst store_words_outside) auto
  have rd: "rd64 ?m2 (r_rsp r - 48 + of_nat j) = rd64 ?m (r_rsp r - 48 + of_nat j)" if "j \<le> 48" for j
    using region_shift_sub [of j 8 56 "r_rsp r - 48"] that e by (intro rd64_cong) auto
  have "rd64 ?m2 (r_rsp r - 48) = r_r15 r" "rd64 ?m2 (r_rsp r - 48 + 8) = r_r14 r" "rd64 ?m2 (r_rsp r - 48 + 16) = r_r13 r"
    "rd64 ?m2 (r_rsp r - 48 + 24) = r_r12 r" "rd64 ?m2 (r_rsp r - 48 + 32) = r_rbx r" "rd64 ?m2 (r_rsp r - 48 + 40) = r_rbp r"
    "rd64 ?m2 (r_rsp r - 48 + 48) = rd64 (kram s) (r_rsp r)"
    using rd [of 0] rd [of 8] rd [of 16] rd [of 24] rd [of 32] rd [of 40] rd [of 48] switch_words [of ?m r "kram s", OF refl refl]
    by (simp_all only: of_nat_numeral of_nat_0 add_0_right) simp_all
  then show ?thesis
    using assms(2,3) k(2)
    by (simp add: cpu_switch_to_def set_kram_def kram_def kpa_def upd_pa_def)
qed

theorem switch_back_restores_witness:
  "\<exists>r1 s1 s3. cpu_switch_to 0x100 0x200 some_regs running_tasks = Inr (r1, s1) \<and>
    cpu_switch_to 0x200 0x100 (some_regs\<lparr>r_rsp := 0x5000\<rparr>) s1 = Inr (some_regs\<lparr>r_rsp := 0x9008, r_rip := rd64 (kram running_tasks) 0x9000\<rparr>, s3)"
proof -
  obtain r1 s1 where s1: "cpu_switch_to 0x100 0x200 some_regs running_tasks = Inr (r1, s1)"
    using cpu_switch_to_returns by blast
  have d: "region (r_rsp (some_regs\<lparr>r_rsp := 0x5000\<rparr>) - 48) 48 \<inter> region (r_rsp some_regs - 48) 56 = {}"
    by (rule regions_apart) (simp_all add: some_regs_def)
  have r: "r_rsp some_regs = 0x9000" by (simp add: some_regs_def)
  show ?thesis
    using s1 switch_back_restores [OF s1 _ refl refl d] unfolding r by auto
qed

text \<open>
  A task that has been switched away once gets the wrong stack for interrupts from user mode: the
  switch saves the stack pointer in the field \<open>kstack\<close>, and from then on the scheduler sets up
  an address 8 KiB above that stack pointer, which is outside of the kernel stack unless the stack was
  empty to its last byte.
\<close>

theorem switch_overwrites_kstack:
  assumes "cpu_switch_to p n r s = Inr (r1, s1)" and "p \<noteq> 0" and "base = t_kstack (tasks s p)"
    and "unat base + 48 < unat (r_rsp r)" and "unat (r_rsp r) \<le> unat base + 0x2000" and "unat base + 0x4000 < 2 ^ 64"
  shows "\<exists>s2. cpu_schedule q p s1 = Inr ((), s2) \<and> tss_rsp0 s2 > base + 0x2000"
proof -
  have k: "t_kstack (tasks s1 p) = r_rsp r - 48" using assms(1) by (auto simp: cpu_switch_to_def)
  have u: "unat (base + 0x2000) = unat base + 0x2000" using assms(6) by (simp add: unat_add_no_overflow)
  have d: "unat (r_rsp r - 48) = unat (r_rsp r) - 48" using assms(4) by (simp add: unat_sub word_le_nat_alt)
  then have "unat ((r_rsp r - 48) + 0x2000) = unat (r_rsp r) - 48 + 0x2000" using assms(4-6) d by (simp add: unat_add_no_overflow)
  then have "base + 0x2000 < (r_rsp r - 48) + 0x2000" using assms(4) u by (simp add: word_less_nat_alt)
  then show ?thesis using k assms(2) by (simp add: cpu_schedule_def PAGE_SIZE_def)
qed

theorem switch_overwrites_kstack_witness:
  "\<exists>r1 s1 s2. cpu_switch_to 0x100 0x200 (some_regs\<lparr>r_rsp := 0x1800\<rparr>) running_tasks = Inr (r1, s1) \<and>
    cpu_schedule 0x200 0x100 s1 = Inr ((), s2) \<and> tss_rsp0 s2 > 0x2000"
proof -
  obtain r1 s1 where s1: "cpu_switch_to 0x100 0x200 (some_regs\<lparr>r_rsp := 0x1800\<rparr>) running_tasks = Inr (r1, s1)"
    using cpu_switch_to_returns by blast
  have b: "0 = t_kstack (tasks running_tasks 0x100)" by (simp add: running_tasks_def two_tasks_def blank_kernel_def)
  show ?thesis using s1 switch_overwrites_kstack [OF s1 _ b, of "0x200"] by auto
qed

section \<open>One register file for each task\<close>

text \<open>
  What the tasks may expect of the scheduler: each has its own registers, and they change only while it runs. A round of the abstract
  machine is a piece of work of the running task, which does what it likes to its own registers, or a timer interrupt, which hands the
  processor to the next task of the queue. Before the switch the task has called \<open>cpu_switch_to\<close>: the return takes one word
  from its stack.
\<close>

type_synonym rr_state = "nat \<times> (nat \<Rightarrow> regs)"

definition after_call :: "regs \<Rightarrow> regs" where
  "after_call r = r\<lparr>r_rsp := r_rsp r + 8\<rparr>"

definition rr_tick :: "nat \<Rightarrow> rr_state \<Rightarrow> rr_state" where
  "rr_tick n = (\<lambda>(i, R). (Suc i mod n, if n = 1 then R else R(i := after_call (R i))))"

definition rr_work :: "rr_state \<Rightarrow> rr_state \<Rightarrow> bool" where
  "rr_work = (\<lambda>(i, R) (j, R'). j = i \<and> (\<forall>k. k \<noteq> i \<longrightarrow> R' k = R k))"

inductive rr_run :: "nat \<Rightarrow> nat \<Rightarrow> rr_state \<Rightarrow> rr_state \<Rightarrow> bool" for n :: nat where
  rr_start: "rr_run n 0 a a"
| rr_works: "rr_run n k a b \<Longrightarrow> rr_work b c \<Longrightarrow> rr_run n k a c"
| rr_ticks: "rr_run n k a b \<Longrightarrow> rr_run n (Suc k) a (rr_tick n b)"

lemma rr_run_index:
  assumes "rr_run n k a b" and "fst a < n"
  shows "fst b = (fst a + k) mod n"
  using assms
proof induction
  case (rr_works k a b c)
  then show ?case by (auto simp: rr_work_def split_beta)
next
  case (rr_ticks k a b)
  then show ?case by (simp add: rr_tick_def split_beta mod_Suc_eq)
qed simp

text \<open>A machine that works and is interrupted \<open>k\<close> times.\<close>

inductive interrupted_run :: "('c \<Rightarrow> 'c res) \<Rightarrow> ('c \<Rightarrow> bool) \<Rightarrow> ('c \<Rightarrow> 'c \<Rightarrow> bool) \<Rightarrow> nat \<Rightarrow> 'c \<Rightarrow> 'c \<Rightarrow> bool"
  for tick :: "'c \<Rightarrow> 'c res" and interruptible :: "'c \<Rightarrow> bool" and work :: "'c \<Rightarrow> 'c \<Rightarrow> bool" where
  run_start: "interrupted_run tick interruptible work 0 c c"
| run_works: "interrupted_run tick interruptible work k c d \<Longrightarrow> work d e \<Longrightarrow> interrupted_run tick interruptible work k c e"
| run_ticks: "interrupted_run tick interruptible work k c d \<Longrightarrow> interruptible d \<Longrightarrow> tick d = Inr e \<Longrightarrow>
    interrupted_run tick interruptible work (Suc k) c e"

text \<open>
  A scheduler that gives each task this: a relation to the abstract machine that interrupts and the work of the running task keep.
  Runs of it are then runs of the abstract machine, and no interrupt on the way fails.
\<close>

locale task_switching =
  fixes sim :: "rr_state \<Rightarrow> 'c \<Rightarrow> bool" and n :: nat
    and tick :: "'c \<Rightarrow> 'c res" and interruptible :: "'c \<Rightarrow> bool" and work :: "'c \<Rightarrow> 'c \<Rightarrow> bool"
  assumes tick_sim: "sim a c \<Longrightarrow> interruptible c \<Longrightarrow> \<exists>c'. tick c = Inr c' \<and> sim (rr_tick n a) c'"
    and work_sim: "sim a c \<Longrightarrow> work c c' \<Longrightarrow> \<exists>a'. rr_work a a' \<and> sim a' c'"
begin

lemma run_sim:
  assumes "interrupted_run tick interruptible work k c d" and "sim a c"
  shows "\<exists>b. rr_run n k a b \<and> sim b d"
  using assms
proof (induction rule: interrupted_run.induct)
  case (run_start c)
  then show ?case using rr_start by blast
next
  case (run_works k c d e)
  then show ?case using work_sim rr_works by blast
next
  case (run_ticks k c d e)
  then obtain b where b: "rr_run n k a b" "sim b d" by blast
  then obtain c' where "tick d = Inr c'" "sim (rr_tick n b) c'" using tick_sim run_ticks.hyps(2) by blast
  then show ?case using run_ticks.hyps(3) rr_ticks [OF b(1)] by (intro exI [of _ "rr_tick n b"]) simp
qed

lemma run_progress:
  "interrupted_run tick interruptible work k c d \<Longrightarrow> sim a c \<Longrightarrow> interruptible d \<Longrightarrow> \<exists>e. tick d = Inr e"
  using run_sim tick_sim by blast

end

text \<open>A timer interrupt of the processor: the handler, and the switch of stacks it may end in, from registers to registers.\<close>

definition timer_tick :: "regs \<times> kstate \<Rightarrow> (regs \<times> kstate) res" where
  "timer_tick = (\<lambda>(r, s). bind_res (timer_irq s) (\<lambda>(sw, s1). case sw of
         None \<Rightarrow> Inr (r, s1)
       | Some (p, n) \<Rightarrow> cpu_switch_to p n r s1))"

text \<open>
  The registers \<open>c\<close> of a task that does not run: the word the switch loads as its stack pointer, which is the field
  \<open>kstack\<close>, points to the six saved registers and the address the task continues at.
\<close>

definition switched_out :: "kstate \<Rightarrow> u64 \<Rightarrow> regs \<Rightarrow> bool" where
  "switched_out s t c \<longleftrightarrow> (let sp = t_kstack (tasks s t) in
     c = \<lparr>r_rsp = sp + 56, r_rip = rd64 (kram s) (sp + 48), r_rbp = rd64 (kram s) (sp + 40), r_rbx = rd64 (kram s) (sp + 32),
       r_r12 = rd64 (kram s) (sp + 24), r_r13 = rd64 (kram s) (sp + 16), r_r14 = rd64 (kram s) (sp + 8), r_r15 = rd64 (kram s) sp\<rparr>)"

text \<open>The kernel stacks, two pages each, given by their lowest addresses; the running task has called \<open>cpu_switch_to\<close> on its own.\<close>

abbreviation kstack_of :: "(u64 \<Rightarrow> u64) \<Rightarrow> u64 \<Rightarrow> u64 set" where
  "kstack_of base t \<equiv> region (base t) 0x2000"

definition stacks_apart :: "u64 list \<Rightarrow> (u64 \<Rightarrow> u64) \<Rightarrow> bool" where
  "stacks_apart ts base \<longleftrightarrow> (\<forall>t \<in> set ts. \<forall>u \<in> set ts. t \<noteq> u \<longrightarrow> kstack_of base t \<inter> kstack_of base u = {})"

definition at_switch :: "(u64 \<Rightarrow> u64) \<Rightarrow> regs \<times> kstate \<Rightarrow> bool" where
  "at_switch base = (\<lambda>(r, s). region (r_rsp r - 48) 56 \<subseteq> kstack_of base (cpu_current s) \<and> rd64 (kram s) (r_rsp r) = r_rip r)"

text \<open>
  What the code of the running task may do between two interrupts: anything to its registers, to its own stack and to the rest of memory,
  but not to the stacks of the others and to the scheduler.
\<close>

definition task_work :: "u64 list \<Rightarrow> (u64 \<Rightarrow> u64) \<Rightarrow> regs \<times> kstate \<Rightarrow> regs \<times> kstate \<Rightarrow> bool" where
  "task_work ts base = (\<lambda>(r, s) (r', s'). klinks s' = klinks s \<and> cpu_idle_task s' = cpu_idle_task s \<and> cpu_current s' = cpu_current s \<and>
     tss_rsp0 s' = tss_rsp0 s \<and> cr3 (ps s') = cr3 (ps s) \<and> mm_pgtable s' = mm_pgtable s \<and> sched_ready s' = sched_ready s \<and>
     (\<forall>t \<in> set ts. t_kstack (tasks s' t) = t_kstack (tasks s t) \<and> t_mm (tasks s' t) = t_mm (tasks s t)) \<and>
     (\<forall>t \<in> set ts. t \<noteq> cpu_current s \<longrightarrow> (\<forall>x \<in> kstack_of base t. kram s' x = kram s x)))"

definition sched_sim :: "u64 list \<Rightarrow> (u64 \<Rightarrow> u64) \<Rightarrow> rr_state \<Rightarrow> regs \<times> kstate \<Rightarrow> bool" where
  "sched_sim ts base = (\<lambda>(i, R) (r, s). stacks_apart ts base \<and> sched_inv ts s \<and> sched_ready s \<and> i < length ts \<and> cpu_current s = ts ! i \<and> R i = r \<and>
     (\<forall>j < length ts. j \<noteq> i \<longrightarrow> switched_out s (ts ! j) (R j) \<and> region (t_kstack (tasks s (ts ! j))) 56 \<subseteq> kstack_of base (ts ! j)))"

lemma switched_out_cong:
  assumes "switched_out s t c" and "t_kstack (tasks s' t) = t_kstack (tasks s t)"
    and "\<And>x. x \<in> region (t_kstack (tasks s t)) 56 \<Longrightarrow> kram s' x = kram s x"
  shows "switched_out s' t c"
proof -
  have "rd64 (kram s') (t_kstack (tasks s t) + of_nat j) = rd64 (kram s) (t_kstack (tasks s t) + of_nat j)" if "j \<le> 48" for j
    using region_shift_sub [of j 8 56 "t_kstack (tasks s t)"] that assms(3) by (intro rd64_cong) auto
  from this [of 0] this [of 8] this [of 16] this [of 24] this [of 32] this [of 40] this [of 48]
  show ?thesis using assms(1,2) by (simp add: switched_out_def Let_def)
qed

lemma schedule_frame:
  assumes "schedule s = Inr (sw, s')"
  shows "kram s' = kram s" and "t_kstack (tasks s' t) = t_kstack (tasks s t)"
    and "sw = Some (p, n) \<Longrightarrow> cpu_current s \<noteq> 0 \<Longrightarrow> p = cpu_current s"
proof -
  obtain q s1 where "sched_pick_next_task s = Inr (q, s1)" using assms by (auto simp: schedule_def kbind_Inr_iff)
  then have "sched_pick_next_task s = Inr (q, s)" using pick_keeps by metis
  from schedule_eq [OF this refl refl] assms
  show "kram s' = kram s" "t_kstack (tasks s' t) = t_kstack (tasks s t)" "sw = Some (p, n) \<Longrightarrow> cpu_current s \<noteq> 0 \<Longrightarrow> p = cpu_current s"
    by (auto split: if_splits)
qed

lemma timer_irq_frame:
  assumes "timer_irq s = Inr (sw, s')"
  shows "kram s' = kram s" and "t_kstack (tasks s' t) = t_kstack (tasks s t)"
    and "sw = Some (p, n) \<Longrightarrow> cpu_current s \<noteq> 0 \<Longrightarrow> p = cpu_current s"
  using assms schedule_frame [of "after_irq s" sw s'] by (auto simp: timer_irq_eq split: if_splits)

text \<open>The switch: the registers of the task that is left are saved, those of the other one are loaded, the rest keeps theirs.\<close>

lemma cpu_switch_to_saves:
  assumes "p \<noteq> n" and "switched_out s n c" and "region (r_rsp r - 48) 48 \<inter> region (t_kstack (tasks s n)) 56 = {}" and "rd64 (kram s) (r_rsp r) = r_rip r"
  shows "\<exists>s'. cpu_switch_to p n r s = Inr (c, s') \<and> switched_out s' p (after_call r) \<and> t_kstack (tasks s' p) = r_rsp r - 48 \<and>
    (\<forall>t. t \<noteq> p \<longrightarrow> t_kstack (tasks s' t) = t_kstack (tasks s t)) \<and> (\<forall>x. x \<notin> region (r_rsp r - 48) 48 \<longrightarrow> kram s' x = kram s x)"
proof -
  let ?m = "store_words (r_rsp r - 48) [r_r15 r, r_r14 r, r_r13 r, r_r12 r, r_rbx r, r_rbp r]"
  let ?s = "upd_task p (\<lambda>k. k\<lparr>t_kstack := r_rsp r - 48\<rparr>) (set_kram ?m s)"
  have k: "kram ?s = ?m (kram s)" "tasks ?s = (tasks s)(p := (tasks s p)\<lparr>t_kstack := r_rsp r - 48\<rparr>)"
    by (simp_all add: set_kram_def upd_pa_def kram_def kpa_def)
  have o: "?m (kram s) x = kram s x" if "x \<notin> region (r_rsp r - 48) 48" for x
    using that by (intro store_words_outside) simp
  have "switched_out ?s n c" by (rule switched_out_cong [OF assms(2)]) (use assms(1,3) o k in auto)
  then have "cpu_switch_to p n r s = Inr (c, ?s)"
    by (simp add: cpu_switch_to_def switched_out_def Let_def)
  moreover have "switched_out ?s p (after_call r)"
    using switch_words [of "kram ?s" r "kram s" "r_rsp r - 48"] k assms(4) by (simp add: switched_out_def Let_def after_call_def)
  ultimately show ?thesis using k o by (intro exI [of _ ?s]) simp
qed

lemma sched_sim_tick:
  assumes sim: "sched_sim ts base a c" and at: "at_switch base c"
  shows "\<exists>c'. timer_tick c = Inr c' \<and> sched_sim ts base (rr_tick (length ts) a) c'"
proof -
  obtain i R r s where ac: "a = (i, R)" "c = (r, s)" by (cases a, cases c)
  have ap: "stacks_apart ts base" and inv: "sched_inv ts s" "sched_ready s" "i < length ts" "cpu_current s = ts ! i" "R i = r"
    and sv: "\<And>j. j < length ts \<Longrightarrow> j \<noteq> i \<Longrightarrow> switched_out s (ts ! j) (R j) \<and> region (t_kstack (tasks s (ts ! j))) 56 \<subseteq> kstack_of base (ts ! j)"
    using sim by (auto simp: sched_sim_def ac)
  let ?j = "Suc i mod length ts"
  have d: "distinct ts" "0 \<notin> set ts" using sched_invD [OF inv(1)] by blast+
  have lt: "?j < length ts" using inv(3) by (intro mod_less_divisor) linarith
  have c0: "cpu_current s \<noteq> 0" using inv(3,4) d(2) by (metis nth_mem)
  obtain sw s1 where t: "timer_irq s = Inr (sw, s1)" "tick_ok ts s (sw, s1)" "cpu_current s1 = ts ! ?j"
    using timer_irq_running [OF inv(1,3,4)] inv(2) rr_next_mod [OF inv(3)] by auto
  note fr = timer_irq_frame [OF t(1)]
  have sv1: "switched_out s1 (ts ! j) (R j)" if "j < length ts" "j \<noteq> i" for j
    by (rule switched_out_cong [OF conjunct1 [OF sv [OF that]]]) (simp_all only: fr(1,2))
  show ?thesis
  proof (cases sw)
    case None
    then have "ts ! ?j = ts ! i" using t(2,3) inv(4) by (simp add: tick_ok_def)
    then have e: "?j = i" using inv(3) lt nth_eq_iff_index_eq [OF d(1)] by blast
    then have "length ts = 1" using inv(3) by (cases "Suc i = length ts") auto
    then show ?thesis using None t(1,2) inv(2-5) ap by (simp add: ac timer_tick_def rr_tick_def sched_sim_def tick_ok_def)
  next
    case (Some pn)
    obtain p n where pn: "pn = (p, n)" by (cases pn)
    have p: "p = ts ! i" "n = ts ! ?j" "p \<noteq> n" "sched_inv ts s1" "sched_ready s1"
      using fr(3) c0 t Some pn inv by (auto simp: tick_ok_def)
    have ji: "?j \<noteq> i" using p by auto
    have st: "region (r_rsp r - 48) 48 \<subseteq> kstack_of base (ts ! i)" "rd64 (kram s) (r_rsp r) = r_rip r"
      using at region_shift_sub [of 0 48 56 "r_rsp r - 48"] inv(4) by (auto simp: at_switch_def ac)
    have dis: "region (r_rsp r - 48) 48 \<inter> region (t_kstack (tasks s (ts ! j))) 56 = {}" if "j < length ts" "j \<noteq> i" for j
    proof -
      have "kstack_of base (ts ! i) \<inter> kstack_of base (ts ! j) = {}"
        using ap inv(3) that nth_eq_iff_index_eq [OF d(1)] by (auto simp: stacks_apart_def)
      then show ?thesis using st(1) sv [OF that] by blast
    qed
    obtain s2 where s2: "cpu_switch_to p n r s1 = Inr (R ?j, s2)" "switched_out s2 p (after_call r)" "t_kstack (tasks s2 p) = r_rsp r - 48"
      "\<And>t. t \<noteq> p \<Longrightarrow> t_kstack (tasks s2 t) = t_kstack (tasks s1 t)" "\<And>x. x \<notin> region (r_rsp r - 48) 48 \<Longrightarrow> kram s2 x = kram s1 x"
      using cpu_switch_to_saves [OF p(3), of s1 "R ?j" r] sv1 [OF lt ji] dis [OF lt ji] fr st(2) p(2) by auto
    have k: "sched_inv ts s2 \<and> cpu_current s2 = cpu_current s1 \<and> sched_ready s2 = sched_ready s1"
      by (rule cpu_switch_to_keeps [OF s2(1) _ p(4)]) (use t(3) p in simp)
    have n1: "length ts \<noteq> 1" using ji inv(3) by auto
    have o: "switched_out s2 (ts ! j) (R j) \<and> region (t_kstack (tasks s2 (ts ! j))) 56 \<subseteq> kstack_of base (ts ! j)" if j: "j < length ts" "j \<noteq> i" for j
    proof -
      have "ts ! j \<noteq> p" using p(1) j inv(3) nth_eq_iff_index_eq [OF d(1)] by auto
      moreover have "kram s2 x = kram s1 x" if "x \<in> region (t_kstack (tasks s1 (ts ! j))) 56" for x
        using that dis [OF j] s2(5) [of x] fr(2) by auto
      ultimately show ?thesis using switched_out_cong [OF sv1 [OF j]] s2(4) sv [OF j] fr(2) by auto
    qed
    have "region (t_kstack (tasks s2 (ts ! i))) 56 \<subseteq> kstack_of base (ts ! i)"
      using at s2(3) p(1) inv(4) by (auto simp: at_switch_def ac)
    then have "sched_sim ts base (?j, R(i := after_call r)) (R ?j, s2)"
      using ap k p(5) lt t(3) ji o s2(2) p(1) by (auto simp: sched_sim_def)
    then show ?thesis using t(1) Some pn s2(1) n1 inv(5) by (auto simp: ac timer_tick_def rr_tick_def)
  qed
qed

lemma sched_sim_work:
  assumes sim: "sched_sim ts base a c" and w: "task_work ts base c c'"
  shows "\<exists>a'. rr_work a a' \<and> sched_sim ts base a' c'"
proof -
  obtain i R r s r' s' where ac: "a = (i, R)" "c = (r, s)" "c' = (r', s')" by (cases a, cases c, cases c')
  have ap: "stacks_apart ts base" and inv: "sched_inv ts s" "sched_ready s" "i < length ts" "cpu_current s = ts ! i"
    and sv: "\<And>j. j < length ts \<Longrightarrow> j \<noteq> i \<Longrightarrow> switched_out s (ts ! j) (R j) \<and> region (t_kstack (tasks s (ts ! j))) 56 \<subseteq> kstack_of base (ts ! j)"
    using sim by (auto simp: sched_sim_def ac)
  have "sched_inv ts s'" by (rule sched_inv_cong [OF inv(1)]) (use w in \<open>auto simp: task_work_def ac\<close>)
  moreover have "switched_out s' (ts ! j) (R j) \<and> region (t_kstack (tasks s' (ts ! j))) 56 \<subseteq> kstack_of base (ts ! j)" if j: "j < length ts" "j \<noteq> i" for j
  proof -
    have "ts ! j \<noteq> cpu_current s" "ts ! j \<in> set ts"
      using j inv(3,4) sched_invD(5) [OF inv(1)] by (auto simp: nth_eq_iff_index_eq)
    then have "t_kstack (tasks s' (ts ! j)) = t_kstack (tasks s (ts ! j))" "\<And>x. x \<in> kstack_of base (ts ! j) \<Longrightarrow> kram s' x = kram s x"
      using w by (auto simp: task_work_def ac)
    then show ?thesis using switched_out_cong [of s "ts ! j" "R j" s'] sv [OF j] by auto
  qed
  ultimately have "sched_sim ts base (i, R(i := r')) c'" using ap inv w by (auto simp: sched_sim_def task_work_def ac)
  then show ?thesis by (intro exI [of _ "(i, R(i := r'))"]) (simp add: rr_work_def ac)
qed

interpretation rr: task_switching "sched_sim ts base" "length ts" timer_tick "at_switch base" "task_work ts base" for ts base
  by unfold_locales (rule sched_sim_tick sched_sim_work; assumption)+

text \<open>
  C7: the scheduler gives each queued task its own registers and the processor in turn. Take a machine in which the tasks that do not run are
  saved on their own kernel stacks, and let it go through any sequence of work of the running task (which leaves the other stacks and the scheduler alone) and
  \<open>k\<close> timer interrupts that find the running task on its own stack. The run is one of the abstract machine: the task that runs then is the
  \<open>(i + k) mod n\<close>-th of the queue, it has the registers it was last switched away with, down to the address it continues at, and the other
  tasks are saved as before; a further interrupt returns as well. A task that has never run counts as saved with what its
  stack holds at its lowest address (see \<open>fresh_task_enters_null\<close>).
\<close>

theorem schedule_round_robin:
  assumes "sched_sim ts base (i, R) (r, s)" and "interrupted_run timer_tick (at_switch base) (task_work ts base) k (r, s) (r', s')"
  shows "\<exists>R'. rr_run (length ts) k (i, R) ((i + k) mod length ts, R') \<and> sched_sim ts base ((i + k) mod length ts, R') (r', s') \<and>
    (at_switch base (r', s') \<longrightarrow> (\<exists>c. timer_tick (r', s') = Inr c))"
proof -
  obtain b where b: "rr_run (length ts) k (i, R) b" "sched_sim ts base b (r', s')" using rr.run_sim [OF assms(2,1)] by blast
  have "i < length ts" using assms(1) by (simp add: sched_sim_def)
  then have "fst b = (i + k) mod length ts" using rr_run_index [OF b(1)] by simp
  then have "b = ((i + k) mod length ts, snd b)" by (metis prod.collapse)
  then show ?thesis using b rr.run_progress [OF assms(2,1)] by metis
qed

text \<open>Two tasks with stacks of their own; the second was switched away when its stack pointer was \<^verbatim>\<open>0xffff800000302138\<close>.\<close>

definition two_bases :: "u64 \<Rightarrow> u64" where
  "two_bases t = (if t = 0x100 then 0xffff800000300000 else 0xffff800000302000)"

definition two_stacks :: kstate where
  "two_stacks = running_tasks\<lparr>tasks := (\<lambda>t. (tasks running_tasks t)\<lparr>t_kstack := if t = 0x100 then 0xffff800000300000 else 0xffff800000302100\<rparr>),
     tss_rsp0 := 0xffff800000302000\<rparr>"

definition switch_regs :: regs where
  "switch_regs = some_regs\<lparr>r_rsp := 0xffff800000301f00, r_rip := rd64 (kram two_stacks) 0xffff800000301f00\<rparr>"

definition two_files :: "nat \<Rightarrow> regs" where
  "two_files j = (if j = 0 then switch_regs else (let m = kram two_stacks; sp = 0xffff800000302100 in
     \<lparr>r_rsp = sp + 56, r_rip = rd64 m (sp + 48), r_rbp = rd64 m (sp + 40), r_rbx = rd64 m (sp + 32),
       r_r12 = rd64 m (sp + 24), r_r13 = rd64 m (sp + 16), r_r14 = rd64 m (sp + 8), r_r15 = rd64 m sp\<rparr>))"

lemma region_sub:
  assumes "unat b \<le> unat a" and "unat a + n \<le> unat b + m" and "unat b + m \<le> 2 ^ 64"
  shows "region a n \<subseteq> region b m"
proof -
  have "a = b + of_nat (unat a - unat b)" using assms(1) by (simp add: of_nat_diff)
  then show ?thesis using region_shift_sub [of "unat a - unat b" n m b] assms(1,2) by simp
qed

lemma two_stacks_apart: "stacks_apart [0x100, 0x200] two_bases"
  using regions_apart [of "0xffff800000300000" "0x2000" "0xffff800000302000" "0x2000"] by (auto simp: stacks_apart_def two_bases_def Int_commute)

lemma two_stacks_fields:
  "sched_inv [0x100, 0x200] two_stacks" "sched_ready two_stacks" "cpu_current two_stacks = 0x100"
  "t_kstack (tasks two_stacks 0x200) = 0xffff800000302100"
  using running_tasks_ok
  by (simp_all add: two_stacks_def sched_inv_def cpu_runs_def sched_ready_def running_tasks_def two_tasks_def blank_kernel_def PAGE_SIZE_def)

lemma two_stacks_sim: "sched_sim [0x100, 0x200] two_bases (0, two_files) (switch_regs, two_stacks)"
proof -
  have "region (0xffff800000302100 :: u64) 56 \<subseteq> region 0xffff800000302000 0x2000" by (rule region_sub) simp_all
  then have "switched_out two_stacks 0x200 (two_files 1) \<and> region (t_kstack (tasks two_stacks 0x200)) 56 \<subseteq> kstack_of two_bases 0x200"
    by (simp add: two_stacks_fields switched_out_def two_files_def two_bases_def Let_def)
  moreover have "j = 1" if "j < length [0x100 :: u64, 0x200]" "j \<noteq> 0" for j using that by simp
  ultimately show ?thesis
    using two_stacks_apart two_stacks_fields(1-3) by (auto simp: sched_sim_def two_files_def)
qed

lemma two_stacks_at: "at_switch two_bases (switch_regs, two_stacks)"
proof -
  have "region (0xffff800000301f00 - 48 :: u64) 56 \<subseteq> region 0xffff800000300000 0x2000" by (rule region_sub) simp_all
  then show ?thesis using two_stacks_fields(3) by (simp add: at_switch_def switch_regs_def two_bases_def)
qed

theorem schedule_round_robin_witness:
  "\<exists>r' s'. interrupted_run timer_tick (at_switch two_bases) (task_work [0x100, 0x200] two_bases) 1 (switch_regs, two_stacks) (r', s') \<and>
    cpu_current s' = 0x200 \<and> r_rsp r' = 0xffff800000302138"
proof -
  obtain r' s' where t: "timer_tick (switch_regs, two_stacks) = Inr (r', s')" "r' = two_files 1"
    using sched_sim_tick [OF two_stacks_sim two_stacks_at] by (auto simp: rr_tick_def sched_sim_def)
  have run: "interrupted_run timer_tick (at_switch two_bases) (task_work [0x100, 0x200] two_bases) 1 (switch_regs, two_stacks) (r', s')"
    unfolding One_nat_def by (rule run_ticks, rule run_start, rule two_stacks_at, rule t(1))
  obtain R' where "sched_sim [0x100, 0x200] two_bases ((0 + 1) mod length [0x100 :: u64, 0x200], R') (r', s')"
    using schedule_round_robin [OF two_stacks_sim run] by blast
  then have "cpu_current s' = 0x200" by (simp add: sched_sim_def)
  moreover have "r_rsp r' = 0xffff800000302138" by (simp add: t(2) two_files_def Let_def)
  ultimately show ?thesis using run by blast
qed

text \<open>
  A task that has never run is not entered at its function. \<open>create_task\<close> makes \<open>kstack\<close> the lowest address of pages that the
  allocator has cleared, and \<open>mk_kernel_task\<close> puts the address of the function at the other end, where \<open>ksp\<close> points; the switch reads
  \<open>kstack\<close>, and continues at address 0.
\<close>

theorem fresh_task_enters_null:
  assumes "p \<noteq> t" and "t_kstack (tasks s t) = b" and "\<And>x. x \<in> region b 56 \<Longrightarrow> kram s x = 0"
    and "region (r_rsp r - 48) 48 \<inter> region b 56 = {}" and "rd64 (kram s) (r_rsp r) = r_rip r"
  shows "\<exists>s'. cpu_switch_to p t r s = Inr (\<lparr>r_rsp = b + 56, r_rip = 0, r_rbp = 0, r_rbx = 0, r_r12 = 0, r_r13 = 0, r_r14 = 0, r_r15 = 0\<rparr>, s')"
proof -
  have "rd64 (kram s) (b + of_nat j) = rd64 (\<lambda>_. 0) (b + of_nat j)" if "j \<le> 48" for j
    using region_shift_sub [of j 8 56 b] that assms(3) by (intro rd64_cong) auto
  moreover have "rd64 (\<lambda>_. 0) x = 0" for x by (rule bit_word_eqI) (simp add: bit_rd64)
  ultimately have z: "rd64 (kram s) (b + of_nat j) = 0" if "j \<le> 48" for j using that by simp
  from z [of 0] z [of 8] z [of 16] z [of 24] z [of 32] z [of 40] z [of 48]
  have "switched_out s t \<lparr>r_rsp = b + 56, r_rip = 0, r_rbp = 0, r_rbx = 0, r_r12 = 0, r_r13 = 0, r_r14 = 0, r_r15 = 0\<rparr>"
    using assms(2) by (simp add: switched_out_def)
  then show ?thesis using cpu_switch_to_saves [OF assms(1)] assms(2,4,5) by blast
qed

section \<open>Entering a task\<close>

text \<open>
  \<open>__iret_context_switch\<close> of \<^verbatim>\<open>jmp_user.s\<close>: it skips the interrupt number, pops the general registers and ends in
  \<^verbatim>\<open>iretq\<close>, which pops the remaining five words. The result is the state the processor continues with.
\<close>

definition iret_context_switch :: "mem \<Rightarrow> u64 \<Rightarrow> arch_x86_cpu_state" where
  "iret_context_switch m frame =
     (let w = (\<lambda>i. rd64 m (frame + 8 + 8 * of_nat i)) in
      \<lparr>c_rip = w 15, c_cs = w 16, c_ss = w 19, c_rflags = w 17, c_rsp = w 18, c_rdi = w 8, c_rsi = w 9, c_rbp = w 10, c_rbx = w 11,
       c_rdx = w 12, c_rcx = w 13, c_rax = w 14, c_r8 = w 0, c_r9 = w 1, c_r10 = w 2, c_r11 = w 3, c_r12 = w 4, c_r13 = w 5,
       c_r14 = w 6, c_r15 = w 7\<rparr>)"

lemma iret_store_words: "iret_context_switch (store_words (frame + 8) (frame_words c) m) frame = c"
proof -
  have w: "rd64 (store_words (frame + 8) (frame_words c) m) (frame + 8 + 8 * of_nat i) = frame_words c ! i" if "i < 20" for i
    using that by (intro rd64_store_words) (simp_all add: frame_words_def)
  show ?thesis
    using w w [of 0] w [of 1]
    by (simp add: iret_context_switch_def Let_def frame_words_def del: store_words.simps of_nat_numeral)
qed

text \<open>
  C20: what a context switch puts on the kernel stack is what the processor takes from it: when the switch to the
  current task is prepared, returning through the frame loads exactly the saved state of the task, all twenty
  registers of it, with the task's own stack for later interrupts.
\<close>

theorem context_switch_loads_state:
  assumes "cpu_current s = t" and "t \<noteq> 0" and "t_cpu_state (tasks s t) = c" and "c \<noteq> 0"
  shows "\<exists>frame s'. cpu_context_switch 0 s = Inr ((c_ss (cpu_states s c), frame), s') \<and>
    frame = t_ksp (tasks s t) - 168 \<and> iret_context_switch (kram s') frame = cpu_states s c \<and>
    tss_rsp0 s' = t_kstack (tasks s t) + 0x2000"
proof -
  let ?f = "t_ksp (tasks s t) - sizeof_interrupt_frame + 8"
  let ?s = "set_kram (store_words (?f + 8) (frame_words (cpu_states s c))) (s\<lparr>tss_rsp0 := t_kstack (tasks s t) + PAGE_SIZE * 2\<rparr>)"
  have r: "cpu_context_switch 0 s = Inr ((c_ss (cpu_states s c), ?f), ?s)"
    using assms by (simp add: cpu_context_switch_def Let_def)
  have "kram ?s = store_words (?f + 8) (frame_words (cpu_states s c)) (kram s)"
    by (simp add: set_kram_def kram_def kpa_def upd_pa_def)
  then have "iret_context_switch (kram ?s) ?f = cpu_states s c" by (simp only: iret_store_words)
  moreover have "?f = t_ksp (tasks s t) - 168" by (simp add: sizeof_interrupt_frame_def)
  moreover have "tss_rsp0 ?s = t_kstack (tasks s t) + 0x2000" by (simp add: set_kram_def upd_pa_def PAGE_SIZE_def)
  ultimately show ?thesis using r by metis
qed

definition new_user_task :: kstate where
  "new_user_task = (running_tasks\<lparr>tasks := (tasks running_tasks)(0x100 := (tasks running_tasks 0x100)\<lparr>t_kstack := 0xffff800000300000,
       t_ksp := 0xffff800000302000, t_cpu_state := 0x700\<rparr>),
     cpu_states := (\<lambda>_. zero_cpu_state\<lparr>c_rip := 0x401000, c_cs := 0x1b, c_ss := 0x23\<rparr>)\<rparr>)"

theorem context_switch_loads_state_witness:
  "\<exists>frame s'. cpu_context_switch 0 new_user_task = Inr ((0x23, frame), s') \<and> c_rip (iret_context_switch (kram s') frame) = 0x401000 \<and>
    c_cs (iret_context_switch (kram s') frame) = 0x1b \<and> frame = 0xffff800000301f58"
proof -
  have "cpu_current new_user_task = 0x100" "t_cpu_state (tasks new_user_task 0x100) = 0x700"
    "cpu_states new_user_task 0x700 = zero_cpu_state\<lparr>c_rip := 0x401000, c_cs := 0x1b, c_ss := 0x23\<rparr>"
    "t_ksp (tasks new_user_task 0x100) = 0xffff800000302000"
    by (simp_all add: new_user_task_def running_tasks_def)
  then show ?thesis using context_switch_loads_state [of new_user_task "0x100" "0x700"] by auto
qed

end
