(* ===== verification/Ntoa.thy ===== *)
theory Ntoa
  imports Kstring
begin

text \<open>
  Formatted output, the bottom: the output functions and the conversion of integers of \<^verbatim>\<open>kernel/printk.c\<close>.
  Counters of type \<open>size_t\<close> are natural numbers: no output has \<open>2 ^ 64\<close> characters.
\<close>

section \<open>Output functions\<close>

record out_state =
  o_mem :: mem
  o_console :: "u8 list"      \<comment> \<open>the characters given to \<open>_putchar\<close>\<close>
  o_fct :: "u8 list"          \<comment> \<open>the characters given to the function of \<open>fctprintf\<close>\<close>

datatype out_fct = OutBuffer u64 | OutNull | OutChar | OutFct

fun out :: "out_fct \<Rightarrow> u8 \<Rightarrow> nat \<Rightarrow> nat \<Rightarrow> out_state \<Rightarrow> out_state" where
  "out (OutBuffer buffer) c idx maxlen st =
     (if idx < maxlen then st\<lparr>o_mem := (o_mem st)(buffer + of_nat idx := c)\<rparr> else st)"
| "out OutNull c idx maxlen st = st"
| "out OutChar c idx maxlen st = (if c \<noteq> 0 then st\<lparr>o_console := o_console st @ [c]\<rparr> else st)"
| "out OutFct c idx maxlen st = (if c \<noteq> 0 then st\<lparr>o_fct := o_fct st @ [c]\<rparr> else st)"

definition quiet :: out_state where
  "quiet = \<lparr>o_mem = (\<lambda>_. 0), o_console = [], o_fct = []\<rparr>"

text \<open>A run of calls \<open>out(c, buffer, idx++, maxlen)\<close>.\<close>

fun emit :: "out_fct \<Rightarrow> nat \<Rightarrow> u8 list \<Rightarrow> nat \<times> out_state \<Rightarrow> nat \<times> out_state" where
  "emit f maxlen [] x = x"
| "emit f maxlen (c # cs) (idx, st) = emit f maxlen cs (Suc idx, out f c idx maxlen st)"

section \<open>Flags\<close>

definition FLAGS_ZEROPAD :: u32 where "FLAGS_ZEROPAD = push_bit 0 1"
definition FLAGS_LEFT :: u32 where "FLAGS_LEFT = push_bit 1 1"
definition FLAGS_PLUS :: u32 where "FLAGS_PLUS = push_bit 2 1"
definition FLAGS_SPACE :: u32 where "FLAGS_SPACE = push_bit 3 1"
definition FLAGS_HASH :: u32 where "FLAGS_HASH = push_bit 4 1"
definition FLAGS_UPPERCASE :: u32 where "FLAGS_UPPERCASE = push_bit 5 1"
definition FLAGS_CHAR :: u32 where "FLAGS_CHAR = push_bit 6 1"
definition FLAGS_SHORT :: u32 where "FLAGS_SHORT = push_bit 7 1"
definition FLAGS_LONG :: u32 where "FLAGS_LONG = push_bit 8 1"
definition FLAGS_LONG_LONG :: u32 where "FLAGS_LONG_LONG = push_bit 9 1"
definition FLAGS_PRECISION :: u32 where "FLAGS_PRECISION = push_bit 10 1"
definition FLAGS_ADAPT_EXP :: u32 where "FLAGS_ADAPT_EXP = push_bit 11 1"

lemmas flag_defs = FLAGS_ZEROPAD_def FLAGS_LEFT_def FLAGS_PLUS_def FLAGS_SPACE_def FLAGS_HASH_def FLAGS_UPPERCASE_def
  FLAGS_CHAR_def FLAGS_SHORT_def FLAGS_LONG_def FLAGS_LONG_LONG_def FLAGS_PRECISION_def FLAGS_ADAPT_EXP_def

definition has :: "u32 \<Rightarrow> u32 \<Rightarrow> bool" where
  "has flags f \<longleftrightarrow> flags AND f \<noteq> 0"

section \<open>Helpers\<close>

definition strnlen_s :: "u8 list \<Rightarrow> nat \<Rightarrow> nat" where
  "strnlen_s str maxsize = min (length str) maxsize mod 2 ^ 32"

definition is_digit :: "u8 \<Rightarrow> bool" where
  "is_digit c \<longleftrightarrow> chr (CHR ''0'') \<le> c \<and> c \<le> chr (CHR ''9'')"

fun atoi :: "u8 list \<Rightarrow> u32 \<Rightarrow> u32 \<times> u8 list" where
  "atoi [] i = (i, [])"
| "atoi (c # cs) i = (if is_digit c then atoi cs (i * 10 + (ucast c - ucast (chr (CHR ''0'')))) else (i, c # cs))"

definition spaces :: "nat \<Rightarrow> u8 list" where
  "spaces n = replicate n (chr (CHR '' ''))"

text \<open>The buffer holds the characters in reverse; \<open>buf\<close> is its first \<open>len\<close> characters.\<close>

definition out_rev :: "out_fct \<Rightarrow> nat \<Rightarrow> u8 list \<Rightarrow> u32 \<Rightarrow> u32 \<Rightarrow> nat \<times> out_state \<Rightarrow> nat \<times> out_state" where
  "out_rev f maxlen buf width flags x =
     (let pre = (if \<not> has flags FLAGS_LEFT \<and> \<not> has flags FLAGS_ZEROPAD then spaces (unat width - length buf) else []);
          x1 = emit f maxlen (rev buf) (emit f maxlen pre x)
      in if has flags FLAGS_LEFT then emit f maxlen (spaces (unat width - (fst x1 - fst x))) x1 else x1)"

section \<open>Integers\<close>

definition PRINTF_NTOA_BUFFER_SIZE :: nat where "PRINTF_NTOA_BUFFER_SIZE = 32"

definition pad_zeros :: "nat \<Rightarrow> u8 list \<Rightarrow> u8 list" where
  "pad_zeros n buf = buf @ replicate (min n PRINTF_NTOA_BUFFER_SIZE - length buf) (chr (CHR ''0''))"

text \<open>\<open>buf[len++] = c\<close> when there is room.\<close>

definition push_char :: "u8 \<Rightarrow> u8 list \<Rightarrow> u8 list" where
  "push_char c buf = (if length buf < PRINTF_NTOA_BUFFER_SIZE then buf @ [c] else buf)"

definition ntoa_width :: "bool \<Rightarrow> u32 \<Rightarrow> u32 \<Rightarrow> u32" where
  "ntoa_width negative width flags =
     (if \<not> has flags FLAGS_LEFT \<and> width \<noteq> 0 \<and> has flags FLAGS_ZEROPAD \<and>
         (negative \<or> has flags (FLAGS_PLUS OR FLAGS_SPACE))
      then width - 1 else width)"

definition ntoa_pad :: "u8 list \<Rightarrow> u32 \<Rightarrow> u32 \<Rightarrow> u32 \<Rightarrow> u8 list" where
  "ntoa_pad buf prec width flags =
     (if has flags FLAGS_LEFT then buf
      else let b = pad_zeros (unat prec) buf in if has flags FLAGS_ZEROPAD then pad_zeros (unat width) b else b)"

definition ntoa_hash :: "u8 list \<Rightarrow> u32 \<Rightarrow> u32 \<Rightarrow> u32 \<Rightarrow> u32 \<Rightarrow> u8 list" where
  "ntoa_hash buf base prec width flags =
     (if has flags FLAGS_HASH then
        let len = length buf;
            b = (if \<not> has flags FLAGS_PRECISION \<and> len \<noteq> 0 \<and> (len = unat prec \<or> len = unat width)
                 then (let b1 = butlast buf in if b1 \<noteq> [] \<and> base = 16 then butlast b1 else b1) else buf);
            b2 = (if base = 16 \<and> \<not> has flags FLAGS_UPPERCASE then push_char (chr (CHR ''x'')) b
                  else if base = 16 then push_char (chr (CHR ''X'')) b
                  else if base = 2 then push_char (chr (CHR ''b'')) b
                  else b)
        in push_char (chr (CHR ''0'')) b2
      else buf)"

definition ntoa_sign :: "bool \<Rightarrow> u8 list \<Rightarrow> u32 \<Rightarrow> u8 list" where
  "ntoa_sign negative buf flags =
     (if negative then push_char (chr (CHR ''-'')) buf
      else if has flags FLAGS_PLUS then push_char (chr (CHR ''+'')) buf
      else if has flags FLAGS_SPACE then push_char (chr (CHR '' '')) buf
      else buf)"

definition ntoa_format ::
    "out_fct \<Rightarrow> nat \<Rightarrow> u8 list \<Rightarrow> bool \<Rightarrow> u32 \<Rightarrow> u32 \<Rightarrow> u32 \<Rightarrow> u32 \<Rightarrow> nat \<times> out_state \<Rightarrow> nat \<times> out_state" where
  "ntoa_format f maxlen buf negative base prec width flags x =
     (let w = ntoa_width negative width flags;
          b1 = ntoa_pad buf prec w flags;
          b2 = ntoa_hash b1 base prec w flags;
          b3 = ntoa_sign negative b2 flags
      in out_rev f maxlen b3 w flags x)"

definition digit_char :: "u64 \<Rightarrow> u32 \<Rightarrow> u8" where
  "digit_char digit flags =
     (if digit < 10 then chr (CHR ''0'') + ucast digit
      else (if has flags FLAGS_UPPERCASE then chr (CHR ''A'') else chr (CHR ''a'')) + ucast digit - 10)"

function ntoa_digits :: "u64 \<Rightarrow> u64 \<Rightarrow> u32 \<Rightarrow> u8 list \<Rightarrow> u8 list" where
  "ntoa_digits value base flags buf =
     (let buf' = buf @ [digit_char (value mod base) flags]; v = value div base
      in if v \<noteq> 0 \<and> length buf' < PRINTF_NTOA_BUFFER_SIZE then ntoa_digits v base flags buf' else buf')"
  by pat_completeness auto
termination
  by (relation "measure (\<lambda>(v, b, fl, buf). PRINTF_NTOA_BUFFER_SIZE - length buf)") auto

declare ntoa_digits.simps [simp del]

definition ntoa_long ::
    "out_fct \<Rightarrow> nat \<Rightarrow> u64 \<Rightarrow> bool \<Rightarrow> u64 \<Rightarrow> u32 \<Rightarrow> u32 \<Rightarrow> u32 \<Rightarrow> nat \<times> out_state \<Rightarrow> nat \<times> out_state" where
  "ntoa_long f maxlen value negative base prec width flags0 x =
     (let flags = (if value = 0 then flags0 AND NOT FLAGS_HASH else flags0);
          buf = (if \<not> has flags FLAGS_PRECISION \<or> value \<noteq> 0 then ntoa_digits value base flags [] else [])
      in ntoa_format f maxlen buf negative (ucast base) prec width flags x)"

text \<open>\<open>long long\<close> has the width of \<open>long\<close>, and the function the same body.\<close>

definition ntoa_long_long ::
    "out_fct \<Rightarrow> nat \<Rightarrow> u64 \<Rightarrow> bool \<Rightarrow> u64 \<Rightarrow> u32 \<Rightarrow> u32 \<Rightarrow> u32 \<Rightarrow> nat \<times> out_state \<Rightarrow> nat \<times> out_state" where
  "ntoa_long_long f maxlen value negative base prec width flags x =
     ntoa_long f maxlen value negative base prec width flags x"

section \<open>The characters an operation prints\<close>

lemma fst_emit [simp]: "fst (emit f m cs x) = fst x + length cs"
  by (induction f m cs x rule: emit.induct) auto

lemma emit_append: "emit f m (as @ bs) x = emit f m bs (emit f m as x)"
proof (induction as arbitrary: x)
  case (Cons a as)
  then show ?case by (cases x) simp
qed simp

lemma emit_Nil [simp]: "emit f m [] x = x"
  by simp

text \<open>
  An operation \<open>emits\<close> if it prints the same characters through every output function, whatever has
  been printed before.
\<close>

definition emits :: "(out_fct \<Rightarrow> nat \<Rightarrow> nat \<times> out_state \<Rightarrow> nat \<times> out_state) \<Rightarrow> u8 list \<Rightarrow> bool" where
  "emits g cs \<longleftrightarrow> (\<forall>f m x. g f m x = emit f m cs x)"

lemma emits_emit: "emits (\<lambda>f m x. emit f m cs x) cs"
  by (simp add: emits_def)

lemma emits_comp: "emits g as \<Longrightarrow> emits h bs \<Longrightarrow> emits (\<lambda>f m x. h f m (g f m x)) (as @ bs)"
  by (simp add: emits_def emit_append del: split_paired_All)

lemma emits_if: "emits g as \<Longrightarrow> emits h bs \<Longrightarrow> emits (\<lambda>f m x. if P then g f m x else h f m x) (if P then as else bs)"
  by (simp add: emits_def)

lemma emits_out_rev:
  "emits (\<lambda>f m x. out_rev f m buf width flags x)
     (let pre = (if \<not> has flags FLAGS_LEFT \<and> \<not> has flags FLAGS_ZEROPAD then spaces (unat width - length buf) else [])
      in pre @ rev buf @ (if has flags FLAGS_LEFT then spaces (unat width - (length pre + length buf)) else []))"
  by (simp add: emits_def out_rev_def Let_def emit_append)

lemma emits_ntoa_long: "\<exists>cs. emits (\<lambda>f m x. ntoa_long f m value neg base prec width flags x) cs"
  unfolding ntoa_long_def ntoa_format_def Let_def using emits_out_rev by blast

lemma emits_ntoa_long_long: "\<exists>cs. emits (\<lambda>f m x. ntoa_long_long f m value neg base prec width flags x) cs"
  unfolding ntoa_long_long_def by (rule emits_ntoa_long)

text \<open>A fault that does not depend on the output, or characters that do not.\<close>

definition uniform_out :: "(out_fct \<Rightarrow> nat \<Rightarrow> nat \<times> out_state \<Rightarrow> (nat \<times> out_state) res) \<Rightarrow> bool" where
  "uniform_out g \<longleftrightarrow> (\<exists>e. \<forall>f m x. g f m x = Inl e) \<or> (\<exists>cs. \<forall>f m x. g f m x = Inr (emit f m cs x))"

lemma uniform_outI: "\<exists>cs. emits g cs \<Longrightarrow> uniform_out (\<lambda>f m x. Inr (g f m x))"
  by (auto simp: uniform_out_def emits_def)

lemma uniform_out_fault: "uniform_out (\<lambda>f m x. Inl e)"
  by (auto simp: uniform_out_def)

lemma uniform_out_if: "uniform_out g \<Longrightarrow> uniform_out h \<Longrightarrow> uniform_out (\<lambda>f m x. if P then g f m x else h f m x)"
  by (cases P) simp_all

end
