(* ===== verification/Double.thy ===== *)
theory Double
  imports Complex_Main "HOL-Library.Word" "HOL-Library.Log_Nat"
begin

text \<open>
  The type \<open>double\<close> of C as the compiler implements it on this machine: IEEE 754 binary64, every operation
  rounded to the nearest number with a 53 bit significand, ties to even. A finite number is the rational
  number it stands for. The sign of a zero is not kept: the code that uses doubles never divides by a zero
  and masks the sign bit wherever it looks at the representation.
\<close>

unbundle bit_operations_syntax

datatype double = NaN | Inf bool | Fin rat     \<comment> \<open>\<open>Inf True\<close> is the negative one\<close>

section \<open>Rounding\<close>

text \<open>The exponent of the leading bit of a positive number.\<close>

definition lg :: "rat \<Rightarrow> int" where
  "lg x = (case quotient_of x of (p, q) \<Rightarrow>
     let e = bitlen p - bitlen q in if 2 powi e \<le> x then e else e - 1)"

text \<open>The exponent of the last bit that is kept; below \<open>2 ^ - 1022\<close> numbers are subnormal.\<close>

definition last_bit :: "rat \<Rightarrow> int" where
  "last_bit x = (if x = 0 then - 1074 else max (lg \<bar>x\<bar> - 52) (- 1074))"

definition round_even :: "rat \<Rightarrow> int" where
  "round_even y = (let f = \<lfloor>y\<rfloor>; d = y - of_int f in
     if d < 1 / 2 \<or> d = 1 / 2 \<and> even f then f else f + 1)"

definition rounded :: "rat \<Rightarrow> rat" where
  "rounded x = of_int (round_even (x / 2 powi last_bit x)) * 2 powi last_bit x"

definition rnd :: "rat \<Rightarrow> double" where
  "rnd x = (if \<bar>rounded x\<bar> < 2 ^ 1024 then Fin (rounded x) else Inf (x < 0))"

section \<open>Operations\<close>

fun dneg :: "double \<Rightarrow> double" where
  "dneg NaN = NaN"
| "dneg (Inf s) = Inf (\<not> s)"
| "dneg (Fin x) = Fin (- x)"

fun dadd :: "double \<Rightarrow> double \<Rightarrow> double" where
  "dadd (Fin x) (Fin y) = rnd (x + y)"
| "dadd (Inf s) (Inf t) = (if s = t then Inf s else NaN)"
| "dadd (Inf s) (Fin y) = Inf s"
| "dadd (Fin x) (Inf t) = Inf t"
| "dadd _ _ = NaN"

definition dsub :: "double \<Rightarrow> double \<Rightarrow> double" where
  "dsub a b = dadd a (dneg b)"

fun dmul :: "double \<Rightarrow> double \<Rightarrow> double" where
  "dmul (Fin x) (Fin y) = rnd (x * y)"
| "dmul (Inf s) (Inf t) = Inf (s \<noteq> t)"
| "dmul (Inf s) (Fin y) = (if y = 0 then NaN else Inf (s \<noteq> (y < 0)))"
| "dmul (Fin x) (Inf t) = (if x = 0 then NaN else Inf ((x < 0) \<noteq> t))"
| "dmul _ _ = NaN"

fun ddiv :: "double \<Rightarrow> double \<Rightarrow> double" where
  "ddiv (Fin x) (Fin y) = (if y = 0 then (if x = 0 then NaN else Inf (x < 0)) else rnd (x / y))"
| "ddiv (Inf s) (Fin y) = Inf (s \<noteq> (y < 0))"
| "ddiv (Fin x) (Inf t) = Fin 0"
| "ddiv _ _ = NaN"

fun dlt :: "double \<Rightarrow> double \<Rightarrow> bool" where
  "dlt (Fin x) (Fin y) = (x < y)"
| "dlt (Inf s) (Fin y) = s"
| "dlt (Fin x) (Inf t) = (\<not> t)"
| "dlt (Inf s) (Inf t) = (s \<and> \<not> t)"
| "dlt _ _ = False"

fun dle :: "double \<Rightarrow> double \<Rightarrow> bool" where
  "dle (Fin x) (Fin y) = (x \<le> y)"
| "dle (Inf s) (Fin y) = s"
| "dle (Fin x) (Inf t) = (\<not> t)"
| "dle (Inf s) (Inf t) = (s \<or> \<not> t)"
| "dle _ _ = False"

section \<open>Conversions\<close>

definition trunc :: "rat \<Rightarrow> int" where
  "trunc x = (if 0 \<le> x then \<lfloor>x\<rfloor> else \<lceil>x\<rceil>)"

text \<open>\<open>(int)d\<close>; the instruction gives the least integer when the result does not fit.\<close>

definition to_int32 :: "double \<Rightarrow> int" where
  "to_int32 d = (case d of Fin x \<Rightarrow> if - (2 ^ 31) \<le> trunc x \<and> trunc x < 2 ^ 31 then trunc x else - (2 ^ 31) | _ \<Rightarrow> - (2 ^ 31))"

text \<open>\<open>(unsigned long)d\<close>\<close>

definition to_uint64 :: "double \<Rightarrow> 64 word" where
  "to_uint64 d = (case d of Fin x \<Rightarrow> if - (2 ^ 63) \<le> trunc x \<and> trunc x < 2 ^ 64 then word_of_int (trunc x) else 2 ^ 63 | _ \<Rightarrow> 2 ^ 63)"

definition of_integer :: "int \<Rightarrow> double" where
  "of_integer n = rnd (of_int n)"

text \<open>The representation: sign, 11 bits of exponent, 52 bits of the significand.\<close>

definition double_of_bits :: "64 word \<Rightarrow> double" where
  "double_of_bits w =
     (let s = bit w 63; e = uint (drop_bit 52 w AND 0x7FF); f = (of_int (uint (w AND mask 52)) :: rat);
          x = (if e = 0 then f * 2 powi (- 1074) else (2 ^ 52 + f) * 2 powi (e - 1075))
      in if e = 2047 then (if f = 0 then Inf s else NaN) else Fin (if s then - x else x))"

definition bits_of_double :: "double \<Rightarrow> 64 word" where
  "bits_of_double d =
     (case d of
        NaN \<Rightarrow> 0x7FF8000000000000
      | Inf s \<Rightarrow> (if s then 0xFFF0000000000000 else 0x7FF0000000000000)
      | Fin x \<Rightarrow>
          let u = last_bit x; n = trunc (\<bar>x\<bar> / 2 powi u)
          in (if x < 0 then 2 ^ 63 else 0) OR
             (if n < 2 ^ 52 then word_of_int n else push_bit 52 (word_of_int (u + 1075)) OR word_of_int (n - 2 ^ 52)))"

section \<open>Rounding is to the nearest\<close>

lemma lg_bounds:
  assumes "0 < x" shows "2 powi lg x \<le> x" and "x < 2 powi (lg x + 1)"
proof -
  obtain p q where pq: "quotient_of x = (p, q)" by fastforce
  have q: "0 < q" by (rule quotient_of_denom_pos [OF pq])
  have x: "x = of_int p / of_int q" by (rule quotient_of_div [OF pq])
  then have p: "0 < p" using assms q by (simp add: zero_less_divide_iff)
  have bnd: "2 powi (bitlen n - 1) \<le> (of_int n :: rat)" "(of_int n :: rat) < 2 powi bitlen n" if "0 < n" for n :: int
  proof -
    have l: "bitlen n = int (nat (bitlen n - 1)) + 1" using bitlen_nonneg [of n] bitlen_eq_zero_iff [of n] that by simp
    have "of_int (2 ^ nat (bitlen n - 1)) \<le> (of_int n :: rat)" "(of_int n :: rat) < of_int (2 ^ nat (bitlen n))"
      using bitlen_bounds [OF that] by (simp_all only: of_int_le_iff of_int_less_iff)
    then show "2 powi (bitlen n - 1) \<le> (of_int n :: rat)" "(of_int n :: rat) < 2 powi bitlen n"
      using l bitlen_nonneg [of n] bitlen_eq_zero_iff [of n] that by (auto simp: power_int_def)
  qed
  let ?e = "bitlen p - bitlen q"
  have "2 powi (bitlen p - 1) / 2 powi bitlen q \<le> x"
    unfolding x using bnd [OF p] bnd [OF q] p q by (intro frac_le) auto
  then have lo: "2 powi (?e - 1) \<le> x" by (simp add: power_int_diff mult.commute)
  have "x < 2 powi bitlen p / 2 powi (bitlen q - 1)"
    unfolding x using bnd [OF p] bnd [OF q] p q by (intro frac_less) auto
  then have hi: "x < 2 powi (?e + 1)" by (simp add: power_int_diff power_int_add mult.commute)
  show "2 powi lg x \<le> x" "x < 2 powi (lg x + 1)"
    using lo hi by (auto simp: lg_def pq Let_def)
qed

lemma round_even_near: "\<bar>of_int (round_even y) - y\<bar> \<le> 1 / 2"
  by (auto simp: round_even_def Let_def abs_if) linarith+

lemma round_even_nearest: "\<bar>of_int (round_even y) - y\<bar> \<le> \<bar>of_int n - y\<bar>"
proof (cases "n = round_even y")
  case False
  then have "1 \<le> \<bar>n - round_even y\<bar>" by arith
  then have "1 \<le> \<bar>of_int n - of_int (round_even y) :: rat\<bar>" by (simp flip: of_int_diff of_int_abs add: of_int_le_iff [of 1, simplified])
  then show ?thesis using round_even_near [of y] by arith
qed simp

text \<open>The numbers of the format, without the bound on the exponent.\<close>

definition is_double :: "rat \<Rightarrow> bool" where
  "is_double d \<longleftrightarrow> (\<exists>n E. d = of_int n * 2 powi E \<and> \<bar>n\<bar> \<le> 2 ^ 53 \<and> - 1074 \<le> E)"

lemma rounded_nearest:
  assumes "is_double d" shows "\<bar>rounded x - x\<bar> \<le> \<bar>d - x\<bar>"
proof -
  let ?u = "2 powi last_bit x :: rat"
  have u: "0 < ?u" by simp
  have grid: "\<bar>rounded x - x\<bar> \<le> \<bar>of_int n * ?u - x\<bar>" for n
  proof -
    have "\<bar>of_int (round_even (x / ?u)) - x / ?u\<bar> * ?u \<le> \<bar>of_int n - x / ?u\<bar> * ?u"
      by (intro mult_right_mono round_even_nearest) simp
    then have "\<bar>(of_int (round_even (x / ?u)) - x / ?u) * ?u\<bar> \<le> \<bar>(of_int n - x / ?u) * ?u\<bar>" by (simp add: abs_mult)
    then show ?thesis by (simp add: rounded_def left_diff_distrib)
  qed
  obtain n E where d: "d = of_int n * 2 powi E" "\<bar>n\<bar> \<le> 2 ^ 53" "- 1074 \<le> E" using assms by (auto simp: is_double_def)
  show ?thesis
  proof (cases "last_bit x \<le> E")
    case True
    then have "d = of_int (n * 2 ^ nat (E - last_bit x)) * ?u"
      using d(1) by (simp add: power_int_diff flip: power_int_of_nat)
    then show ?thesis using grid by metis
  next
    case False
    with d(3) have x0: "x \<noteq> 0" and lb: "last_bit x = lg \<bar>x\<bar> - 52" by (auto simp: last_bit_def split: if_splits)
    have "\<bar>d\<bar> \<le> 2 ^ 53 * 2 powi E"
    proof -
      have "of_int \<bar>n\<bar> \<le> (of_int (2 ^ 53) :: rat)" using d(2) by (simp only: of_int_le_iff)
      then show ?thesis unfolding d(1) abs_mult by (intro mult_mono) simp_all
    qed
    also have "\<dots> \<le> 2 ^ 53 * 2 powi (lg \<bar>x\<bar> - 53)" using False lb by (intro mult_left_mono power_int_increasing) auto
    also have "\<dots> = 2 powi lg \<bar>x\<bar>" by (simp add: power_int_diff)
    finally have dx: "\<bar>d\<bar> \<le> 2 powi lg \<bar>x\<bar>" .
    have px: "2 powi lg \<bar>x\<bar> \<le> \<bar>x\<bar>" using lg_bounds [of "\<bar>x\<bar>"] x0 by simp
    have "of_int (2 ^ 52) * ?u = 2 powi lg \<bar>x\<bar>" by (simp add: lb power_int_diff)
    then have "\<bar>rounded x - x\<bar> \<le> \<bar>(if x < 0 then - (2 powi lg \<bar>x\<bar>) else 2 powi lg \<bar>x\<bar>) - x\<bar>"
      using grid [of "2 ^ 52"] grid [of "- (2 ^ 52)"] by auto
    then show ?thesis using dx px by (auto split: if_splits)
  qed
qed

lemma rounded_is_double: "is_double (rounded x)"
proof -
  have "\<bar>x\<bar> / 2 powi last_bit x < 2 ^ 53"
  proof (cases "x = 0")
    case False
    then have "\<bar>x\<bar> < 2 powi (lg \<bar>x\<bar> + 1)" using lg_bounds [of "\<bar>x\<bar>"] by simp
    also have "\<dots> \<le> 2 powi (last_bit x + 53)" using False by (intro power_int_increasing) (auto simp: last_bit_def)
    finally show ?thesis by (simp add: power_int_add divide_less_eq algebra_simps)
  qed simp
  then have "\<bar>x / 2 powi last_bit x\<bar> < 2 ^ 53" by (simp add: abs_divide)
  then have "\<bar>of_int (round_even (x / 2 powi last_bit x)) :: rat\<bar> < 2 ^ 53 + 1"
    using round_even_near [of "x / 2 powi last_bit x"] by arith
  then have "of_int \<bar>round_even (x / 2 powi last_bit x)\<bar> < (of_int (2 ^ 53 + 1) :: rat)" by simp
  then have "\<bar>round_even (x / 2 powi last_bit x)\<bar> \<le> 2 ^ 53" by (simp only: of_int_less_iff)
  moreover have "- 1074 \<le> last_bit x" by (simp add: last_bit_def)
  ultimately show ?thesis by (auto simp: is_double_def rounded_def)
qed

lemma rounded_exact: "is_double d \<Longrightarrow> rounded d = d"
  using rounded_nearest [of d d] by simp

lemma rounded_ge: "is_double d \<Longrightarrow> d \<le> x \<Longrightarrow> d \<le> rounded x"
  using rounded_nearest [of d x] by arith

lemma rounded_le: "is_double d \<Longrightarrow> x \<le> d \<Longrightarrow> rounded x \<le> d"
  using rounded_nearest [of d x] by arith

lemma rounded_mono: "x \<le> y \<Longrightarrow> rounded x \<le> rounded y"
  using rounded_nearest [OF rounded_is_double [of y], of x] rounded_nearest [OF rounded_is_double [of x], of y]
  by (cases "x = y") (simp, arith)

lemma rounded_error: "\<bar>rounded x - x\<bar> \<le> 2 powi last_bit x / 2"
proof -
  let ?u = "2 powi last_bit x :: rat"
  have "\<bar>of_int (round_even (x / ?u)) - x / ?u\<bar> * ?u \<le> 1 / 2 * ?u"
    by (intro mult_right_mono round_even_near) simp
  then have "\<bar>(of_int (round_even (x / ?u)) - x / ?u) * ?u\<bar> \<le> ?u / 2" by (simp add: abs_mult)
  then show ?thesis by (simp add: rounded_def left_diff_distrib)
qed

section \<open>Exact results\<close>

lemma is_double_int: "\<bar>n\<bar> \<le> 2 ^ 53 \<Longrightarrow> is_double (of_int n)"
  unfolding is_double_def by (rule exI [of _ n], rule exI [of _ 0]) simp

lemma is_double_dyadic: "\<bar>n\<bar> \<le> 2 ^ 53 \<Longrightarrow> k \<le> 1074 \<Longrightarrow> is_double (of_int n / 2 ^ k)"
  unfolding is_double_def
  by (rule exI [of _ n], rule exI [of _ "- int k"]) (simp add: power_int_minus divide_inverse)

lemma rnd_is: "rnd x = Fin y \<longleftrightarrow> y = rounded x \<and> \<bar>rounded x\<bar> < 2 ^ 1024"
  by (auto simp: rnd_def)

lemma rnd_small: "\<bar>x\<bar> \<le> 2 ^ 53 \<Longrightarrow> rnd x = Fin (rounded x)"
proof -
  assume a: "\<bar>x\<bar> \<le> 2 ^ 53"
  have "is_double (2 ^ 53)" "is_double (- (2 ^ 53))" using is_double_int [of "2 ^ 53"] is_double_int [of "- (2 ^ 53)"] by simp_all
  then have "\<bar>rounded x\<bar> \<le> 2 ^ 53" using rounded_le [of "2 ^ 53" x] rounded_ge [of "- (2 ^ 53)" x] a by (auto simp: abs_le_iff)
  also have "(2 :: rat) ^ 53 < 2 ^ 1024" by (intro power_strict_increasing) auto
  finally show ?thesis by (simp add: rnd_def)
qed

lemma rnd_exact: "is_double d \<Longrightarrow> \<bar>d\<bar> < 2 ^ 1024 \<Longrightarrow> rnd d = Fin d"
  by (simp add: rnd_def rounded_exact)

lemma rnd_int: "\<bar>n\<bar> \<le> 2 ^ 53 \<Longrightarrow> rnd (of_int n) = Fin (of_int n)"
proof -
  assume a: "\<bar>n\<bar> \<le> 2 ^ 53"
  then have "of_int \<bar>n\<bar> \<le> (of_int (2 ^ 53) :: rat)" by (simp only: of_int_le_iff)
  then show ?thesis using rnd_small [of "of_int n"] rounded_exact [OF is_double_int [OF a]] by simp
qed

text \<open>The error of one operation whose result is below \<open>2 ^ k\<close>.\<close>

lemma last_bit_le:
  assumes "\<bar>x\<bar> < 2 powi k" and "- 1021 \<le> k" shows "last_bit x \<le> k - 53"
proof (cases "x = 0")
  case True
  then show ?thesis using assms(2) by (simp add: last_bit_def)
next
  case False
  then have "2 powi lg \<bar>x\<bar> < (2 powi k :: rat)" using lg_bounds(1) [of "\<bar>x\<bar>"] assms(1) by simp
  then have "lg \<bar>x\<bar> < k" using power_int_increasing [of k "lg \<bar>x\<bar>" "2 :: rat"] by (meson not_le one_le_numeral)
  then show ?thesis using assms(2) False by (simp add: last_bit_def)
qed

lemma rounded_error_below:
  assumes "\<bar>x\<bar> < 2 powi k" and "- 1021 \<le> k" shows "\<bar>rounded x - x\<bar> \<le> 2 powi (k - 54)"
proof -
  have "\<bar>rounded x - x\<bar> \<le> 2 powi last_bit x / 2" by (rule rounded_error)
  also have "\<dots> \<le> 2 powi (k - 53) / 2" using last_bit_le [OF assms] by (intro divide_right_mono power_int_increasing) auto
  also have "\<dots> = 2 powi (k - 54)" by (simp add: power_int_diff)
  finally show ?thesis .
qed

section \<open>Representations\<close>

lemma masked_bound: "n \<le> 64 \<Longrightarrow> uint (w AND mask n :: 64 word) < 2 ^ n"
  using take_bit_int_less_exp [of n "uint w"] by (simp flip: take_bit_eq_mask add: unsigned_take_bit_eq)

lemma exponent_bound: "uint (drop_bit 52 w AND 0x7FF :: 64 word) < 2048"
  using masked_bound [of 11 "drop_bit 52 w"] by (simp add: mask_numeral)

lemma is_double_minus: "is_double x \<Longrightarrow> is_double (- x)"
proof -
  assume "is_double x"
  then obtain n E where "x = of_int n * 2 powi E" "\<bar>n\<bar> \<le> 2 ^ 53" "- 1074 \<le> E" by (auto simp: is_double_def)
  then show ?thesis unfolding is_double_def by (intro exI [of _ "- n"] exI [of _ E]) simp
qed

lemma double_of_bits_is_double:
  assumes "double_of_bits w = Fin x" shows "is_double x" and "\<bar>x\<bar> < 2 ^ 1024"
proof -
  let ?e = "uint (drop_bit 52 w AND 0x7FF)" and ?f = "uint (w AND mask 52)"
  let ?m = "if ?e = 0 then ?f else 2 ^ 52 + ?f" and ?E = "if ?e = 0 then - 1074 else ?e - 1075"
  have b: "0 \<le> ?f" "?f < 2 ^ 52" "0 \<le> ?e" "?e < 2048" "?e = 0 \<or> 1 \<le> ?e" using masked_bound [of 52 w] exponent_bound [of w] uint_ge_0 [of "drop_bit 52 w AND 0x7FF"] by (simp_all, arith)
  have e: "?e \<noteq> 2047" using assms by (auto simp: double_of_bits_def Let_def split: if_splits)
  have x: "x = (if bit w 63 then - 1 else 1) * (of_int ?m * 2 powi ?E)"
    using assms e by (auto simp: double_of_bits_def Let_def)
  have "is_double (of_int ?m * 2 powi ?E)"
    unfolding is_double_def by (rule exI [of _ ?m], rule exI [of _ ?E]) (use b in auto)
  then show "is_double x" using x is_double_minus by (cases "bit w 63") auto
  have "of_int ?m < (of_int (2 ^ 53) :: rat)" using b by (simp only: of_int_less_iff) auto
  then have "of_int ?m * 2 powi ?E < (2 ^ 53 * 2 powi ?E :: rat)" by (intro mult_strict_right_mono) auto
  also have "\<dots> \<le> 2 ^ 53 * 2 powi 971" using b e by (intro mult_left_mono power_int_increasing) auto
  also have "\<dots> = 2 ^ 1024" by (simp flip: power_add)
  finally have "of_int ?m * 2 powi ?E < (2 ^ 1024 :: rat)" .
  moreover have "0 \<le> of_int ?m * (2 powi ?E :: rat)" using b by simp
  ultimately show "\<bar>x\<bar> < 2 ^ 1024" unfolding x by (cases "bit w 63") (simp_all add: abs_mult)
qed

end
