(* ===== verification/Ftoa.thy ===== *)
theory Ftoa
  imports Ntoa Double
begin

text \<open>
  Formatted output, floating point: \<open>_ftoa\<close> and \<open>_etoa\<close> of \<^verbatim>\<open>kernel/printk.c\<close>, on the doubles of \<^theory_text>\<open>Double\<close>. The
  buffer holds the characters in reverse and \<open>buf\<close> is its first \<open>len\<close> characters.
\<close>

section \<open>Fixed notation\<close>

definition PRINTF_FTOA_BUFFER_SIZE :: nat where "PRINTF_FTOA_BUFFER_SIZE = 32"
definition PRINTF_DEFAULT_FLOAT_PRECISION :: u32 where "PRINTF_DEFAULT_FLOAT_PRECISION = 6"
definition PRINTF_MAX_FLOAT :: double where "PRINTF_MAX_FLOAT = Fin (10 ^ 9)"
definition DBL_MAX :: double where "DBL_MAX = Fin ((2 ^ 53 - 1) * 2 ^ 971)"

definition pow10 :: "double list" where
  "pow10 = map (\<lambda>n. Fin (10 ^ n)) [0..<10]"

text \<open>The first tests: numbers that are printed as words, and those above the limit.\<close>

definition is_special :: "double \<Rightarrow> bool" where
  "is_special value \<longleftrightarrow> value = NaN \<or> dlt value (dneg DBL_MAX) \<or> dlt DBL_MAX value"

definition ftoa_special ::
    "out_fct \<Rightarrow> nat \<Rightarrow> double \<Rightarrow> u32 \<Rightarrow> u32 \<Rightarrow> nat \<times> out_state \<Rightarrow> nat \<times> out_state" where
  "ftoa_special f maxlen value width flags x =
     (if value = NaN then out_rev f maxlen (map chr ''nan'') width flags x
      else if dlt value (dneg DBL_MAX) then out_rev f maxlen (map chr ''fni-'') width flags x
      else out_rev f maxlen (map chr (if has flags FLAGS_PLUS then ''fni+'' else ''fni'')) width flags x)"

definition is_large :: "double \<Rightarrow> bool" where
  "is_large value \<longleftrightarrow> dlt PRINTF_MAX_FLOAT value \<or> dlt value (dneg PRINTF_MAX_FLOAT)"

function limit_prec :: "u32 \<Rightarrow> u8 list \<Rightarrow> u32 \<times> u8 list" where
  "limit_prec prec buf =
     (if length buf < PRINTF_FTOA_BUFFER_SIZE \<and> 9 < prec then limit_prec (prec - 1) (buf @ [chr (CHR ''0'')]) else (prec, buf))"
  by pat_completeness auto
termination
  by (relation "measure (\<lambda>(p, buf). PRINTF_FTOA_BUFFER_SIZE - length buf)") auto

text \<open>
  The number before the point and the digits after it. \<open>whole\<close> is at most \<open>10 ^ 9\<close> before the increments,
  which fit in an \<open>int\<close>.
\<close>

definition ftoa_round :: "double \<Rightarrow> u32 \<Rightarrow> int \<times> u64" where
  "ftoa_round value prec =
     (let whole = to_int32 value;
          tmp = dmul (dsub value (of_integer whole)) (pow10 ! unat prec);
          fract = to_uint64 tmp;
          diff = dsub tmp (of_integer (uint fract))
      in if dlt (Fin (1 / 2)) diff then
           (if dle (pow10 ! unat prec) (of_integer (uint (fract + 1))) then (whole + 1, 0) else (whole, fract + 1))
         else if dlt diff (Fin (1 / 2)) then (whole, fract)
         else if fract = 0 \<or> fract AND 1 \<noteq> 0 then (whole, fract + 1)
         else (whole, fract))"

definition ftoa_round0 :: "double \<Rightarrow> int \<Rightarrow> int" where
  "ftoa_round0 value whole =
     (let diff = dsub value (of_integer whole)
      in if (\<not> dlt diff (Fin (1 / 2)) \<or> dlt (Fin (1 / 2)) diff) \<and> odd whole then whole + 1 else whole)"

function ftoa_frac :: "u64 \<Rightarrow> u32 \<Rightarrow> u8 list \<Rightarrow> u32 \<times> u8 list" where
  "ftoa_frac fract count buf =
     (if length buf < PRINTF_FTOA_BUFFER_SIZE then
        let buf' = buf @ [48 + ucast (fract mod 10)] in
        if fract div 10 = 0 then (count - 1, buf') else ftoa_frac (fract div 10) (count - 1) buf'
      else (count, buf))"
  by pat_completeness auto
termination
  by (relation "measure (\<lambda>(fr, c, buf). PRINTF_FTOA_BUFFER_SIZE - length buf)") auto

function ftoa_zeros :: "u32 \<Rightarrow> u8 list \<Rightarrow> u8 list" where
  "ftoa_zeros count buf =
     (if length buf < PRINTF_FTOA_BUFFER_SIZE \<and> 0 < count then ftoa_zeros (count - 1) (buf @ [chr (CHR ''0'')]) else buf)"
  by pat_completeness auto
termination
  by (relation "measure (\<lambda>(c, buf). PRINTF_FTOA_BUFFER_SIZE - length buf)") auto

function ftoa_whole :: "int \<Rightarrow> u8 list \<Rightarrow> u8 list" where
  "ftoa_whole whole buf =
     (if length buf < PRINTF_FTOA_BUFFER_SIZE then
        let buf' = buf @ [word_of_int (48 + whole mod 10)] in
        if whole div 10 = 0 then buf' else ftoa_whole (whole div 10) buf'
      else buf)"
  by pat_completeness auto
termination
  by (relation "measure (\<lambda>(w, buf). PRINTF_FTOA_BUFFER_SIZE - length buf)") auto

declare limit_prec.simps [simp del] ftoa_frac.simps [simp del] ftoa_zeros.simps [simp del] ftoa_whole.simps [simp del]

text \<open>The digits in the buffer, for a number that is not negative; \<open>buf\<close> and \<open>prec\<close> are those \<open>limit_prec\<close> leaves.\<close>

definition ftoa_point :: "u64 \<Rightarrow> u32 \<Rightarrow> u8 list \<Rightarrow> u8 list" where
  "ftoa_point fract prec buf =
     (case ftoa_frac fract prec buf of (count, b1) \<Rightarrow>
        let b2 = ftoa_zeros count b1 in if length b2 < PRINTF_FTOA_BUFFER_SIZE then b2 @ [chr (CHR ''.'')] else b2)"

definition ftoa_digits :: "double \<Rightarrow> u32 \<Rightarrow> u8 list \<Rightarrow> u8 list" where
  "ftoa_digits value prec buf =
     (case ftoa_round value prec of (whole, fract) \<Rightarrow>
        if prec = 0 then ftoa_whole (ftoa_round0 value whole) buf
        else ftoa_whole whole (ftoa_point fract prec buf))"

text \<open>The rest of \<open>_ftoa\<close>, with a fault where \<open>pow10\<close> has no element.\<close>

definition ftoa_fixed ::
    "out_fct \<Rightarrow> nat \<Rightarrow> double \<Rightarrow> u32 \<Rightarrow> u32 \<Rightarrow> u32 \<Rightarrow> nat \<times> out_state \<Rightarrow> (nat \<times> out_state) res" where
  "ftoa_fixed f maxlen value prec width flags x =
     (let negative = dlt value (Fin 0);
          v = (if negative then dsub (Fin 0) value else value)
      in case limit_prec (if has flags FLAGS_PRECISION then prec else PRINTF_DEFAULT_FLOAT_PRECISION) [] of (p, buf) \<Rightarrow>
        if unat p \<ge> length pow10 then Inl OutOfBounds
        else
          let b1 = ftoa_digits v p buf;
              w = ntoa_width negative width flags;
              b2 = (if \<not> has flags FLAGS_LEFT \<and> has flags FLAGS_ZEROPAD then pad_zeros (unat w) b1 else b1);
              b3 = ntoa_sign negative b2 flags
          in Inr (out_rev f maxlen b3 w flags x))"

section \<open>Exponential notation\<close>

text \<open>A literal is the double nearest to it.\<close>

definition lit :: "rat \<Rightarrow> double" where "lit = rnd"

text \<open>\<open>exp(z)\<close> by a continued fraction.\<close>

definition exp_fraction :: "double \<Rightarrow> double" where
  "exp_fraction z =
     (let z2 = dmul z z
      in dadd (Fin 1) (ddiv (dmul (Fin 2) z)
           (dadd (dsub (Fin 2) z) (ddiv z2 (dadd (Fin 6) (ddiv z2 (dadd (Fin 10) (ddiv z2 (Fin 14)))))))))"

text \<open>The decimal exponent, estimated from the binary representation of a number that is not negative.\<close>

definition etoa_log10 :: "double \<Rightarrow> int" where
  "etoa_log10 value =
     (let U = bits_of_double value;
          exp2 = uint (drop_bit 52 U AND 0x7FF) - 1023;
          F = double_of_bits ((U AND (2 ^ 52 - 1)) OR push_bit 52 1023)
      in to_int32 (dadd (dadd (lit (1760912590558 / 10 ^ 13)) (dmul (of_integer exp2) (lit (301029995663981 / 10 ^ 15))))
           (dmul (dsub F (Fin (3 / 2))) (lit (289529654602168 / 10 ^ 15)))))"

text \<open>Ten to the power of it.\<close>

definition etoa_exp2 :: "int \<Rightarrow> int" where
  "etoa_exp2 expval = to_int32 (dadd (dmul (of_integer expval) (lit (3321928094887362 / 10 ^ 15))) (Fin (1 / 2)))"

definition etoa_pow10 :: "int \<Rightarrow> double" where
  "etoa_pow10 expval =
     (let exp2 = etoa_exp2 expval;
          z = dsub (dmul (of_integer expval) (lit (2302585092994046 / 10 ^ 15)))
                   (dmul (of_integer exp2) (lit (6931471805599453 / 10 ^ 16)))
      in dmul (double_of_bits (push_bit 52 (word_of_int (exp2 + 1023)))) (exp_fraction z))"

definition etoa_scale :: "double \<Rightarrow> int \<times> double" where
  "etoa_scale value =
     (let expval = etoa_log10 value; F = etoa_pow10 expval
      in if dlt value F then (expval - 1, ddiv F (Fin 10)) else (expval, F))"

text \<open>The choice \<open>%g\<close> makes: precision, flags, characters of the exponent, exponent.\<close>

definition etoa_adapt :: "double \<Rightarrow> int \<Rightarrow> u32 \<Rightarrow> u32 \<Rightarrow> u32 \<times> u32 \<times> u32 \<times> int" where
  "etoa_adapt value expval prec flags =
     (let minwidth = (if expval < 100 \<and> - 100 < expval then 4 else 5)
      in if has flags FLAGS_ADAPT_EXP then
           (if dle (lit (1 / 10 ^ 4)) value \<and> dlt value (Fin (10 ^ 6)) then
              (if expval < sint prec then word_of_int (sint prec - expval - 1) else 0, flags OR FLAGS_PRECISION, 0, 0)
            else (if 0 < prec \<and> has flags FLAGS_PRECISION then prec - 1 else prec, flags, minwidth, expval))
         else (prec, flags, minwidth, expval))"

definition etoa_fwidth :: "u32 \<Rightarrow> u32 \<Rightarrow> u32 \<Rightarrow> u32" where
  "etoa_fwidth width minwidth flags =
     (if has flags FLAGS_LEFT \<and> minwidth \<noteq> 0 then 0 else if minwidth < width then width - minwidth else 0)"

definition etoa_exponent ::
    "out_fct \<Rightarrow> nat \<Rightarrow> nat \<Rightarrow> int \<Rightarrow> u32 \<Rightarrow> u32 \<Rightarrow> u32 \<Rightarrow> nat \<times> out_state \<Rightarrow> nat \<times> out_state" where
  "etoa_exponent f maxlen start_idx expval minwidth width flags x =
     (if minwidth \<noteq> 0 then
        let x1 = emit f maxlen [chr (if has flags FLAGS_UPPERCASE then CHR ''E'' else CHR ''e'')] x;
            x2 = ntoa_long f maxlen (word_of_int \<bar>expval\<bar>) (expval < 0) 10 0 (minwidth - 1) (FLAGS_ZEROPAD OR FLAGS_PLUS) x1
        in if has flags FLAGS_LEFT then emit f maxlen (spaces (unat width - (fst x2 - start_idx))) x2 else x2
      else x)"

text \<open>
  \<open>_etoa\<close>, where the call of \<open>_ftoa\<close> is written out: that one calls \<open>_etoa\<close> again for numbers above the limit.
  \<open>None\<close> is a recursion that does not end.
\<close>

partial_function (option) etoa ::
    "out_fct \<Rightarrow> nat \<Rightarrow> double \<Rightarrow> u32 \<Rightarrow> u32 \<Rightarrow> u32 \<Rightarrow> nat \<times> out_state \<Rightarrow> (nat \<times> out_state) res option" where
  "etoa f maxlen value prec width flags x =
     (if is_special value then Some (Inr (ftoa_special f maxlen value width flags x))
      else
        let negative = dlt value (Fin 0);
            v = (if negative then dneg value else value);
            p = (if has flags FLAGS_PRECISION then prec else PRINTF_DEFAULT_FLOAT_PRECISION)
        in case etoa_scale v of (expval0, F) \<Rightarrow>
        case etoa_adapt v expval0 p flags of (p', flags', minwidth, expval) \<Rightarrow>
        let fwidth = etoa_fwidth width minwidth flags';
            v1 = (if expval \<noteq> 0 then ddiv v F else v);
            v2 = (if negative then dneg v1 else v1);
            fl = flags' AND NOT FLAGS_ADAPT_EXP
        in Option.bind
             (if is_special v2 then Some (Inr (ftoa_special f maxlen v2 fwidth fl x))
              else if is_large v2 then etoa f maxlen v2 p' fwidth fl x
              else Some (ftoa_fixed f maxlen v2 p' fwidth fl x))
             (\<lambda>r. Some (case r of Inl e \<Rightarrow> Inl e
                | Inr x' \<Rightarrow> Inr (etoa_exponent f maxlen (fst x) expval minwidth width flags' x'))))"

declare etoa.simps [code]

definition ftoa ::
    "out_fct \<Rightarrow> nat \<Rightarrow> double \<Rightarrow> u32 \<Rightarrow> u32 \<Rightarrow> u32 \<Rightarrow> nat \<times> out_state \<Rightarrow> (nat \<times> out_state) res option" where
  "ftoa f maxlen value prec width flags x =
     (if is_special value then Some (Inr (ftoa_special f maxlen value width flags x))
      else if is_large value then etoa f maxlen value prec width flags x
      else Some (ftoa_fixed f maxlen value prec width flags x))"

section \<open>Decimal notation\<close>

fun dec :: "nat \<Rightarrow> u8 list" where
  "dec n = (if n < 10 then [48 + of_nat n] else dec (n div 10) @ [48 + of_nat (n mod 10)])"

fun dec_pad :: "nat \<Rightarrow> nat \<Rightarrow> u8 list" where
  "dec_pad 0 n = []"
| "dec_pad (Suc k) n = dec_pad k (n div 10) @ [48 + of_nat (n mod 10)]"

declare dec.simps [simp del]

lemma zero_char: "chr (CHR ''0'') = 48"
  by (simp add: chr_def)

lemma dec_pad_zero: "dec_pad k 0 = replicate k 48"
  by (induction k) (simp_all add: replicate_append_same)

lemma u8_digit: "n < 2 ^ 64 \<Longrightarrow> ucast (of_nat n :: 64 word) = (of_nat n :: u8)"
  by (simp add: unsigned_of_nat take_bit_nat_eq_self)

lemma ftoa_zeros_eq: "length buf + unat c \<le> 32 \<Longrightarrow> ftoa_zeros c buf = buf @ replicate (unat c) 48"
proof (induction "unat c" arbitrary: c buf)
  case 0
  then have "c = 0" by (simp add: unat_eq_zero)
  then show ?case by (simp add: ftoa_zeros.simps)
next
  case (Suc k)
  then have c: "0 < c" "unat (c - 1) = k" using unat_eq_zero by (auto simp: unat_sub word_le_nat_alt unat_gt_0 word_gt_0)
  then have "ftoa_zeros (c - 1) (buf @ [48]) = buf @ [48] @ replicate k 48" using Suc.hyps(1) [of "c - 1" "buf @ [48]"] Suc.hyps(2) Suc.prems by simp
  then show ?case using c Suc.hyps(2) Suc.prems by (subst ftoa_zeros.simps) (simp add: PRINTF_FTOA_BUFFER_SIZE_def zero_char flip: Suc.hyps(2))
qed

lemma ftoa_point_eq:
  assumes "n < 10 ^ k" and "unat c = k" and "0 < k" and "length buf + k < 32" and "k < 20"
  shows "case ftoa_frac (of_nat n) c buf of (c', b) \<Rightarrow> ftoa_zeros c' b = buf @ rev (dec_pad k n)"
  using assms
proof (induction k arbitrary: n c buf)
  case (Suc k)
  let ?b = "buf @ [48 + of_nat (n mod 10)]"
  have "(10 :: nat) ^ Suc k \<le> 10 ^ 19" using Suc.prems(5) by (intro power_increasing) auto
  then have n: "n < 2 ^ 64" using Suc.prems(1) by simp
  have w: "of_nat n mod 10 = (of_nat (n mod 10) :: u64)" "of_nat n div 10 = (of_nat (n div 10) :: u64)"
    "ucast (of_nat (n mod 10) :: u64) = (of_nat (n mod 10) :: u8)"
    using n by (simp_all add: word_arith_nat_mod word_arith_nat_div unat_of_nat take_bit_nat_eq_self u8_digit)
  have z: "(of_nat (n div 10) = (0 :: u64)) \<longleftrightarrow> n div 10 = 0"
    using of_nat_inj_u64 [of "n div 10" 0] n by (auto simp: less_mult_imp_div_less)
  have u: "unat (c - 1) = k" using Suc.prems(2) by (simp add: unat_sub word_le_nat_alt)
  show ?case
  proof (cases "n div 10 = 0")
    case True
    then have "ftoa_frac (of_nat n) c buf = (c - 1, ?b)"
      using Suc.prems(4) by (subst ftoa_frac.simps) (simp add: PRINTF_FTOA_BUFFER_SIZE_def Let_def w z u8_digit [OF n] del: of_nat_mod)
    then show ?thesis using True u Suc.prems(4) by (simp add: ftoa_zeros_eq dec_pad_zero)
  next
    case False
    then have "k \<noteq> 0" using Suc.prems(1) by (cases k) auto
    moreover have "n div 10 < 10 ^ k" using Suc.prems(1) by (simp add: less_mult_imp_div_less mult.commute)
    ultimately have "case ftoa_frac (of_nat (n div 10)) (c - 1) ?b of (c', b) \<Rightarrow> ftoa_zeros c' b = ?b @ rev (dec_pad k (n div 10))"
      using Suc.IH [of "n div 10" "c - 1" ?b] u Suc.prems by simp
    moreover have "ftoa_frac (of_nat n) c buf = ftoa_frac (of_nat (n div 10)) (c - 1) ?b"
      using Suc.prems(4) False by (subst ftoa_frac.simps) (simp add: PRINTF_FTOA_BUFFER_SIZE_def Let_def w z u8_digit [OF n] del: of_nat_mod)
    ultimately show ?thesis by simp
  qed
qed simp

lemma ftoa_whole_eq:
  "n < 10 ^ k \<Longrightarrow> 0 < k \<Longrightarrow> length buf + k \<le> 32 \<Longrightarrow> ftoa_whole (int n) buf = buf @ rev (dec n)"
proof (induction k arbitrary: n buf)
  case (Suc k)
  have d: "(word_of_int (48 + int n mod 10) :: u8) = 48 + of_nat (n mod 10)"
    by (metis of_int_of_nat_eq of_nat_add of_nat_mod of_nat_numeral)
  have z: "int n div 10 = int (n div 10)" by (simp add: zdiv_int)
  show ?case
  proof (cases "n < 10")
    case True
    then show ?thesis using Suc.prems by (subst ftoa_whole.simps, subst dec.simps) (simp add: PRINTF_FTOA_BUFFER_SIZE_def Let_def)
  next
    case False
    then have "k \<noteq> 0" using Suc.prems(1) by (cases k) auto
    moreover have "n div 10 < 10 ^ k" using Suc.prems(1) by (simp add: less_mult_imp_div_less mult.commute)
    ultimately have "ftoa_whole (int (n div 10)) (buf @ [48 + of_nat (n mod 10)]) = buf @ rev (dec n)"
      using Suc.IH [of "n div 10" "buf @ [48 + of_nat (n mod 10)]"] Suc.prems False by (simp add: dec.simps [of n])
    then show ?thesis using Suc.prems False d z by (subst ftoa_whole.simps) (simp add: PRINTF_FTOA_BUFFER_SIZE_def Let_def div_eq_0_iff)
  qed
qed simp

section \<open>The rounding of the fraction\<close>

lemma is_double_fraction:
  assumes "is_double v" and "0 \<le> v" shows "is_double (v - of_int \<lfloor>v\<rfloor>)"
proof -
  obtain n E where v: "v = of_int n * 2 powi E" "\<bar>n\<bar> \<le> 2 ^ 53" "- 1074 \<le> E" using assms(1) by (auto simp: is_double_def)
  show ?thesis
  proof (cases "0 \<le> E")
    case True
    then have "v = of_int (n * 2 ^ nat E)" using v(1) by (simp add: power_int_def)
    then have "v - of_int \<lfloor>v\<rfloor> = 0" by (metis floor_of_int right_minus_eq)
    then show ?thesis using is_double_int [of 0] by (simp only: of_int_0) simp
  next
    case False
    let ?n = "n - \<lfloor>v\<rfloor> * 2 ^ nat (- E)"
    have "2 ^ nat (- E) * 2 powi E = (1 :: rat)" using False by (simp add: power_int_def flip: power_mult_distrib)
    then have e: "v - of_int \<lfloor>v\<rfloor> = of_int ?n * 2 powi E" using v(1) by (simp add: left_diff_distrib mult.assoc)
    have pos: "(0 :: rat) < 2 powi E" by simp
    then have n: "0 \<le> n" using assms(2) v(1) by (auto simp add: zero_le_mult_iff simp del: zero_less_power_int)
    have "0 \<le> of_int ?n * (2 powi E :: rat)" using e [symmetric] by (simp add: floor_le_iff [THEN iffD1] of_int_floor_le)
    then have "0 \<le> ?n" using pos by (auto simp add: zero_le_mult_iff simp del: of_int_diff zero_less_power_int)
    moreover have "?n \<le> n" using assms(2) by simp
    ultimately have "\<bar>?n\<bar> \<le> 2 ^ 53" using v(2) n by linarith
    then show ?thesis unfolding is_double_def e using v(3) by blast
  qed
qed

text \<open>The largest double below 1.\<close>

lemma double_below_one:
  assumes "is_double x" and "x < 1" shows "x \<le> 1 - 1 / 2 ^ 53"
proof -
  obtain n E where x: "x = of_int n * 2 powi E" "\<bar>n\<bar> \<le> 2 ^ 53" using assms(1) by (auto simp: is_double_def)
  show ?thesis
  proof (cases "E \<le> - 54")
    case True
    have "x \<le> of_int \<bar>n\<bar> * 2 powi E" unfolding x(1) by (intro mult_right_mono) auto
    also have "\<dots> \<le> of_int (2 ^ 53) * 2 powi (- 54)" using x(2) True by (intro mult_mono power_int_increasing) (auto simp only: of_int_le_iff, auto)
    finally show ?thesis by (simp add: power_int_minus)
  next
    case False
    let ?k = "n * 2 ^ nat (E + 53)"
    have "2 powi E = (2 ^ nat (E + 53) / 2 ^ 53 :: rat)" using False power_int_add [of "2 :: rat" "E + 53" "- 53"] by (simp add: power_int_def power_divide)
    then have k: "x = of_int ?k / 2 ^ 53" using x(1) by simp
    then have "of_int ?k < (of_int (2 ^ 53) :: rat)" using assms(2) by simp
    then have "?k \<le> 2 ^ 53 - 1" by (simp only: of_int_less_iff)
    then have "of_int ?k \<le> (of_int (2 ^ 53 - 1) :: rat)" by (simp only: of_int_le_iff)
    then show ?thesis unfolding k by (simp add: field_simps)
  qed
qed

lemma below_power_of_ten: "p \<in> {1..9} \<Longrightarrow> rounded ((1 - 1 / 2 ^ 53) * 10 ^ p) < 10 ^ p"
proof -
  assume "p \<in> {1..9}"
  then have "p \<in> {1, 2, 3, 4, 5, 6, 7, 8, 9}" by auto
  moreover have "rounded ((1 - 1 / 2 ^ 53) * 10 ^ 1) < 10 ^ 1" "rounded ((1 - 1 / 2 ^ 53) * 10 ^ 2) < 10 ^ 2"
    "rounded ((1 - 1 / 2 ^ 53) * 10 ^ 3) < 10 ^ 3" "rounded ((1 - 1 / 2 ^ 53) * 10 ^ 4) < 10 ^ 4"
    "rounded ((1 - 1 / 2 ^ 53) * 10 ^ 5) < 10 ^ 5" "rounded ((1 - 1 / 2 ^ 53) * 10 ^ 6) < 10 ^ 6"
    "rounded ((1 - 1 / 2 ^ 53) * 10 ^ 7) < 10 ^ 7" "rounded ((1 - 1 / 2 ^ 53) * 10 ^ 8) < 10 ^ 8"
    "rounded ((1 - 1 / 2 ^ 53) * 10 ^ 9) < 10 ^ 9"
    by code_simp+
  ultimately show ?thesis by blast
qed

definition scaled :: "rat \<Rightarrow> nat \<Rightarrow> rat" where
  "scaled v p = rounded ((v - of_int \<lfloor>v\<rfloor>) * 10 ^ p)"

lemma scaled_bounds:
  assumes "is_double v" and "0 \<le> v" and "p \<in> {1..9}" shows "0 \<le> scaled v p" and "scaled v p < 10 ^ p"
proof -
  have f: "0 \<le> v - of_int \<lfloor>v\<rfloor>" "v - of_int \<lfloor>v\<rfloor> < 1" by linarith+
  have "is_double 0" using is_double_int [of 0] by simp
  then show "0 \<le> scaled v p" unfolding scaled_def using f by (intro rounded_ge) auto
  have "v - of_int \<lfloor>v\<rfloor> \<le> 1 - 1 / 2 ^ 53" by (rule double_below_one [OF is_double_fraction [OF assms(1,2)] f(2)])
  then have "scaled v p \<le> rounded ((1 - 1 / 2 ^ 53) * 10 ^ p)"
    unfolding scaled_def by (intro rounded_mono mult_right_mono) auto
  then show "scaled v p < 10 ^ p" using below_power_of_ten [OF assms(3)] by simp
qed

lemma scaled_error:
  assumes "p \<in> {1..9}" shows "\<bar>scaled v p - (v - of_int \<lfloor>v\<rfloor>) * 10 ^ p\<bar> \<le> 1 / 2 ^ 24"
proof -
  have f: "0 \<le> v - of_int \<lfloor>v\<rfloor>" "v - of_int \<lfloor>v\<rfloor> < 1" by linarith+
  have "(v - of_int \<lfloor>v\<rfloor>) * 10 ^ p < 1 * 10 ^ p" using f by (intro mult_strict_right_mono) auto
  also have "\<dots> \<le> 1 * 10 ^ 9" using assms by (intro mult_left_mono power_increasing) auto
  finally have "\<bar>(v - of_int \<lfloor>v\<rfloor>) * 10 ^ p\<bar> < 2 powi 30" using f by (simp add: abs_mult)
  then have "\<bar>scaled v p - (v - of_int \<lfloor>v\<rfloor>) * 10 ^ p\<bar> \<le> 2 powi (30 - 54)"
    unfolding scaled_def by (rule rounded_error_below) simp
  also have "\<dots> = 1 / 2 ^ 24" by (simp add: power_int_def power_divide)
  finally show ?thesis .
qed

lemma of_integer_small: "\<bar>n\<bar> \<le> 2 ^ 53 \<Longrightarrow> of_integer n = Fin (of_int n)"
  by (simp add: of_integer_def rnd_int)

text \<open>Taking the integer part away is exact.\<close>

lemma dsub_floor:
  assumes "is_double v" and "0 \<le> v" and "v \<le> 2 ^ 53"
  shows "dsub (Fin v) (of_integer \<lfloor>v\<rfloor>) = Fin (v - of_int \<lfloor>v\<rfloor>)"
proof -
  have "\<lfloor>v\<rfloor> \<le> 2 ^ 53" using assms(3) floor_mono [of v "2 ^ 53"] by simp
  then have "of_integer \<lfloor>v\<rfloor> = Fin (of_int \<lfloor>v\<rfloor>)" using assms(2) by (intro of_integer_small) simp
  moreover have "0 \<le> v - of_int \<lfloor>v\<rfloor>" "v - of_int \<lfloor>v\<rfloor> \<le> 1" by linarith+
  then have "\<bar>v - of_int \<lfloor>v\<rfloor>\<bar> \<le> 2 ^ 53" by simp
  ultimately show ?thesis using rnd_small rounded_exact [OF is_double_fraction [OF assms(1,2)]] by (simp add: dsub_def)
qed

lemma to_int32_floor: "0 \<le> v \<Longrightarrow> v \<le> 10 ^ 9 \<Longrightarrow> to_int32 (Fin v) = \<lfloor>v\<rfloor>"
proof -
  assume v: "0 \<le> v" "v \<le> 10 ^ 9"
  then have "\<lfloor>v\<rfloor> \<le> 10 ^ 9" using floor_mono [of v "10 ^ 9"] by simp
  then show ?thesis using v by (simp add: to_int32_def trunc_def)
qed

lemma ftoa_round_eq:
  fixes p :: nat
  assumes "is_double v" and "0 \<le> v" and "v \<le> 10 ^ 9" and "unat prec = p" and "p \<in> {1..9}"
  defines "T \<equiv> nat \<lfloor>scaled v p\<rfloor>" and "\<delta> \<equiv> scaled v p - of_int \<lfloor>scaled v p\<rfloor>"
  shows "ftoa_round (Fin v) prec =
    (if 1 / 2 < \<delta> then (if 10 ^ p \<le> T + 1 then (\<lfloor>v\<rfloor> + 1, 0) else (\<lfloor>v\<rfloor>, of_nat (T + 1)))
     else if \<delta> < 1 / 2 then (\<lfloor>v\<rfloor>, of_nat T)
     else if T = 0 \<or> odd T then (\<lfloor>v\<rfloor>, of_nat (T + 1)) else (\<lfloor>v\<rfloor>, of_nat T))"
proof -
  let ?t = "scaled v p"
  have t: "0 \<le> ?t" "?t < 10 ^ p" by (rule scaled_bounds [OF assms(1,2,5)])+
  have p9: "(10 :: rat) ^ p \<le> 10 ^ 9" "(10 :: nat) ^ p \<le> 10 ^ 9" using assms(5) by (intro power_increasing; simp)+
  have tT: "\<lfloor>?t\<rfloor> = int T" using t(1) by (simp add: T_def)
  have "of_nat T < (10 :: rat) ^ p" using t(2) tT by linarith
  then have T: "T < 10 ^ p" by (metis of_nat_less_iff of_nat_numeral of_nat_power)
  have v53: "v \<le> 2 ^ 53" using assms(3) by simp
  have ten: "pow10 ! unat prec = Fin (10 ^ p)" using assms(4,5) by (simp add: pow10_def)
  have "\<bar>(v - of_int \<lfloor>v\<rfloor>) * 10 ^ p\<bar> \<le> 2 ^ 53"
  proof -
    have "0 \<le> v - of_int \<lfloor>v\<rfloor>" "v - of_int \<lfloor>v\<rfloor> \<le> 1" by linarith+
    then have "(v - of_int \<lfloor>v\<rfloor>) * 10 ^ p \<le> 1 * 10 ^ 9" using p9 by (intro mult_mono) auto
    then show ?thesis using \<open>0 \<le> v - of_int \<lfloor>v\<rfloor>\<close> by (simp add: abs_mult)
  qed
  then have tmp: "dmul (dsub (Fin v) (of_integer (to_int32 (Fin v)))) (pow10 ! unat prec) = Fin ?t"
    by (simp add: to_int32_floor [OF assms(2,3)] dsub_floor [OF assms(1,2) v53] ten rnd_small scaled_def)
  have fr: "to_uint64 (Fin ?t) = of_nat T" using t(1) tT T p9(2) by (simp add: to_uint64_def trunc_def)
  have u: "uint (of_nat n :: u64) = int n" if "n \<le> 10 ^ 9" for n
    using that by (simp add: uint_nat unat_of_nat take_bit_nat_eq_self)
  have "is_double ?t" by (simp add: scaled_def rounded_is_double)
  then have diff: "dsub (Fin ?t) (of_integer (uint (of_nat T :: u64))) = Fin \<delta>"
    using dsub_floor [OF _ t(1)] t(2) p9(1) u [of T] T p9(2) tT by (simp add: \<delta>_def)
  have u1: "of_integer (uint (of_nat T + 1 :: u64)) = Fin (of_nat (T + 1))"
    using u [of "T + 1"] T p9(2) of_integer_small [of "int (T + 1)"] by (simp add: add.commute)
  have cmp: "(10 :: rat) ^ p \<le> of_nat (T + 1) \<longleftrightarrow> 10 ^ p \<le> T + 1"
    by (metis of_nat_le_iff of_nat_numeral of_nat_power)
  have "(of_nat T AND 1 :: u64) = of_nat (T mod 2)"
    using T p9(2) by (simp add: and_one_eq word_arith_nat_mod unat_of_nat take_bit_nat_eq_self)
  then have par: "(of_nat T AND 1 \<noteq> (0 :: u64)) \<longleftrightarrow> odd T" "of_nat T = (0 :: u64) \<longleftrightarrow> T = 0"
    using of_nat_inj_u64 [of T 0] T p9(2) by (cases "even T"; auto simp: odd_iff_mod_2_eq_one even_iff_mod_2_eq_zero)+
  show ?thesis
    unfolding ftoa_round_def Let_def tmp fr diff u1
    using cmp par by (simp add: ten to_int32_floor [OF assms(2,3)] add.commute)
qed

section \<open>What is printed\<close>

text \<open>The characters of \<open>N / 10 ^ p\<close> with \<open>p\<close> digits after the point.\<close>

definition fixed_chars :: "nat \<Rightarrow> nat \<Rightarrow> u8 list" where
  "fixed_chars p N = dec (N div 10 ^ p) @ [chr (CHR ''.'')] @ dec_pad p (N mod 10 ^ p)"

lemma length_dec_pad: "length (dec_pad k n) = k"
  by (induction k arbitrary: n) auto

lemma length_dec: "n < 10 ^ k \<Longrightarrow> 0 < k \<Longrightarrow> length (dec n) \<le> k"
proof (induction k arbitrary: n)
  case (Suc k)
  show ?case
  proof (cases "n < 10")
    case False
    then have "k \<noteq> 0" using Suc.prems(1) by (cases k) auto
    moreover have "n div 10 < 10 ^ k" using Suc.prems(1) by (simp add: less_mult_imp_div_less mult.commute)
    ultimately show ?thesis using Suc.IH [of "n div 10"] False by (simp add: dec.simps [of n])
  qed (simp add: dec.simps)
qed simp

lemma ftoa_digits_eq:
  assumes "ftoa_round v prec = (int W, of_nat T)" and "unat prec = p" and "p \<in> {1..9}" and "T < 10 ^ p" and "W < 10 ^ 10"
  shows "ftoa_digits v prec [] = rev (fixed_chars p (W * 10 ^ p + T))"
proof -
  have "case ftoa_frac (of_nat T) prec [] of (c, b) \<Rightarrow> ftoa_zeros c b = rev (dec_pad p T)"
    using ftoa_point_eq [of T p prec "[]"] assms(2-4) by simp
  then have "ftoa_point (of_nat T) prec [] = rev (dec_pad p T) @ [chr (CHR ''.'')]"
    using assms(3) by (auto simp: length_dec_pad ftoa_point_def PRINTF_FTOA_BUFFER_SIZE_def split: prod.splits)
  moreover have "ftoa_whole (int W) (rev (dec_pad p T) @ [chr (CHR ''.'')]) = (rev (dec_pad p T) @ [chr (CHR ''.'')]) @ rev (dec W)"
    using assms(3,5) by (intro ftoa_whole_eq [of W 10]) (auto simp: length_dec_pad)
  moreover have "prec \<noteq> 0" using assms(2,3) by auto
  ultimately show ?thesis using assms(1,4) by (simp add: ftoa_digits_def fixed_chars_def)
qed

lemma limit_prec_small: "unat prec \<le> 9 \<Longrightarrow> limit_prec prec [] = (prec, [])"
  by (subst limit_prec.simps) (simp add: word_less_nat_alt)

text \<open>The plain form: a precision and nothing else.\<close>

lemma ftoa_plain:
  assumes "v \<in> {- (10 ^ 9) .. 10 ^ 9}" and "is_double v" and "unat prec \<le> 9" and "length (ftoa_digits (Fin \<bar>v\<bar>) prec []) < 32"
  shows "ftoa f m (Fin v) prec 0 FLAGS_PRECISION x =
    Some (Inr (emit f m ((if v < 0 then [chr (CHR ''-'')] else []) @ rev (ftoa_digits (Fin \<bar>v\<bar>) prec [])) x))"
proof -
  have "(10 :: rat) ^ 9 < (2 ^ 53 - 1) * 2 ^ 971"
  proof -
    have "(10 :: rat) ^ 9 * 1 < (2 ^ 53 - 1) * 2 ^ 971" by (rule mult_less_le_imp_less) simp_all
    then show ?thesis by simp
  qed
  then have s: "\<not> is_special (Fin v)" "\<not> is_large (Fin v)"
    using assms(1) by (auto simp: is_special_def DBL_MAX_def is_large_def PRINTF_MAX_FLOAT_def)
  have "\<bar>v\<bar> \<le> 2 ^ 53" using assms(1) by (auto simp: abs_le_iff)
  then have n: "(if v < 0 then dsub (Fin 0) (Fin v) else Fin v) = Fin \<bar>v\<bar>"
    using rnd_small [of "- v"] rounded_exact [OF is_double_minus [OF assms(2)]] by (simp add: dsub_def)
  have fl: "has FLAGS_PRECISION FLAGS_PRECISION" "\<not> has FLAGS_PRECISION FLAGS_LEFT" "\<not> has FLAGS_PRECISION FLAGS_ZEROPAD"
    "\<not> has FLAGS_PRECISION FLAGS_PLUS" "\<not> has FLAGS_PRECISION FLAGS_SPACE"
    by (simp_all add: has_def flag_defs)
  show ?thesis
    using s n assms(3,4)
    by (cases "v < 0"; simp add: ftoa_def ftoa_fixed_def Let_def limit_prec_small fl pow10_def ntoa_width_def ntoa_sign_def push_char_def
        PRINTF_NTOA_BUFFER_SIZE_def out_rev_def spaces_def)
qed

lemma ftoa_round_near:
  assumes "is_double v" and "0 \<le> v" and "v \<le> 10 ^ 9" and "unat prec = p" and "p \<in> {1..9}" and "scaled v p \<noteq> 10 ^ p - 1 / 2"
  shows "\<exists>W T. ftoa_round (Fin v) prec = (int W, of_nat T) \<and> T < 10 ^ p \<and> W \<le> 10 ^ 9 + 1 \<and>
    \<bar>of_nat (W * 10 ^ p + T) - v * 10 ^ p\<bar> \<le> 1 / 2 + 1 / 2 ^ 24"
proof -
  let ?t = "scaled v p"
  have t: "0 \<le> ?t" "?t < 10 ^ p" by (rule scaled_bounds [OF assms(1,2,5)])+
  define W T where "W = nat \<lfloor>v\<rfloor>" and "T = nat \<lfloor>?t\<rfloor>"
  have wt: "\<lfloor>v\<rfloor> = int W" "\<lfloor>?t\<rfloor> = int T" using t(1) assms(2) by (simp_all add: W_def T_def)
  have tb: "of_nat T \<le> ?t" "?t < of_nat T + 1" using wt(2) by linarith+
  have "of_nat T < (10 :: rat) ^ p" using t(2) tb(1) by linarith
  then have T: "T < 10 ^ p" by (metis of_nat_less_iff of_nat_numeral of_nat_power)
  have W: "W \<le> 10 ^ 9" using floor_mono [OF assms(3)] wt(1) by simp
  have near: "\<bar>of_nat N - v * 10 ^ p\<bar> \<le> 1 / 2 + 1 / 2 ^ 24" if "\<bar>of_nat N - (of_nat W * 10 ^ p + ?t)\<bar> \<le> 1 / 2" for N
  proof -
    have "of_nat W * 10 ^ p + (v - of_int \<lfloor>v\<rfloor>) * 10 ^ p = v * 10 ^ p" using wt(1) by (simp add: algebra_simps)
    then show ?thesis using that scaled_error [OF assms(5), of v] by arith
  qed
  have half: "\<not> (T + 1 = 10 ^ p \<and> ?t - of_nat T = 1 / 2)"
  proof
    assume "T + 1 = 10 ^ p \<and> ?t - of_nat T = 1 / 2"
    then have "(of_nat (T + 1) :: rat) = 10 ^ p" "?t = of_nat T + 1 / 2" by (simp_all only: of_nat_power of_nat_numeral) auto
    then show False using assms(6) by (simp add: field_simps)
  qed
  note eq = ftoa_round_eq [OF assms(1-5), unfolded wt, simplified]
  consider "1 / 2 < ?t - of_nat T" "T + 1 = 10 ^ p" | "1 / 2 < ?t - of_nat T" "T + 1 < 10 ^ p" | "?t - of_nat T < 1 / 2"
    | "?t - of_nat T = 1 / 2" "T + 1 < 10 ^ p" "T = 0 \<or> odd T" | "?t - of_nat T = 1 / 2" "T \<noteq> 0" "even T"
  proof -
    have "T + 1 < 10 ^ p \<or> T + 1 = 10 ^ p" using T by arith
    moreover have "?t - of_nat T < 1 / 2 \<or> ?t - of_nat T = 1 / 2 \<or> 1 / 2 < ?t - of_nat T" by (rule less_linear)
    ultimately show thesis using half that by blast
  qed
  then show ?thesis
  proof cases
    case 1
    then have "(of_nat T + 1 :: rat) = 10 ^ p" by (metis of_nat_Suc of_nat_numeral of_nat_power Suc_eq_plus1 add.commute)
    then show ?thesis using near [of "(W + 1) * 10 ^ p + 0"] eq 1 t(2) W
      by (intro exI [of _ "W + 1"] exI [of _ 0]) (simp add: add.commute algebra_simps abs_if)
  next
    case 2
    then show ?thesis using near [of "W * 10 ^ p + (T + 1)"] tb eq W
      by (intro exI [of _ W] exI [of _ "T + 1"]) (simp add: abs_le_iff add.commute)
  next
    case 3
    then show ?thesis using near [of "W * 10 ^ p + T"] tb eq W T by (intro exI [of _ W] exI [of _ T]) (simp add: abs_le_iff)
  next
    case 4
    then show ?thesis using near [of "W * 10 ^ p + (T + 1)"] eq W by (intro exI [of _ W] exI [of _ "T + 1"]) (simp add: add.commute)
  next
    case 5
    then show ?thesis using near [of "W * 10 ^ p + T"] eq W T by (intro exI [of _ W] exI [of _ T]) simp
  qed
qed

lemma limit_prec_eq:
  "length buf \<le> 32 \<Longrightarrow> limit_prec prec buf =
     (let k = min (32 - length buf) (unat prec - 9) in (prec - of_nat k, buf @ replicate k 48))"
proof (induction prec buf rule: limit_prec.induct)
  case (1 prec buf)
  show ?case
  proof (cases "length buf < 32 \<and> 9 < prec")
    case True
    then have u: "unat (prec - 1) - 9 = unat prec - 9 - 1" "9 < unat prec" by (auto simp: unat_sub word_le_nat_alt word_less_nat_alt)
    let ?k = "min (32 - length (buf @ [48 :: u8])) (unat (prec - 1) - 9)"
    have "min (32 - length buf) (unat prec - 9) = Suc ?k" using True u by (simp add: min_def) arith
    moreover have "limit_prec prec buf = limit_prec (prec - 1) (buf @ [48])"
      using True by (subst limit_prec.simps) (simp add: PRINTF_FTOA_BUFFER_SIZE_def zero_char)
    ultimately show ?thesis using 1 True by (simp add: PRINTF_FTOA_BUFFER_SIZE_def zero_char Let_def)
  next
    case False
    then have "min (32 - length buf) (unat prec - 9) = 0" using 1(2) by (auto simp: word_less_nat_alt not_less)
    then show ?thesis using False by (subst limit_prec.simps) (auto simp: PRINTF_FTOA_BUFFER_SIZE_def Let_def)
  qed
qed

text \<open>The precision that is left is an index of \<open>pow10\<close> exactly up to 41.\<close>

lemma limit_prec_bound: "unat (fst (limit_prec prec [])) < 10 \<longleftrightarrow> unat prec \<le> 41"
proof -
  let ?k = "min 32 (unat prec - 9)"
  have "of_nat ?k \<le> prec" by (simp add: word_le_nat_alt unat_of_nat take_bit_nat_eq_self min_def) arith
  then have "unat (prec - of_nat ?k) = unat prec - ?k" by (simp add: unat_sub unat_of_nat take_bit_nat_eq_self min_def)
  then show ?thesis by (simp add: limit_prec_eq Let_def min_def) arith
qed

text \<open>No digits after the point: ties go to the even number.\<close>

lemma dsub_Fin_0: "dsub (Fin x) (Fin 0) = rnd x"
  by (simp add: dsub_def)

lemma ftoa_round_0:
  assumes "is_double v" and "0 \<le> v" and "v \<le> 10 ^ 9"
  shows "ftoa_round0 (Fin v) (fst (ftoa_round (Fin v) 0)) = round_even v"
proof -
  let ?F = "v - of_int \<lfloor>v\<rfloor>"
  have F: "0 \<le> ?F" "?F < 1" by linarith+
  have v53: "v \<le> 2 ^ 53" using assms(3) by simp
  have W: "0 \<le> \<lfloor>v\<rfloor>" "\<lfloor>v\<rfloor> \<le> 10 ^ 9" using floor_mono [OF assms(3)] assms(2) by simp_all
  have d: "dsub (Fin v) (of_integer \<lfloor>v\<rfloor>) = Fin ?F" by (rule dsub_floor [OF assms(1,2) v53])
  have ten: "pow10 ! 0 = Fin 1" by (simp add: pow10_def)
  have "rnd ?F = Fin ?F" using F rnd_small [of ?F] rounded_exact [OF is_double_fraction [OF assms(1,2)]] by simp
  then have tmp: "dmul (Fin ?F) (pow10 ! 0) = Fin ?F" by (simp add: ten)
  have fr: "to_uint64 (Fin ?F) = 0" using F by (simp add: to_uint64_def trunc_def)
  have "of_integer 0 = Fin 0" "of_integer 1 = Fin 1" using of_integer_small [of 0] of_integer_small [of 1] by simp_all
  then have r: "ftoa_round (Fin v) 0 = (if 1 / 2 < ?F then (\<lfloor>v\<rfloor> + 1, 0) else if ?F < 1 / 2 then (\<lfloor>v\<rfloor>, 0) else (\<lfloor>v\<rfloor>, 1))"
    using \<open>rnd ?F = Fin ?F\<close> by (simp add: ftoa_round_def Let_def to_int32_floor [OF assms(2,3)] d tmp fr dsub_Fin_0 ten)
  have up: "\<exists>y \<le> 0. dsub (Fin v) (of_integer (\<lfloor>v\<rfloor> + 1)) = Fin y"
  proof -
    have "of_integer (\<lfloor>v\<rfloor> + 1) = Fin (of_int (\<lfloor>v\<rfloor> + 1))" using W by (intro of_integer_small) simp
    moreover have "\<bar>v - of_int (\<lfloor>v\<rfloor> + 1)\<bar> \<le> 1" "v - of_int (\<lfloor>v\<rfloor> + 1) \<le> 0" by linarith+
    moreover have "is_double 0" using is_double_int [of 0] by simp
    ultimately have "dsub (Fin v) (of_integer (\<lfloor>v\<rfloor> + 1)) = rnd (v - of_int (\<lfloor>v\<rfloor> + 1))"
      "rounded (v - of_int (\<lfloor>v\<rfloor> + 1)) \<le> 0" "rnd (v - of_int (\<lfloor>v\<rfloor> + 1)) = Fin (rounded (v - of_int (\<lfloor>v\<rfloor> + 1)))"
      using rounded_le [of 0 "v - of_int (\<lfloor>v\<rfloor> + 1)"] rnd_small [OF order_trans, of "v - of_int (\<lfloor>v\<rfloor> + 1)" 1]
      by (simp_all add: dsub_def diff_conv_add_uminus del: add_uminus_conv_diff of_int_add)
    then show ?thesis by auto
  qed
  consider "1 / 2 < ?F" | "?F < 1 / 2" | "?F = 1 / 2" by (rule linorder_cases)
  then show ?thesis
    using r d up by cases (auto simp: ftoa_round0_def Let_def round_even_def)
qed

text \<open>
  \<^verbatim>\<open>%.0f\<close> rounds to the nearest whole number, and a number halfway between two of them to the even one: for every double
  up to \<open>10 ^ 9\<close> in magnitude exactly the sign and the digits of that number are printed.
\<close>

theorem ftoa_prints_whole:
  assumes "double_of_bits w = Fin v" and "\<bar>v\<bar> \<le> 10 ^ 9"
  shows "ftoa f m (double_of_bits w) 0 0 FLAGS_PRECISION x =
    Some (Inr (emit f m ((if v < 0 then [chr (CHR ''-'')] else []) @ dec (nat (round_even \<bar>v\<bar>))) x))"
proof -
  have dv: "is_double v" "is_double \<bar>v\<bar>" using double_of_bits_is_double [OF assms(1)] is_double_minus by (auto simp: abs_if)
  have "of_int (round_even \<bar>v\<bar>) \<le> (10 ^ 9 + 1 :: rat)" "- 1 < (of_int (round_even \<bar>v\<bar>) :: rat)"
    using round_even_near [of "\<bar>v\<bar>"] assms(2) by arith+
  then have "of_int (round_even \<bar>v\<bar>) \<le> (of_int (10 ^ 9 + 1) :: rat)" "(of_int (- 1) :: rat) < of_int (round_even \<bar>v\<bar>)" by simp_all
  then have r: "round_even \<bar>v\<bar> = int (nat (round_even \<bar>v\<bar>))" "nat (round_even \<bar>v\<bar>) < 10 ^ 10"
    by (simp_all only: of_int_le_iff of_int_less_iff) auto
  have "ftoa_digits (Fin \<bar>v\<bar>) 0 [] = ftoa_whole (round_even \<bar>v\<bar>) []"
    using ftoa_round_0 [OF dv(2) _ assms(2)] by (simp add: ftoa_digits_def case_prod_beta)
  also have "\<dots> = rev (dec (nat (round_even \<bar>v\<bar>)))"
    using ftoa_whole_eq [OF r(2), of "[]"] r(1) by simp
  finally show ?thesis
    using ftoa_plain [of v 0 f m x] length_dec [OF r(2)] assms dv(1) by (auto simp: abs_le_iff)
qed

theorem ftoa_prints_whole_witness:
  "ftoa OutChar 9 (double_of_bits 0xC004000000000000) 0 0 FLAGS_PRECISION (0, quiet) =
     Some (Inr (emit OutChar 9 (map chr ''-2'') (0, quiet)))"
proof -
  have "double_of_bits 0xC004000000000000 = Fin (- (5 / 2))" by code_simp
  moreover have "dec (nat (round_even (5 / 2))) = [chr (CHR ''2'')]" by code_simp
  ultimately show ?thesis
    using ftoa_prints_whole [of "0xC004000000000000" "- (5 / 2)" OutChar 9 "(0, quiet)"] by simp
qed

section \<open>Properties\<close>

text \<open>
  C15: \<^verbatim>\<open>%.nf\<close> with one to nine digits, without a width and without any other flag, prints a double of at most \<open>10 ^ 9\<close> in
  magnitude to the nearest digit, with one exception: the characters are a minus sign for a negative number, the decimal digits of \<open>N div 10 ^ n\<close>,
  the point and the \<open>n\<close> digits of \<open>N mod 10 ^ n\<close>, where \<open>N\<close> is at most \<open>1 / 2 + 2 ^ - 24\<close> away from the magnitude times
  \<open>10 ^ n\<close>. The exception are the numbers whose fraction the rounded multiplication by \<open>10 ^ n\<close> takes to exactly \<open>10 ^ n - 1 / 2\<close>, where the
  code rounds up without carrying into the whole part and prints garbage (\<open>ftoa_rollover_lost\<close>).
\<close>

theorem ftoa_prints_nearest:
  assumes "double_of_bits w = Fin v" and "\<bar>v\<bar> \<le> 10 ^ 9" and "unat prec = p" and "p \<in> {1..9}"
    and "scaled \<bar>v\<bar> p \<noteq> 10 ^ p - 1 / 2"
  shows "\<exists>N. \<bar>of_nat N - \<bar>v\<bar> * 10 ^ p\<bar> \<le> 1 / 2 + 1 / 2 ^ 24 \<and>
    (\<forall>f m x. ftoa f m (double_of_bits w) prec 0 FLAGS_PRECISION x =
       Some (Inr (emit f m ((if v < 0 then [chr (CHR ''-'')] else []) @ fixed_chars p N) x)))"
proof -
  have dv: "is_double v" "is_double \<bar>v\<bar>" using double_of_bits_is_double [OF assms(1)] is_double_minus by (auto simp: abs_if)
  obtain W T where r: "ftoa_round (Fin \<bar>v\<bar>) prec = (int W, of_nat T)" "T < 10 ^ p" "W \<le> 10 ^ 9 + 1"
    "\<bar>of_nat (W * 10 ^ p + T) - \<bar>v\<bar> * 10 ^ p\<bar> \<le> 1 / 2 + 1 / 2 ^ 24"
    using ftoa_round_near [OF dv(2) _ assms(2-5)] by auto
  have digits: "ftoa_digits (Fin \<bar>v\<bar>) prec [] = rev (fixed_chars p (W * 10 ^ p + T))"
    using ftoa_digits_eq [OF r(1) assms(3,4) r(2)] r(3) by simp
  have "length (fixed_chars p (W * 10 ^ p + T)) < 32"
    using length_dec [of W 10] length_dec_pad assms(4) r(2,3) by (simp add: fixed_chars_def)
  then have "ftoa f m (double_of_bits w) prec 0 FLAGS_PRECISION x =
      Some (Inr (emit f m ((if v < 0 then [chr (CHR ''-'')] else []) @ fixed_chars p (W * 10 ^ p + T)) x))" for f m x
    using ftoa_plain [of v prec f m x] assms(1-4) dv(1) digits by (auto simp: abs_le_iff)
  then show ?thesis using r(4) by blast
qed

theorem ftoa_prints_nearest_witness:
  "\<exists>N. \<bar>of_nat N - (884279719003555 / 281474976710656 :: rat) * 10 ^ 3\<bar> \<le> 1 / 2 + 1 / 2 ^ 24 \<and>
    ftoa OutNull 0 (double_of_bits 0x400921FB54442D18) 3 0 FLAGS_PRECISION (0, quiet) =
      Some (Inr (emit OutNull 0 (fixed_chars 3 N) (0, quiet)))"
proof -
  have "double_of_bits 0x400921FB54442D18 = Fin (884279719003555 / 281474976710656)" by code_simp
  moreover have "scaled \<bar>884279719003555 / 281474976710656\<bar> 3 \<noteq> 10 ^ 3 - 1 / 2" by code_simp
  ultimately show ?thesis
    using ftoa_prints_nearest [of "0x400921FB54442D18" "884279719003555 / 281474976710656" 3 3] by (simp del: split_paired_All) blast
qed

text \<open>
  The precision is bounded by the table of powers and not by the test: \<open>_ftoa\<close> reads past the end of \<open>pow10\<close> for
  exactly the numbers it prints in fixed notation with a precision of 42 or more.
\<close>

theorem ftoa_precision_overrun:
  assumes "\<not> is_special value" and "\<not> is_large value"
  shows "ftoa f m value prec width flags x = Some (Inl OutOfBounds) \<longleftrightarrow> has flags FLAGS_PRECISION \<and> 42 \<le> unat prec"
proof -
  have "unat (fst (limit_prec PRINTF_DEFAULT_FLOAT_PRECISION [])) < 10"
    by (simp add: limit_prec_bound PRINTF_DEFAULT_FLOAT_PRECISION_def)
  then show ?thesis
    using assms limit_prec_bound [of prec]
    by (auto simp: ftoa_def ftoa_fixed_def Let_def pow10_def split: prod.splits)
qed

theorem ftoa_precision_overrun_witness:
  "ftoa OutChar 9 (Fin 1) 42 0 FLAGS_PRECISION (0, quiet) = Some (Inl OutOfBounds)"
proof -
  have "\<not> is_special (Fin 1)" "\<not> is_large (Fin 1)" by code_simp+
  from ftoa_precision_overrun [OF this, of OutChar 9 42 0 FLAGS_PRECISION "(0, quiet)"] show ?thesis
    by (simp add: has_def flag_defs)
qed

text \<open>The exception of the nearest digit: 0.95 with one digit after the point loses the point.\<close>

lemma ftoa_zeros_full:
  "length buf \<le> 32 \<Longrightarrow> 32 - length buf \<le> unat c \<Longrightarrow> ftoa_zeros c buf = buf @ replicate (32 - length buf) 48"
proof (induction "32 - length buf" arbitrary: c buf)
  case 0
  then show ?case by (simp add: ftoa_zeros.simps PRINTF_FTOA_BUFFER_SIZE_def)
next
  case (Suc k)
  then have c: "0 < c" "unat (c - 1) = unat c - 1" by (auto simp: unat_sub word_le_nat_alt word_gt_0 simp flip: unat_gt_0)
  have "ftoa_zeros (c - 1) (buf @ [48]) = (buf @ [48]) @ replicate (32 - length (buf @ [48])) 48"
    using Suc.hyps(2) Suc.prems c(2) by (intro Suc.hyps(1)) auto
  moreover have "32 - length buf = Suc (32 - length (buf @ [48 :: u8]))" using Suc.hyps(2) by simp
  ultimately show ?case using c(1) Suc.hyps(2) by (subst ftoa_zeros.simps) (simp add: PRINTF_FTOA_BUFFER_SIZE_def zero_char)
qed

lemma ftoa_rollover_lost:
  "ftoa_digits (double_of_bits 0x3FEE666666666666) 1 [] = rev (replicate 30 (chr (CHR ''0'')) @ map chr ''10'')"
proof -
  have v: "double_of_bits 0x3FEE666666666666 = Fin (4278419646001971 / 4503599627370496)" by code_simp
  have s: "scaled (4278419646001971 / 4503599627370496) 1 = 19 / 2" by code_simp
  have "\<lfloor>19 / 2 :: rat\<rfloor> = 9" "\<lfloor>4278419646001971 / 4503599627370496 :: rat\<rfloor> = 0" by (simp_all add: floor_eq_iff)
  then have "ftoa_round (double_of_bits 0x3FEE666666666666) 1 = (0, 10)"
    using ftoa_round_eq [OF double_of_bits_is_double(1) [OF v], of 1 1, unfolded s] by (simp add: v)
  moreover have "ftoa_frac 10 1 [] = (- 1, [48, 49])"
    by (simp add: ftoa_frac.simps PRINTF_FTOA_BUFFER_SIZE_def)
  moreover have "ftoa_zeros (- 1) [48, 49] = [48, 49] @ replicate 30 48"
    using ftoa_zeros_full [of "[48, 49]" "- 1"] by (simp add: unsigned_minus_1_eq_mask mask_numeral)
  ultimately show ?thesis
    by (simp add: ftoa_digits_def ftoa_point_def ftoa_whole.simps PRINTF_FTOA_BUFFER_SIZE_def chr_def)
qed

end
