(* ===== verification/Etoa.thy ===== *)
theory Etoa
  imports Ftoa
begin

text \<open>
  Exponential notation always returns: \<open>_etoa\<close> rescales every number far below the limit above which \<open>_ftoa\<close> would
  call it again. The estimates follow the computation step by step, with a bound on the error of
  every operation that is far larger than the real one.
\<close>

section \<open>One operation\<close>

lemma rnd_approx:
  assumes "\<bar>x\<bar> \<le> 2000" shows "\<exists>y. rnd x = Fin y \<and> \<bar>y - x\<bar> \<le> 1 / 10 ^ 12"
proof -
  have "\<bar>x\<bar> < 2 powi 11" using assms by simp
  then have "\<bar>rounded x - x\<bar> \<le> 2 powi (11 - 54)" by (rule rounded_error_below) simp
  also have "\<dots> \<le> 1 / 10 ^ 12" by (simp add: power_int_def power_divide)
  finally show ?thesis using rnd_small [of x] assms by (intro exI [of _ "rounded x"]) simp
qed

lemma rnd_between:
  assumes "is_double a" and "is_double b" and "a \<le> x" and "x \<le> b" and "\<bar>a\<bar> \<le> 2 ^ 53" and "\<bar>b\<bar> \<le> 2 ^ 53"
  shows "\<exists>y. rnd x = Fin y \<and> a \<le> y \<and> y \<le> b"
proof -
  have "\<bar>x\<bar> \<le> 2 ^ 53" using assms(3-6) by arith
  then show ?thesis using rnd_small rounded_ge [OF assms(1,3)] rounded_le [OF assms(2,4)] by blast
qed

lemma trunc_near: "\<bar>of_int (trunc x) - x\<bar> < 1"
  by (simp add: trunc_def abs_if) linarith

lemma to_int32_near: "\<bar>x\<bar> \<le> 2000 \<Longrightarrow> \<bar>of_int (to_int32 (Fin x)) - x\<bar> < 1"
proof -
  assume x: "\<bar>x\<bar> \<le> 2000"
  then have "of_int (trunc x) < (of_int 2001 :: rat)" "of_int (- 2001) < (of_int (trunc x) :: rat)" using trunc_near [of x] by arith+
  then have "trunc x < 2001" "- 2001 < trunc x" by (simp_all only: of_int_less_iff)
  then show ?thesis using trunc_near [of x] by (simp add: to_int32_def)
qed

lemma to_int32_abs: "\<bar>x\<bar> \<le> 2000 \<Longrightarrow> \<bar>of_int (to_int32 (Fin x))\<bar> \<le> \<bar>x\<bar>"
proof -
  assume x: "\<bar>x\<bar> \<le> 2000"
  have t: "\<bar>of_int (trunc x)\<bar> \<le> \<bar>x\<bar>"
    using of_int_floor_le [of x] le_of_int_ceiling [of x] by (cases "0 \<le> x") (simp_all add: trunc_def)
  then have "of_int \<bar>trunc x\<bar> \<le> (of_int 2000 :: rat)" using x by simp
  then have "\<bar>trunc x\<bar> \<le> 2000" by (simp only: of_int_le_iff)
  then have "to_int32 (Fin x) = trunc x" by (auto simp: to_int32_def)
  then show ?thesis using t by simp
qed

section \<open>The representation\<close>

lemma powi_le: "i \<le> j \<Longrightarrow> (2 :: rat) powi i \<le> 2 powi j"
  by (rule power_int_increasing) auto

lemma small_bits:
  assumes "0 \<le> e" and "e < 2 ^ k" and "bit (e :: int) n" shows "n < k"
proof -
  have "take_bit k e = e" using assms(1,2) by (simp add: take_bit_int_eq_self)
  then show ?thesis using assms(3) by (metis bit_take_bit_iff)
qed

lemma exponent_bits:
  assumes "0 \<le> e" and "e < 2048"
  shows "drop_bit 52 (push_bit 52 (word_of_int e) OR (f AND mask 52)) AND 0x7FF = (word_of_int e :: 64 word)" (is ?A)
    and "(push_bit 52 (word_of_int e) OR (f AND mask 52)) AND mask 52 = (f AND mask 52 :: 64 word)" (is ?B)
    and "\<not> bit (push_bit 52 (word_of_int e) OR (f AND mask 52) :: 64 word) 63" (is ?C)
proof -
  have b: "n < 11" if "bit e n" for n using small_bits [of e 11 n] assms that by simp
  have m: "(0x7FF :: 64 word) = mask 11" by (simp add: mask_numeral)
  show ?A unfolding m by (rule bit_word_eqI) (auto simp: bit_simps dest: b)
  show ?B by (rule bit_word_eqI) (auto simp: bit_simps dest: b)
  show ?C by (auto simp: bit_simps dest: b)
qed

lemma double_of_exponent:
  assumes "0 < e" and "e < 2047"
  shows "double_of_bits (push_bit 52 (word_of_int e) OR (f AND mask 52)) =
    Fin ((2 ^ 52 + of_int (uint (f AND mask 52))) * 2 powi (e - 1075))"
proof -
  have "uint (word_of_int e :: 64 word) = e" using assms by (simp add: uint_word_of_int take_bit_int_eq_self unsigned_of_int)
  then show ?thesis using exponent_bits [of e f] assms by (simp add: double_of_bits_def Let_def)
qed

lemma power_of_two_bits:
  assumes "- 1023 < k" and "k < 1024"
  shows "double_of_bits (push_bit 52 (word_of_int (k + 1023))) = Fin (2 powi k)"
proof -
  have "k + 1023 - 1075 = k - 52" by simp
  then show ?thesis using double_of_exponent [of "k + 1023" 0] assms by (simp add: power_int_diff)
qed

lemma significand_bits:
  "\<exists>m. double_of_bits ((U AND (2 ^ 52 - 1)) OR push_bit 52 1023) = Fin m \<and> 1 \<le> m \<and> m < 2"
proof -
  let ?f = "uint (U AND mask 52)"
  have "(2 ^ 52 - 1 :: 64 word) = mask 52" by (simp add: mask_eq_exp_minus_1)
  moreover have "double_of_bits (push_bit 52 (word_of_int 1023) OR (U AND mask 52)) = Fin ((2 ^ 52 + of_int ?f) * 2 powi (1023 - 1075))"
    by (rule double_of_exponent) simp_all
  moreover have "2 powi (1023 - 1075) = (1 / 2 ^ 52 :: rat)" by (simp add: power_int_def power_divide)
  ultimately have e: "double_of_bits ((U AND (2 ^ 52 - 1)) OR push_bit 52 1023) = Fin ((2 ^ 52 + of_int ?f) / 2 ^ 52)"
    by (simp add: or.commute)
  have "0 \<le> ?f" "?f < 2 ^ 52" using masked_bound [of 52 U] by simp_all
  then have "(0 :: rat) \<le> of_int ?f" "(of_int ?f :: rat) < of_int (2 ^ 52)" by (simp_all only: of_int_0_le_iff of_int_less_iff)
  then show ?thesis using e by (intro exI [of _ "(2 ^ 52 + of_int ?f) / 2 ^ 52"]) (simp add: field_simps)
qed

text \<open>The exponent field bounds the number from above.\<close>

lemma exponent_field:
  assumes "0 \<le> v" and "v < 2 ^ 1024" and "is_double v"
  shows "\<exists>x. uint (drop_bit 52 (bits_of_double (Fin v)) AND 0x7FF) - 1023 = x \<and> - 1023 \<le> x \<and> x \<le> 1023 \<and> v < 2 powi (x + 1)"
proof -
  let ?u = "last_bit v" and ?n = "\<lfloor>v / 2 powi last_bit v\<rfloor>"
  have pos: "(0 :: rat) < 2 powi ?u" by simp
  have tn: "trunc (\<bar>v\<bar> / 2 powi ?u) = ?n" using assms(1) by (simp add: trunc_def)
  have v53: "v < 2 powi (?u + 53)"
  proof (cases "v = 0")
    case False
    then have "v < 2 powi (lg \<bar>v\<bar> + 1)" using lg_bounds(2) [of "\<bar>v\<bar>"] assms(1) by simp
    also have "\<dots> \<le> 2 powi (?u + 53)" using False by (intro powi_le) (auto simp: last_bit_def)
    finally show ?thesis .
  qed simp
  have u: "- 1074 \<le> ?u" "?u \<le> 971"
    using last_bit_le [of v 1024] assms(1,2) by (auto simp: last_bit_def)
  have "v / 2 powi ?u < 2 ^ 53" using v53 by (simp add: power_int_add divide_less_eq mult.commute)
  then have n: "?n < 2 ^ 53" by (simp add: floor_less_iff)
  have n0: "0 \<le> ?n" using assms(1) by simp
  show ?thesis
  proof (cases "?n < 2 ^ 52")
    case True
    then have "v / 2 powi ?u < of_int (2 ^ 52)" by (simp add: floor_less_iff)
    then have lt: "v < 2 powi (?u + 52)" by (simp add: power_int_add divide_less_eq mult.commute)
    have "?u = - 1074"
    proof (rule ccontr)
      assume "?u \<noteq> - 1074"
      then have "?u = lg \<bar>v\<bar> - 52" "v \<noteq> 0" by (auto simp: last_bit_def split: if_splits)
      then show False using lt lg_bounds(1) [of "\<bar>v\<bar>"] assms(1) by simp
    qed
    moreover have "drop_bit 52 (word_of_int ?n :: 64 word) = 0"
      by (rule bit_word_eqI) (auto simp: bit_simps dest: small_bits [OF n0 True])
    ultimately show ?thesis using True tn assms(1) lt by (simp add: bits_of_double_def Let_def)
  next
    case False
    let ?f = "word_of_int (?n - 2 ^ 52) :: 64 word"
    have "0 \<le> ?n - 2 ^ 52" "?n - 2 ^ 52 < 2 ^ 52" using False n by simp_all
    note b = small_bits [OF this]
    have f: "?f AND mask 52 = ?f"
      by (rule bit_word_eqI) (use b in \<open>auto simp: bit_simps simp del: of_int_diff\<close>)
    have e: "uint (drop_bit 52 (push_bit 52 (word_of_int (?u + 1075)) OR ?f) AND 0x7FF) = ?u + 1075"
      using exponent_bits(1) [of "?u + 1075" ?f, unfolded f] u by (simp add: unsigned_of_int take_bit_int_eq_self del: of_int_add)
    have "v < 2 powi (53 + ?u)" using v53 by (simp only: add.commute)
    then show ?thesis using False tn assms(1) e u by (intro exI [of _ "?u + 52"]) (simp add: bits_of_double_def Let_def)
  qed
qed

section \<open>The estimate of the exponent\<close>

definition near :: "double \<Rightarrow> rat \<Rightarrow> rat \<Rightarrow> bool" where
  "near d x e \<longleftrightarrow> (\<exists>y. d = Fin y \<and> \<bar>y - x\<bar> \<le> e)"

lemma near_rnd: "\<bar>x - t\<bar> \<le> e \<Longrightarrow> \<bar>t\<bar> + e \<le> 2000 \<Longrightarrow> near (rnd x) t (e + 1 / 10 ^ 12)"
proof -
  assume a: "\<bar>x - t\<bar> \<le> e" "\<bar>t\<bar> + e \<le> 2000"
  then have "\<bar>x\<bar> \<le> 2000" by arith
  then obtain y where y: "rnd x = Fin y" "\<bar>y - x\<bar> \<le> 1 / 10 ^ 12" using rnd_approx by blast
  have "\<bar>y - t\<bar> \<le> e + 1 / 10 ^ 12" using a(1) y(2) by arith
  then show ?thesis using y(1) by (auto simp: near_def)
qed

lemma near_exact: "near (Fin x) x 0"
  by (simp add: near_def)

lemma near_lit: "\<bar>t\<bar> \<le> 2000 \<Longrightarrow> near (lit t) t (1 / 10 ^ 12)"
  using near_rnd [of t t 0] by (simp add: lit_def)

lemma near_add:
  assumes "near a s e" and "near b t f" and "\<bar>s + t\<bar> + (e + f) \<le> 2000" shows "near (dadd a b) (s + t) (e + f + 1 / 10 ^ 12)"
proof -
  obtain x y where "a = Fin x" "\<bar>x - s\<bar> \<le> e" "b = Fin y" "\<bar>y - t\<bar> \<le> f" using assms by (auto simp: near_def)
  then show ?thesis using near_rnd [of "x + y" "s + t" "e + f"] assms(3) by auto
qed

lemma near_neg: "near b t f \<Longrightarrow> near (dneg b) (- t) f"
  by (auto simp: near_def)

lemma near_sub:
  assumes "near a s e" and "near b t f" and "\<bar>s - t\<bar> + (e + f) \<le> 2000" shows "near (dsub a b) (s - t) (e + f + 1 / 10 ^ 12)"
  using near_add [OF assms(1) near_neg [OF assms(2)]] assms(3) by (simp add: dsub_def)

text \<open>A product with an exact integer.\<close>

lemma near_int_mul:
  assumes "near b t f" and "\<bar>n\<bar> \<le> 2000" and "\<bar>of_int n * t\<bar> + of_int \<bar>n\<bar> * f \<le> 2000"
  shows "near (dmul (of_integer n) b) (of_int n * t) (of_int \<bar>n\<bar> * f + 1 / 10 ^ 12)"
proof -
  obtain y where y: "b = Fin y" "\<bar>y - t\<bar> \<le> f" using assms by (auto simp: near_def)
  have "\<bar>of_int n * y - of_int n * t\<bar> = of_int \<bar>n\<bar> * \<bar>y - t\<bar>" by (simp add: abs_mult flip: right_diff_distrib)
  also have "\<dots> \<le> of_int \<bar>n\<bar> * f" using y(2) by (intro mult_left_mono) auto
  finally show ?thesis using y(1) near_rnd [of "of_int n * y" "of_int n * t" "of_int \<bar>n\<bar> * f"] assms(2,3) of_integer_small [of n] by simp
qed

lemma near_mul:
  assumes "near a s e" and "near b t f" and "\<bar>s\<bar> \<le> 1" and "\<bar>t\<bar> \<le> 1" and "e \<le> 1" and "f \<le> 1"
  shows "near (dmul a b) (s * t) (e + 2 * f + 1 / 10 ^ 12)"
proof -
  obtain x y where x: "a = Fin x" "\<bar>x - s\<bar> \<le> e" "b = Fin y" "\<bar>y - t\<bar> \<le> f" using assms by (auto simp: near_def)
  have "\<bar>x * y - s * t\<bar> = \<bar>x * (y - t) + (x - s) * t\<bar>" by (simp add: algebra_simps)
  also have "\<dots> \<le> \<bar>x\<bar> * \<bar>y - t\<bar> + \<bar>x - s\<bar> * \<bar>t\<bar>" by (metis abs_mult abs_triangle_ineq)
  also have "\<dots> \<le> 2 * f + e * 1" using x assms(3-6) by (intro add_mono mult_mono) auto
  finally have d: "\<bar>x * y - s * t\<bar> \<le> e + 2 * f" by simp
  have "\<bar>s * t\<bar> \<le> 1" using assms(3,4) by (simp add: abs_mult mult_le_one)
  then have "\<bar>s * t\<bar> + (e + 2 * f) \<le> 2000" using assms(5,6) by simp
  from near_rnd [OF d this] show ?thesis using x by simp
qed

lemma near_weaken: "near d x e \<Longrightarrow> e \<le> e' \<Longrightarrow> near d x e'"
  by (auto simp: near_def)

lemma of_int_abs_le: "\<bar>n\<bar> \<le> k \<Longrightarrow> of_int \<bar>n\<bar> \<le> (of_int k :: rat)"
  by (simp only: of_int_le_iff)

text \<open>An exact integer of at most four digits times a literal below 4.\<close>

lemma near_int_lit:
  assumes "\<bar>n\<bar> \<le> 1100" and "\<bar>t\<bar> \<le> 4" and "\<bar>of_int n * t\<bar> \<le> 1999"
  shows "near (dmul (of_integer n) (lit t)) (of_int n * t) (1 / 10 ^ 8)"
proof -
  have n: "of_int \<bar>n\<bar> \<le> (1100 :: rat)" using of_int_abs_le [OF assms(1)] by simp
  have "near (lit t) t (1 / 10 ^ 12)" using assms(2) by (intro near_lit) simp
  from near_int_mul [OF this, of n]
  have "near (dmul (of_integer n) (lit t)) (of_int n * t) (of_int \<bar>n\<bar> * (1 / 10 ^ 12) + 1 / 10 ^ 12)"
    using assms n by simp
  then show ?thesis by (rule near_weaken) (use n in simp)
qed

lemma etoa_log10_near:
  assumes "0 \<le> v" and "v < 2 ^ 1024" and "is_double v"
  shows "\<exists>x. \<bar>x\<bar> \<le> 1023 \<and> v < 2 powi (x + 1) \<and> \<bar>etoa_log10 (Fin v)\<bar> \<le> 308 \<and>
    \<bar>of_int (etoa_log10 (Fin v)) - of_int x * (301029995663981 / 10 ^ 15)\<bar> \<le> (4 / 3 :: rat)"
proof -
  let ?U = "bits_of_double (Fin v)"
  obtain x where x: "uint (drop_bit 52 ?U AND 0x7FF) - 1023 = x" "\<bar>x\<bar> \<le> 1023" "v < 2 powi (x + 1)"
    using exponent_field [OF assms] by (auto simp: abs_le_iff)
  obtain m where m: "double_of_bits ((?U AND (2 ^ 52 - 1)) OR push_bit 52 1023) = Fin m" "1 \<le> m" "m < 2"
    using significand_bits by blast
  define a c l q r where abbrs: "a = (1760912590558 / 10 ^ 13 :: rat)" "c = (301029995663981 / 10 ^ 15 :: rat)"
    "l = (289529654602168 / 10 ^ 15 :: rat)" "q = of_int x * c" "r = (m - 3 / 2) * l"
  have a: "0 \<le> a" "a \<le> 177 / 1000" and l: "0 \<le> l" "l \<le> 29 / 100" and c: "0 \<le> c" "c \<le> 4" by (simp_all add: abbrs)
  have q: "\<bar>q\<bar> \<le> 307954 / 1000"
    using mult_right_mono [OF of_int_abs_le [OF x(2)] c(1)] by (simp add: abbrs abs_mult)
  have "\<bar>r\<bar> \<le> 1 / 2 * (29 / 100)" unfolding abbrs(5) abs_mult using m l by (intro mult_mono) (auto simp: abs_if)
  then have r: "\<bar>r\<bar> \<le> 145 / 1000" by simp
  have "near (dmul (of_integer x) (lit c)) q (1 / 10 ^ 8)" unfolding abbrs(4)
    using q x(2) c by (intro near_int_lit) (auto simp: abbrs(4))
  note 0 = near_add [OF near_lit this]
  have 1: "near (dadd (lit a) (dmul (of_integer x) (lit c))) (a + q) (1 / 1000)"
    using a q by (intro near_weaken [OF 0]) (simp_all add: abs_le_iff)
  have "near (dsub (Fin m) (Fin (3 / 2))) (m - 3 / 2) (0 + 0 + 1 / 10 ^ 12)"
    using m by (intro near_sub near_exact) auto
  note 0 = near_mul [OF this near_lit]
  have 2: "near (dmul (dsub (Fin m) (Fin (3 / 2))) (lit l)) r (1 / 1000)"
    unfolding abbrs(5) using m l by (intro near_weaken [OF 0]) (auto simp: abs_le_iff)
  note 0 = near_add [OF 1 2]
  have "near (dadd (dadd (lit a) (dmul (of_integer x) (lit c))) (dmul (dsub (Fin m) (Fin (3 / 2))) (lit l))) (a + q + r) (1 / 400)"
    using a q r by (intro near_weaken [OF 0]) (simp_all add: abs_le_iff)
  then obtain s where s: "etoa_log10 (Fin v) = to_int32 (Fin s)" "\<bar>s - (a + q + r)\<bar> \<le> 1 / 400"
    using x(1) m(1) by (auto simp: near_def etoa_log10_def Let_def abbrs)
  have sq: "\<bar>s - q\<bar> \<le> 13 / 40" using s(2) a r by linarith
  then have s2: "\<bar>s\<bar> \<le> 2000" "\<bar>s\<bar> < 309" using q by linarith+
  have n: "\<bar>of_int (etoa_log10 (Fin v)) - s\<bar> < 1" "\<bar>of_int (etoa_log10 (Fin v))\<bar> \<le> \<bar>s\<bar>"
    using to_int32_near [OF s2(1)] to_int32_abs [OF s2(1)] by (simp_all add: s(1))
  have "of_int \<bar>etoa_log10 (Fin v)\<bar> < (of_int 309 :: rat)" using n(2) s2(2) by simp
  then have "\<bar>etoa_log10 (Fin v)\<bar> \<le> 308" by (simp only: of_int_less_iff)
  moreover have "\<bar>of_int (etoa_log10 (Fin v)) - q\<bar> \<le> 4 / 3" using n(1) sq by linarith
  ultimately show ?thesis using x(2,3) unfolding abbrs by blast
qed

section \<open>The power of ten\<close>

lemma etoa_exp2_near:
  assumes "\<bar>n\<bar> \<le> 308"
  shows "\<bar>etoa_exp2 n\<bar> \<le> 1023" and "etoa_exp2 n \<noteq> - 1023"
    and "of_int (etoa_exp2 n) - of_int n * (3321928094887362 / 10 ^ 15) \<in> {- (51 / 100) .. (151 / 100 :: rat)}"
proof -
  define c q where abbrs: "c = (3321928094887362 / 10 ^ 15 :: rat)" "q = of_int n * c"
  have c: "0 \<le> c" "c \<le> 4" by (simp_all add: abbrs)
  have q: "\<bar>q\<bar> \<le> 1023154 / 1000"
    using mult_right_mono [OF of_int_abs_le [OF assms] c(1)] by (simp add: abbrs abs_mult)
  have "near (dmul (of_integer n) (lit c)) q (1 / 10 ^ 8)" unfolding abbrs(2)
    using q assms c by (intro near_int_lit) (auto simp: abbrs(2))
  note 0 = near_add [OF this near_exact]
  have "near (dadd (dmul (of_integer n) (lit c)) (Fin (1 / 2))) (q + 1 / 2) (1 / 1000)"
    using q by (intro near_weaken [OF 0]) (simp_all add: abs_le_iff)
  then obtain w where w: "etoa_exp2 n = to_int32 (Fin w)" "\<bar>w - (q + 1 / 2)\<bar> \<le> 1 / 1000"
    by (auto simp: near_def etoa_exp2_def abbrs)
  have w2: "\<bar>w\<bar> \<le> 2000" "\<bar>w\<bar> < 1024" "- 1023 < w" using w(2) q by linarith+
  have t: "\<bar>of_int (etoa_exp2 n) - w\<bar> < 1" "\<bar>of_int (etoa_exp2 n)\<bar> \<le> \<bar>w\<bar>"
    using to_int32_near [OF w2(1)] to_int32_abs [OF w2(1)] by (simp_all add: w(1))
  have "of_int \<bar>etoa_exp2 n\<bar> < (of_int 1024 :: rat)" using t(2) w2(2) by simp
  then show "\<bar>etoa_exp2 n\<bar> \<le> 1023" by (simp only: of_int_less_iff)
  show "etoa_exp2 n \<noteq> - 1023"
  proof
    assume "etoa_exp2 n = - 1023"
    then have "of_int (etoa_exp2 n) = (- 1023 :: rat)" by simp
    then show False using t w2 by linarith
  qed
  have "- (51 / 100) \<le> of_int (etoa_exp2 n) - q" "of_int (etoa_exp2 n) - q \<le> 151 / 100" using t(1) w(2) by linarith+
  then show "of_int (etoa_exp2 n) - of_int n * (3321928094887362 / 10 ^ 15) \<in> {- (51 / 100) .. 151 / 100 :: rat}"
    unfolding abbrs by simp
qed

lemma etoa_z_near:
  assumes "\<bar>n\<bar> \<le> 308"
  shows "\<exists>z. dsub (dmul (of_integer n) (lit (2302585092994046 / 10 ^ 15))) (dmul (of_integer (etoa_exp2 n)) (lit (6931471805599453 / 10 ^ 16)))
      = Fin z \<and> - (11 / 10) \<le> z \<and> z \<le> 2 / 5"
proof -
  define k where "k = etoa_exp2 n"
  define a b c e where abbrs: "a = (2302585092994046 / 10 ^ 15 :: rat)" "b = (6931471805599453 / 10 ^ 16 :: rat)"
    "c = (3321928094887362 / 10 ^ 15 :: rat)" "e = of_int k - of_int n * c"
  have k: "\<bar>k\<bar> \<le> 1023" and e: "- (51 / 100) \<le> e" "e \<le> 151 / 100"
    using etoa_exp2_near [OF assms] by (simp_all add: k_def abbrs)
  have r: "of_int \<bar>n\<bar> \<le> (308 :: rat)" "of_int \<bar>k\<bar> \<le> (1023 :: rat)" using of_int_abs_le [OF assms] of_int_abs_le [OF k] by simp_all
  have ab: "0 \<le> a" "a \<le> 231 / 100" "69 / 100 \<le> b" "b \<le> 694 / 1000" by (simp_all add: abbrs)
  have na: "\<bar>of_int n * a\<bar> \<le> 308 * (231 / 100)" unfolding abs_mult using r ab by (intro mult_mono) auto
  have kb: "\<bar>of_int k * b\<bar> \<le> 1023 * (694 / 1000)" unfolding abs_mult using r ab by (intro mult_mono) auto
  have 1: "near (dmul (of_integer n) (lit a)) (of_int n * a) (1 / 10 ^ 8)" using na ab assms by (intro near_int_lit) auto
  have 2: "near (dmul (of_integer k) (lit b)) (of_int k * b) (1 / 10 ^ 8)" using kb ab k by (intro near_int_lit) auto
  note 0 = near_sub [OF 1 2]
  have "near (dsub (dmul (of_integer n) (lit a)) (dmul (of_integer k) (lit b))) (of_int n * a - of_int k * b) (1 / 1000)"
    using na kb by (intro near_weaken [OF 0]) (simp_all add: abs_le_iff)
  then obtain z where z: "dsub (dmul (of_integer n) (lit a)) (dmul (of_integer k) (lit b)) = Fin z"
    "\<bar>z - (of_int n * a - of_int k * b)\<bar> \<le> 1 / 1000" by (auto simp: near_def)
  have "\<bar>of_int n * (a - c * b)\<bar> \<le> 308 * (1 / 10 ^ 9)" unfolding abs_mult using r by (intro mult_mono) (auto simp: abbrs)
  then have t: "\<bar>of_int n * (a - c * b)\<bar> \<le> 1 / 1000" by simp
  have "of_int n * a - of_int k * b = of_int n * (a - c * b) - e * b" by (simp add: abbrs(4) algebra_simps)
  moreover have "e * b \<le> 151 / 100 * (694 / 1000)" using e(2) ab by (intro mult_mono) auto
  moreover have "- (51 / 100 * (694 / 1000)) \<le> e * b"
  proof (cases "0 \<le> e")
    case True
    then have "0 \<le> e * b" using ab by simp
    then show ?thesis by simp
  next
    case False
    then have "- e * b \<le> 51 / 100 * (694 / 1000)" using e(1) ab by (intro mult_mono) auto
    then show ?thesis by simp
  qed
  ultimately have "- (11 / 10) \<le> z \<and> z \<le> 2 / 5" using z(2) t by linarith
  then show ?thesis using z(1) unfolding k_def abbrs by blast
qed

lemma is_double_frac: "is_double (of_int n / 2 ^ k)" if "\<bar>n\<bar> \<le> 1000" "k \<le> 10"
  using that by (intro is_double_dyadic) auto

lemmas dyadics = is_double_frac [of 0 0, simplified] is_double_frac [of 1 0, simplified] is_double_frac [of 2 0, simplified]
  is_double_frac [of 10 0, simplified] is_double_frac [of 11 0, simplified] is_double_frac [of 1 2, simplified]
  is_double_frac [of 6 0, simplified] is_double_frac [of 7 0, simplified] is_double_frac [of 1 1, simplified]

lemma exp_fraction_bounds:
  assumes "- (11 / 10) \<le> z" and "z \<le> 2 / 5"
  shows "\<exists>g. exp_fraction (Fin z) = Fin g \<and> 1 / 8 \<le> g \<and> g \<le> 2"
proof -
  have dy: "is_double (3 / 2)" "is_double (25 / 8)" "is_double 4" "is_double (- (9 / 4))" "is_double (- (3 / 2))" "is_double (- (7 / 8))"
    "is_double (11 / 4)" "is_double (1 / 8)" "is_double (- (3 / 4))"
    using is_double_frac [of 3 1] is_double_frac [of 25 3] is_double_frac [of 4 0] is_double_frac [of "- 9" 2] is_double_frac [of "- 3" 1]
      is_double_frac [of "- 7" 3] is_double_frac [of 11 2] is_double_frac [of 1 3] is_double_frac [of "- 3" 2] by simp_all
  have "\<bar>z\<bar> * \<bar>z\<bar> \<le> 11 / 10 * (11 / 10)" using assms by (intro mult_mono) auto
  then have "z * z \<le> 2" by (simp add: abs_mult_self_eq)
  then obtain z2 where z2: "dmul (Fin z) (Fin z) = Fin z2" "0 \<le> z2" "z2 \<le> 2"
    using rnd_between [OF dyadics(1,3), of "z * z"] by auto
  obtain a1 where a1: "ddiv (Fin z2) (Fin 14) = Fin a1" "0 \<le> a1" "a1 \<le> 1"
    using rnd_between [OF dyadics(1,2), of "z2 / 14"] z2 by auto
  obtain a2 where a2: "dadd (Fin 10) (Fin a1) = Fin a2" "10 \<le> a2" "a2 \<le> 11"
    using rnd_between [OF dyadics(4,5), of "10 + a1"] a1 by auto
  have "z2 / a2 \<le> 2 / 10" using z2 a2 by (intro frac_le) auto
  then obtain a3 where a3: "ddiv (Fin z2) (Fin a2) = Fin a3" "0 \<le> a3" "a3 \<le> 1 / 4"
    using rnd_between [OF dyadics(1,6), of "z2 / a2"] z2 a2 by auto
  obtain a4 where a4: "dadd (Fin 6) (Fin a3) = Fin a4" "6 \<le> a4" "a4 \<le> 7"
    using rnd_between [OF dyadics(7,8), of "6 + a3"] a3 by auto
  have "z2 / a4 \<le> 2 / 6" using z2 a4 by (intro frac_le) auto
  then obtain a5 where a5: "ddiv (Fin z2) (Fin a4) = Fin a5" "0 \<le> a5" "a5 \<le> 1 / 2"
    using rnd_between [OF dyadics(1,9), of "z2 / a4"] z2 a4 by auto
  obtain lo :: rat and l2 :: rat where lo: "is_double lo" "lo \<le> 2 - z" "is_double l2" "l2 \<le> 2 * z" "3 / 2 \<le> lo" "lo \<le> 11 / 4" "- (9 / 4) \<le> l2" "l2 \<le> 0" "- (7 / 8) * lo \<le> l2"
  proof (cases "z < - (3 / 4)")
    case True
    then show ?thesis using that [of "11 / 4" "- (9 / 4)"] dy assms by simp
  next
    case False
    show ?thesis
    proof (cases "z < 0")
      case True
      then show ?thesis using that [of 2 "- (3 / 2)"] dy dyadics(3) False by simp
    next
      case False
      then show ?thesis using that [of "3 / 2" 0] dy dyadics(1) assms by simp
    qed
  qed
  obtain b where b: "dsub (Fin 2) (Fin z) = Fin b" "lo \<le> b" "b \<le> 25 / 8"
    using rnd_between [OF lo(1) dy(2), of "2 - z"] lo assms by (auto simp: dsub_def)
  obtain d where d: "dadd (Fin b) (Fin a5) = Fin d" "lo \<le> d" "d \<le> 4"
    using rnd_between [OF lo(1) dy(3), of "b + a5"] lo a5 b by auto
  obtain n where n: "dmul (Fin 2) (Fin z) = Fin n" "l2 \<le> n" "n \<le> 1"
    using rnd_between [OF lo(3) dyadics(2), of "2 * z"] lo assms by auto
  have d0: "0 < d" using d lo by simp
  have "- (7 / 8) * d \<le> n"
  proof -
    have "- (7 / 8) * d \<le> - (7 / 8) * lo" using d(2) by simp
    also have "\<dots> \<le> l2" by (rule lo(9))
    finally show ?thesis using n(2) by simp
  qed
  then have "- (7 / 8) \<le> n / d" using d0 by (simp add: pos_le_divide_eq)
  moreover have "n / d \<le> 1" using n(3) d(2) lo(5) d0 by (simp add: pos_divide_le_eq)
  ultimately obtain h where h: "ddiv (Fin n) (Fin d) = Fin h" "- (7 / 8) \<le> h" "h \<le> 1"
    using rnd_between [OF dy(6) dyadics(2), of "n / d"] d0 by auto
  obtain g where "dadd (Fin 1) (Fin h) = Fin g" "1 / 8 \<le> g" "g \<le> 2"
    using rnd_between [OF dy(8) dyadics(3), of "1 + h"] h by auto
  then show ?thesis
    unfolding exp_fraction_def Let_def z2(1) a1(1) a2(1) a3(1) a4(1) a5(1) b(1) d(1) n(1) h(1) by blast
qed

lemma etoa_pow10_bounds:
  assumes "\<bar>n\<bar> \<le> 308"
  shows "etoa_pow10 n = Inf False \<or> (\<exists>y. etoa_pow10 n = Fin y \<and> 2 powi (etoa_exp2 n - 3) \<le> y)"
proof -
  let ?k = "etoa_exp2 n"
  have k: "- 1023 < ?k" "?k < 1024" using etoa_exp2_near(1,2) [OF assms] by auto
  obtain z where z: "dsub (dmul (of_integer n) (lit (2302585092994046 / 10 ^ 15))) (dmul (of_integer ?k) (lit (6931471805599453 / 10 ^ 16))) = Fin z"
    "- (11 / 10) \<le> z" "z \<le> 2 / 5" using etoa_z_near [OF assms] by blast
  obtain g where g: "exp_fraction (Fin z) = Fin g" "1 / 8 \<le> g" "g \<le> 2" using exp_fraction_bounds [OF z(2,3)] by blast
  have e: "etoa_pow10 n = rnd (2 powi ?k * g)"
    unfolding etoa_pow10_def Let_def z(1) g(1) power_of_two_bits [OF k] by simp
  have "2 powi ?k * (1 / 8) \<le> 2 powi ?k * g" using g(2) by (intro mult_left_mono) auto
  then have "2 powi (?k - 3) \<le> 2 powi ?k * g" by (simp add: power_int_diff)
  moreover have "is_double (2 powi (?k - 3))"
    unfolding is_double_def using k by (intro exI [of _ 1] exI [of _ "?k - 3"]) simp
  ultimately have "2 powi (?k - 3) \<le> rounded (2 powi ?k * g)" by (rule rounded_ge [rotated])
  then show ?thesis using e g(2) by (auto simp: rnd_def not_less zero_le_mult_iff)
qed

text \<open>The estimates of the two exponents are at most four apart, and the factor is not much smaller than the power of two it stands for.\<close>

lemma exponents_near:
  assumes "\<bar>x\<bar> \<le> 1023" and "\<bar>of_int L - of_int x * (301029995663981 / 10 ^ 15)\<bar> \<le> (4 / 3 :: rat)"
    and "of_int k - of_int L * (3321928094887362 / 10 ^ 15) \<ge> (- (51 / 100) :: rat)"
  shows "x - k \<le> 4"
proof -
  have "of_int L \<ge> of_int x * (301029995663981 / 10 ^ 15 :: rat) - 4 / 3" using assms(2) by linarith
  then have "(of_int x * (301029995663981 / 10 ^ 15) - 4 / 3) * (3321928094887362 / 10 ^ 15) \<le> of_int L * (3321928094887362 / 10 ^ 15 :: rat)"
    by (intro mult_right_mono) auto
  then have "of_int k \<ge> (of_int x * (301029995663981 / 10 ^ 15) - 4 / 3) * (3321928094887362 / 10 ^ 15) - (51 / 100 :: rat)"
    using assms(3) by linarith
  moreover have "\<bar>of_int x * (1 - 301029995663981 / 10 ^ 15 * (3321928094887362 / 10 ^ 15))\<bar> \<le> 1023 * (1 / 10 ^ 9 :: rat)"
    unfolding abs_mult using of_int_abs_le [OF assms(1)] by (intro mult_mono) auto
  ultimately have "of_int (x - k) < (of_int 5 :: rat)" by (simp add: abs_le_iff algebra_simps)
  then show ?thesis by (simp only: of_int_less_iff)
qed

lemma etoa_scale_factor:
  assumes "\<bar>etoa_log10 d\<bar> \<le> 308" and "- 1022 \<le> etoa_exp2 (etoa_log10 d)" and "etoa_scale d = (n, F)"
  shows "F = Inf False \<or> (\<exists>y. F = Fin y \<and> 2 powi (etoa_exp2 (etoa_log10 d) - 7) \<le> y)"
proof -
  let ?L = "etoa_log10 d" and ?k = "etoa_exp2 (etoa_log10 d)"
  have pow: "etoa_pow10 ?L = Inf False \<or> (\<exists>y. etoa_pow10 ?L = Fin y \<and> 2 powi (?k - 3) \<le> y)" by (rule etoa_pow10_bounds [OF assms(1)])
  show ?thesis
  proof (cases "dlt d (etoa_pow10 ?L)")
    case False
    then have "F = etoa_pow10 ?L" using assms(3) by (auto simp: etoa_scale_def Let_def)
    then show ?thesis using pow powi_le [of "?k - 7" "?k - 3"] by (auto intro: order_trans)
  next
    case True
    then have Fd: "F = ddiv (etoa_pow10 ?L) (Fin 10)" using assms(3) by (auto simp: etoa_scale_def Let_def)
    show ?thesis
    proof (cases "etoa_pow10 ?L = Inf False")
      case False
      then obtain y where y: "etoa_pow10 ?L = Fin y" "2 powi (?k - 3) \<le> y" using pow by blast
      have "2 powi (?k - 7) * 10 \<le> (2 powi (?k - 7) * 16 :: rat)" by simp
      also have "\<dots> = 2 powi (?k - 3)" by (simp add: power_int_diff)
      finally have "2 powi (?k - 7) \<le> y / 10" using y(2) by simp
      moreover have "is_double (2 powi (?k - 7))"
        unfolding is_double_def using assms(2) by (intro exI [of _ 1] exI [of _ "?k - 7"]) simp
      ultimately have "2 powi (?k - 7) \<le> rounded (y / 10)" by (rule rounded_ge [rotated])
      moreover have "0 \<le> y" using y(2) by (rule order_trans [rotated]) simp
      ultimately show ?thesis using Fd y(1) by (auto simp: rnd_def)
    qed (simp add: Fd)
  qed
qed

lemma etoa_rescaled:
  assumes "0 \<le> v" and "v < 2 ^ 1024" and "is_double v" and "etoa_scale (Fin v) = (n, F)"
  shows "\<exists>r. ddiv (Fin v) F = Fin r \<and> 0 \<le> r \<and> r \<le> 2 ^ 12" and "n = 0 \<Longrightarrow> v \<le> 2 ^ 12"
proof -
  let ?L = "etoa_log10 (Fin v)" and ?k = "etoa_exp2 (etoa_log10 (Fin v))"
  obtain x where x: "\<bar>x\<bar> \<le> 1023" "v < 2 powi (x + 1)" "\<bar>?L\<bar> \<le> 308"
    "\<bar>of_int ?L - of_int x * (301029995663981 / 10 ^ 15)\<bar> \<le> (4 / 3 :: rat)"
    using etoa_log10_near [OF assms(1-3)] by blast
  have k: "- 1022 \<le> ?k" "of_int ?k - of_int ?L * (3321928094887362 / 10 ^ 15) \<ge> (- (51 / 100) :: rat)"
    using etoa_exp2_near [OF x(3)] by auto
  have xk: "x - ?k \<le> 4" by (rule exponents_near [OF x(1,4) k(2)])
  have quot: "\<exists>r. ddiv (Fin v) (Fin y) = Fin r \<and> 0 \<le> r \<and> r \<le> 2 ^ 12" if "2 powi (?k - 7) \<le> y" for y
  proof -
    have y: "0 < y" using that by (rule less_le_trans [rotated]) simp
    have "v / y \<le> 2 powi (x + 1) / 2 powi (?k - 7)" using x(2) that assms(1) by (intro frac_le) auto
    also have "\<dots> = 2 powi (x - ?k + 8)" by (simp flip: power_int_diff add: add.commute)
    also have "\<dots> \<le> 2 powi 12" using xk by (intro powi_le) simp
    finally have "v / y \<le> 2 ^ 12" by simp
    then show ?thesis
      using rnd_between [of 0 "2 ^ 12" "v / y"] y assms(1) is_double_int [of 0] is_double_int [of "2 ^ 12"] by auto
  qed
  then show "\<exists>r. ddiv (Fin v) F = Fin r \<and> 0 \<le> r \<and> r \<le> 2 ^ 12" using etoa_scale_factor [OF x(3) k(1) assms(4)] by auto
  show "v \<le> 2 ^ 12" if "n = 0"
  proof -
    have "?L \<le> 1" using assms(4) that by (auto simp: etoa_scale_def Let_def split: if_splits)
    then have "of_int ?L \<le> (1 :: rat)" by simp
    then have "of_int x * (301029995663981 / 10 ^ 15) \<le> (7 / 3 :: rat)" using x(4) by linarith
    then have "of_int x < (of_int 8 :: rat)" by simp
    then have "x + 1 \<le> 12" by (simp only: of_int_less_iff)
    then have "2 powi (x + 1) \<le> (2 powi 12 :: rat)" by (rule powi_le)
    then show ?thesis using x(2) by simp
  qed
qed

section \<open>\<open>_etoa\<close> and \<open>_ftoa\<close> return\<close>

text \<open>The doubles: what \<open>va_arg\<close> can produce.\<close>

definition valid :: "double \<Rightarrow> bool" where
  "valid d \<longleftrightarrow> (case d of Fin v \<Rightarrow> is_double v \<and> \<bar>v\<bar> < 2 ^ 1024 | _ \<Rightarrow> True)"

lemma valid_bits: "valid (double_of_bits w)"
  using double_of_bits_is_double by (auto simp: valid_def split: double.splits)

lemma dbl_max: "(2 :: rat) ^ 12 < 10 ^ 9" "(10 :: rat) ^ 9 < (2 ^ 53 - 1) * 2 ^ 971"
proof -
  have "(10 :: rat) ^ 9 * 1 < (2 ^ 53 - 1) * 2 ^ 971" by (rule mult_less_le_imp_less) simp_all
  then show "(10 :: rat) ^ 9 < (2 ^ 53 - 1) * 2 ^ 971" by simp
qed simp

lemma not_large: "\<bar>r\<bar> \<le> 10 ^ 9 \<Longrightarrow> \<not> is_special (Fin r) \<and> \<not> is_large (Fin r)"
  using dbl_max(2) by (auto simp: is_special_def DBL_MAX_def is_large_def PRINTF_MAX_FLOAT_def abs_le_iff)

text \<open>The number \<open>_etoa\<close> passes on is never special and never above the limit.\<close>

lemma etoa_passes_small:
  assumes "valid value" and "\<not> is_special value" and "v = (if dlt value (Fin 0) then dneg value else value)"
    and "etoa_scale v = (n0, F)" and "etoa_adapt v n0 p flags = (p', flags', minwidth, n)"
    and "v1 = (if n \<noteq> 0 then ddiv v F else v)" and "v2 = (if dlt value (Fin 0) then dneg v1 else v1)"
  shows "\<not> is_special v2 \<and> \<not> is_large v2"
proof -
  obtain u where u: "value = Fin u" "is_double u" "\<bar>u\<bar> < 2 ^ 1024"
    using assms(1,2) by (cases "value") (auto simp: valid_def is_special_def DBL_MAX_def)
  have v: "v = Fin \<bar>u\<bar>" "is_double \<bar>u\<bar>" using assms(3) u is_double_minus by (auto simp: abs_if)
  have sc: "etoa_scale (Fin \<bar>u\<bar>) = (n0, F)" using assms(4) v by simp
  note r = etoa_rescaled [OF _ u(3) v(2) sc, simplified]
  have "\<exists>r. v1 = Fin r \<and> \<bar>r\<bar> \<le> 10 ^ 9"
  proof (cases "n = 0")
    case False
    then show ?thesis using r(1) assms(6) v(1) dbl_max(1) by fastforce
  next
    case True
    then have "n0 = 0 \<or> dlt v (Fin (10 ^ 6))" using assms(5) by (auto simp: etoa_adapt_def Let_def split: if_splits)
    then have "\<bar>u\<bar> \<le> 10 ^ 9" using r(2) v(1) by auto
    then show ?thesis using True assms(6) v(1) by simp
  qed
  then show ?thesis using assms(7) not_large by (auto simp: abs_minus_cancel)
qed

text \<open>What \<open>_etoa\<close> computes, without the recursion.\<close>

definition etoa_direct ::
    "out_fct \<Rightarrow> nat \<Rightarrow> double \<Rightarrow> u32 \<Rightarrow> u32 \<Rightarrow> u32 \<Rightarrow> nat \<times> out_state \<Rightarrow> (nat \<times> out_state) res" where
  "etoa_direct f maxlen value prec width flags x =
     (if is_special value then Inr (ftoa_special f maxlen value width flags x)
      else
        let negative = dlt value (Fin 0);
            v = (if negative then dneg value else value);
            p = (if has flags FLAGS_PRECISION then prec else PRINTF_DEFAULT_FLOAT_PRECISION)
        in case etoa_scale v of (expval0, F) \<Rightarrow>
        case etoa_adapt v expval0 p flags of (p', flags', minwidth, expval) \<Rightarrow>
        let fwidth = etoa_fwidth width minwidth flags';
            v1 = (if expval \<noteq> 0 then ddiv v F else v);
            v2 = (if negative then dneg v1 else v1)
        in case ftoa_fixed f maxlen v2 p' fwidth (flags' AND NOT FLAGS_ADAPT_EXP) x of
             Inl e \<Rightarrow> Inl e
           | Inr x' \<Rightarrow> Inr (etoa_exponent f maxlen (fst x) expval minwidth width flags' x'))"

lemma etoa_eq:
  assumes "valid value" shows "etoa f m value prec width flags x = Some (etoa_direct f m value prec width flags x)"
proof (cases "is_special value")
  case True
  then show ?thesis by (simp add: etoa.simps etoa_direct_def)
next
  case False
  let ?v = "if dlt value (Fin 0) then dneg value else value" and ?p = "if has flags FLAGS_PRECISION then prec else PRINTF_DEFAULT_FLOAT_PRECISION"
  obtain n0 F where s: "etoa_scale ?v = (n0, F)" by fastforce
  obtain p' flags' w n where a: "etoa_adapt ?v n0 ?p flags = (p', flags', w, n)" by (metis prod.exhaust)
  let ?v1 = "if n \<noteq> 0 then ddiv ?v F else ?v"
  have "\<not> is_special (if dlt value (Fin 0) then dneg ?v1 else ?v1) \<and> \<not> is_large (if dlt value (Fin 0) then dneg ?v1 else ?v1)"
    by (rule etoa_passes_small [OF assms False refl s a refl refl])
  then show ?thesis
    using False by (simp only: etoa.simps [of f m "value"] etoa_direct_def Let_def s a prod.case if_False bind.bind_lunit not_False_eq_True)
qed

section \<open>What they print\<close>

lemma ftoa_fixed_uniform: "uniform_out (\<lambda>f m x. ftoa_fixed f m value prec width flags x)"
proof (cases "length pow10 \<le> unat (fst (limit_prec (if has flags FLAGS_PRECISION then prec else PRINTF_DEFAULT_FLOAT_PRECISION) []))")
  case True
  then show ?thesis by (auto simp: ftoa_fixed_def Let_def case_prod_beta uniform_out_def)
next
  case False
  then show ?thesis
    using uniform_outI [OF exI, OF emits_out_rev] by (simp add: ftoa_fixed_def Let_def case_prod_beta)
qed

lemma ftoa_special_emits: "\<exists>cs. emits (\<lambda>f m x. ftoa_special f m value width flags x) cs"
  using emits_out_rev unfolding ftoa_special_def by (cases "value = NaN"; cases "dlt value (dneg DBL_MAX)"; simp; blast)

lemma etoa_exponent_emits:
  "\<exists>cs. \<forall>f m x. etoa_exponent f m (fst x) n minwidth width flags (emit f m cs0 x) = emit f m cs x"
proof (cases "minwidth = 0")
  case True
  then show ?thesis by (auto simp: etoa_exponent_def)
next
  case False
  obtain cs1 where cs1: "\<And>f m x. ntoa_long f m (word_of_int \<bar>n\<bar>) (n < 0) 10 0 (minwidth - 1) (FLAGS_ZEROPAD OR FLAGS_PLUS) x = emit f m cs1 x"
    using emits_ntoa_long unfolding emits_def by blast
  define e where "e = [chr (if has flags FLAGS_UPPERCASE then CHR ''E'' else CHR ''e'')]"
  let ?pad = "if has flags FLAGS_LEFT then spaces (unat width - (length cs0 + 1 + length cs1)) else []"
  have "etoa_exponent f m (fst x) n minwidth width flags (emit f m cs0 x) = emit f m (cs0 @ e @ cs1 @ ?pad) x" for f m x
    using False unfolding etoa_exponent_def Let_def cs1 e_def [symmetric] by (simp add: emit_append, simp add: e_def)
  then show ?thesis by blast
qed

lemma etoa_direct_uniform: "uniform_out (\<lambda>f m x. etoa_direct f m value prec width flags x)"
proof (cases "is_special value")
  case True
  then show ?thesis using uniform_outI [OF ftoa_special_emits] by (simp add: etoa_direct_def)
next
  case False
  let ?v = "if dlt value (Fin 0) then dneg value else value" and ?p = "if has flags FLAGS_PRECISION then prec else PRINTF_DEFAULT_FLOAT_PRECISION"
  obtain n0 F where s: "etoa_scale ?v = (n0, F)" by fastforce
  obtain p' flags' w n where a: "etoa_adapt ?v n0 ?p flags = (p', flags', w, n)" by (metis prod.exhaust)
  let ?v1 = "if n \<noteq> 0 then ddiv ?v F else ?v"
  define g where "g = (\<lambda>f m x. ftoa_fixed f m (if dlt value (Fin 0) then dneg ?v1 else ?v1) p' (etoa_fwidth width w flags') (flags' AND NOT FLAGS_ADAPT_EXP) x)"
  have e: "etoa_direct f m value prec width flags x = (case g f m x of Inl e \<Rightarrow> Inl e
      | Inr x' \<Rightarrow> Inr (etoa_exponent f m (fst x) n w width flags' x'))" for f m x
    using False by (simp only: etoa_direct_def Let_def s a prod.case if_False g_def)
  have "uniform_out g" unfolding g_def by (rule ftoa_fixed_uniform)
  then consider err where "\<And>f m x. g f m x = Inl err" | cs0 where "\<And>f m x. g f m x = Inr (emit f m cs0 x)"
    unfolding uniform_out_def by blast
  then show ?thesis
  proof cases
    case 1
    then show ?thesis by (auto simp: e uniform_out_def)
  next
    case (2 cs0)
    obtain cs where "\<And>f m x. etoa_exponent f m (fst x) n w width flags' (emit f m cs0 x) = emit f m cs x"
      using etoa_exponent_emits by blast
    then show ?thesis using 2 by (auto simp: e uniform_out_def intro!: disjI2)
  qed
qed

definition ftoa_direct ::
    "out_fct \<Rightarrow> nat \<Rightarrow> double \<Rightarrow> u32 \<Rightarrow> u32 \<Rightarrow> u32 \<Rightarrow> nat \<times> out_state \<Rightarrow> (nat \<times> out_state) res" where
  "ftoa_direct f maxlen value prec width flags x =
     (if is_special value then Inr (ftoa_special f maxlen value width flags x)
      else if is_large value then etoa_direct f maxlen value prec width flags x
      else ftoa_fixed f maxlen value prec width flags x)"

lemma ftoa_eq: "valid value \<Longrightarrow> ftoa f m value prec width flags x = Some (ftoa_direct f m value prec width flags x)"
  by (simp add: ftoa_def ftoa_direct_def etoa_eq)

lemma ftoa_direct_uniform: "uniform_out (\<lambda>f m x. ftoa_direct f m value prec width flags x)"
  unfolding ftoa_direct_def
  by (intro uniform_out_if uniform_outI ftoa_special_emits etoa_direct_uniform ftoa_fixed_uniform)

section \<open>Properties\<close>

text \<open>
  C13: the conversions of floating point numbers return, for every double and every precision, width and set of flags:
  \<open>_ftoa\<close> and \<open>_etoa\<close> call each other, and the estimate of the decimal exponent is good enough for every one of
  the doubles to stop after one rescaling. What is printed depends neither on where it goes nor on what
  has been printed before.
\<close>

theorem float_conversions_return:
  "(\<exists>r. \<forall>f m x. etoa f m (double_of_bits w) prec width flags x = Some (case r of Inl e \<Rightarrow> Inl e | Inr cs \<Rightarrow> Inr (emit f m cs x))) \<and>
   (\<exists>r. \<forall>f m x. ftoa f m (double_of_bits w) prec width flags x = Some (case r of Inl e \<Rightarrow> Inl e | Inr cs \<Rightarrow> Inr (emit f m cs x)))"
proof -
  have u: "\<exists>r. \<forall>f m x. g f m x = (case r of Inl e \<Rightarrow> Inl e | Inr cs \<Rightarrow> Inr (emit f m cs x))" if "uniform_out g" for g :: "out_fct \<Rightarrow> nat \<Rightarrow> nat \<times> out_state \<Rightarrow> (nat \<times> out_state) res"
    using that unfolding uniform_out_def by (metis sum.case)
  show ?thesis
    unfolding etoa_eq [OF valid_bits] ftoa_eq [OF valid_bits] option.inject
    by (intro conjI u etoa_direct_uniform ftoa_direct_uniform)
qed

end
