(* ===== verification/Printk.thy ===== *)
theory Printk
  imports Etoa
begin

text \<open>
  Formatted output, the top: the parser of format specifications, \<open>_vsnprintf\<close> and the functions around it, of
  \<^verbatim>\<open>kernel/printk.c\<close>. A format is the bytes of the string without its terminating zero; \<open>[]\<close> is the
  state of the pointer when it is at the zero.
\<close>

section \<open>Format specifications\<close>

text \<open>
  The arguments: a register holds an integer or a pointer to a string, given by its contents. Reading
  more arguments than there are, or a string where there is a number, is undefined.
\<close>

datatype va_arg = VInt u64 | VStr "u8 list" | VDouble u64

record fmt_spec =
  sp_flags :: u32
  sp_width :: u32
  sp_prec :: u32

fun parse_flags :: "u8 list \<Rightarrow> u32 \<Rightarrow> u32 \<times> u8 list" where
  "parse_flags [] flags = (flags, [])"
| "parse_flags (c # cs) flags =
     (if c = chr (CHR ''0'') then parse_flags cs (flags OR FLAGS_ZEROPAD)
      else if c = chr (CHR ''-'') then parse_flags cs (flags OR FLAGS_LEFT)
      else if c = chr (CHR ''+'') then parse_flags cs (flags OR FLAGS_PLUS)
      else if c = chr (CHR '' '') then parse_flags cs (flags OR FLAGS_SPACE)
      else if c = chr (CHR ''#'') then parse_flags cs (flags OR FLAGS_HASH)
      else (flags, c # cs))"

definition va_int :: "va_arg list \<Rightarrow> (u64 \<times> va_arg list) res" where
  "va_int va = (case va of VInt n # rest \<Rightarrow> Inr (n, rest) | _ \<Rightarrow> Inl WildPointer)"

definition va_str :: "va_arg list \<Rightarrow> (u8 list \<times> va_arg list) res" where
  "va_str va = (case va of VStr s # rest \<Rightarrow> Inr (s, rest) | _ \<Rightarrow> Inl WildPointer)"

definition starts :: "char \<Rightarrow> u8 list \<Rightarrow> bool" where
  "starts c cs \<longleftrightarrow> (case cs of [] \<Rightarrow> False | d # _ \<Rightarrow> d = chr c)"

definition at_digit :: "u8 list \<Rightarrow> bool" where
  "at_digit cs \<longleftrightarrow> (case cs of [] \<Rightarrow> False | d # _ \<Rightarrow> is_digit d)"

definition parse_width :: "u8 list \<Rightarrow> u32 \<Rightarrow> va_arg list \<Rightarrow> (u32 \<times> u32 \<times> u8 list \<times> va_arg list) res" where
  "parse_width cs flags va =
     (if at_digit cs then (case atoi cs 0 of (w, rest) \<Rightarrow> Inr (w, flags, rest, va))
      else if starts (CHR ''*'') cs then
        bind_res (va_int va) (\<lambda>(n, va').
          let w = (ucast n :: u32) in
          if w <s 0 then Inr (- w, flags OR FLAGS_LEFT, tl cs, va') else Inr (w, flags, tl cs, va'))
      else Inr (0, flags, cs, va))"

definition parse_precision :: "u8 list \<Rightarrow> u32 \<Rightarrow> va_arg list \<Rightarrow> (u32 \<times> u32 \<times> u8 list \<times> va_arg list) res" where
  "parse_precision cs flags va =
     (if starts (CHR ''.'') cs then
        let flags' = flags OR FLAGS_PRECISION; cs' = tl cs in
        if at_digit cs' then (case atoi cs' 0 of (p, rest) \<Rightarrow> Inr (p, flags', rest, va))
        else if starts (CHR ''*'') cs' then
          bind_res (va_int va) (\<lambda>(n, va').
            let p = (ucast n :: u32) in Inr (if 0 <s p then p else 0, flags', tl cs', va'))
        else Inr (0, flags', cs', va)
      else Inr (0, flags, cs, va))"

definition parse_length :: "u8 list \<Rightarrow> u32 \<Rightarrow> u32 \<times> u8 list" where
  "parse_length cs flags =
     (if starts (CHR ''l'') cs then
        let flags' = flags OR FLAGS_LONG; cs' = tl cs in
        if starts (CHR ''l'') cs' then (flags' OR FLAGS_LONG_LONG, tl cs') else (flags', cs')
      else if starts (CHR ''h'') cs then
        let flags' = flags OR FLAGS_SHORT; cs' = tl cs in
        if starts (CHR ''h'') cs' then (flags' OR FLAGS_CHAR, tl cs') else (flags', cs')
      else if starts (CHR ''t'') cs \<or> starts (CHR ''j'') cs \<or> starts (CHR ''z'') cs then (flags OR FLAGS_LONG, tl cs)
      else (flags, cs))"

definition parse_spec :: "u8 list \<Rightarrow> va_arg list \<Rightarrow> (fmt_spec \<times> u8 list \<times> va_arg list) res" where
  "parse_spec cs va =
     (case parse_flags cs 0 of (flags, cs1) \<Rightarrow>
      bind_res (parse_width cs1 flags va) (\<lambda>(width, flags, cs2, va).
      bind_res (parse_precision cs2 flags va) (\<lambda>(prec, flags, cs3, va).
      case parse_length cs3 flags of (flags, cs4) \<Rightarrow>
        Inr (\<lparr>sp_flags = flags, sp_width = width, sp_prec = prec\<rparr>, cs4, va))))"

section \<open>Conversions\<close>

definition int_base :: "u8 \<Rightarrow> u64" where
  "int_base c = (if c = chr (CHR ''x'') \<or> c = chr (CHR ''X'') then 16 else if c = chr (CHR ''o'') then 8
                 else if c = chr (CHR ''b'') then 2 else 10)"

definition is_signed :: "u8 \<Rightarrow> bool" where
  "is_signed c \<longleftrightarrow> c = chr (CHR ''i'') \<or> c = chr (CHR ''d'')"

definition int_flags :: "u8 \<Rightarrow> u32 \<Rightarrow> u32" where
  "int_flags c flags =
     (let f1 = (if int_base c = 10 then flags AND NOT FLAGS_HASH else flags);
          f2 = (if c = chr (CHR ''X'') then f1 OR FLAGS_UPPERCASE else f1);
          f3 = (if \<not> is_signed c then f2 AND NOT (FLAGS_PLUS OR FLAGS_SPACE) else f2)
      in if has f3 FLAGS_PRECISION then f3 AND NOT FLAGS_ZEROPAD else f3)"

text \<open>\<open>value > 0 ? value : 0 - value\<close> as an unsigned number.\<close>

definition magnitude :: "'a::len word \<Rightarrow> 'a word" where
  "magnitude v = (if 0 <s v then v else 0 - v)"

definition conv_signed ::
    "out_fct \<Rightarrow> nat \<Rightarrow> u64 \<Rightarrow> u64 \<Rightarrow> u32 \<Rightarrow> u32 \<Rightarrow> u32 \<Rightarrow> nat \<times> out_state \<Rightarrow> nat \<times> out_state" where
  "conv_signed f maxlen a base prec width flags x =
     (if has flags FLAGS_LONG_LONG then ntoa_long_long f maxlen (magnitude a) (a <s 0) base prec width flags x
      else if has flags FLAGS_LONG then ntoa_long f maxlen (magnitude a) (a <s 0) base prec width flags x
      else
        let v = (if has flags FLAGS_CHAR then scast (ucast a :: u8) else
                 if has flags FLAGS_SHORT then scast (ucast a :: u16) else (ucast a :: u32))
        in ntoa_long f maxlen (ucast (magnitude v)) (v <s 0) base prec width flags x)"

definition conv_unsigned ::
    "out_fct \<Rightarrow> nat \<Rightarrow> u64 \<Rightarrow> u64 \<Rightarrow> u32 \<Rightarrow> u32 \<Rightarrow> u32 \<Rightarrow> nat \<times> out_state \<Rightarrow> nat \<times> out_state" where
  "conv_unsigned f maxlen a base prec width flags x =
     (if has flags FLAGS_LONG_LONG then ntoa_long_long f maxlen a False base prec width flags x
      else if has flags FLAGS_LONG then ntoa_long f maxlen a False base prec width flags x
      else
        let v = (if has flags FLAGS_CHAR then ucast (ucast a :: u8) else
                 if has flags FLAGS_SHORT then ucast (ucast a :: u16) else (ucast a :: u32))
        in ntoa_long f maxlen (ucast v) False base prec width flags x)"

definition conv_char :: "out_fct \<Rightarrow> nat \<Rightarrow> u64 \<Rightarrow> u32 \<Rightarrow> u32 \<Rightarrow> nat \<times> out_state \<Rightarrow> nat \<times> out_state" where
  "conv_char f maxlen a width flags x =
     (let pad = spaces (unat width - 1) in
      if has flags FLAGS_LEFT then emit f maxlen pad (emit f maxlen [ucast a] x)
      else emit f maxlen [ucast a] (emit f maxlen pad x))"

definition conv_str :: "out_fct \<Rightarrow> nat \<Rightarrow> u8 list \<Rightarrow> u32 \<Rightarrow> u32 \<Rightarrow> u32 \<Rightarrow> nat \<times> out_state \<Rightarrow> nat \<times> out_state" where
  "conv_str f maxlen p prec width flags x =
     (let l0 = strnlen_s p (if prec \<noteq> 0 then unat prec else 2 ^ 64 - 1);
          l = (if has flags FLAGS_PRECISION then min l0 (unat prec) else l0);
          pad = spaces (unat width - l);
          shown = (if has flags FLAGS_PRECISION then take (unat prec) p else p)
      in if has flags FLAGS_LEFT then emit f maxlen pad (emit f maxlen shown x)
         else emit f maxlen shown (emit f maxlen pad x))"

definition int_convs :: "u8 set" where
  "int_convs = chr ` {CHR ''d'', CHR ''i'', CHR ''u'', CHR ''x'', CHR ''X'', CHR ''o'', CHR ''b''}"

definition flt_convs :: "u8 set" where
  "flt_convs = chr ` {CHR ''f'', CHR ''F'', CHR ''e'', CHR ''E'', CHR ''g'', CHR ''G''}"

text \<open>The floating point conversions.\<close>

definition flt_flags :: "u8 \<Rightarrow> u32 \<Rightarrow> u32" where
  "flt_flags c flags =
     (let f1 = (if c = chr (CHR ''g'') \<or> c = chr (CHR ''G'') then flags OR FLAGS_ADAPT_EXP else flags)
      in if c = chr (CHR ''F'') \<or> c = chr (CHR ''E'') \<or> c = chr (CHR ''G'') then f1 OR FLAGS_UPPERCASE else f1)"

definition conv_float ::
    "out_fct \<Rightarrow> nat \<Rightarrow> u8 \<Rightarrow> u64 \<Rightarrow> fmt_spec \<Rightarrow> nat \<times> out_state \<Rightarrow> (nat \<times> out_state) res" where
  "conv_float f maxlen c d sp x =
     returned ((if c = chr (CHR ''f'') \<or> c = chr (CHR ''F'') then ftoa else etoa)
       f maxlen (double_of_bits d) (sp_prec sp) (sp_width sp) (flt_flags c (sp_flags sp)) x)"

definition convert ::
    "out_fct \<Rightarrow> nat \<Rightarrow> u8 \<Rightarrow> fmt_spec \<Rightarrow> va_arg list \<Rightarrow> nat \<times> out_state \<Rightarrow> ((nat \<times> out_state) \<times> va_arg list) res" where
  "convert f maxlen c sp va x =
     (if c \<in> int_convs then
        let flags = int_flags c (sp_flags sp) in
        bind_res (va_int va) (\<lambda>(a, va').
          Inr (if is_signed c then conv_signed f maxlen a (int_base c) (sp_prec sp) (sp_width sp) flags x
               else conv_unsigned f maxlen a (int_base c) (sp_prec sp) (sp_width sp) flags x, va'))
      else if c \<in> flt_convs then
        (case va of VDouble d # va' \<Rightarrow> bind_res (conv_float f maxlen c d sp x) (\<lambda>x'. Inr (x', va')) | _ \<Rightarrow> Inl WildPointer)
      else if c = chr (CHR ''c'') then
        bind_res (va_int va) (\<lambda>(a, va'). Inr (conv_char f maxlen a (sp_width sp) (sp_flags sp) x, va'))
      else if c = chr (CHR ''s'') then
        bind_res (va_str va) (\<lambda>(p, va'). Inr (conv_str f maxlen p (sp_prec sp) (sp_width sp) (sp_flags sp) x, va'))
      else if c = chr (CHR ''p'') then
        bind_res (va_int va) (\<lambda>(a, va').
          Inr (ntoa_long_long f maxlen a False 16 (sp_prec sp) 16 (sp_flags sp OR (FLAGS_ZEROPAD OR FLAGS_UPPERCASE)) x, va'))
      else Inr (emit f maxlen [c] x, va))"

section \<open>The main loop\<close>

text \<open>
  A format that ends inside a specification reaches the default branch at the terminating zero and
  moves the pointer past it: the fault.
\<close>

lemma parse_flags_length: "length (snd (parse_flags cs fl)) \<le> length cs"
  by (induction cs fl rule: parse_flags.induct) auto

lemma atoi_length: "length (snd (atoi cs i)) \<le> length cs"
  by (induction cs i rule: atoi.induct) auto

lemma parse_width_length: "parse_width cs fl va = Inr (w, fl', rest, va') \<Longrightarrow> length rest \<le> length cs"
  using atoi_length [of cs 0]
  by (auto simp: parse_width_def bind_res_def Let_def split: if_splits prod.splits sum.splits)

lemma parse_precision_length: "parse_precision cs fl va = Inr (w, fl', rest, va') \<Longrightarrow> length rest \<le> length cs"
  using atoi_length [of "tl cs" 0]
  by (auto simp: parse_precision_def bind_res_def Let_def split: if_splits prod.splits sum.splits)

lemma parse_length_length: "length (snd (parse_length cs fl)) \<le> length cs"
  by (auto simp: parse_length_def Let_def)

lemma parse_spec_length:
  assumes "parse_spec cs va = Inr (sp, rest, va')"
  shows "length rest \<le> length cs"
proof -
  obtain flags cs1 where 1: "parse_flags cs 0 = (flags, cs1)" by fastforce
  obtain w fl2 cs2 va2 where 2: "parse_width cs1 flags va = Inr (w, fl2, cs2, va2)"
    using assms 1 by (auto simp: parse_spec_def bind_res_def split: sum.splits)
  obtain p fl3 cs3 va3 where 3: "parse_precision cs2 fl2 va2 = Inr (p, fl3, cs3, va3)"
    using assms 1 2 by (auto simp: parse_spec_def bind_res_def split: sum.splits)
  have "rest = snd (parse_length cs3 fl3)"
    using assms 1 2 3 by (auto simp: parse_spec_def split: prod.splits)
  then show ?thesis
    using parse_flags_length [of cs 0] parse_width_length [OF 2] parse_precision_length [OF 3] parse_length_length [of cs3 fl3] 1
    by simp
qed

function vsnprintf_loop ::
    "out_fct \<Rightarrow> nat \<Rightarrow> u8 list \<Rightarrow> va_arg list \<Rightarrow> nat \<times> out_state \<Rightarrow> (nat \<times> out_state) res" where
  "vsnprintf_loop f maxlen [] va x = Inr x"
| "vsnprintf_loop f maxlen (c # cs) va x =
     (if c \<noteq> chr (CHR ''%'') then vsnprintf_loop f maxlen cs va (emit f maxlen [c] x)
      else
        case parse_spec cs va of
          Inl e \<Rightarrow> Inl e
        | Inr (sp, [], va') \<Rightarrow> Inl OutOfBounds
        | Inr (sp, d # rest, va') \<Rightarrow>
            (case convert f maxlen d sp va' x of
               Inl e \<Rightarrow> Inl e
             | Inr (x', va'') \<Rightarrow> vsnprintf_loop f maxlen rest va'' x'))"
  by pat_completeness auto
termination
  by (relation "measure (\<lambda>(f, m, cs, va, x). length cs)") (auto dest: parse_spec_length)

definition vsnprintf_core ::
    "out_fct \<Rightarrow> nat \<Rightarrow> u8 list \<Rightarrow> va_arg list \<Rightarrow> out_state \<Rightarrow> (int \<times> out_state) res" where
  "vsnprintf_core f0 maxlen format va st =
     (let f = (if f0 = OutBuffer 0 then OutNull else f0) in
      bind_res (vsnprintf_loop f maxlen format va (0, st)) (\<lambda>(idx, st').
        Inr (sint (of_nat idx :: u32), out f 0 (if idx < maxlen then idx else maxlen - 1) maxlen st')))"

definition SIZE_MAX :: nat where "SIZE_MAX = 2 ^ 64 - 1"

definition printf :: "u8 list \<Rightarrow> va_arg list \<Rightarrow> out_state \<Rightarrow> (int \<times> out_state) res" where
  "printf format va st = vsnprintf_core OutChar SIZE_MAX format va st"

definition sprintf :: "u64 \<Rightarrow> u8 list \<Rightarrow> va_arg list \<Rightarrow> out_state \<Rightarrow> (int \<times> out_state) res" where
  "sprintf buffer format va st = vsnprintf_core (OutBuffer buffer) SIZE_MAX format va st"

definition snprintf :: "u64 \<Rightarrow> nat \<Rightarrow> u8 list \<Rightarrow> va_arg list \<Rightarrow> out_state \<Rightarrow> (int \<times> out_state) res" where
  "snprintf buffer count format va st = vsnprintf_core (OutBuffer buffer) count format va st"

definition vprintf :: "u8 list \<Rightarrow> va_arg list \<Rightarrow> out_state \<Rightarrow> (int \<times> out_state) res" where
  "vprintf format va st = vsnprintf_core OutChar SIZE_MAX format va st"

definition vsnprintf :: "u64 \<Rightarrow> nat \<Rightarrow> u8 list \<Rightarrow> va_arg list \<Rightarrow> out_state \<Rightarrow> (int \<times> out_state) res" where
  "vsnprintf buffer count format va st = vsnprintf_core (OutBuffer buffer) count format va st"

definition fctprintf :: "u8 list \<Rightarrow> va_arg list \<Rightarrow> out_state \<Rightarrow> (int \<times> out_state) res" where
  "fctprintf format va st = vsnprintf_core OutFct SIZE_MAX format va st"

lemma emits_ints:
  "\<exists>cs. emits (\<lambda>f m x. conv_signed f m a base prec width flags x) cs"
  "\<exists>cs. emits (\<lambda>f m x. conv_unsigned f m a base prec width flags x) cs"
  by (cases "has flags FLAGS_LONG_LONG"; cases "has flags FLAGS_LONG";
      simp add: conv_signed_def conv_unsigned_def Let_def emits_ntoa_long emits_ntoa_long_long)+

lemma emits_char_str:
  "\<exists>cs. emits (\<lambda>f m x. conv_char f m a width flags x) cs"
  "\<exists>cs. emits (\<lambda>f m x. conv_str f m p prec width flags x) cs"
  unfolding conv_char_def conv_str_def Let_def
  by (rule exI, rule emits_if [OF emits_comp [OF emits_emit emits_emit] emits_comp [OF emits_emit emits_emit]])+

text \<open>A fault that does not depend on the output, or characters that do not.\<close>

definition uniform :: "(out_fct \<Rightarrow> nat \<Rightarrow> nat \<times> out_state \<Rightarrow> ((nat \<times> out_state) \<times> 'a) res) \<Rightarrow> bool" where
  "uniform g \<longleftrightarrow> (\<exists>e. \<forall>f m x. g f m x = Inl e) \<or> (\<exists>cs r. \<forall>f m x. g f m x = Inr (emit f m cs x, r))"

lemma uniformI: "\<exists>cs. emits g cs \<Longrightarrow> uniform (\<lambda>f m x. Inr (g f m x, r))"
  by (auto simp: uniform_def emits_def)

lemma uniform_fault: "uniform (\<lambda>f m x. Inl e)"
  by (auto simp: uniform_def)

lemma uniform_bind: "(\<And>a r. uniform (\<lambda>f m x. g a r f m x)) \<Longrightarrow> uniform (\<lambda>f m x. bind_res v (\<lambda>(a, r). g a r f m x))"
  by (cases v) (auto simp: uniform_fault)

lemma uniform_if: "uniform g \<Longrightarrow> uniform h \<Longrightarrow> uniform (\<lambda>f m x. if P then g f m x else h f m x)"
  by (cases P) simp_all

lemma uniform_of_out: "uniform_out g \<Longrightarrow> uniform (\<lambda>f m x. bind_res (g f m x) (\<lambda>x'. Inr (x', r)))"
  unfolding uniform_out_def uniform_def by auto

lemma conv_float_uniform: "uniform_out (\<lambda>f m x. conv_float f m c d sp x)"
  by (cases "c = chr (CHR ''f'') \<or> c = chr (CHR ''F'')")
    (auto simp: conv_float_def returned_def etoa_eq [OF valid_bits] ftoa_eq [OF valid_bits] intro: etoa_direct_uniform ftoa_direct_uniform)

lemma convert_uniform:
  shows "uniform (\<lambda>f m x. convert f m c sp va x)"
proof -
  have "\<exists>cs. emits (\<lambda>f m x. if is_signed c then conv_signed f m a (int_base c) (sp_prec sp) (sp_width sp) (int_flags c (sp_flags sp)) x
      else conv_unsigned f m a (int_base c) (sp_prec sp) (sp_width sp) (int_flags c (sp_flags sp)) x) cs" for a
    by (cases "is_signed c") (simp_all add: emits_ints)
  then have i: "uniform (\<lambda>f m x. bind_res (va_int va) (\<lambda>(a, va'). Inr (if is_signed c
        then conv_signed f m a (int_base c) (sp_prec sp) (sp_width sp) (int_flags c (sp_flags sp)) x
        else conv_unsigned f m a (int_base c) (sp_prec sp) (sp_width sp) (int_flags c (sp_flags sp)) x, va')))"
    by (intro uniform_bind uniformI)
  have d: "uniform (\<lambda>f m x. case va of VDouble d # va' \<Rightarrow> bind_res (conv_float f m c d sp x) (\<lambda>x'. Inr (x', va')) | _ \<Rightarrow> Inl WildPointer)"
    by (cases va rule: list.exhaust [case_product va_arg.exhaust [of "hd va"]])
      (auto intro: uniform_of_out conv_float_uniform uniform_fault)
  have o: "uniform (\<lambda>f m x. bind_res (va_int va) (\<lambda>(a, va'). Inr (conv_char f m a (sp_width sp) (sp_flags sp) x, va')))"
    "uniform (\<lambda>f m x. bind_res (va_str va) (\<lambda>(p, va'). Inr (conv_str f m p (sp_prec sp) (sp_width sp) (sp_flags sp) x, va')))"
    "uniform (\<lambda>f m x. bind_res (va_int va) (\<lambda>(a, va'). Inr (ntoa_long_long f m a False 16 (sp_prec sp) 16
       (sp_flags sp OR (FLAGS_ZEROPAD OR FLAGS_UPPERCASE)) x, va')))"
    "uniform (\<lambda>f m x. Inr (emit f m [c] x, va))"
    by (intro uniform_bind uniformI emits_char_str emits_ntoa_long_long exI [of _ "[c]"] emits_emit)+
  show ?thesis
    unfolding convert_def Let_def by (intro uniform_if i d o)
qed

lemma loop_uniform:
  shows "(\<exists>e. \<forall>f m x. vsnprintf_loop f m fmt va x = Inl e) \<or>
    (\<exists>cs. \<forall>f m x. vsnprintf_loop f m fmt va x = Inr (emit f m cs x))"
proof (induction "length fmt" arbitrary: fmt va rule: less_induct)
  case less
  show ?case
  proof (cases fmt)
    case Nil
    then show ?thesis by (auto intro: exI [of _ "[]"])
  next
    case (Cons c rest)
    show ?thesis
    proof (cases "c = chr CHR ''%''")
      case False
      have "vsnprintf_loop f m fmt va x = vsnprintf_loop f m rest va (emit f m [c] x)" for f m x
        using False Cons by simp
      then show ?thesis
        using less [of rest va] Cons emit_append [of _ _ "[c]", symmetric] by (simp del: emit.simps split_paired_All) metis
    next
      case True
      consider e where "parse_spec rest va = Inl e" | sp va' where "parse_spec rest va = Inr (sp, [], va')"
        | sp d rs va' where "parse_spec rest va = Inr (sp, d # rs, va')"
        by (metis list.exhaust prod_cases3 sum.exhaust)
      then show ?thesis
      proof cases
        case (3 sp d rs va')
        have l: "length rs < length fmt" using parse_spec_length [OF 3] Cons by simp
        have e: "vsnprintf_loop f m fmt va x = (case convert f m d sp va' x of Inl e \<Rightarrow> Inl e
            | Inr (x', va'') \<Rightarrow> vsnprintf_loop f m rs va'' x')" for f m x
          using True Cons 3 by simp
        consider err where "\<And>f m x. convert f m d sp va' x = Inl err"
          | cs r where "\<And>f m x. convert f m d sp va' x = Inr (emit f m cs x, r)"
          using convert_uniform [of d sp va'] by (auto simp: uniform_def)
        then show ?thesis
        proof cases
          case (2 cs r)
          consider err where "\<And>f m x. vsnprintf_loop f m rs r x = Inl err"
            | cs2 where "\<And>f m x. vsnprintf_loop f m rs r x = Inr (emit f m cs2 x)"
            using less [OF l, of r] by blast
          then show ?thesis
          proof cases
            case (1 err)
            then have "\<And>f m x. vsnprintf_loop f m fmt va x = Inl err" using e 2 by simp
            then show ?thesis by blast
          next
            case (2 cs2)
            then have "\<And>f m x. vsnprintf_loop f m fmt va x = Inr (emit f m (cs @ cs2) x)"
              using e \<open>\<And>f m x. convert f m d sp va' x = Inr (emit f m cs x, r)\<close> by (simp add: emit_append)
            then show ?thesis by blast
          qed
        qed (auto simp: e)
      qed (auto simp: True Cons)
    qed
  qed
qed

section \<open>Where the characters go\<close>

lemma emit_OutChar:
  "emit OutChar m cs (i, st) = (i + length cs, st\<lparr>o_console := o_console st @ filter (\<lambda>c. c \<noteq> 0) cs\<rparr>)"
  by (induction cs arbitrary: i st) auto

lemma emit_OutBuffer:
  assumes "m \<le> 2 ^ 64" and "j < 2 ^ 64"
  shows "o_mem (snd (emit (OutBuffer b) m cs (i, st))) (b + of_nat j) =
    (if i \<le> j \<and> j < i + length cs \<and> j < m then cs ! (j - i) else o_mem st (b + of_nat j))"
proof (induction cs arbitrary: i st)
  case (Cons c cs)
  have "j = i" if "i < m" "(of_nat i :: u64) = of_nat j" using that of_nat_inj_u64 [of i j] assms by simp
  then show ?case using Cons by (auto simp: nth_Cons' not_less_eq_eq)
qed auto

text \<open>The front ends, given what the loop prints.\<close>

lemma core_fault: "(\<And>f m x. vsnprintf_loop f m fmt va x = Inl e) \<Longrightarrow> vsnprintf_core f0 m fmt va st = Inl e"
  by (simp add: vsnprintf_core_def Let_def)

lemma core_OutChar:
  assumes "\<And>f m x. vsnprintf_loop f m fmt va x = Inr (emit f m cs x)"
  shows "vsnprintf_core OutChar m fmt va st =
    Inr (sint (of_nat (length cs) :: u32), st\<lparr>o_console := o_console st @ filter (\<lambda>c. c \<noteq> 0) cs\<rparr>)"
  by (simp add: vsnprintf_core_def Let_def assms emit_OutChar)

lemma core_OutBuffer:
  assumes "\<And>f m x. vsnprintf_loop f m fmt va x = Inr (emit f m cs x)" and "b \<noteq> 0" and "0 < m" and "m \<le> 2 ^ 64"
  shows "\<exists>st'. vsnprintf_core (OutBuffer b) m fmt va st = Inr (sint (of_nat (length cs) :: u32), st') \<and>
    block (o_mem st') b (min (length cs) (m - 1)) = take (m - 1) cs \<and>
    o_mem st' (b + of_nat (min (length cs) (m - 1))) = 0 \<and>
    (\<forall>x. x \<notin> region b m \<longrightarrow> o_mem st' x = o_mem st x)"
proof -
  let ?s1 = "snd (emit (OutBuffer b) m cs (0, st))" and ?k = "min (length cs) (m - 1)"
  let ?st = "?s1\<lparr>o_mem := (o_mem ?s1)(b + of_nat ?k := 0)\<rparr>"
  have k: "?k < m" "(if length cs < m then length cs else m - 1) = ?k" using assms(3) by auto
  have r: "vsnprintf_core (OutBuffer b) m fmt va st = Inr (sint (of_nat (length cs) :: u32), ?st)"
    using k assms(2) by (simp add: vsnprintf_core_def Let_def assms(1) case_prod_beta)
  have w: "o_mem ?s1 (b + of_nat j) = (if j < length cs \<and> j < m then cs ! j else o_mem st (b + of_nat j))" if "j < 2 ^ 64" for j
    using emit_OutBuffer [OF assms(4) that, of b cs 0 st] by simp
  have "block (o_mem ?st) b ?k = take (m - 1) cs"
  proof (rule nth_equalityI)
    fix j
    assume "j < length (block (o_mem ?st) b ?k)"
    then have j: "j < ?k" by (simp add: block_def)
    then have "(of_nat j :: u64) \<noteq> of_nat ?k" using of_nat_inj_u64 [of j ?k] k(1) assms(4) by auto
    then show "block (o_mem ?st) b ?k ! j = take (m - 1) cs ! j" using j w [of j] assms(4) by (auto simp: block_def)
  qed (simp add: block_def)
  moreover have "o_mem ?st x = o_mem st x" if "x \<notin> region b m" for x
  proof -
    have j: "x = b + of_nat (unat (x - b))" "unat (x - b) < 2 ^ 64" using unat_u64_bound by simp_all
    have "\<not> unat (x - b) < m" using that j(1) by (metis image_eqI lessThan_iff region_def)
    moreover have "x \<noteq> b + of_nat ?k" using that k(1) by (auto simp: region_def)
    ultimately show ?thesis using w [OF j(2)] j(1) by simp
  qed
  ultimately show ?thesis using r by auto
qed

section \<open>Properties\<close>

text \<open>
  C18: every function of the family prints the same characters: when \<open>printf\<close> returns, so does \<open>snprintf\<close> with
  the same format and arguments, with the same result, for every non-null buffer and every non-zero size. It stores the
  first \<open>count - 1\<close> of the characters, terminates them with a zero, and changes no byte outside of the
  \<open>count\<close> bytes of the buffer.
\<close>

theorem snprintf_prints_prefix:
  assumes "printf fmt va st = Inr (n, st1)" and "buffer \<noteq> 0" and "0 < count" and "count \<le> 2 ^ 64"
  shows "\<exists>cs st2. o_console st1 = o_console st @ filter (\<lambda>c. c \<noteq> 0) cs \<and> n = sint (of_nat (length cs) :: u32) \<and>
    snprintf buffer count fmt va st' = Inr (n, st2) \<and>
    block (o_mem st2) buffer (min (length cs) (count - 1)) = take (count - 1) cs \<and>
    o_mem st2 (buffer + of_nat (min (length cs) (count - 1))) = 0 \<and>
    (\<forall>x. x \<in> region buffer count \<or> o_mem st2 x = o_mem st' x)"
proof -
  have "\<not> (\<forall>f m x. vsnprintf_loop f m fmt va x = Inl e)" for e
    using assms(1) core_fault [of fmt va e OutChar] unfolding printf_def by (metis Inl_Inr_False)
  then obtain cs where cs: "\<And>f m x. vsnprintf_loop f m fmt va x = Inr (emit f m cs x)"
    using loop_uniform [of fmt va] by blast
  show ?thesis
    using core_OutChar [OF cs, of SIZE_MAX st] core_OutBuffer [OF cs assms(2-4), of st'] assms(1)
    by (intro exI [of _ cs]) (auto simp: printf_def snprintf_def)
qed

lemma loop_plain [simp]:
  "c \<noteq> chr (CHR ''%'') \<Longrightarrow> vsnprintf_loop f m (c # cs) va x = vsnprintf_loop f m cs va (emit f m [c] x)"
  by simp

theorem snprintf_prints_prefix_witness:
  "\<exists>cs st2. filter (\<lambda>c. c \<noteq> 0) cs = map chr ''abcd'' \<and>
    snprintf 0x1000 3 (map chr ''ab%s'') [VStr (map chr ''cd'')] quiet = Inr (4, st2) \<and>
    block (o_mem st2) 0x1000 (min (length cs) 2) = take 2 cs \<and> o_mem st2 (0x1000 + of_nat (min (length cs) 2)) = 0"
proof -
  have "printf (map chr ''ab%s'') [VStr (map chr ''cd'')] quiet = Inr (4, quiet\<lparr>o_console := map chr ''abcd''\<rparr>)"
    by (simp add: printf_def vsnprintf_core_def Let_def chr_def parse_spec_def parse_width_def parse_precision_def parse_length_def
        starts_def at_digit_def is_digit_def convert_def int_convs_def flt_convs_def va_str_def conv_str_def strnlen_s_def
        has_def flag_defs spaces_def quiet_def)
  from snprintf_prints_prefix [OF this, of "0x1000" 3 quiet]
  obtain cs st2 where "map chr ''abcd'' = filter (\<lambda>c. c \<noteq> 0) cs" and
    "snprintf 0x1000 3 (map chr ''ab%s'') [VStr (map chr ''cd'')] quiet = Inr (4, st2)"
    "block (o_mem st2) 0x1000 (min (length cs) 2) = take 2 cs" "o_mem st2 (0x1000 + of_nat (min (length cs) 2)) = 0"
    by (auto simp: quiet_def simp del: list.map)
  then show ?thesis by metis
qed

section \<open>Digits\<close>

lemma digit_char_val:
  assumes "unat d < 16"
  shows "hexdigit (digit_char d flags) \<and> digitval (digit_char d flags) = uint d"
proof -
  obtain k where k: "k < 16" "d = of_nat k" using assms that [of "unat d"] by simp
  then have "k = 0 \<or> k = 1 \<or> k = 2 \<or> k = 3 \<or> k = 4 \<or> k = 5 \<or> k = 6 \<or> k = 7 \<or> k = 8 \<or> k = 9 \<or> k = 10 \<or> k = 11 \<or> k = 12 \<or>
      k = 13 \<or> k = 14 \<or> k = 15" by arith
  then show ?thesis
    unfolding k(2)
    by (elim disjE; cases "has flags FLAGS_UPPERCASE") (simp_all add: digit_char_def hexdigit_def digitval_def chr_def)
qed

lemma valid_digits_snoc: "valid_digits b (ds @ [d]) \<longleftrightarrow> valid_digits b ds \<and> hexdigit d \<and> digitval d < uint b"
  by (induction ds) auto

lemma digits_value_snoc: "digits_value b (ds @ [d]) = digits_value b ds * ucast b + word_of_int (digitval d)"
  by (simp add: digits_value_def)

lemma ntoa_digits_length: "length buf < 32 \<Longrightarrow> length (ntoa_digits v b fl buf) \<le> 32"
proof (induction v b fl buf rule: ntoa_digits.induct)
  case (1 v b fl buf)
  then show ?case by (subst ntoa_digits.simps) (simp add: Let_def PRINTF_NTOA_BUFFER_SIZE_def)
qed

text \<open>A number of at most 32 digits is converted to its digits, the last one first.\<close>

lemma ntoa_digits_correct:
  assumes "2 \<le> unat b" and "unat b \<le> 16" and "unat v < unat b ^ (32 - length buf)" and "length buf < 32"
  shows "\<exists>ds. ntoa_digits v b fl buf = buf @ ds \<and> length ds \<le> 32 - length buf \<and>
    valid_digits (ucast b) (rev ds) \<and> digits_value (ucast b) (rev ds) = v"
  using assms
proof (induction v b fl buf rule: ntoa_digits.induct)
  case (1 v b fl buf)
  let ?d = "digit_char (v mod b) fl" and ?b = "ucast b :: u32"
  have b: "b \<noteq> 0" "uint ?b = uint b" "ucast ?b = b"
  proof -
    have "int (unat b) \<le> 16" using 1(3) by linarith
    then have "uint b < 2 ^ 32" by simp
    then have "take_bit 32 (uint b) = uint b" by (simp add: take_bit_int_eq_self)
    then show "uint ?b = uint b" "ucast ?b = b" by (simp_all add: unsigned_ucast_eq word_uint_eq_iff unsigned_take_bit_eq)
    show "b \<noteq> 0" using 1(2) by auto
  qed
  have m: "unat (v mod b) < unat b" using 1(2) by (simp add: unat_mod)
  then have d: "hexdigit ?d" "digitval ?d = uint (v mod b)" using digit_char_val [of "v mod b" fl] 1(3) by auto
  have "int (unat (v mod b)) < int (unat b)" using m by (simp only: of_nat_less_iff)
  then have d3: "digitval ?d < uint ?b" using d(2) b(2) by simp
  have w: "word_of_int (digitval ?d) = v mod b" using d(2) by simp
  show ?case
  proof (cases "v div b = 0")
    case True
    then have "ntoa_digits v b fl buf = buf @ [?d]" by (subst ntoa_digits.simps) (simp add: Let_def)
    moreover have "v mod b = v" using True div_mult_mod_eq [of v b] by simp
    moreover have "valid_digits ?b [?d]" "digits_value ?b [?d] = v mod b" using d(1) d3 w by (simp_all add: digits_value_def)
    ultimately show ?thesis using 1(5) by (intro exI [of _ "[?d]"]) simp
  next
    case False
    have dv: "unat (v div b) < unat b ^ (31 - length buf)"
    proof -
      have "32 - length buf = Suc (31 - length buf)" using 1(5) by arith
      then have "unat b ^ (32 - length buf) = unat b ^ (31 - length buf) * unat b" by simp
      then show ?thesis using 1(4) by (simp add: unat_div less_mult_imp_div_less)
    qed
    have l: "length buf < 31"
    proof (rule ccontr)
      assume "\<not> length buf < 31"
      then have "31 - length buf = 0" by simp
      then have "unat (v div b) = 0" using dv by simp
      then show False using False by (simp add: unat_eq_zero)
    qed
    have r: "ntoa_digits v b fl buf = ntoa_digits (v div b) b fl (buf @ [?d])"
      using False l by (subst ntoa_digits.simps) (simp add: Let_def PRINTF_NTOA_BUFFER_SIZE_def)
    obtain ds where ds: "ntoa_digits (v div b) b fl (buf @ [?d]) = (buf @ [?d]) @ ds" "length ds \<le> 31 - length buf"
      "valid_digits ?b (rev ds)" "digits_value ?b (rev ds) = v div b"
      using 1(1) [OF refl refl] False l dv 1(2,3) by (auto simp: PRINTF_NTOA_BUFFER_SIZE_def)
    have "digits_value ?b (rev (?d # ds)) = v"
      using ds(4) w b(3) div_mult_mod_eq [of v b] by (simp add: digits_value_snoc)
    moreover have "valid_digits ?b (rev (?d # ds))" using ds(3) d(1) d3 by (simp add: valid_digits_snoc)
    ultimately show ?thesis using r ds(1,2) 1(5) by (intro exI [of _ "?d # ds"]) auto
  qed
qed

lemma bytes_at_block: "block m p (length ds) = ds \<Longrightarrow> bytes_at m p ds"
proof (induction ds arbitrary: p)
  case (Cons d ds)
  have e: "block m p (length (d # ds)) = m p # block m (p + 1) (length ds)"
    by (simp add: block_def upt_conv_Cons map_Suc_upt [symmetric] o_def ac_simps del: upt_Suc)
  then show ?case using Cons by simp
qed simp

lemma parse_lu:
  assumes "c \<in> {CHR ''u'', CHR ''x'', CHR ''o''}"
  shows "parse_spec [chr CHR ''l'', chr c] va = Inr (\<lparr>sp_flags = FLAGS_LONG, sp_width = 0, sp_prec = 0\<rparr>, [chr c], va)"
  using assms
  by (auto simp: parse_spec_def parse_width_def parse_precision_def parse_length_def starts_def at_digit_def is_digit_def chr_def)

lemma ntoa_long_plain:
  "emits (\<lambda>f m x. ntoa_long f m v False b 0 0 FLAGS_LONG x) (rev (ntoa_digits v b FLAGS_LONG []))"
proof -
  have h: "\<not> has FLAGS_LONG FLAGS_LEFT" "\<not> has FLAGS_LONG FLAGS_ZEROPAD" "\<not> has FLAGS_LONG FLAGS_HASH" "\<not> has FLAGS_LONG FLAGS_PLUS"
    "\<not> has FLAGS_LONG FLAGS_SPACE" "\<not> has FLAGS_LONG FLAGS_PRECISION" "FLAGS_LONG AND NOT FLAGS_HASH = FLAGS_LONG"
    by (simp_all add: has_def flag_defs)
  show ?thesis
    using emits_out_rev [of "ntoa_digits v b FLAGS_LONG []" 0 FLAGS_LONG] h
    by (cases "v = 0") (simp_all add: emits_def ntoa_long_def ntoa_format_def ntoa_width_def ntoa_pad_def pad_zeros_def ntoa_hash_def ntoa_sign_def
        spaces_def Let_def del: split_paired_All)
qed

lemma loop_unsigned_long:
  assumes "(c, b :: u64) \<in> {(CHR ''u'', 10), (CHR ''x'', 16), (CHR ''o'', 8)}"
  shows "vsnprintf_loop f m [chr CHR ''%'', chr CHR ''l'', chr c] [VInt v] x =
    Inr (emit f m (rev (ntoa_digits v b FLAGS_LONG [])) x)"
proof -
  have i: "int_flags (chr c) FLAGS_LONG = FLAGS_LONG" "int_base (chr c) = b" "\<not> is_signed (chr c)" "chr c \<in> int_convs"
    "c \<in> {CHR ''u'', CHR ''x'', CHR ''o''}" "has FLAGS_LONG FLAGS_LONG" "\<not> has FLAGS_LONG FLAGS_LONG_LONG"
    using assms by (auto simp: int_flags_def int_base_def is_signed_def int_convs_def chr_def has_def flag_defs Let_def)
  show ?thesis
    using ntoa_long_plain [of v b] i
    by (simp add: parse_lu convert_def va_int_def conv_unsigned_def emits_def del: emit.simps split_paired_All)
qed

text \<open>
  C17: what \<open>sprintf\<close> prints, \<open>strtol\<close> reads: for every 64-bit number, printing it in decimal, hexadecimal or octal
  into a buffer and parsing the buffer in the same base yields the number again and consumes all that was printed.
\<close>

theorem sprintf_strtol:
  assumes "(c, b :: u64) \<in> {(CHR ''u'', 10), (CHR ''x'', 16), (CHR ''o'', 8)}" and "buffer \<noteq> 0"
  shows "\<exists>n st'. sprintf buffer [chr CHR ''%'', chr CHR ''l'', chr c] [VInt v] st = Inr (int n, st') \<and>
    strtol (o_mem st') buffer (ucast b) = Some (v, buffer + of_nat n)"
proof -
  have b: "2 \<le> unat b" "unat b \<le> 16" "(ucast b :: u32) \<noteq> 0" "unat v < unat b ^ 32"
    using assms(1) unat_u64_bound [of v] by auto
  obtain ds where ds: "ntoa_digits v b FLAGS_LONG [] = ds" "length ds \<le> 32" "valid_digits (ucast b) (rev ds)"
    "digits_value (ucast b) (rev ds) = v"
    using ntoa_digits_correct [OF b(1,2), of v "[]" FLAGS_LONG] b(4) by auto
  have l: "\<And>f m x. vsnprintf_loop f m [chr CHR ''%'', chr CHR ''l'', chr c] [VInt v] x = Inr (emit f m (rev ds) x)"
    using loop_unsigned_long [OF assms(1)] ds(1) by simp
  have n: "sint (of_nat (length (rev ds)) :: u32) = int (length ds)"
    using ds(2) by (simp add: sint_uint unsigned_of_nat take_bit_nat_eq_self signed_take_bit_int_eq_self)
  have m: "min (length (rev ds)) (SIZE_MAX - 1) = length ds" "take (SIZE_MAX - 1) (rev ds) = rev ds" "0 < SIZE_MAX" "SIZE_MAX \<le> 2 ^ 64"
    using ds(2) by (auto simp: SIZE_MAX_def)
  obtain st' where st': "sprintf buffer [chr CHR ''%'', chr CHR ''l'', chr c] [VInt v] st = Inr (int (length ds), st')"
    "block (o_mem st') buffer (length ds) = rev ds" "o_mem st' (buffer + of_nat (length ds)) = 0"
    using core_OutBuffer [OF l assms(2) m(3,4), of st] unfolding m n sprintf_def by blast
  have "bytes_at (o_mem st') buffer (rev ds)" using bytes_at_block st'(2) by (metis length_rev)
  moreover have "\<not> hexdigit 0" by (simp add: hexdigit_def chr_def)
  ultimately have "strtol (o_mem st') buffer (ucast b) = Some (v, buffer + of_nat (length ds))"
    using strtol_digits [OF b(3), of "o_mem st'" buffer "rev ds"] ds(3,4) st'(3) by simp
  then show ?thesis using st'(1) by blast
qed

theorem sprintf_strtol_witness:
  "\<exists>n st'. sprintf 0x1000 (map chr ''%lx'') [VInt 0xbeef] quiet = Inr (int n, st') \<and>
    strtol (o_mem st') 0x1000 16 = Some (0xbeef, 0x1000 + of_nat n)"
  using sprintf_strtol [of "CHR ''x''" 16 "0x1000" "0xbeef" quiet] by simp

text \<open>
  A format whose last character is a percent sign that starts a specification makes the loop step over
  the terminating zero of the format.
\<close>

theorem trailing_percent_overruns:
  assumes "chr CHR ''%'' \<notin> set cs"
  shows "vsnprintf_core f m (cs @ [chr CHR ''%'']) va st = Inl OutOfBounds"
proof -
  have p: "parse_spec [] va = Inr (\<lparr>sp_flags = 0, sp_width = 0, sp_prec = 0\<rparr>, [], va)"
    by (simp add: parse_spec_def parse_width_def parse_precision_def parse_length_def starts_def at_digit_def)
  have "vsnprintf_loop g m (cs @ [chr CHR ''%'']) va x = Inl OutOfBounds" for g x
    using assms by (induction cs arbitrary: x) (auto simp: p)
  then show ?thesis by (simp add: vsnprintf_core_def Let_def)
qed

theorem trailing_percent_overruns_witness: "vsnprintf_core OutChar 10 (map chr ''100%'') [] quiet = Inl OutOfBounds"
  using trailing_percent_overruns [of "map chr ''100''" OutChar 10 "[]" quiet] by (simp add: chr_def)

text \<open>
  The conversion buffer of 32 characters is never overrun: the digits, the padding the caller asks for, the base
  prefix and the sign together stay within it, for every value, base, width, precision and combination of flags.
\<close>

theorem ntoa_buffer_bounded:
  "length (ntoa_sign neg (ntoa_hash (ntoa_pad (ntoa_digits v b fl []) prec width fl) base prec width fl) fl)
     \<le> PRINTF_NTOA_BUFFER_SIZE"
proof -
  have push: "length bf \<le> 32 \<Longrightarrow> length (push_char c bf) \<le> 32" for bf c
    by (simp add: push_char_def PRINTF_NTOA_BUFFER_SIZE_def)
  have "length (ntoa_pad (ntoa_digits v b fl []) prec width fl) \<le> 32"
    using ntoa_digits_length [of "[]" v b fl] by (auto simp: ntoa_pad_def pad_zeros_def Let_def PRINTF_NTOA_BUFFER_SIZE_def)
  then have "length (ntoa_hash (ntoa_pad (ntoa_digits v b fl []) prec width fl) base prec width fl) \<le> 32"
    unfolding ntoa_hash_def Let_def by (auto intro!: push)
  then show ?thesis unfolding ntoa_sign_def PRINTF_NTOA_BUFFER_SIZE_def by (auto intro: push)
qed

end
