(* ===== verification/Interrupts.thy ===== *)
theory Interrupts
  imports Sched Printk
begin

text \<open>
  Segments and interrupts: \<^verbatim>\<open>arch/x86_64/gdt.c\<close> with \<^verbatim>\<open>arch/gdt.h\<close>, and \<^verbatim>\<open>arch/x86_64/interrupt.c\<close> with
  \<^verbatim>\<open>arch/interrupt.h\<close>: the descriptor tables, the exception handlers and the dispatch of interrupts and
  system calls. Loading the tables into the processor (\<^verbatim>\<open>lgdt\<close>, \<^verbatim>\<open>lidt\<close>, \<^verbatim>\<open>ltr\<close>) has no effect in the model
  beyond the values of the pointers that are loaded.
\<close>

section \<open>gdt.h\<close>

record gdt_entry =
  g_limit_low :: u16
  g_base_low :: u16
  g_base_middle :: u8
  g_type :: "4 word"
  g_des_type :: "1 word"
  g_dpl :: "2 word"
  g_present :: "1 word"
  g_limit :: "4 word"
  g_avl :: "1 word"
  g_zero :: "1 word"
  g_op_siz :: "1 word"
  g_gran :: "1 word"
  g_base_high :: u8

record long_gdt_entry =
  lg_limit_1 :: u16
  lg_base_4 :: u16
  lg_base_3 :: u8
  lg_access :: u8
  lg_limit_0 :: "4 word"
  lg_flags :: "4 word"
  lg_base_1 :: u8
  lg_base_0 :: u32
  lg_rsvd :: u32

definition GDT_TSS_ENTRY64 :: "u64 \<Rightarrow> u64 \<Rightarrow> long_gdt_entry" where
  "GDT_TSS_ENTRY64 base limit =
     \<lparr>lg_limit_1 = ucast (limit AND 0xffff), lg_base_4 = ucast (base AND 0xffff), lg_base_3 = ucast (drop_bit 16 base AND 0xff),
      lg_access = 0x89, lg_limit_0 = ucast (drop_bit 16 limit AND 0xf), lg_flags = 2,
      lg_base_1 = ucast (drop_bit 24 base AND 0xff), lg_base_0 = ucast (drop_bit 32 base AND 0xffffffff), lg_rsvd = 0\<rparr>"

definition GDT_ENTRY64 :: "u32 \<Rightarrow> u32 \<Rightarrow> u32 \<Rightarrow> u32 \<Rightarrow> gdt_entry" where
  "GDT_ENTRY64 ty base limit dpl =
     \<lparr>g_limit_low = ucast (drop_bit 12 limit AND 0xFFFF), g_base_low = ucast (base AND 0xFFFF),
      g_base_middle = ucast (drop_bit 16 base AND 0xFF), g_type = ucast ty, g_des_type = 1, g_dpl = ucast dpl, g_present = 1,
      g_limit = ucast (drop_bit 28 limit), g_avl = 0, g_zero = 1, g_op_siz = 0, g_gran = 1,
      g_base_high = ucast (drop_bit 24 base AND 0xFF)\<rparr>"

definition GDT_DPL_KERNEL :: u32 where "GDT_DPL_KERNEL = 0x0"
definition GDT_DPL_USER :: u32 where "GDT_DPL_USER = 0x3"
definition GDT_TYPE_EXECUTABLE :: u32 where "GDT_TYPE_EXECUTABLE = 0x8"
definition GDT_TYPE_WRITABLE :: u32 where "GDT_TYPE_WRITABLE = 0x2"
definition GDT_TYPE_READABLE :: u32 where "GDT_TYPE_READABLE = 0x2"

definition KERNEL_CS_N :: nat where "KERNEL_CS_N = 1"
definition KERNEL_DS_N :: nat where "KERNEL_DS_N = 2"
definition USER_CS_N :: nat where "USER_CS_N = 3"
definition USER_DS_N :: nat where "USER_DS_N = 4"
definition GDT_TSS_N :: nat where "GDT_TSS_N = 5"

section \<open>gdt.c\<close>

text \<open>
  The table: five entries of 8 bytes, then the descriptor of the task state segment, which takes the place
  of two; \<open>gptr_limit\<close> and \<open>gptr_base\<close> are what \<open>gdt_flush\<close> loads.
\<close>

record gdt_state =
  gdt_entries :: "gdt_entry list"
  gdt_tss :: long_gdt_entry
  gptr_limit :: u16
  gptr_base :: u64
  tss_iopb :: u16

definition null_entry :: gdt_entry where
  "null_entry = \<lparr>g_limit_low = 0, g_base_low = 0, g_base_middle = 0, g_type = 0, g_des_type = 0, g_dpl = 0, g_present = 0,
     g_limit = 0, g_avl = 0, g_zero = 0, g_op_siz = 0, g_gran = 0, g_base_high = 0\<rparr>"

definition sizeof_tss_entry64 :: u64 where "sizeof_tss_entry64 = 104"

definition gdt_flush :: "u64 \<Rightarrow> u16 \<Rightarrow> gdt_state \<Rightarrow> gdt_state" where
  "gdt_flush gdt sz g = g\<lparr>gptr_base := gdt, gptr_limit := sz\<rparr>"

text \<open>\<open>gdt\<close> and \<open>tss\<close> are the addresses of the table and of the task state segment of the processor.\<close>

definition setup_gdt :: "u64 \<Rightarrow> u64 \<Rightarrow> gdt_state \<Rightarrow> gdt_state kop" where
  "setup_gdt gdt tss g =
     kseq (kmod (\<lambda>s. s\<lparr>tss_rsp0 := 0\<rparr>))
       (kret (gdt_flush gdt (8 * 7)
         (g\<lparr>gdt_entries :=
              [null_entry,
               GDT_ENTRY64 (GDT_TYPE_EXECUTABLE OR GDT_TYPE_READABLE) 0 0xFFFFFFFF GDT_DPL_KERNEL,
               GDT_ENTRY64 GDT_TYPE_WRITABLE 0 0xFFFFFFFF GDT_DPL_KERNEL,
               GDT_ENTRY64 (GDT_TYPE_EXECUTABLE OR GDT_TYPE_READABLE) 0 0xFFFFFFFF GDT_DPL_USER,
               GDT_ENTRY64 GDT_TYPE_WRITABLE 0 0xFFFFFFFF GDT_DPL_USER],
            gdt_tss := GDT_TSS_ENTRY64 tss (sizeof_tss_entry64 - 1),
            tss_iopb := ucast sizeof_tss_entry64\<rparr>)))"

section \<open>interrupt.c: the descriptor table\<close>

record interrupt_descriptor =
  d_offset_0 :: u16
  d_seg_selector :: u16
  d_ist :: u8
  d_attributes :: u8
  d_offset_1 :: u16
  d_offset_2 :: u32
  d_reserved :: u32

record idt_state =
  idt_base :: u64
  idt_limit :: u16
  idt :: "interrupt_descriptor list"

definition MAX_IDT_DESCRIPTORS :: nat where "MAX_IDT_DESCRIPTORS = 256"

definition set_descriptor :: "u64 \<Rightarrow> u8 \<Rightarrow> interrupt_descriptor" where
  "set_descriptor fn flags =
     \<lparr>d_offset_0 = ucast (fn AND 0xffff), d_seg_selector = ucast KERNEL_CS, d_ist = 0, d_attributes = flags,
      d_offset_1 = ucast (drop_bit 16 fn AND 0xffff), d_offset_2 = ucast (drop_bit 32 fn), d_reserved = 0\<rparr>"

definition setup_interrupts :: "u64 \<Rightarrow> (nat \<Rightarrow> u64) \<Rightarrow> idt_state" where
  "setup_interrupts base isr_stub_table =
     \<lparr>idt_base = base, idt_limit = of_nat (16 * MAX_IDT_DESCRIPTORS - 1),
      idt = map (\<lambda>i. set_descriptor (isr_stub_table i) (if i = 0x80 then 0xEE else 0x8E)) [0..<MAX_IDT_DESCRIPTORS]\<rparr>"

section \<open>interrupt.c: the handlers\<close>

record interrupt_frame =
  interrupt_id :: u64
  f_r8 :: u64
  f_r9 :: u64
  f_r10 :: u64
  f_rdi :: u64
  f_rsi :: u64
  f_rdx :: u64
  f_rax :: u64
  f_err_code :: u64
  f_rip :: u64
  f_cs :: u64
  f_rsp :: u64
  f_ss :: u64

definition newline :: string where "newline = [char_of (10 :: nat)]"

definition k_printf :: "string \<Rightarrow> va_arg list \<Rightarrow> unit kop" where
  "k_printf format va s =
     bind_res (printf (map chr format) va \<lparr>o_mem = kram s, o_console = console_out s, o_fct = []\<rparr>)
       (\<lambda>(_, st). Inr ((), s\<lparr>console_out := o_console st\<rparr>))"

text \<open>The initialisation of the console device (\<^verbatim>\<open>drivers/console/console.c\<close>) prints before it registers the driver.\<close>

definition console_cdev_init :: "env \<Rightarrow> int kop" where
  "console_cdev_init E =
     kseq (k_printf (''Registering console char device'' @ newline) [])
     (kbind (register_char_device_driver E CONSOLE_DEV_MAJ dev_console_device_driver) (\<lambda>_. kret 0))"

definition exception_handler_stub_noerr :: "interrupt_frame \<Rightarrow> unit kop" where
  "exception_handler_stub_noerr fr = k_printf (''Interrupt (NOERR)! id: %d'' @ newline) [VInt (interrupt_id fr)]"

definition exception_handler_stub_err :: "interrupt_frame \<Rightarrow> unit kop" where
  "exception_handler_stub_err fr =
     kseq (k_printf (''Interrupt (ERR)! id: %d'' @ newline) [VInt (interrupt_id fr)])
     (kseq (k_printf (''err %x'' @ newline) [VInt (f_err_code fr)])
     (kseq (k_printf (''rsp: %p'' @ newline) [VInt (f_rsp fr)])
     (kseq (k_printf (''rip: %p'' @ newline) [VInt (f_rip fr)])
     (kseq (k_printf ('' ss: %p'' @ newline) [VInt (f_ss fr)])
     (kseq (k_printf ('' cs: %p'' @ newline) [VInt (f_cs fr)])
       (if interrupt_id fr = 13 then kfail Halted
        else if interrupt_id fr = 12 then kfail Halted
        else kret ()))))))"

text \<open>
  The call through the table. The functions take the first arguments of the registers and ignore the
  others; \<open>buf\<close> is the address of their buffer on the kernel stack.
\<close>

definition call_syscall :: "env \<Rightarrow> (u64 \<Rightarrow> u8 kop) \<Rightarrow> u64 \<Rightarrow> syscall_fp \<Rightarrow> interrupt_frame \<Rightarrow> int kop" where
  "call_syscall E rd buf fp fr =
     (case fp of
        SysRead \<Rightarrow> sys_read (f_rdi fr) (f_rsi fr) (f_rdx fr)
      | SysWrite \<Rightarrow> sys_write E rd buf (f_rdi fr) (f_rsi fr) (f_rdx fr)
      | SysOpen \<Rightarrow> sys_open E rd buf (f_rdi fr) (f_rsi fr) (f_rdx fr))"

text \<open>
  The comparison with the length of the table is one of signed numbers, and the address of the entry is computed
  modulo \<open>2 ^ 64\<close>: a negative number whose eight-fold wraps into the table reads an entry of the table, and every
  other negative number reads memory outside of it.
\<close>

definition syscall_irq :: "env \<Rightarrow> (u64 \<Rightarrow> u8 kop) \<Rightarrow> u64 \<Rightarrow> interrupt_frame \<Rightarrow> interrupt_frame kop" where
  "syscall_irq E rd buf fr =
     (if sint (f_rax fr) \<ge> sint SYSCALLS_NR then kret fr
      else
        let i = unat (8 * f_rax fr) div 8
        in if i \<ge> length syscall_table then kfail OutOfBounds
           else case syscall_table ! i of
                  None \<Rightarrow> kfail NullDeref
                | Some fp \<Rightarrow> kbind (call_syscall E rd buf fp fr) (\<lambda>r. kret (fr\<lparr>f_rax := word_of_int r\<rparr>)))"

text \<open>The result: the frame the stub returns with, and the switch of stacks a timer interrupt asks for.\<close>

definition irq_handler_stub ::
    "env \<Rightarrow> (u64 \<Rightarrow> u8 kop) \<Rightarrow> u64 \<Rightarrow> interrupt_frame \<Rightarrow> (interrupt_frame \<times> (u64 \<times> u64) option) kop" where
  "irq_handler_stub E rd buf fr =
     (if interrupt_id fr = 0x20 then kbind timer_irq (\<lambda>sw. kret (fr, sw))
      else
        kseq (k_printf (''Other IRQ: %x'' @ newline) [VInt (interrupt_id fr)])
        (kseq (kwhen (interrupt_id fr = 0x7f) (k_printf ''ISR 0x7f'' []))
        (kseq (kwhen (interrupt_id fr = 0x9f) (k_printf ''ISR 0x9f'' []))
          (if interrupt_id fr = 0x80 then kbind (syscall_irq E rd buf fr) (\<lambda>fr'. kret (fr', None))
           else kret (fr, None)))))"

section \<open>Descriptors as the processor reads them\<close>

definition gate_offset :: "interrupt_descriptor \<Rightarrow> u64" where
  "gate_offset d = ucast (d_offset_0 d) OR push_bit 16 (ucast (d_offset_1 d)) OR push_bit 32 (ucast (d_offset_2 d))"

definition gate_present :: "interrupt_descriptor \<Rightarrow> bool" where
  "gate_present d \<longleftrightarrow> bit (d_attributes d) 7"

definition gate_dpl :: "interrupt_descriptor \<Rightarrow> u8" where
  "gate_dpl d = drop_bit 5 (d_attributes d) AND 3"

definition gate_type :: "interrupt_descriptor \<Rightarrow> u8" where
  "gate_type d = d_attributes d AND 0x1F"

definition tss_base :: "long_gdt_entry \<Rightarrow> u64" where
  "tss_base d = ucast (lg_base_4 d) OR push_bit 16 (ucast (lg_base_3 d)) OR push_bit 24 (ucast (lg_base_1 d)) OR
     push_bit 32 (ucast (lg_base_0 d))"

definition gdt_word :: "gdt_entry \<Rightarrow> u64" where
  "gdt_word g = ucast (g_limit_low g) OR push_bit 16 (ucast (g_base_low g)) OR push_bit 32 (ucast (g_base_middle g)) OR
     push_bit 40 (ucast (g_type g)) OR push_bit 44 (ucast (g_des_type g)) OR push_bit 45 (ucast (g_dpl g)) OR
     push_bit 47 (ucast (g_present g)) OR push_bit 48 (ucast (g_limit g)) OR push_bit 52 (ucast (g_avl g)) OR
     push_bit 53 (ucast (g_zero g)) OR push_bit 54 (ucast (g_op_siz g)) OR push_bit 55 (ucast (g_gran g)) OR
     push_bit 56 (ucast (g_base_high g))"

lemma masks: "(0xffff :: 'a::len word) = mask 16" "(0xff :: 'a::len word) = mask 8" "(0xffffffff :: 'a::len word) = mask 32"
  by (simp_all add: mask_numeral)

lemma gate_offset_set_descriptor: "gate_offset (set_descriptor fn flags) = fn"
proof (rule bit_word_eqI)
  fix n
  assume "n < LENGTH(64)"
  then consider "n < 16" | "16 \<le> n" "n < 32" | "32 \<le> n" "n < 64"
    by (cases "n < 16"; cases "n < 32") (auto simp: not_less)
  then show "bit (gate_offset (set_descriptor fn flags)) n = bit fn n"
    by cases (auto simp: gate_offset_def set_descriptor_def masks bit_simps less_diff_conv2)
qed

lemma tss_base_entry: "tss_base (GDT_TSS_ENTRY64 base limit) = base"
proof (rule bit_word_eqI)
  fix n
  assume "n < LENGTH(64)"
  then consider "n < 16" | "16 \<le> n" "n < 24" | "24 \<le> n" "n < 32" | "32 \<le> n" "n < 64"
    by (cases "n < 16"; cases "n < 24"; cases "n < 32") (auto simp: not_less)
  then show "bit (tss_base (GDT_TSS_ENTRY64 base limit)) n = bit base n"
    by cases (auto simp: tss_base_def GDT_TSS_ENTRY64_def masks bit_simps less_diff_conv2)
qed

section \<open>Properties\<close>

text \<open>
  C31: the interrupt descriptor table is well formed: 256 gates in a table whose limit is its last byte; gate \<open>i\<close> is a present
  64-bit interrupt gate in the kernel's code segment whose three offset fields together are the address
  of stub \<open>i\<close>, and user mode may call gate \<^verbatim>\<open>0x80\<close> and no other.
\<close>

theorem idt_well_formed:
  assumes "i < MAX_IDT_DESCRIPTORS" and "d = idt (setup_interrupts base tab) ! i"
  shows "gate_offset d = tab i \<and> d_seg_selector d = 8 \<and> d_ist d = 0 \<and> gate_present d \<and> gate_type d = 0xE \<and>
    gate_dpl d = (if i = 0x80 then 3 else 0) \<and> length (idt (setup_interrupts base tab)) = MAX_IDT_DESCRIPTORS \<and>
    unat (idt_limit (setup_interrupts base tab)) + 1 = 16 * MAX_IDT_DESCRIPTORS"
proof -
  have "d = set_descriptor (tab i) (if i = 0x80 then 0xEE else 0x8E)"
    using assms by (simp add: setup_interrupts_def)
  moreover have "d_seg_selector (set_descriptor f a) = 8" "d_ist (set_descriptor f a) = 0" "d_attributes (set_descriptor f a) = a" for f a
    by (simp_all add: set_descriptor_def KERNEL_CS_def)
  moreover have "length (idt (setup_interrupts base tab)) = MAX_IDT_DESCRIPTORS"
    "unat (idt_limit (setup_interrupts base tab)) + 1 = 16 * MAX_IDT_DESCRIPTORS"
    by (simp_all add: setup_interrupts_def MAX_IDT_DESCRIPTORS_def)
  ultimately show ?thesis
    by (simp add: gate_offset_set_descriptor gate_present_def gate_type_def gate_dpl_def)
qed

theorem idt_well_formed_witness:
  "gate_dpl (idt (setup_interrupts 0x1000 (\<lambda>i. 0xffffffff80000000 + of_nat i)) ! 0x80) = 3 \<and>
   gate_offset (idt (setup_interrupts 0x1000 (\<lambda>i. 0xffffffff80000000 + of_nat i)) ! 0x80) = 0xffffffff80000080"
  using idt_well_formed [of "0x80" _ "0x1000" "\<lambda>i. 0xffffffff80000000 + of_nat i"] by (simp add: MAX_IDT_DESCRIPTORS_def)

text \<open>
  The segment descriptors are the ones of 64-bit mode: null, code and data for the kernel, code and data for
  user mode, as the 64-bit words the processor reads; the four selectors used by the rest of the kernel point
  to them, and the descriptor of the task state segment holds the full 64-bit address it was built from.
\<close>

theorem gdt_descriptors:
  "\<exists>g'. setup_gdt gdt tss g s = Inr (g', s\<lparr>tss_rsp0 := 0\<rparr>) \<and>
    map gdt_word (gdt_entries g') = [0, 0x00AF9A000000FFFF, 0x00AF92000000FFFF, 0x00AFFA000000FFFF, 0x00AFF2000000FFFF] \<and>
    tss_base (gdt_tss g') = tss \<and> lg_limit_1 (gdt_tss g') = 103 \<and>
    unat (drop_bit 3 KERNEL_CS) = KERNEL_CS_N \<and> unat (drop_bit 3 KERNEL_DS) = KERNEL_DS_N \<and>
    unat (drop_bit 3 USER_CS) = USER_CS_N \<and> unat (drop_bit 3 USER_DS) = USER_DS_N \<and>
    unat (gptr_limit g') = 56"
proof -
  have sel: "unat (drop_bit 3 KERNEL_CS) = KERNEL_CS_N" "unat (drop_bit 3 KERNEL_DS) = KERNEL_DS_N"
    "unat (drop_bit 3 USER_CS) = USER_CS_N" "unat (drop_bit 3 USER_DS) = USER_DS_N"
    by (simp_all add: KERNEL_CS_def KERNEL_DS_def USER_CS_def USER_DS_def KERNEL_CS_N_def KERNEL_DS_N_def USER_CS_N_def USER_DS_N_def)
  have w: "gdt_word null_entry = 0" "gdt_word (GDT_ENTRY64 0xA 0 0xFFFFFFFF 0) = 0x00AF9A000000FFFF"
    "gdt_word (GDT_ENTRY64 2 0 0xFFFFFFFF 0) = 0x00AF92000000FFFF" "gdt_word (GDT_ENTRY64 0xA 0 0xFFFFFFFF 3) = 0x00AFFA000000FFFF"
    "gdt_word (GDT_ENTRY64 2 0 0xFFFFFFFF 3) = 0x00AFF2000000FFFF"
    by (simp_all add: gdt_word_def null_entry_def GDT_ENTRY64_def)
  have l: "lg_limit_1 (GDT_TSS_ENTRY64 tss (sizeof_tss_entry64 - 1)) = 103"
    by (simp add: GDT_TSS_ENTRY64_def sizeof_tss_entry64_def)
  show ?thesis
    by (simp add: setup_gdt_def gdt_flush_def sel w l tss_base_entry GDT_TYPE_EXECUTABLE_def GDT_TYPE_READABLE_def
        GDT_TYPE_WRITABLE_def GDT_DPL_KERNEL_def GDT_DPL_USER_def)
qed

section \<open>System calls\<close>

lemma sint_u64: "sint (w :: u64) = (if unat w < 2 ^ 63 then int (unat w) else int (unat w) - 2 ^ 64)"
proof -
  have e: "sint w = signed_take_bit 63 (uint w)" by (simp add: sint_uint)
  show ?thesis
  proof (cases "unat w < 2 ^ 63")
    case True
    then have "int (unat w) < int (2 ^ 63)" by (simp only: of_nat_less_iff)
    moreover have "- (2 ^ 63) \<le> uint w" using order_trans [of "- (2 ^ 63)" 0 "uint w"] by simp
    ultimately show ?thesis using True e by (simp add: signed_take_bit_int_eq_self)
  next
    case False
    then have "int (2 ^ 63) \<le> int (unat w)" by (simp only: of_nat_le_iff not_less)
    then have b: "2 ^ 63 \<le> uint w" "uint w < 2 ^ 64" using uint_bounded [of w] by simp_all
    then have "uint w div 2 ^ 63 = 1" by (intro div_pos_geq [THEN trans]) auto
    then have "bit (uint w) 63" by (simp add: bit_iff_odd)
    then show ?thesis using False e b by (simp add: signed_take_bit_eq_take_bit_minus take_bit_int_eq_self)
  qed
qed

lemma entry_index: "unat (8 * w :: u64) div 8 = unat w mod 2 ^ 61"
proof -
  have "unat (8 * w) = 8 * unat w mod (8 * 2 ^ 61)" by (simp add: unat_word_ariths)
  then show ?thesis by (simp only: mult_mod_right [symmetric])
qed

text \<open>
  Which number reaches which entry of the table: numbers from 4 up to \<open>2 ^ 63\<close> are ignored and leave the frame
  alone; below 4 and from \<open>2 ^ 63\<close> up only the lowest 61 bits count, so besides 0, 1 and 2 there are twelve more
  numbers that reach a system call (\<open>2 ^ 63 + 1\<close> is a second number of \<open>sys_write\<close>), five call the null pointer of entry 3,
  and every other negative number reads outside of the table.
\<close>

theorem syscall_number_checks:
  "syscall_irq E rd buf fr s =
    (if 4 \<le> unat (f_rax fr) \<and> unat (f_rax fr) < 2 ^ 63 then Inr (fr, s)
     else if unat (f_rax fr) mod 2 ^ 61 < 3 then
       kbind (call_syscall E rd buf ([SysRead, SysWrite, SysOpen] ! (unat (f_rax fr) mod 2 ^ 61)) fr)
         (\<lambda>r. kret (fr\<lparr>f_rax := word_of_int r\<rparr>)) s
     else if unat (f_rax fr) mod 2 ^ 61 = 3 then Inl NullDeref
     else Inl OutOfBounds)"
proof -
  let ?n = "f_rax fr" and ?k = "unat (f_rax fr) mod 2 ^ 61"
  have pass: "sint ?n \<ge> sint SYSCALLS_NR \<longleftrightarrow> 4 \<le> unat ?n \<and> unat ?n < 2 ^ 63"
  proof (cases "unat ?n < 2 ^ 63")
    case True
    have "(4 :: int) \<le> int (unat ?n) \<longleftrightarrow> 4 \<le> unat ?n" by linarith
    then show ?thesis using True by (simp add: sint_u64 SYSCALLS_NR_def)
  next
    case False
    then show ?thesis using uint_bounded [of ?n] by (simp add: sint_u64 SYSCALLS_NR_def)
  qed
  have entry: "(if length syscall_table \<le> k then kfail OutOfBounds
       else case syscall_table ! k of None \<Rightarrow> kfail NullDeref | Some fp \<Rightarrow> f fp) s =
     (if k < 3 then f ([SysRead, SysWrite, SysOpen] ! k) s else if k = 3 then Inl NullDeref else Inl OutOfBounds)"
    for k and f :: "syscall_fp \<Rightarrow> interrupt_frame kop"
  proof -
    consider "k = 0" | "k = 1" | "k = 2" | "k = 3" | "4 \<le> k" by arith
    then show ?thesis by cases (simp_all add: syscall_table_def kfail_def)
  qed
  show ?thesis
  proof (cases "4 \<le> unat ?n \<and> unat ?n < 2 ^ 63")
    case True
    then have "sint ?n \<ge> sint SYSCALLS_NR" by (simp only: pass)
    with True show ?thesis by (simp add: syscall_irq_def kret_def)
  next
    case False
    then have "\<not> sint ?n \<ge> sint SYSCALLS_NR" by (simp only: pass) simp
    then show ?thesis unfolding if_not_P [OF False] by (simp only: syscall_irq_def Let_def entry_index if_False entry)
  qed
qed

end
