(* ===== verification/Loader.thy ===== *)
theory Loader
  imports Interrupts
begin

text \<open>
  From the initial archive to the first program: \<^verbatim>\<open>init/initramfs.c\<close> unpacks the archive into the root file system,
  \<^verbatim>\<open>fs/binfmt_elf.c\<close> maps an executable, \<^verbatim>\<open>kernel/exec.c\<close> enters it, \<^verbatim>\<open>init/kinit.c\<close> runs the three in order.
  Structures of files are read from memory at their byte offsets. The body of \<open>load_elf\<close> in
  \<^verbatim>\<open>kernel/elf.c\<close> is commented out as a whole.
\<close>

section \<open>Reading memory\<close>

definition rd16 :: "mem \<Rightarrow> u64 \<Rightarrow> u16" where
  "rd16 m a = ucast (m a) OR push_bit 8 (ucast (m (a + 1)))"

definition rd32 :: "mem \<Rightarrow> u64 \<Rightarrow> u32" where
  "rd32 m a = ucast (rd16 m a) OR push_bit 16 (ucast (rd16 m (a + 2)))"

text \<open>The string at an address; a memory without a terminating zero is never left.\<close>

definition string_at :: "u64 \<Rightarrow> u8 list kop" where
  "string_at p s = (case strlen (kram s) p of None \<Rightarrow> Inl Halted | Some n \<Rightarrow> Inr (block (kram s) p (nat n), s))"

section \<open>binfmt_elf.c\<close>

definition elf_magic :: "u8 list" where "elf_magic = [0x7f, chr (CHR ''E''), chr (CHR ''L''), chr (CHR ''F'')]"

definition elf_type_executable :: u16 where "elf_type_executable = 2"
definition elf_segment_executable :: u32 where "elf_segment_executable = 0x1"
definition elf_segment_writable :: u32 where "elf_segment_writable = 0x2"
definition elf_segment_readable :: u32 where "elf_segment_readable = 0x4"

record elf_header_64 =
  eh_magic :: "u8 list"
  eh_bits :: u8
  eh_endian :: u8
  eh_type :: u16
  eh_entry :: u64
  eh_program_header_table_pos :: u64
  eh_num_program_header_entries :: u16

definition elf_header_at :: "mem \<Rightarrow> u64 \<Rightarrow> elf_header_64" where
  "elf_header_at m h =
     \<lparr>eh_magic = block m h 4, eh_bits = m (h + 4), eh_endian = m (h + 5), eh_type = rd16 m (h + 16), eh_entry = rd64 m (h + 24),
      eh_program_header_table_pos = rd64 m (h + 32), eh_num_program_header_entries = rd16 m (h + 56)\<rparr>"

record elf_header_entry_64 =
  ee_flags :: u32
  ee_offset_data :: u64
  ee_p_vaddr :: u64
  ee_size_in_file :: u64

definition elf_entry_at :: "mem \<Rightarrow> u64 \<Rightarrow> elf_header_entry_64" where
  "elf_entry_at m p =
     \<lparr>ee_flags = rd32 m (p + 4), ee_offset_data = rd64 m (p + 8), ee_p_vaddr = rd64 m (p + 16), ee_size_in_file = rd64 m (p + 32)\<rparr>"

definition sizeof_elf_header :: u64 where "sizeof_elf_header = 64"
definition sizeof_elf_entry :: u64 where "sizeof_elf_entry = 56"

definition is_valid_elf :: "elf_header_64 \<Rightarrow> bool kop" where
  "is_valid_elf h =
     (if eh_magic h \<noteq> elf_magic then kret False
      else if eh_bits h \<noteq> 1 \<and> eh_bits h \<noteq> 2 then kseq (k_printf (''Invalid bitcount'' @ newline) []) (kret False)
      else if eh_endian h \<noteq> 1 \<and> eh_endian h \<noteq> 2 then kseq (k_printf (''Invalid endianness'' @ newline) []) (kret False)
      else if eh_type h \<noteq> elf_type_executable then kseq (k_printf (''Invalid elf type'' @ newline) []) (kret False)
      else kret True)"

text \<open>The \<open>read\<close> operation of a file, with its offset. The console driver has none.\<close>

definition file_read :: "env \<Rightarrow> u64 \<Rightarrow> u64 \<Rightarrow> u64 \<Rightarrow> u64 kop" where
  "file_read E f dst n =
     kseq (kptr f)
     (kbind (kget (\<lambda>s. files s f)) (\<lambda>d.
        case f_ops d of
          NoFops \<Rightarrow> kfail NullDeref
        | DriverFops _ \<Rightarrow> kfail NullDeref
        | RamfsFileOps \<Rightarrow>
            kbind (\<lambda>s. returned_op (generic_file_read E f dst n (f_offset d) s)) (\<lambda>(tot, pos).
              kseq (kmod (upd_file f (\<lambda>d. d\<lparr>f_offset := pos\<rparr>))) (kret tot))))"

definition elf_prot :: "env \<Rightarrow> u32 \<Rightarrow> u32" where
  "elf_prot E flags =
     (if flags AND elf_segment_readable \<noteq> 0 then ucast (VM_READ (vm E)) else 0) OR
     (if flags AND elf_segment_writable \<noteq> 0 then ucast (VM_WRITE (vm E)) else 0) OR
     (if flags AND elf_segment_executable \<noteq> 0 then ucast (VM_EXEC (vm E)) else 0) OR ucast (VM_USER (vm E))"

definition load_segment :: "env \<Rightarrow> u64 \<Rightarrow> u64 \<Rightarrow> unit kop" where
  "load_segment E f p =
     kbind (kget (\<lambda>s. elf_entry_at (kram s) p)) (\<lambda>e.
     kbind (kget cpu_current) (\<lambda>c.
     kseq (kptr c)
     (kbind (kget (\<lambda>s. t_mm (tasks s c))) (\<lambda>mm.
      kbind (do_mmap E mm f (PAGE_FRAME (ee_p_vaddr e)) (ee_size_in_file e) (elf_prot E (ee_flags e)) (VM_FLAG_PRIVATE E)
               (VMA_FILE E) (ucast (ee_offset_data e div PAGE_SIZE))) (\<lambda>_. kret ())))))"

text \<open>The loop over the entries; the first argument counts those that remain.\<close>

fun load_segments_loop :: "env \<Rightarrow> nat \<Rightarrow> u64 \<Rightarrow> u64 \<Rightarrow> unit kop" where
  "load_segments_loop E 0 f p = kret ()"
| "load_segments_loop E (Suc n) f p = kseq (load_segment E f p) (load_segments_loop E n f (p + sizeof_elf_entry))"

definition elf_load_segments :: "env \<Rightarrow> u64 \<Rightarrow> elf_header_64 \<Rightarrow> int kop" where
  "elf_load_segments E f h =
     (let n = eh_num_program_header_entries h; bytes = sizeof_elf_entry * ucast n in
      kbind (k_kmalloc E bytes) (\<lambda>entries.
      kbind (vfs_lseek f (eh_program_header_table_pos h) SEEK_SET) (\<lambda>_.
      kseq (kptr entries)
      (kbind (file_read E f entries bytes) (\<lambda>_.
       kseq (load_segments_loop E (unat n) f entries)
       (kseq (k_kfree entries)
         (kret 0)))))))"

text \<open>The result and the value of \<open>*cpu_state\<close>.\<close>

definition elf_load_binary :: "env \<Rightarrow> u64 \<Rightarrow> (int \<times> u64) kop" where
  "elf_load_binary E f =
     kbind (k_kmalloc E sizeof_elf_header) (\<lambda>header.
     kseq (kptr header)
     (kbind (file_read E f header sizeof_elf_header) (\<lambda>_.
      kbind (kget (\<lambda>s. elf_header_at (kram s) header)) (\<lambda>h.
      kbind (is_valid_elf h) (\<lambda>valid.
        if \<not> valid then kseq (k_kfree header) (kret (- EINVAL, 0))
        else
          kbind (elf_load_segments E f h) (\<lambda>_.
          kbind (cpu_setup_process E (eh_entry h)) (\<lambda>c.
          kseq (k_kfree header) (kret (0, c)))))))))"

definition binfmt_elf_init :: "(u64 \<Rightarrow> u8 list) \<Rightarrow> u64 \<Rightarrow> int kop" where
  "binfmt_elf_init fmt_name binfmt_elf = kbind (register_binfmt fmt_name binfmt_elf) (\<lambda>_. kret 0)"

section \<open>exec.c\<close>

text \<open>
  The only binary format is ELF, so that \<open>load_binary\<close> of every node of the list is \<open>elf_load_binary\<close>. The
  result is the context switch the function ends with, or \<open>None\<close> for its return value \<open>-1\<close>.
\<close>

partial_function (option) exec_loop ::
    "env \<Rightarrow> u64 \<Rightarrow> knode \<Rightarrow> kstate \<Rightarrow> ((u64 \<times> u64) option \<times> kstate) res option" where
  "exec_loop E f pos s =
     (if pos = BinfmtList then Some (Inr (None, s))
      else case elf_load_binary E f s of
             Inl e \<Rightarrow> Some (Inl e)
           | Inr (r, s1) \<Rightarrow>
               if fst r = 0 then
                 Some (bind_res (cpu_context_switch (snd r) s1) (\<lambda>(sw, s2). Inr (Some sw, s2)))
               else exec_loop E f (lh_next (klinks s1 pos)) s1)"

definition do_execve :: "env \<Rightarrow> u8 list \<Rightarrow> (u64 \<times> u64) option kop" where
  "do_execve E path =
     kbind (kget (\<lambda>s. list_empty BinfmtList (klinks s))) (\<lambda>empty.
       if empty then kseq (k_printf (''ERROR: binfmt list is empty!'' @ newline) []) (kret None)
       else
         kbind (vfs_open E path O_RDONLY 0) (\<lambda>f s.
           case exec_loop E f (lh_next (klinks s BinfmtList)) s of None \<Rightarrow> Inl Halted | Some r \<Rightarrow> r))"

section \<open>initramfs.c\<close>

definition TMAGIC :: "u8 list" where "TMAGIC = map chr ''ustar''"
definition REGTYPE :: u8 where "REGTYPE = chr (CHR ''0'')"
definition DIRTYPE :: u8 where "DIRTYPE = chr (CHR ''5'')"
definition O_WRONLY :: u32 where "O_WRONLY = 0x1"

text \<open>The offsets of the fields of \<open>struct tar_header\<close>.\<close>

definition tar_size :: u64 where "tar_size = 124"
definition tar_typeflag :: u64 where "tar_typeflag = 156"
definition tar_magic :: u64 where "tar_magic = 257"

definition tar_valid_header :: "mem \<Rightarrow> u64 \<Rightarrow> bool" where
  "tar_valid_header m h \<longleftrightarrow> block m (h + tar_magic) (length TMAGIC - 1) = take (length TMAGIC - 1) TMAGIC"

text \<open>
  The two loops of \<open>sanitize_name\<close>. With an empty name the second one reads the byte in front of the name,
  as \<open>strlen(name) - 1\<close> is \<open>-1\<close>.
\<close>

partial_function (option) skip_dots :: "mem \<Rightarrow> u64 \<Rightarrow> u64 option" where
  "skip_dots m p = (if m p = chr (CHR ''.'') then skip_dots m (p + 1) else Some p)"

partial_function (option) strip_slashes :: "u64 \<Rightarrow> mem \<Rightarrow> mem option" where
  "strip_slashes p m =
     (case strlen m p of
        None \<Rightarrow> None
      | Some n \<Rightarrow>
          let last_char = p + word_of_int (n - 1) in
          if m last_char = chr (CHR ''/'') then strip_slashes p (m(last_char := 0)) else Some m)"

definition sanitize_name :: "u64 \<Rightarrow> mem \<Rightarrow> (u64 \<times> mem) option" where
  "sanitize_name p m =
     (case skip_dots m p of
        None \<Rightarrow> None
      | Some q \<Rightarrow> (case strip_slashes q m of None \<Rightarrow> None | Some m' \<Rightarrow> Some (q, m')))"

definition k_sanitize_name :: "u64 \<Rightarrow> u64 kop" where
  "k_sanitize_name p s =
     (case sanitize_name p (kram s) of None \<Rightarrow> Inl Halted | Some (q, m) \<Rightarrow> Inr (q, set_kram (\<lambda>_. m) s))"

definition process_directory :: "env \<Rightarrow> u64 \<Rightarrow> int kop" where
  "process_directory E header =
     kbind (string_at header) (\<lambda>raw.
       if raw = map chr ''./'' \<or> raw = map chr ''/'' then
         kseq (k_printf (''Skipping root'' @ newline) []) (kret 0)
       else
         kbind (k_sanitize_name header) (\<lambda>name.
         kbind (string_at name) (\<lambda>path.
         kbind (vfs_mkdir E path 0) (\<lambda>ret.
         kbind (string_at name) (\<lambda>shown.
         kseq (k_printf (''initramfs directory: %s'' @ newline) [VStr shown])
           (kret ret))))))"

definition process_file :: "env \<Rightarrow> u64 \<Rightarrow> int kop" where
  "process_file E header =
     kbind (\<lambda>s. case strtol (kram s) (header + tar_size) 8 of None \<Rightarrow> Inl Halted | Some (v, _) \<Rightarrow> Inr (v, s)) (\<lambda>sz.
     kbind (k_sanitize_name header) (\<lambda>name.
     kbind (string_at name) (\<lambda>path.
     kbind (vfs_open E path (O_CREAT OR O_WRONLY) 0x1ff) (\<lambda>f.
     kseq (kptr f)
     (kbind (file_write E f (header + 512) sz) (\<lambda>_.
      kbind (vfs_close f) (\<lambda>_.
        kret 0)))))))"

text \<open>One round of the loop: a non-zero result ends it.\<close>

definition unpack_block :: "env \<Rightarrow> u64 \<Rightarrow> int kop" where
  "unpack_block E header =
     kbind (kget kram) (\<lambda>m.
       if \<not> tar_valid_header m header then kret 0
       else
         kbind (if m (header + tar_typeflag) = DIRTYPE then process_directory E header
                else if m (header + tar_typeflag) = REGTYPE then process_file E header
                else kret 0) (\<lambda>ret.
           if ret \<noteq> 0 then
             kbind (string_at header) (\<lambda>name.
               kseq (k_printf (''Something broke: %s'' @ newline) [VStr name]) (kret ret))
           else kret 0))"

text \<open>The first argument counts the blocks of 512 bytes that remain.\<close>

fun unpack_loop :: "env \<Rightarrow> nat \<Rightarrow> u64 \<Rightarrow> int kop" where
  "unpack_loop E 0 ptr = kret 0"
| "unpack_loop E (Suc n) ptr =
     kbind (unpack_block E ptr) (\<lambda>ret. if ret \<noteq> 0 then kret ret else unpack_loop E n (ptr + 512))"

definition unpack_initramfs :: "env \<Rightarrow> u64 \<Rightarrow> u64 \<Rightarrow> int kop" where
  "unpack_initramfs E addr sz = unpack_loop E ((unat sz + 511) div 512) addr"

section \<open>kinit.c\<close>

text \<open>\<open>mkdev\<close> is the macro \<open>MKDEV\<close> of a header that is not in the repository.\<close>

definition kinit_task :: "env \<Rightarrow> (u32 \<Rightarrow> u32 \<Rightarrow> u32) \<Rightarrow> u64 \<Rightarrow> u64 \<Rightarrow> (u64 \<times> u64) kop" where
  "kinit_task E mkdev initrd_addr initrd_size =
     kseq (k_printf (''kinit_task'' @ newline) [])
     (kbind (vfs_root E (map chr ''ramfs'') 0 0) (\<lambda>_.
      kbind (unpack_initramfs E initrd_addr initrd_size) (\<lambda>_.
      kbind (vfs_mknod E (map chr ''/dev/console'') (S_IFCHR OR 0x1b6) (mkdev 5 1)) (\<lambda>_.
      kbind (vfs_open E (map chr ''/dev/console'') O_WRONLY 0x1b6) (\<lambda>fstdout.
      kbind (kget cpu_current) (\<lambda>c.
      kseq (kptr c)
      (kseq (kmod (upd_task c (\<lambda>d. d\<lparr>t_fd := (t_fd d)(1 := fstdout)\<rparr>)))
      (kbind (do_execve E (map chr ''/bin/init'')) (\<lambda>sw.
        case sw of None \<Rightarrow> kfail Halted | Some x \<Rightarrow> kret x))))))))) "

section \<open>initcalls.c\<close>

text \<open>The table between \<open>__initcall_start\<close> and \<open>__initcall_end\<close>, called in order.\<close>

fun do_initcalls :: "int kop list \<Rightarrow> unit kop" where
  "do_initcalls [] = kret ()"
| "do_initcalls (c # cs) = kbind c (\<lambda>_. do_initcalls cs)"

section \<open>Names of the archive\<close>

lemma cstr_append: "cstr m p (xs @ ys) \<longleftrightarrow> bytes_at m p xs \<and> 0 \<notin> set xs \<and> cstr m (p + of_nat (length xs)) ys"
  by (induction xs arbitrary: p) (auto simp: algebra_simps)

lemma bytes_at_cong: "(\<And>x. x \<in> region p (length xs) \<Longrightarrow> m' x = m x) \<Longrightarrow> bytes_at m' p xs = bytes_at m p xs"
  by (induction xs arbitrary: p) (auto simp: region_Suc)

lemma skip_dots_cstr:
  "cstr m p s \<Longrightarrow> skip_dots m p = Some (p + of_nat (length (takeWhile (\<lambda>c. c = chr CHR ''.'') s)))"
proof (induction s arbitrary: p)
  case Nil
  then show ?case by (simp add: skip_dots.simps chr_def)
next
  case (Cons c s)
  then show ?case by (subst skip_dots.simps) (auto simp: algebra_simps)
qed

lemma cstr_truncate:
  assumes "cstr m p (xs @ [x])" and "length xs < 2 ^ 64"
  shows "cstr (m(p + of_nat (length xs) := 0)) p xs"
proof -
  have "p + of_nat (length xs) \<notin> region p (length xs)"
  proof
    assume "p + of_nat (length xs) \<in> region p (length xs)"
    then obtain i where "i < length xs" "(of_nat (length xs) :: u64) = of_nat i" by (auto simp: region_def)
    then show False using of_nat_inj_u64 [of "length xs" i] assms(2) by auto
  qed
  then have "bytes_at (m(p + of_nat (length xs) := 0)) p xs = bytes_at m p xs" by (intro bytes_at_cong) auto
  then show ?thesis using assms(1) cstr_append [of _ p xs "[]"] cstr_append [of m p xs "[x]"] by auto
qed

definition strip :: "u8 list \<Rightarrow> u8 list" where
  "strip s = rev (dropWhile (\<lambda>c. c = chr CHR ''/'') (rev s))"

lemma strip_snoc: "strip (xs @ [x]) = (if x = chr CHR ''/'' then strip xs else xs @ [x])"
  by (simp add: strip_def)

lemma strip_slashes_cstr:
  assumes "cstr m p s" and "\<exists>c\<in>set s. c \<noteq> chr CHR ''/''" and "length s < 2 ^ 64"
  shows "\<exists>m'. strip_slashes p m = Some m' \<and> cstr m' p (strip s) \<and> (\<forall>x. x \<notin> region p (length s) \<longrightarrow> m' x = m x)"
  using assms
proof (induction s arbitrary: m rule: rev_induct)
  case (snoc x xs)
  let ?l = "p + of_nat (length xs)"
  have l: "strlen m p = Some (int (Suc (length xs)))" using strlen_cstr [OF snoc.prems(1)] by simp
  have e: "p + word_of_int (int (Suc (length xs)) - 1) = ?l" by simp
  have mx: "m ?l = x" using snoc.prems(1) by (auto simp: cstr_append)
  show ?case
  proof (cases "x = chr CHR ''/''")
    case True
    have len: "length xs < 2 ^ 64" using snoc.prems(3) by simp
    have r: "strip_slashes p m = strip_slashes p (m(?l := 0))"
      by (subst strip_slashes.simps) (simp add: l e mx True Let_def del: of_int_diff)
    have "\<exists>c\<in>set xs. c \<noteq> chr CHR ''/''" using snoc.prems(2) True by auto
    from snoc.IH [OF cstr_truncate [OF snoc.prems(1) len] this len] obtain m' where
      m': "strip_slashes p (m(?l := 0)) = Some m'" "cstr m' p (strip xs)" "\<forall>y. y \<notin> region p (length xs) \<longrightarrow> m' y = (m(?l := 0)) y"
      by blast
    have "region p (length (xs @ [x])) = insert ?l (region p (length xs))" by (auto simp: region_def lessThan_Suc)
    then show ?thesis using m' r True by (simp add: strip_snoc)
  next
    case False
    have "strip_slashes p m = Some m"
      by (subst strip_slashes.simps) (simp add: l e mx False Let_def del: of_int_diff)
    then show ?thesis using snoc.prems(1) False by (simp add: strip_snoc)
  qed
qed simp

text \<open>
  The names of the archive are cleaned up as intended: for a name that is not made of dots and slashes only,
  \<open>sanitize_name\<close> returns, what is at the returned address is the name without its leading dots and trailing slashes, and
  no byte outside of the name has changed.
\<close>

theorem sanitize_name_cleans:
  assumes "cstr m p s" and "length s < 2 ^ 64" and "t = dropWhile (\<lambda>c. c = chr CHR ''.'') s"
    and "\<exists>c\<in>set t. c \<noteq> chr CHR ''/''"
  shows "\<exists>q m'. sanitize_name p m = Some (q, m') \<and> cstr m' q (strip t) \<and> (\<forall>x. x \<in> region p (length s) \<or> m' x = m x)"
proof -
  let ?d = "takeWhile (\<lambda>c. c = chr CHR ''.'') s"
  let ?q = "p + of_nat (length ?d)"
  have s: "s = ?d @ t" by (simp add: assms(3))
  have c: "cstr m ?q t" using assms(1) s cstr_append [of m p ?d t] by simp
  have len: "length ?d + length t = length s" using arg_cong [OF s, of length] by simp
  obtain m' where m': "strip_slashes ?q m = Some m'" "cstr m' ?q (strip t)" "\<forall>x. x \<notin> region ?q (length t) \<longrightarrow> m' x = m x"
    using strip_slashes_cstr [OF c assms(4)] assms(2) len by auto
  have "region ?q (length t) \<subseteq> region p (length s)" using len by (intro region_shift_sub) simp
  then show ?thesis
    using m' skip_dots_cstr [OF assms(1)] by (auto simp: sanitize_name_def)
qed

definition dot_name :: mem where
  "dot_name = (\<lambda>_. 0)(0x100 := chr CHR ''.'', 0x101 := chr CHR ''/'', 0x102 := chr CHR ''d'', 0x103 := chr CHR ''/'')"

theorem sanitize_name_cleans_witness:
  "\<exists>q m'. sanitize_name 0x100 dot_name = Some (q, m') \<and> cstr m' q (map chr ''/d'')"
proof -
  have "cstr dot_name 0x100 (map chr ''./d/'')" by (simp add: dot_name_def chr_def)
  from sanitize_name_cleans [OF this] show ?thesis by (simp add: strip_def chr_def) blast
qed

end
