(* ===== verification/Console.thy ===== *)
theory Console
  imports Console_Font Loader
begin

text \<open>
  The consoles: the list of \<^verbatim>\<open>kernel/console.c\<close>, the log of \<^verbatim>\<open>kernel/klog.c\<close> and the framebuffer
  console of \<^verbatim>\<open>drivers/video/efi_fb_console\<close>.

  The framebuffer driver's \<open>console_data\<close> owns two regions of memory: the character cells
  \<open>kmalloc\<close> gave it and the framebuffer \<open>ioremap\<close> mapped for it. Both are fields of its record, with
  the extent each has, next to the addresses the driver keeps; an access outside its region is a
  fault. Cursor and geometry are C ints and are kept as integers, with the conversions to the
  unsigned 32-bit values of the font and of the pitch written out.
\<close>

section \<open>klog.c\<close>

definition KLOG_SIZE :: nat where "KLOG_SIZE = 128 * 1024"

record klog =
  klog_buffer :: "u8 list"
  klog_count :: u32

definition klog_init :: klog where
  "klog_init = \<lparr>klog_buffer = replicate KLOG_SIZE 0, klog_count = 0\<rparr>"

definition klog_putchar :: "u8 \<Rightarrow> klog \<Rightarrow> klog" where
  "klog_putchar c k = k\<lparr>klog_buffer := (klog_buffer k)[unat (klog_count k) mod KLOG_SIZE := c],
     klog_count := klog_count k + 1\<rparr>"

section \<open>The framebuffer console (efi_fb_console.c)\<close>

record framebuffer_data =
  fbd_width :: u32
  fbd_height :: u32
  fbd_pitch :: u32
  fbd_phys_addr :: u64

record fbcon =
  cursor_x :: int
  cursor_y :: int
  buffer_at :: u64               \<comment> \<open>the pointer \<open>buffer\<close>\<close>
  buffer :: "u8 list"            \<comment> \<open>the bytes of the object it points to\<close>
  rows :: int
  cols :: int
  fb_address :: u64
  fb_mem :: "nat \<Rightarrow> u8"         \<comment> \<open>the bytes of the framebuffer, from \<open>fb_address\<close> on\<close>
  fb_size :: nat                 \<comment> \<open>the number of bytes that are mapped there\<close>
  fb_pitch :: u32

text \<open>A counting loop over a fault-carrying state.\<close>

fun for_each :: "('i \<Rightarrow> 's \<Rightarrow> 's res) \<Rightarrow> 'i list \<Rightarrow> 's \<Rightarrow> 's res" where
  "for_each f [] s = Inr s"
| "for_each f (i # is) s = bind_res (f i s) (for_each f is)"

definition write32 :: "nat \<Rightarrow> u32 \<Rightarrow> (nat \<Rightarrow> u8) \<Rightarrow> nat \<Rightarrow> u8" where
  "write32 off v m = (\<lambda>a. if off \<le> a \<and> a < off + 4 then ucast (drop_bit (8 * (a - off)) v) else m a)"

definition fb_draw_pixel :: "int \<Rightarrow> int \<Rightarrow> u32 \<Rightarrow> fbcon \<Rightarrow> fbcon res" where
  "fb_draw_pixel x y color con =
     (let y_index = fb_pitch con * word_of_int y;
          off = unat (ucast y_index + word_of_int x * 4 :: u64)
      in if off + 4 \<le> fb_size con then Inr (con\<lparr>fb_mem := write32 off color (fb_mem con)\<rparr>)
         else Inl OutOfBounds)"

definition draw_row :: "int \<Rightarrow> int \<Rightarrow> u32 \<Rightarrow> u32 \<Rightarrow> nat \<Rightarrow> u8 \<Rightarrow> fbcon \<Rightarrow> (u8 \<times> fbcon) res" where
  "draw_row px py fg bg w curr_row con =
     for_each (\<lambda>k (curr_row, con).
         let draw_color = (if 0x80 AND curr_row \<noteq> 0 then fg else bg)
         in bind_res (fb_draw_pixel (px + int k) py draw_color con)
              (\<lambda>con'. Inr (push_bit 1 curr_row, con')))
       [0..<w] (curr_row, con)"

definition fb_draw_char :: "int \<Rightarrow> int \<Rightarrow> u8 \<Rightarrow> u32 \<Rightarrow> u32 \<Rightarrow> fbcon \<Rightarrow> fbcon res" where
  "fb_draw_char x y c fg bg con =
     (let fontp = as_psf_font console_font;
          char_offset = scast c * (psf_width fontp div 8) * psf_height fontp;
          glyph = unat (psf_headersize fontp) + unat char_offset;
          pixel_x = sint (word_of_int x * psf_width fontp);
          pixel_y = sint (word_of_int y * psf_height fontp)
      in for_each (\<lambda>i con.
           if glyph + i < length console_font
           then bind_res (draw_row pixel_x (pixel_y + int i) fg bg (unat (psf_width fontp))
                            (console_font ! (glyph + i)) con)
                  (\<lambda>(_, con'). Inr con')
           else Inl OutOfBounds)
         [0..<unat (psf_height fontp)] con)"

definition buf_read :: "int \<Rightarrow> fbcon \<Rightarrow> u8 res" where
  "buf_read i con =
     (if buffer_at con = 0 then Inl NullDeref
      else if 0 \<le> i \<and> i < int (length (buffer con)) then Inr (buffer con ! nat i)
      else Inl OutOfBounds)"

definition buf_write :: "int \<Rightarrow> u8 \<Rightarrow> fbcon \<Rightarrow> fbcon res" where
  "buf_write i c con =
     (if buffer_at con = 0 then Inl NullDeref
      else if 0 \<le> i \<and> i < int (length (buffer con)) then Inr (con\<lparr>buffer := (buffer con)[nat i := c]\<rparr>)
      else Inl OutOfBounds)"

text \<open>\<open>memcpy\<close> and \<open>memset\<close> inside the buffer; the rows of one \<open>memcpy\<close> do not overlap.\<close>

definition buf_store :: "int \<Rightarrow> u8 list \<Rightarrow> fbcon \<Rightarrow> fbcon res" where
  "buf_store dst bs con =
     (if buffer_at con = 0 then Inl NullDeref
      else if 0 \<le> dst \<and> dst + int (length bs) \<le> int (length (buffer con))
      then Inr (con\<lparr>buffer := take (nat dst) (buffer con) @ bs @ drop (nat dst + length bs) (buffer con)\<rparr>)
      else Inl OutOfBounds)"

definition buf_memcpy :: "int \<Rightarrow> int \<Rightarrow> int \<Rightarrow> fbcon \<Rightarrow> fbcon res" where
  "buf_memcpy dst src n con =
     (if 0 \<le> src \<and> 0 \<le> n \<and> src + n \<le> int (length (buffer con))
      then buf_store dst (take (nat n) (drop (nat src) (buffer con))) con
      else Inl OutOfBounds)"

definition buf_memset :: "int \<Rightarrow> u8 \<Rightarrow> int \<Rightarrow> fbcon \<Rightarrow> fbcon res" where
  "buf_memset dst c n con = (if 0 \<le> n then buf_store dst (replicate (nat n) c) con else Inl OutOfBounds)"

definition efi_fb_write_buff :: "int \<Rightarrow> int \<Rightarrow> u8 \<Rightarrow> fbcon \<Rightarrow> fbcon res" where
  "efi_fb_write_buff x y c con =
     bind_res (buf_write (y * cols con + x) c con) (fb_draw_char x y c 0xffffffff 0)"

definition efi_fb_redraw :: "fbcon \<Rightarrow> fbcon res" where
  "efi_fb_redraw con =
     for_each (\<lambda>y. for_each (\<lambda>x con.
         bind_res (buf_read (int y * cols con + int x) con)
           (\<lambda>c. fb_draw_char (int x) (int y) c 0xffffffff 0 con)) [0..<nat (cols con)])
       [0..<nat (rows con)] con"

definition scroll_buffer :: "fbcon \<Rightarrow> fbcon res" where
  "scroll_buffer con =
     bind_res (for_each (\<lambda>i con. buf_memcpy (int i * cols con) ((int i + 1) * cols con) (cols con) con)
                 [0..<nat (rows con - 1)] con)
       (\<lambda>con. buf_memset (rows con - 1) 0 (cols con) con)"

definition efi_fb_newline :: "fbcon \<Rightarrow> fbcon res" where
  "efi_fb_newline con =
     (let con = con\<lparr>cursor_y := cursor_y con + 1\<rparr>
      in if cursor_y con < rows con then Inr con
         else bind_res (scroll_buffer con) (\<lambda>con.
              bind_res (efi_fb_redraw con) (\<lambda>con.
              Inr (con\<lparr>cursor_y := cursor_y con - 1\<rparr>))))"

definition efi_fb_cursor_sanity :: "fbcon \<Rightarrow> fbcon res" where
  "efi_fb_cursor_sanity con =
     (if cursor_x con \<ge> cols con then efi_fb_newline (con\<lparr>cursor_x := 0\<rparr>) else Inr con)"

definition efi_fb_console_putchar :: "u8 \<Rightarrow> fbcon \<Rightarrow> fbcon res" where
  "efi_fb_console_putchar c con =
     bind_res (efi_fb_cursor_sanity con) (\<lambda>con.
       if c = 10
       then bind_res (efi_fb_write_buff (cursor_x con) (cursor_y con) 0 con)
              (\<lambda>con. efi_fb_newline (con\<lparr>cursor_x := 0\<rparr>))
       else if c = 13 then Inr (con\<lparr>cursor_x := 0\<rparr>)
       else efi_fb_write_buff (cursor_x con) (cursor_y con) c (con\<lparr>cursor_x := cursor_x con + 1\<rparr>))"

section \<open>The list of consoles (console.c)\<close>

datatype putchar_fn = NoPutchar | EfiFbPutchar

record console =
  con_name :: string
  con_putchar :: putchar_fn
  con_flags :: u32

record console_state =
  con_k :: kstate
  consoles :: "u64 \<Rightarrow> console"
  console_data :: fbcon

type_synonym 'a cop = "console_state \<Rightarrow> ('a \<times> console_state) res"

definition register_console :: "u64 \<Rightarrow> console_state \<Rightarrow> console_state" where
  "register_console con s =
     s\<lparr>con_k := upd_klinks (list_add (ConsoleNode con) ConsoleList) (con_k s)\<rparr>"

definition unregister_console :: "u64 \<Rightarrow> console_state \<Rightarrow> console_state" where
  "unregister_console con s = s"

definition call_putchar :: "u64 \<Rightarrow> u8 \<Rightarrow> console_state \<Rightarrow> console_state res" where
  "call_putchar con c s =
     (case con_putchar (consoles s con) of
        NoPutchar \<Rightarrow> Inr s
      | EfiFbPutchar \<Rightarrow> bind_res (efi_fb_console_putchar c (console_data s)) (\<lambda>d. Inr (s\<lparr>console_data := d\<rparr>)))"

text \<open>One turn of \<open>list_for_each\<close>; a fault ends the traversal.\<close>

definition putchar_body :: "u8 \<Rightarrow> knode \<Rightarrow> console_state \<times> fault option \<Rightarrow> (console_state \<times> fault option) \<times> bool" where
  "putchar_body c pos st =
     (case pos of
        ConsoleNode con \<Rightarrow>
          (case call_putchar con c (fst st) of
             Inl e \<Rightarrow> ((fst st, Some e), True)
           | Inr s' \<Rightarrow> ((s', snd st), False))
      | _ \<Rightarrow> ((fst st, Some WildPointer), True))"

definition console_putchar :: "u8 \<Rightarrow> console_state \<Rightarrow> console_state res" where
  "console_putchar c s =
     (case list_for_each (\<lambda>st. klinks (con_k (fst st))) ConsoleList (putchar_body c)
             (lh_next (klinks (con_k s) ConsoleList)) (s, None) of
        None \<Rightarrow> Inl Halted
      | Some (s', None) \<Rightarrow> Inr s'
      | Some (_, Some e) \<Rightarrow> Inl e)"

section \<open>Loading the framebuffer console\<close>

definition k_ioremap :: "env \<Rightarrow> u64 \<Rightarrow> u64 \<Rightarrow> u32 \<Rightarrow> u64 kop" where
  "k_ioremap E phys sz flags s =
     bind_res (returned (ioremap (get_page_vaddr E) (vm E) phys sz flags (ps s)))
       (\<lambda>(a, p). Inr (a, s\<lparr>ps := p\<rparr>))"

text \<open>
  \<open>initialize\<close>. The pixels of the framebuffer are what the firmware left there, \<open>fbm\<close>; the
  cells are the bytes of the object, which \<open>kmalloc\<close> does not clear.
\<close>

definition initialize :: "env \<Rightarrow> framebuffer_data \<Rightarrow> (nat \<Rightarrow> u8) \<Rightarrow> unit cop" where
  "initialize E fbd fbm s =
     (let fontp = as_psf_font console_font;
          r = uint (fbd_height fbd div psf_height fontp);
          w = uint (fbd_width fbd div psf_width fontp);
          size = scast (word_of_int (r * w) :: u32) :: u64;
          mapped = fbd_height fbd * fbd_pitch fbd
      in bind_res (kbind (k_kmalloc E size) (\<lambda>b.
           kbind (kget (\<lambda>k. if b = 0 then [] else block (kram k) b (unat size))) (\<lambda>cells.
           kbind (k_ioremap E (fbd_phys_addr fbd) (ucast mapped) 0) (\<lambda>a.
           kret \<lparr>cursor_x = 0, cursor_y = 0, buffer_at = b, buffer = cells, rows = r, cols = w,
                 fb_address = a, fb_mem = fbm, fb_size = unat mapped, fb_pitch = fbd_pitch fbd\<rparr>)))
           (con_k s))
         (\<lambda>(d, k). Inr ((), s\<lparr>con_k := k, console_data := d\<rparr>)))"

definition efi_fb_console :: console where
  "efi_fb_console = \<lparr>con_name = ''fbcon'', con_putchar = EfiFbPutchar, con_flags = 0\<rparr>"

definition efi_fb_console_load :: "env \<Rightarrow> framebuffer_data \<Rightarrow> (nat \<Rightarrow> u8) \<Rightarrow> u64 \<Rightarrow> int cop" where
  "efi_fb_console_load E fbd fbm adr s =
     bind_res (initialize E fbd fbm s) (\<lambda>(_, s').
       Inr (0, register_console adr (s'\<lparr>consoles := (consoles s')(adr := efi_fb_console)\<rparr>)))"

definition efi_fb_console_remove :: int where
  "efi_fb_console_remove = 0"

section \<open>Loops\<close>

lemma for_each_append: "for_each f (xs @ ys) s = bind_res (for_each f xs s) (for_each f ys)"
  by (induction xs arbitrary: s) (simp_all add: bind_res_def split: sum.splits)

text \<open>The loop rule: a property of the iteration count and the state that every turn carries on.\<close>

lemma for_upto_inv:
  assumes "I 0 s" and "\<And>i s. i < n \<Longrightarrow> I i s \<Longrightarrow> \<exists>s'. f i s = Inr s' \<and> I (Suc i) s'"
  shows "\<exists>s'. for_each f [0..<n] s = Inr s' \<and> I n s'"
  using assms(2)
proof (induction n)
  case 0
  show ?case using assms(1) by simp
next
  case (Suc n)
  then obtain s1 where s1: "for_each f [0..<n] s = Inr s1" "I n s1" by (metis less_Suc_eq)
  with Suc.prems [of n s1] obtain s2 where "f n s1 = Inr s2" "I (Suc n) s2" by auto
  with s1 show ?case by (simp add: for_each_append)
qed

section \<open>Pixels\<close>

definition pixel_off :: "fbcon \<Rightarrow> nat \<Rightarrow> nat \<Rightarrow> nat" where
  "pixel_off con x y = unat (fb_pitch con) * y + 4 * x"

definition shows_pixel :: "(nat \<Rightarrow> u8) \<Rightarrow> nat \<Rightarrow> u32 \<Rightarrow> bool" where
  "shows_pixel m off v \<longleftrightarrow> (\<forall>b < 4. m (off + b) = ucast (drop_bit (8 * b) v))"

definition fb_geometry :: "fbcon \<Rightarrow> bool" where
  "fb_geometry con \<longleftrightarrow> 0 < cols con \<and> 0 < rows con \<and> buffer_at con \<noteq> 0 \<and>
     length (buffer con) = nat (rows con) * nat (cols con) \<and>
     32 * nat (cols con) \<le> unat (fb_pitch con) \<and>
     16 * nat (rows con) * unat (fb_pitch con) \<le> fb_size con \<and> fb_size con < 2 ^ 32"

lemma fb_geometry_fb_mem [simp]: "fb_geometry (con\<lparr>fb_mem := m\<rparr>) = fb_geometry con"
  and fb_geometry_cursor [simp]:
    "fb_geometry (con\<lparr>cursor_x := x\<rparr>) = fb_geometry con" "fb_geometry (con\<lparr>cursor_y := x\<rparr>) = fb_geometry con"
  and pixel_off_fb_mem [simp]: "pixel_off (con\<lparr>fb_mem := m\<rparr>) = pixel_off con"
  and pixel_off_cursor [simp]:
    "pixel_off (con\<lparr>cursor_x := i\<rparr>) = pixel_off con" "pixel_off (con\<lparr>cursor_y := i\<rparr>) = pixel_off con"
  by (simp_all add: fb_geometry_def pixel_off_def fun_eq_iff)

lemma fb_geometry_small:
  assumes "fb_geometry con"
  shows "nat (cols con) < 2 ^ 27" "nat (rows con) < 2 ^ 23"
proof -
  have p: "unat (fb_pitch con) < 2 ^ 32" by (rule unat_u32_bound)
  with assms show "nat (cols con) < 2 ^ 27" by (simp add: fb_geometry_def)
  have "1 \<le> nat (cols con)" using assms unfolding fb_geometry_def by linarith
  then have "32 \<le> unat (fb_pitch con)" using assms unfolding fb_geometry_def by linarith
  then have "16 * nat (rows con) * 32 \<le> 16 * nat (rows con) * unat (fb_pitch con)" by (rule mult_le_mono2)
  also have "\<dots> < 2 ^ 32" using assms by (simp add: fb_geometry_def)
  finally show "nat (rows con) < 2 ^ 23" by simp
qed

lemma pixel_in_bounds:
  assumes "fb_geometry con" and "x < 8 * nat (cols con)" and "y < 16 * nat (rows con)"
  shows "pixel_off con x y + 4 \<le> fb_size con"
proof -
  have "4 * x + 4 \<le> unat (fb_pitch con)" using assms unfolding fb_geometry_def by linarith
  moreover have "unat (fb_pitch con) * Suc y \<le> unat (fb_pitch con) * (16 * nat (rows con))"
    using assms(3) by (intro mult_le_mono2) simp
  ultimately show ?thesis
    using assms(1) unfolding fb_geometry_def pixel_off_def by (simp add: mult.commute [of _ "unat (fb_pitch con)"])
qed

lemma fb_draw_pixel_ok:
  assumes "fb_geometry con" and "x < 8 * nat (cols con)" and "y < 16 * nat (rows con)"
  shows "fb_draw_pixel (int x) (int y) color con =
    Inr (con\<lparr>fb_mem := write32 (pixel_off con x y) color (fb_mem con)\<rparr>)"
proof -
  have b: "pixel_off con x y + 4 \<le> fb_size con" by (rule pixel_in_bounds [OF assms])
  then have l: "pixel_off con x y < 2 ^ 32" using assms(1) by (simp add: fb_geometry_def)
  then have y32: "y < 2 ^ 32"
    using assms(3) fb_geometry_small(2) [OF assms(1)] by simp
  have "unat (fb_pitch con * word_of_nat y) = unat (fb_pitch con) * y"
    using l y32 by (subst unat_mult_no_overflow) (simp_all add: pixel_off_def unat_of_nat)
  then have yi: "unat (ucast (fb_pitch con * word_of_nat y) :: u64) = unat (fb_pitch con) * y"
    using l by (simp add: unsigned_ucast_eq take_bit_nat_eq_self pixel_off_def)
  have x4: "unat (word_of_nat x * 4 :: u64) = 4 * x"
    using l by (subst unat_mult_no_overflow) (simp_all add: pixel_off_def unat_of_nat)
  have "unat (ucast (fb_pitch con * word_of_nat y) + word_of_nat x * 4 :: u64) = pixel_off con x y"
    using l by (subst unat_add_no_overflow) (simp_all add: yi x4 pixel_off_def)
  with b show ?thesis by (simp add: fb_draw_pixel_def Let_def)
qed

lemma write32_shows: "shows_pixel (write32 off v m) off v"
  by (simp add: shows_pixel_def write32_def)

lemma write32_other: "a < off \<or> off + 4 \<le> a \<Longrightarrow> write32 off v m a = m a"
  by (auto simp: write32_def)

lemma shows_pixel_cong:
  "shows_pixel m off v \<Longrightarrow> (\<And>a. off \<le> a \<Longrightarrow> a < off + 4 \<Longrightarrow> m' a = m a) \<Longrightarrow> shows_pixel m' off v"
  by (simp add: shows_pixel_def)

lemma top_bit_of_row: "k < 8 \<Longrightarrow> 0x80 AND push_bit k r \<noteq> 0 \<longleftrightarrow> bit (r :: u8) (7 - k)"
proof -
  assume k: "k < 8"
  have "(0x80 :: u8) = push_bit 7 1" by simp
  also have "push_bit 7 1 AND push_bit k r \<noteq> 0 \<longleftrightarrow> bit (push_bit k r) 7"
    by (simp only: bit_iff_and_push_bit_not_eq_0 and.commute)
  finally show ?thesis using k by (simp add: bit_simps)
qed

section \<open>Drawing a character\<close>

text \<open>The colour of pixel \<open>(k, i)\<close> of the glyph of \<open>c\<close>, and that the cell at \<open>(x, y)\<close> shows \<open>c\<close>.\<close>

definition glyph_colour :: "u32 \<Rightarrow> u32 \<Rightarrow> u8 \<Rightarrow> nat \<Rightarrow> nat \<Rightarrow> u32" where
  "glyph_colour fg bg c i k = (if bit (console_font ! (32 + 16 * unat c + i)) (7 - k) then fg else bg)"

definition cell_shows :: "fbcon \<Rightarrow> (nat \<Rightarrow> u8) \<Rightarrow> nat \<Rightarrow> nat \<Rightarrow> u32 \<Rightarrow> u32 \<Rightarrow> u8 \<Rightarrow> bool" where
  "cell_shows con m x y fg bg c \<longleftrightarrow> (\<forall>i < 16. \<forall>k < 8.
     shows_pixel m (pixel_off con (8 * x + k) (16 * y + i)) (glyph_colour fg bg c i k))"

text \<open>Nothing but the bytes of \<open>w\<close> pixels from \<open>(px, py)\<close> on differs; nothing but \<open>h\<close> such rows.\<close>

definition only_row :: "fbcon \<Rightarrow> nat \<Rightarrow> nat \<Rightarrow> nat \<Rightarrow> (nat \<Rightarrow> u8) \<Rightarrow> (nat \<Rightarrow> u8) \<Rightarrow> bool" where
  "only_row con px py w m m' \<longleftrightarrow>
     (\<forall>a. a < pixel_off con px py \<or> pixel_off con (px + w) py \<le> a \<longrightarrow> m' a = m a)"

definition only_rows :: "fbcon \<Rightarrow> nat \<Rightarrow> nat \<Rightarrow> nat \<Rightarrow> nat \<Rightarrow> (nat \<Rightarrow> u8) \<Rightarrow> (nat \<Rightarrow> u8) \<Rightarrow> bool" where
  "only_rows con px py w h m m' \<longleftrightarrow>
     (\<forall>a. (\<forall>i < h. a < pixel_off con px (py + i) \<or> pixel_off con (px + w) (py + i) \<le> a) \<longrightarrow> m' a = m a)"

lemma draw_row_ok:
  assumes "fb_geometry con" and "px + 8 \<le> 8 * nat (cols con)" and "py < 16 * nat (rows con)"
  shows "\<exists>r m. draw_row (int px) (int py) fg bg 8 row con = Inr (r, con\<lparr>fb_mem := m\<rparr>) \<and>
    only_row con px py 8 (fb_mem con) m \<and>
    (\<forall>k < 8. shows_pixel m (pixel_off con (px + k) py) (if bit row (7 - k) then fg else bg))"
proof -
  let ?P = "\<lambda>n m. only_row con px py n (fb_mem con) m \<and>
    (\<forall>k < n. shows_pixel m (pixel_off con (px + k) py) (if bit row (7 - k) then fg else bg))"
  let ?I = "\<lambda>n s. \<exists>m. s = (push_bit n row, con\<lparr>fb_mem := m\<rparr>) \<and> ?P n m"
  let ?f = "\<lambda>k (curr_row, con).
         let draw_color = (if 0x80 AND curr_row \<noteq> 0 then fg else bg)
         in bind_res (fb_draw_pixel (int px + int k) (int py) draw_color con)
              (\<lambda>con'. Inr (push_bit 1 curr_row, con'))"
  have "\<exists>s'. for_each ?f [0..<8] (row, con) = Inr s' \<and> ?I 8 s'"
  proof (rule for_upto_inv [where I = ?I])
    show "?I 0 (row, con)" by (intro exI [of _ "fb_mem con"]) (simp add: only_row_def)
  next
    fix n s assume n: "n < (8 :: nat)" and "?I n s"
    then obtain m where s: "s = (push_bit n row, con\<lparr>fb_mem := m\<rparr>)" and P: "?P n m" by blast
    let ?v = "if bit row (7 - n) then fg else bg"
    let ?m = "write32 (pixel_off con (px + n) py) ?v m"
    have "fb_draw_pixel (int (px + n)) (int py) ?v (con\<lparr>fb_mem := m\<rparr>) = Inr (con\<lparr>fb_mem := ?m\<rparr>)"
      using fb_draw_pixel_ok [of "con\<lparr>fb_mem := m\<rparr>" "px + n" py ?v] assms n by simp
    then have "?f n s = Inr (push_bit (Suc n) row, con\<lparr>fb_mem := ?m\<rparr>)"
      using n by (simp add: s top_bit_of_row add.commute del: push_bit_Suc)
    moreover have "?P (Suc n) ?m"
    proof (intro conjI allI impI)
      show "only_row con px py (Suc n) (fb_mem con) ?m"
        using P by (auto simp: only_row_def pixel_off_def write32_def)
      fix k assume "k < Suc n"
      show "shows_pixel ?m (pixel_off con (px + k) py) (if bit row (7 - k) then fg else bg)"
      proof (cases "k = n")
        case True
        then show ?thesis by (simp add: write32_shows)
      next
        case False
        with \<open>k < Suc n\<close> have "k < n" by simp
        with P have "shows_pixel m (pixel_off con (px + k) py) (if bit row (7 - k) then fg else bg)" by simp
        then show ?thesis
          by (rule shows_pixel_cong) (use \<open>k < n\<close> in \<open>simp add: write32_def pixel_off_def\<close>)
      qed
    qed
    ultimately show "\<exists>s'. ?f n s = Inr s' \<and> ?I (Suc n) s'" by blast
  qed
  then show ?thesis unfolding draw_row_def by blast
qed

lemma pixel_off_next_row:
  assumes "fb_geometry con" and "px + w \<le> 8 * nat (cols con)" and "y < y'"
  shows "pixel_off con (px + w) y \<le> pixel_off con px' y'"
proof -
  have "32 * nat (cols con) \<le> unat (fb_pitch con)" using assms(1) by (simp add: fb_geometry_def)
  moreover have "4 * (px + w) \<le> 4 * (8 * nat (cols con))" using assms(2) by (rule mult_le_mono2)
  ultimately have "4 * (px + w) \<le> unat (fb_pitch con)" by simp
  moreover have "unat (fb_pitch con) * Suc y \<le> unat (fb_pitch con) * y'"
    using assms(3) by (intro mult_le_mono2) simp
  ultimately show ?thesis by (simp add: pixel_off_def)
qed

lemma pixel_apart:
  assumes "fb_geometry con" and "px + 8 \<le> 8 * nat (cols con)" and "px' < 8 * nat (cols con)"
    and "y \<noteq> y' \<or> px' < px \<or> px + 8 \<le> px'"
    and "pixel_off con px' y' \<le> a" "a < pixel_off con px' y' + 4"
  shows "a < pixel_off con px y \<or> pixel_off con (px + 8) y \<le> a"
proof (cases y y' rule: linorder_cases)
  case less
  from pixel_off_next_row [OF assms(1,2) this, of px'] assms(5) show ?thesis by linarith
next
  case equal
  then show ?thesis using assms(4-6) by (auto simp: pixel_off_def)
next
  case greater
  from pixel_off_next_row [OF assms(1) _ this, of px' 1 px] assms(3,6) show ?thesis
    by (simp add: pixel_off_def)
qed

lemma only_row_other_row:
  assumes "fb_geometry con" and "px + 8 \<le> 8 * nat (cols con)" and "px' < 8 * nat (cols con)" and "y \<noteq> y'"
    and "only_row con px y 8 m m'"
  shows "shows_pixel m (pixel_off con px' y') v \<Longrightarrow> shows_pixel m' (pixel_off con px' y') v"
  using assms(5) pixel_apart [OF assms(1-3)] assms(4) unfolding only_row_def
  by (elim shows_pixel_cong) blast

lemma sint_word_of_nat:
  assumes "n < 2 ^ (LENGTH('a::len) - 1)"
  shows "sint (word_of_nat n :: 'a word) = int n"
proof -
  have "n < 2 ^ LENGTH('a)"
    using assms by (rule order_less_le_trans) (rule power_increasing, simp_all)
  moreover have "int n < 2 ^ (LENGTH('a) - 1)" using assms by (metis of_nat_less_iff of_nat_numeral of_nat_power)
  then have "signed_take_bit (LENGTH('a) - 1) (int n) = int n"
    by (intro signed_take_bit_int_eq_self) (rule order_trans [of _ 0], simp_all)
  ultimately show ?thesis by (simp add: sint_uint unsigned_of_nat take_bit_nat_eq_self)
qed

lemma ascii_offset:
  assumes "c < (0x80 :: u8)"
  shows "unat (scast c * 16 :: u32) = 16 * unat c"
proof -
  have n: "unat c < 128" using assms by (simp add: word_less_nat_alt)
  have "sint c = int (unat c)" using sint_word_of_nat [where 'a = 8, of "unat c"] n by simp
  then have "scast c = (word_of_nat (unat c) :: u32)" by (simp add: scast_eq)
  then have "unat (scast c :: u32) = unat c" using n by (simp add: unsigned_ucast_eq take_bit_nat_eq_self)
  then show ?thesis using n by (subst unat_mult_no_overflow) simp_all
qed

lemma small_product:
  assumes "k * n < 2 ^ 31"
  shows "sint (word_of_int (int n) * word_of_nat k :: u32) = int (k * n)"
proof -
  have "word_of_int (int n) * word_of_nat k = (word_of_nat (k * n) :: u32)" by simp
  with sint_word_of_nat [where 'a = 32, of "k * n"] assms show ?thesis by (simp only:) simp
qed

lemma fb_draw_char_ok:
  assumes "fb_geometry con" and "x < nat (cols con)" and "y < nat (rows con)" and "c < 0x80"
  shows "\<exists>m. fb_draw_char (int x) (int y) c fg bg con = Inr (con\<lparr>fb_mem := m\<rparr>) \<and>
    cell_shows con m x y fg bg c \<and> only_rows con (8 * x) (16 * y) 8 16 (fb_mem con) m"
proof -
  let ?row = "\<lambda>i. console_font ! (32 + 16 * unat c + i)"
  let ?P = "\<lambda>n m. only_rows con (8 * x) (16 * y) 8 n (fb_mem con) m \<and>
    (\<forall>i < n. \<forall>k < 8. shows_pixel m (pixel_off con (8 * x + k) (16 * y + i)) (glyph_colour fg bg c i k))"
  let ?I = "\<lambda>n s. \<exists>m. s = con\<lparr>fb_mem := m\<rparr> \<and> ?P n m"
  let ?f = "\<lambda>i con. if 32 + 16 * unat c + i < length console_font
           then bind_res (draw_row (int (8 * x)) (int (16 * y) + int i) fg bg 8 (?row i) con)
                  (\<lambda>(_, con'). Inr con')
           else Inl OutOfBounds"
  have "\<exists>s'. for_each ?f [0..<16] con = Inr s' \<and> ?I 16 s'"
  proof (rule for_upto_inv [where I = ?I])
    show "?I 0 con" by (intro exI [of _ "fb_mem con"]) (simp add: only_rows_def)
  next
    fix n s assume n: "n < (16 :: nat)" and "?I n s"
    then obtain m where s: "s = con\<lparr>fb_mem := m\<rparr>" and P: "?P n m" by blast
    have "32 + 16 * unat c + n < length console_font"
      using assms(4) n by (simp add: length_console_font word_less_nat_alt)
    moreover have "\<exists>r m'. draw_row (int (8 * x)) (int (16 * y + n)) fg bg 8 (?row n) s = Inr (r, s\<lparr>fb_mem := m'\<rparr>) \<and>
        only_row s (8 * x) (16 * y + n) 8 (fb_mem s) m' \<and>
        (\<forall>k < 8. shows_pixel m' (pixel_off s (8 * x + k) (16 * y + n)) (if bit (?row n) (7 - k) then fg else bg))"
      by (rule draw_row_ok) (use assms n s in simp_all)
    ultimately obtain m' where f: "?f n s = Inr (con\<lparr>fb_mem := m'\<rparr>)"
      and o: "only_row con (8 * x) (16 * y + n) 8 m m'"
      and sh: "\<forall>k < 8. shows_pixel m' (pixel_off con (8 * x + k) (16 * y + n)) (glyph_colour fg bg c n k)"
      unfolding s by (auto simp: glyph_colour_def only_row_def)
    have "only_rows con (8 * x) (16 * y) 8 (Suc n) (fb_mem con) m'"
      using P o unfolding only_rows_def only_row_def by (metis less_Suc_eq)
    moreover have "shows_pixel m' (pixel_off con (8 * x + k) (16 * y + i)) (glyph_colour fg bg c i k)"
      if "i < Suc n" "k < 8" for i k
    proof (cases "i = n")
      case True
      with sh that show ?thesis by simp
    next
      case False
      with P that have "shows_pixel m (pixel_off con (8 * x + k) (16 * y + i)) (glyph_colour fg bg c i k)" by simp
      with only_row_other_row [OF assms(1) _ _ _ o] False assms(2) that show ?thesis by simp
    qed
    ultimately show "\<exists>s'. ?f n s = Inr s' \<and> ?I (Suc n) s'" using f by blast
  qed
  moreover have "fb_draw_char (int x) (int y) c fg bg con = for_each ?f [0..<16] con"
  proof -
    have "8 * x < 2 ^ 31" "16 * y < 2 ^ 31" using fb_geometry_small [OF assms(1)] assms(2,3) by simp_all
    then show ?thesis
      using ascii_offset [OF assms(4)] small_product [of 8 x] small_product [of 16 y]
      by (simp add: fb_draw_char_def psf_font_of_console_font Let_def del: of_nat_mult cong: if_cong)
  qed
  ultimately show ?thesis unfolding cell_shows_def by force
qed

lemma only_rows_other_cell:
  assumes "fb_geometry con" and "x < nat (cols con)" and "x' < nat (cols con)" and "(x, y) \<noteq> (x', y')"
    and "only_rows con (8 * x) (16 * y) 8 16 m m'" and "cell_shows con m x' y' fg bg c"
  shows "cell_shows con m' x' y' fg bg c"
  unfolding cell_shows_def
proof (intro allI impI)
  fix i k :: nat assume ik: "i < 16" "k < 8"
  let ?o = "pixel_off con (8 * x' + k) (16 * y' + i)"
  have "shows_pixel m ?o (glyph_colour fg bg c i k)" using assms(6) ik by (simp add: cell_shows_def)
  then show "shows_pixel m' ?o (glyph_colour fg bg c i k)"
  proof (rule shows_pixel_cong)
    fix a assume a: "?o \<le> a" "a < ?o + 4"
    have "a < pixel_off con (8 * x) (16 * y + j) \<or> pixel_off con (8 * x + 8) (16 * y + j) \<le> a" if "j < 16" for j
    proof (rule pixel_apart [OF assms(1) _ _ _ a])
      show "16 * y + j \<noteq> 16 * y' + i \<or> 8 * x' + k < 8 * x \<or> 8 * x + 8 \<le> 8 * x' + k"
        using assms(4) ik that by auto
    qed (use assms(2,3) ik in simp_all)
    with assms(5) show "m' a = m a" unfolding only_rows_def by blast
  qed
qed

section \<open>The screen and the cells\<close>

definition cell :: "fbcon \<Rightarrow> nat \<Rightarrow> nat \<Rightarrow> u8" where
  "cell con x y = buffer con ! (y * nat (cols con) + x)"

text \<open>Every cell of the screen shows the character the buffer has for it.\<close>

definition screen_mirrors :: "fbcon \<Rightarrow> bool" where
  "screen_mirrors con \<longleftrightarrow> (\<forall>y < nat (rows con). \<forall>x < nat (cols con).
     cell_shows con (fb_mem con) x y 0xffffffff 0 (cell con x y))"

definition fbcon_ok :: "fbcon \<Rightarrow> bool" where
  "fbcon_ok con \<longleftrightarrow> fb_geometry con \<and> (\<forall>c \<in> set (buffer con). c < 0x80) \<and>
     0 \<le> cursor_x con \<and> cursor_x con \<le> cols con \<and> 0 \<le> cursor_y con \<and> cursor_y con < rows con"

lemma cell_shows_frame [simp]:
  "cell_shows (con\<lparr>fb_mem := m'\<rparr>) m x y fg bg c = cell_shows con m x y fg bg c"
  "cell_shows (con\<lparr>cursor_x := i\<rparr>) m x y fg bg c = cell_shows con m x y fg bg c"
  "cell_shows (con\<lparr>cursor_y := i\<rparr>) m x y fg bg c = cell_shows con m x y fg bg c"
  "cell_shows (con\<lparr>buffer := b\<rparr>) m x y fg bg c = cell_shows con m x y fg bg c"
  by (simp_all add: cell_shows_def pixel_off_def)

lemma cell_frame [simp]:
  "cell (con\<lparr>fb_mem := m'\<rparr>) = cell con" "cell (con\<lparr>cursor_x := i\<rparr>) = cell con"
  "cell (con\<lparr>cursor_y := i\<rparr>) = cell con"
  by (simp_all add: cell_def fun_eq_iff)

lemma screen_mirrors_cursor [simp]:
  "screen_mirrors (con\<lparr>cursor_x := i\<rparr>) = screen_mirrors con"
  "screen_mirrors (con\<lparr>cursor_y := i\<rparr>) = screen_mirrors con"
  by (simp_all add: screen_mirrors_def)

lemma cell_index:
  assumes "fb_geometry con" and "x < nat (cols con)" and "y < nat (rows con)"
  shows "y * nat (cols con) + x < length (buffer con)"
proof -
  have "y * nat (cols con) + x < Suc y * nat (cols con)" using assms(2) by simp
  also have "\<dots> \<le> nat (rows con) * nat (cols con)" using assms(3) by (intro mult_le_mono1) simp
  finally show ?thesis using assms(1) by (simp add: fb_geometry_def)
qed

lemma cell_index_inj:
  assumes "x < c" and "x' < c" and "y * c + x = y' * c + (x' :: nat)"
  shows "x = x' \<and> y = y'"
proof -
  have "(y * c + x) div c = y" "(y * c + x) mod c = x" "(y' * c + x') div c = y'" "(y' * c + x') mod c = x'"
    using assms(1,2) by simp_all
  with assms(3) show ?thesis by metis
qed

lemma int_cell_index: "0 < cols con \<Longrightarrow> int y * cols con + int x = int (y * nat (cols con) + x)"
  by simp

lemma buf_read_cell:
  assumes "fb_geometry con" and "x < nat (cols con)" and "y < nat (rows con)"
  shows "buf_read (int y * cols con + int x) con = Inr (cell con x y)"
proof -
  have c: "0 < cols con" "buffer_at con \<noteq> 0" using assms(1) by (simp_all add: fb_geometry_def)
  show ?thesis
    unfolding buf_read_def int_cell_index [OF c(1)] nat_int
    using cell_index [OF assms] c(2) by (simp add: cell_def del: of_nat_add of_nat_mult)
qed

lemma redraw_line_ok:
  assumes "fb_geometry con" and "\<forall>c \<in> set (buffer con). c < 0x80" and "y < nat (rows con)"
  shows "\<exists>m. for_each (\<lambda>x con. bind_res (buf_read (int y * cols con + int x) con)
           (\<lambda>c. fb_draw_char (int x) (int y) c 0xffffffff 0 con)) [0..<nat (cols con)] con
      = Inr (con\<lparr>fb_mem := m\<rparr>) \<and>
    (\<forall>x < nat (cols con). cell_shows con m x y 0xffffffff 0 (cell con x y)) \<and>
    (\<forall>x' y' c. x' < nat (cols con) \<longrightarrow> y' \<noteq> y \<longrightarrow> cell_shows con (fb_mem con) x' y' 0xffffffff 0 c
       \<longrightarrow> cell_shows con m x' y' 0xffffffff 0 c)"
proof -
  let ?f = "\<lambda>x con. bind_res (buf_read (int y * cols con + int x) con)
           (\<lambda>c. fb_draw_char (int x) (int y) c 0xffffffff 0 con)"
  let ?P = "\<lambda>n m. (\<forall>x < n. cell_shows con m x y 0xffffffff 0 (cell con x y)) \<and>
    (\<forall>x' y' c. x' < nat (cols con) \<longrightarrow> y' \<noteq> y \<longrightarrow> cell_shows con (fb_mem con) x' y' 0xffffffff 0 c
       \<longrightarrow> cell_shows con m x' y' 0xffffffff 0 c)"
  let ?I = "\<lambda>n s. \<exists>m. s = con\<lparr>fb_mem := m\<rparr> \<and> ?P n m"
  have "\<exists>s. for_each ?f [0..<nat (cols con)] con = Inr s \<and> ?I (nat (cols con)) s"
  proof (rule for_upto_inv [where I = ?I])
    show "?I 0 con" by (intro exI [of _ "fb_mem con"]) simp
  next
    fix n s assume n: "n < nat (cols con)" and "?I n s"
    then obtain m where s: "s = con\<lparr>fb_mem := m\<rparr>" and P: "?P n m" by blast
    have g: "fb_geometry s" using assms(1) s by simp
    have "cell con n y < 0x80"
      using assms(2) cell_index [OF assms(1) n assms(3)] by (simp add: cell_def)
    then obtain m' where d: "fb_draw_char (int n) (int y) (cell con n y) 0xffffffff 0 s = Inr (con\<lparr>fb_mem := m'\<rparr>)"
      and sh: "cell_shows con m' n y 0xffffffff 0 (cell con n y)" and o: "only_rows con (8 * n) (16 * y) 8 16 m m'"
      using fb_draw_char_ok [OF g, of n y "cell con n y" "0xffffffff" 0] n assms(3) s
      by (auto simp: only_rows_def)
    have "?f n s = Inr (con\<lparr>fb_mem := m'\<rparr>)"
      using buf_read_cell [OF g, of n y] n assms(3) s d by simp
    moreover have "?P (Suc n) m'"
      using P sh only_rows_other_cell [OF assms(1) n _ _ o] n by (auto simp: less_Suc_eq)
    ultimately show "\<exists>s'. ?f n s = Inr s' \<and> ?I (Suc n) s'" by blast
  qed
  then show ?thesis by blast
qed

lemma redraw_ok:
  assumes "fb_geometry con" and "\<forall>c \<in> set (buffer con). c < 0x80"
  shows "\<exists>m. efi_fb_redraw con = Inr (con\<lparr>fb_mem := m\<rparr>) \<and> screen_mirrors (con\<lparr>fb_mem := m\<rparr>)"
proof -
  let ?g = "\<lambda>y x con. bind_res (buf_read (int y * cols con + int x) con)
           (\<lambda>c. fb_draw_char (int x) (int y) c 0xffffffff 0 con)"
  let ?f = "\<lambda>y. for_each (?g y) [0..<nat (cols con)]"
  let ?P = "\<lambda>n m. \<forall>y < n. \<forall>x < nat (cols con). cell_shows con m x y 0xffffffff 0 (cell con x y)"
  let ?I = "\<lambda>n s. \<exists>m. s = con\<lparr>fb_mem := m\<rparr> \<and> ?P n m"
  have "\<exists>s. for_each ?f [0..<nat (rows con)] con = Inr s \<and> ?I (nat (rows con)) s"
  proof (rule for_upto_inv [where I = ?I])
    show "?I 0 con" by (intro exI [of _ "fb_mem con"]) simp
  next
    fix n s assume n: "n < nat (rows con)" and "?I n s"
    then obtain m where s: "s = con\<lparr>fb_mem := m\<rparr>" and P: "?P n m" by blast
    have "fb_geometry s" "\<forall>c \<in> set (buffer s). c < 0x80" "n < nat (rows s)" using assms s n by simp_all
    from redraw_line_ok [OF this] obtain m' where f: "?f n s = Inr (con\<lparr>fb_mem := m'\<rparr>)"
      and sh: "\<forall>x < nat (cols con). cell_shows con m' x n 0xffffffff 0 (cell con x n)"
      and o: "\<forall>x' y' c. x' < nat (cols con) \<longrightarrow> y' \<noteq> n \<longrightarrow> cell_shows con m x' y' 0xffffffff 0 c
         \<longrightarrow> cell_shows con m' x' y' 0xffffffff 0 c"
      unfolding s by auto
    have "?P (Suc n) m'" using P sh o by (metis less_Suc_eq nat_less_le)
    with f show "\<exists>s'. ?f n s = Inr s' \<and> ?I (Suc n) s'" by blast
  qed
  then show ?thesis unfolding efi_fb_redraw_def screen_mirrors_def by auto
qed

section \<open>Scrolling\<close>

text \<open>
  What a scroll leaves in cell \<open>j\<close> of the buffer: the cell one row below, the last row keeping
  its own characters, and zeros in the \<open>cols\<close> cells from \<open>rows - 1\<close> on.
\<close>

definition scrolled :: "nat \<Rightarrow> nat \<Rightarrow> u8 list \<Rightarrow> nat \<Rightarrow> u8" where
  "scrolled r c b j =
     (if r - 1 \<le> j \<and> j < r - 1 + c then 0
      else if j < (r - 1) * c then b ! (j + c) else b ! j)"

lemma nth_store:
  assumes "d + length bs \<le> length b" and "j < length b"
  shows "(take d b @ bs @ drop (d + length bs) b) ! j =
    (if d \<le> j \<and> j < d + length bs then bs ! (j - d) else b ! j)"
  using assms by (auto simp: nth_append)

lemma buf_store_ok:
  assumes "buffer_at con \<noteq> 0" and "d + length bs \<le> length (buffer con)"
  shows "buf_store (int d) bs con =
    Inr (con\<lparr>buffer := take d (buffer con) @ bs @ drop (d + length bs) (buffer con)\<rparr>)"
proof -
  have "int d + int (length bs) \<le> int (length (buffer con))"
    using assms(2) by (simp only: of_nat_add [symmetric] of_nat_le_iff)
  with assms(1) show ?thesis by (simp add: buf_store_def)
qed

lemma scroll_rows_ok:
  assumes "fb_geometry con" and "n \<le> nat (rows con) - 1"
  shows "\<exists>b. for_each (\<lambda>i con. buf_memcpy (int i * cols con) ((int i + 1) * cols con) (cols con) con) [0..<n] con
       = Inr (con\<lparr>buffer := b\<rparr>) \<and> length b = length (buffer con) \<and>
    (\<forall>j < length b. b ! j = (if j < n * nat (cols con) then buffer con ! (j + nat (cols con)) else buffer con ! j))"
proof -
  define c where "c = nat (cols con)"
  have ic: "cols con = int c" using assms(1) by (simp add: c_def fb_geometry_def)
  let ?f = "\<lambda>i con. buf_memcpy (int i * cols con) ((int i + 1) * cols con) (cols con) con"
  let ?P = "\<lambda>n b. length b = length (buffer con) \<and>
    (\<forall>j < length b. b ! j = (if j < n * c then buffer con ! (j + c) else buffer con ! j))"
  let ?I = "\<lambda>n s. \<exists>b. s = con\<lparr>buffer := b\<rparr> \<and> ?P n b"
  have "\<exists>s. for_each ?f [0..<n] con = Inr s \<and> ?I n s"
  proof (rule for_upto_inv [where I = ?I])
    show "?I 0 con" by (intro exI [of _ "buffer con"]) simp
  next
    fix i s assume i: "i < n" and "?I i s"
    then obtain b where s: "s = con\<lparr>buffer := b\<rparr>" and P: "?P i b" by blast
    let ?bs = "take c (drop (Suc i * c) b)"
    let ?b = "take (i * c) b @ ?bs @ drop (i * c + length ?bs) b"
    have "Suc (Suc i) * c \<le> nat (rows con) * c" using i assms(2) by (intro mult_le_mono1) simp
    then have l: "i * c + c + c \<le> length b" using P assms(1) by (simp add: fb_geometry_def c_def)
    then have li: "int i * int c + int c + int c \<le> int (length b)"
      by (simp only: of_nat_add [symmetric] of_nat_mult [symmetric] of_nat_le_iff)
    have lb: "length ?bs = c" using l by simp
    have "buf_store (int (i * c)) ?bs s = Inr (con\<lparr>buffer := ?b\<rparr>)"
      using buf_store_ok [of s "i * c" ?bs] assms(1) l lb s by (simp add: fb_geometry_def)
    then have f: "?f i s = Inr (con\<lparr>buffer := ?b\<rparr>)"
      using li by (simp add: s ic buf_memcpy_def nat_mult_distrib nat_add_distrib algebra_simps)
    have "?b ! j = (if j < Suc i * c then buffer con ! (j + c) else buffer con ! j)" if "j < length b" for j
      using nth_store [of "i * c" ?bs b j] P l lb that by (auto simp: algebra_simps)
    moreover have "length ?b = length b" using l by simp
    ultimately have "?P (Suc i) ?b" using P by simp
    with f show "\<exists>s'. ?f i s = Inr s' \<and> ?I (Suc i) s'" by blast
  qed
  then show ?thesis by (auto simp: c_def)
qed

lemma scroll_buffer_ok:
  assumes "fb_geometry con"
  shows "\<exists>b. scroll_buffer con = Inr (con\<lparr>buffer := b\<rparr>) \<and> length b = length (buffer con) \<and>
    (\<forall>j < length b. b ! j = scrolled (nat (rows con)) (nat (cols con)) (buffer con) j)"
proof -
  define c r where "c = nat (cols con)" and "r = nat (rows con)"
  have i: "cols con = int c" "rows con = int r" "0 < c" "0 < r" "buffer_at con \<noteq> 0" and l: "length (buffer con) = r * c"
    using assms by (simp_all add: c_def r_def fb_geometry_def)
  obtain b where f: "for_each (\<lambda>i con. buf_memcpy (int i * cols con) ((int i + 1) * cols con) (cols con) con) [0..<r - 1] con
       = Inr (con\<lparr>buffer := b\<rparr>)" and lb: "length b = r * c"
    and b: "\<forall>j < length b. b ! j = (if j < (r - 1) * c then buffer con ! (j + c) else buffer con ! j)"
    using scroll_rows_ok [OF assms, of "r - 1"] l by (auto simp: c_def r_def)
  let ?z = "replicate c (0 :: u8)"
  let ?b = "take (r - 1) b @ ?z @ drop (r - 1 + length ?z) b"
  obtain r' where r': "r = Suc r'" using i by (cases r) simp_all
  obtain c' where c': "c = Suc c'" using i by (cases c) simp_all
  have fits: "r - 1 + c \<le> r * c" by (simp add: r' c')
  have "buf_memset (int r - 1) 0 (int c) (con\<lparr>buffer := b\<rparr>) = Inr (con\<lparr>buffer := ?b\<rparr>)"
    using buf_store_ok [of "con\<lparr>buffer := b\<rparr>" "r - 1" ?z] i fits lb by (simp add: buf_memset_def r')
  then have "scroll_buffer con = Inr (con\<lparr>buffer := ?b\<rparr>)"
    using f i by (simp add: scroll_buffer_def nat_diff_distrib)
  moreover have "?b ! j = scrolled r c (buffer con) j" if "j < length b" for j
    using nth_store [of "r - 1" ?z b j] fits lb b that by (auto simp: scrolled_def r')
  moreover have "length ?b = length b" using fits lb by simp
  ultimately show ?thesis using l lb by (intro exI [of _ ?b]) (simp add: c_def r_def)
qed

section \<open>Writing a character\<close>

lemma fb_geometry_buffer: "length b = length (buffer con) \<Longrightarrow> fb_geometry (con\<lparr>buffer := b\<rparr>) = fb_geometry con"
  by (simp add: fb_geometry_def)

lemma scrolled_ascii:
  assumes "\<forall>c \<in> set b. c < 0x80" and "length b = r * c" and "j < length b"
  shows "scrolled r c b j < 0x80"
proof -
  have "j + c < length b" if "j < (r - 1) * c"
  proof -
    have "j + c < (r - 1) * c + c" using that by simp
    also have "\<dots> \<le> r * c" using that by (cases r) simp_all
    finally show ?thesis using assms(2) by simp
  qed
  then show ?thesis using assms by (auto simp: scrolled_def)
qed

lemma newline_scrolls:
  assumes "fb_geometry con" and "\<forall>c \<in> set (buffer con). c < 0x80" and "cursor_y con = rows con - 1"
  shows "\<exists>b m. efi_fb_newline con = Inr (con\<lparr>buffer := b, fb_mem := m\<rparr>) \<and> length b = length (buffer con) \<and>
    (\<forall>j < length b. b ! j = scrolled (nat (rows con)) (nat (cols con)) (buffer con) j) \<and>
    (\<forall>c \<in> set b. c < 0x80) \<and> screen_mirrors (con\<lparr>buffer := b, fb_mem := m\<rparr>)"
proof -
  let ?con = "con\<lparr>cursor_y := cursor_y con + 1\<rparr>"
  obtain b where s: "scroll_buffer ?con = Inr (?con\<lparr>buffer := b\<rparr>)" and l: "length b = length (buffer con)"
    and b: "\<forall>j < length b. b ! j = scrolled (nat (rows con)) (nat (cols con)) (buffer con) j"
    using scroll_buffer_ok [of ?con] assms(1) by auto
  have a: "\<forall>c \<in> set b. c < 0x80"
    using b l scrolled_ascii [OF assms(2)] assms(1) by (auto simp: in_set_conv_nth fb_geometry_def)
  have "fb_geometry (?con\<lparr>buffer := b\<rparr>)" "\<forall>c \<in> set (buffer (?con\<lparr>buffer := b\<rparr>)). c < 0x80"
    using assms(1) a l by (simp_all add: fb_geometry_buffer)
  from redraw_ok [OF this] obtain m where r: "efi_fb_redraw (?con\<lparr>buffer := b\<rparr>) = Inr (?con\<lparr>buffer := b, fb_mem := m\<rparr>)"
    and mir: "screen_mirrors (?con\<lparr>buffer := b, fb_mem := m\<rparr>)" by blast
  have con: "(?con\<lparr>buffer := b, fb_mem := m\<rparr>)\<lparr>cursor_y := cursor_y con\<rparr> = con\<lparr>buffer := b, fb_mem := m\<rparr>"
    by (cases con) simp
  have "efi_fb_newline con = Inr (con\<lparr>buffer := b, fb_mem := m\<rparr>)"
    using s r con assms(3) by (simp add: efi_fb_newline_def Let_def)
  moreover have "screen_mirrors (con\<lparr>buffer := b, fb_mem := m\<rparr>)"
    using mir screen_mirrors_cursor(2) [where con = "?con\<lparr>buffer := b, fb_mem := m\<rparr>" and i = "cursor_y con"] con by simp
  ultimately show ?thesis using l b a by blast
qed

text \<open>What every step of the driver keeps: safety, the geometry, and a screen that agrees with the cells.\<close>

definition fb_keeps :: "fbcon \<Rightarrow> fbcon \<Rightarrow> bool" where
  "fb_keeps con con' \<longleftrightarrow> fbcon_ok con' \<and> rows con' = rows con \<and> cols con' = cols con \<and>
     fb_pitch con' = fb_pitch con \<and> (screen_mirrors con \<longrightarrow> screen_mirrors con')"

lemma fb_keeps_refl: "fbcon_ok con \<Longrightarrow> fb_keeps con con"
  by (simp add: fb_keeps_def)

lemma fb_keeps_trans: "fb_keeps a b \<Longrightarrow> fb_keeps b c \<Longrightarrow> fb_keeps a c"
  by (simp add: fb_keeps_def)

lemma fb_keeps_cursor_x: "fbcon_ok con \<Longrightarrow> 0 \<le> i \<Longrightarrow> i \<le> cols con \<Longrightarrow> fb_keeps con (con\<lparr>cursor_x := i\<rparr>)"
  by (simp add: fb_keeps_def fbcon_ok_def)

lemma newline_keeps:
  assumes "fbcon_ok con"
  shows "\<exists>con'. efi_fb_newline con = Inr con' \<and> fb_keeps con con' \<and> cursor_x con' = cursor_x con"
proof (cases "cursor_y con + 1 < rows con")
  case True
  with assms show ?thesis by (simp add: efi_fb_newline_def fb_keeps_def fbcon_ok_def)
next
  case False
  with assms have "fb_geometry con" "\<forall>c \<in> set (buffer con). c < 0x80" "cursor_y con = rows con - 1"
    by (auto simp: fbcon_ok_def)
  from newline_scrolls [OF this] obtain b m where "efi_fb_newline con = Inr (con\<lparr>buffer := b, fb_mem := m\<rparr>)"
    "length b = length (buffer con)" "\<forall>c \<in> set b. c < 0x80" "screen_mirrors (con\<lparr>buffer := b, fb_mem := m\<rparr>)"
    by blast
  with assms show ?thesis by (simp add: fb_keeps_def fbcon_ok_def fb_geometry_buffer)
qed

lemma write_buff_ok:
  assumes "fb_geometry con" and "x < nat (cols con)" and "y < nat (rows con)" and "c < 0x80"
  shows "\<exists>m. efi_fb_write_buff (int x) (int y) c con =
      Inr (con\<lparr>buffer := (buffer con)[y * nat (cols con) + x := c], fb_mem := m\<rparr>) \<and>
    cell_shows con m x y 0xffffffff 0 c \<and> only_rows con (8 * x) (16 * y) 8 16 (fb_mem con) m"
proof -
  let ?con = "con\<lparr>buffer := (buffer con)[y * nat (cols con) + x := c]\<rparr>"
  have c: "0 < cols con" "buffer_at con \<noteq> 0" using assms(1) by (simp_all add: fb_geometry_def)
  have "buf_write (int y * cols con + int x) c con = Inr ?con"
    unfolding buf_write_def int_cell_index [OF c(1)] nat_int
    using cell_index [OF assms(1-3)] c(2) by (simp del: of_nat_add of_nat_mult)
  moreover have "fb_geometry ?con" using assms(1) by (simp add: fb_geometry_buffer)
  from fb_draw_char_ok [OF this, of x y c "0xffffffff" 0] assms
  obtain m where "fb_draw_char (int x) (int y) c 0xffffffff 0 ?con = Inr (?con\<lparr>fb_mem := m\<rparr>)"
    "cell_shows con m x y 0xffffffff 0 c" "only_rows con (8 * x) (16 * y) 8 16 (fb_mem con) m"
    by (auto simp: only_rows_def pixel_off_def)
  ultimately show ?thesis by (intro exI [of _ m]) (simp add: efi_fb_write_buff_def)
qed

lemma write_buff_keeps:
  assumes "fbcon_ok con" and "x < nat (cols con)" and "y < nat (rows con)" and "c < 0x80"
  shows "\<exists>con'. efi_fb_write_buff (int x) (int y) c con = Inr con' \<and> fb_keeps con con' \<and>
    cursor_x con' = cursor_x con \<and> cursor_y con' = cursor_y con"
proof -
  let ?i = "y * nat (cols con) + x"
  have g: "fb_geometry con" and a: "\<forall>c \<in> set (buffer con). c < 0x80" using assms(1) by (simp_all add: fbcon_ok_def)
  from write_buff_ok [OF g assms(2-4)] obtain m where
    w: "efi_fb_write_buff (int x) (int y) c con = Inr (con\<lparr>buffer := (buffer con)[?i := c], fb_mem := m\<rparr>)"
    and sh: "cell_shows con m x y 0xffffffff 0 c" and o: "only_rows con (8 * x) (16 * y) 8 16 (fb_mem con) m" by blast
  let ?con = "con\<lparr>buffer := (buffer con)[?i := c], fb_mem := m\<rparr>"
  have "cell_shows con m x' y' 0xffffffff 0 ((buffer con)[?i := c] ! (y' * nat (cols con) + x'))"
    if "screen_mirrors con" and "x' < nat (cols con)" and "y' < nat (rows con)" for x' y'
  proof (cases "(x, y) = (x', y')")
    case True
    then show ?thesis using sh cell_index [OF g assms(2,3)] by simp
  next
    case False
    then have "?i \<noteq> y' * nat (cols con) + x'" using cell_index_inj [OF assms(2) that(2), of y y'] by blast
    with False only_rows_other_cell [OF g assms(2) that(2) _ o] that show ?thesis
      by (simp add: screen_mirrors_def cell_def)
  qed
  then have "screen_mirrors con \<longrightarrow> screen_mirrors ?con" by (simp add: screen_mirrors_def cell_def)
  moreover have "\<forall>d \<in> set ((buffer con)[?i := c]). d < 0x80"
    using a assms(4) set_update_subset_insert [of "buffer con" ?i c] by blast
  ultimately show ?thesis using w assms(1) by (simp add: fb_keeps_def fbcon_ok_def fb_geometry_buffer)
qed

lemma putchar_keeps:
  assumes "fbcon_ok con" and "c < 0x80"
  shows "\<exists>con'. efi_fb_console_putchar c con = Inr con' \<and> fb_keeps con con'"
proof -
  have "0 < cols con" using assms(1) by (simp add: fbcon_ok_def fb_geometry_def)
  have "\<exists>con1. efi_fb_cursor_sanity con = Inr con1 \<and> fb_keeps con con1 \<and> cursor_x con1 < cols con"
  proof (cases "cursor_x con \<ge> cols con")
    case True
    have k: "fb_keeps con (con\<lparr>cursor_x := 0\<rparr>)" using assms(1) \<open>0 < cols con\<close> by (simp add: fb_keeps_cursor_x)
    then have "fbcon_ok (con\<lparr>cursor_x := 0\<rparr>)" by (simp add: fb_keeps_def)
    from newline_keeps [OF this] k True \<open>0 < cols con\<close> show ?thesis
      by (auto simp: efi_fb_cursor_sanity_def intro: fb_keeps_trans)
  next
    case False
    with assms(1) show ?thesis by (simp add: efi_fb_cursor_sanity_def fb_keeps_refl)
  qed
  then obtain con1 where s: "efi_fb_cursor_sanity con = Inr con1" and k1: "fb_keeps con con1"
    and x: "cursor_x con1 < cols con" by blast
  have ok1: "fbcon_ok con1" and c1: "cols con1 = cols con" using k1 by (simp_all add: fb_keeps_def)
  define cx cy where "cx = nat (cursor_x con1)" and "cy = nat (cursor_y con1)"
  have xy: "cursor_x con1 = int cx" "cursor_y con1 = int cy" "cx < nat (cols con1)" "cy < nat (rows con1)"
    using ok1 x c1 by (simp_all add: cx_def cy_def fbcon_ok_def)
  consider (nl) "c = 10" | (cr) "c = 13" | (ch) "c \<noteq> 10" "c \<noteq> 13" by blast
  then show ?thesis
  proof cases
    case nl
    from write_buff_keeps [OF ok1 xy(3,4), of 0] obtain con2 where
      w: "efi_fb_write_buff (int cx) (int cy) 0 con1 = Inr con2" and k2: "fb_keeps con1 con2" by auto
    have k3: "fb_keeps con1 (con2\<lparr>cursor_x := 0\<rparr>)"
      using k2 fb_keeps_cursor_x [of con2 0] fb_keeps_trans c1 \<open>0 < cols con\<close> by (auto simp: fb_keeps_def)
    then have "fbcon_ok (con2\<lparr>cursor_x := 0\<rparr>)" by (simp add: fb_keeps_def)
    from newline_keeps [OF this] obtain con4 where "efi_fb_newline (con2\<lparr>cursor_x := 0\<rparr>) = Inr con4"
      "fb_keeps (con2\<lparr>cursor_x := 0\<rparr>) con4" by blast
    with s w k1 k3 xy nl show ?thesis
      by (auto simp: efi_fb_console_putchar_def intro: fb_keeps_trans)
  next
    case cr
    have "fb_keeps con1 (con1\<lparr>cursor_x := 0\<rparr>)" using ok1 c1 \<open>0 < cols con\<close> by (simp add: fb_keeps_cursor_x)
    with s k1 cr show ?thesis by (auto simp: efi_fb_console_putchar_def intro: fb_keeps_trans)
  next
    case ch
    let ?con = "con1\<lparr>cursor_x := cursor_x con1 + 1\<rparr>"
    have k: "fb_keeps con1 ?con" using ok1 xy by (intro fb_keeps_cursor_x) simp_all
    then have "fbcon_ok ?con" by (simp add: fb_keeps_def)
    from write_buff_keeps [OF this, of cx cy c] xy assms(2) obtain con2 where
      "efi_fb_write_buff (int cx) (int cy) c ?con = Inr con2" "fb_keeps ?con con2" by auto
    with s k1 k xy ch show ?thesis
      by (auto simp: efi_fb_console_putchar_def intro: fb_keeps_trans)
  qed
qed

text \<open>
  The interface the printing code relies on: a device takes one character at a time, and from a good state
  it takes every accepted character and is in a good state again.
\<close>

locale character_device =
  fixes put :: "u8 \<Rightarrow> 's \<Rightarrow> 's res"
    and ok :: "'s \<Rightarrow> bool"
    and accepts :: "u8 \<Rightarrow> bool"
    and keeps :: "'s \<Rightarrow> 's \<Rightarrow> bool"
  assumes put_ok: "ok s \<Longrightarrow> accepts c \<Longrightarrow> \<exists>s'. put c s = Inr s' \<and> ok s' \<and> keeps s s'"
    and keeps_refl: "ok s \<Longrightarrow> keeps s s"
    and keeps_trans: "keeps s s' \<Longrightarrow> keeps s' s'' \<Longrightarrow> keeps s s''"
begin

lemma puts_ok:
  assumes "ok s" and "\<forall>c \<in> set cs. accepts c"
  shows "\<exists>s'. for_each put cs s = Inr s' \<and> ok s' \<and> keeps s s'"
  using assms
proof (induction cs arbitrary: s)
  case Nil
  then show ?case by (simp add: keeps_refl)
next
  case (Cons c cs)
  then obtain s1 where s1: "put c s = Inr s1" "ok s1" "keeps s s1" using put_ok [of s c] by auto
  with Cons obtain s2 where "for_each put cs s1 = Inr s2" "ok s2" "keeps s1 s2" by fastforce
  with s1 show ?case by (auto intro: keeps_trans)
qed

end

interpretation fb: character_device efi_fb_console_putchar fbcon_ok "\<lambda>c. c < 0x80" fb_keeps
proof
  show "\<exists>s'. efi_fb_console_putchar c s = Inr s' \<and> fbcon_ok s' \<and> fb_keeps s s'" if "fbcon_ok s" "c < 0x80" for s c
    using putchar_keeps [OF that] by (auto simp: fb_keeps_def)
qed (auto intro: fb_keeps_refl fb_keeps_trans)

section \<open>Characters above 127\<close>

text \<open>A \<open>char\<close> is signed: from \<open>0x80\<close> on the offset into the glyphs is close to \<open>2 ^ 32\<close>.\<close>

lemma high_offset:
  assumes "0x80 \<le> (c :: u8)"
  shows "2 ^ 32 - 2048 \<le> unat (scast c * 16 :: u32)"
proof -
  define n where "n = 256 - unat c"
  have u: "unat c < 256" using unsigned_less [of c] by simp
  then have n: "0 < n" "n \<le> 128" "int (unat c) = 256 - int n"
    using assms by (auto simp: n_def word_le_nat_alt)
  have "c = - word_of_nat n"
  proof -
    have "c = word_of_int (int (unat c))" by simp
    also have "\<dots> = - word_of_nat n" unfolding n(3) by (simp add: word_of_int_eq_iff take_bit_eq_mod)
    finally show ?thesis .
  qed
  then have s: "sint c = - int n"
  proof -
    have "sint (word_of_int (- int n) :: u8) = signed_take_bit 7 (- int n)"
      by (subst signed_of_int) simp
    also have "\<dots> = - int n" using n by (intro signed_take_bit_int_eq_self) simp_all
    finally show ?thesis using \<open>c = _\<close> by simp
  qed
  have "scast c * 16 = (word_of_int (- int (16 * n)) :: u32)" by (simp add: scast_eq s)
  also have "\<dots> = word_of_int (2 ^ 32 - int (16 * n))" by (simp add: word_of_int_eq_iff take_bit_eq_mod)
  finally have "uint (scast c * 16 :: u32) = (2 ^ 32 - int (16 * n)) mod 2 ^ 32"
    by (simp only: unsigned_of_int take_bit_eq_mod) simp
  also have "\<dots> = 2 ^ 32 - int (16 * n)" using n by (intro mod_pos_pos_trivial) simp_all
  finally have "2 ^ 32 - 2048 \<le> uint (scast c * 16 :: u32)" using n by simp
  then have "nat (2 ^ 32 - 2048) \<le> nat (uint (scast c * 16 :: u32))" by (rule nat_mono)
  then show ?thesis unfolding unat_eq_nat_uint by simp
qed

lemma fb_draw_char_high:
  assumes "0x80 \<le> c"
  shows "fb_draw_char x y c fg bg con = Inl OutOfBounds"
proof -
  have "\<not> 32 + unat (scast c * 16 :: u32) + 0 < length console_font"
    using high_offset [OF assms] by (simp add: length_console_font)
  moreover have "[0..<16] = 0 # [1..<16]" by (subst upt_conv_Cons) simp_all
  ultimately show ?thesis
    by (simp add: fb_draw_char_def psf_font_of_console_font Let_def cong: if_cong del: upt_rec_numeral)
qed

section \<open>The log\<close>

definition klogged :: "u8 list \<Rightarrow> klog \<Rightarrow> bool" where
  "klogged xs k \<longleftrightarrow> length (klog_buffer k) = KLOG_SIZE \<and> klog_count k = of_nat (length xs) \<and>
     (\<forall>i < length xs. length xs \<le> i + KLOG_SIZE \<longrightarrow> klog_buffer k ! (i mod KLOG_SIZE) = xs ! i)"

lemma klogged_init: "klogged [] klog_init"
  by (simp add: klogged_def klog_init_def)

text \<open>The 32-bit count wraps at a multiple of the size of the buffer, so the ring is not disturbed.\<close>

lemma klog_index: "unat (word_of_nat n :: u32) mod KLOG_SIZE = n mod KLOG_SIZE"
proof -
  have "unat (word_of_nat n :: u32) = n mod (2 ^ 15 * KLOG_SIZE)" by (simp add: unat_of_nat KLOG_SIZE_def)
  then show ?thesis by (simp only: mod_mod_cancel dvd_triv_right)
qed

lemma klogged_putchar:
  assumes "klogged xs k"
  shows "klogged (xs @ [c]) (klog_putchar c k)"
proof -
  let ?n = "length xs"
  have P: "0 < KLOG_SIZE" by (simp add: KLOG_SIZE_def)
  have "(klog_buffer k)[?n mod KLOG_SIZE := c] ! (i mod KLOG_SIZE) = (xs @ [c]) ! i"
    if "i < Suc ?n" "Suc ?n \<le> i + KLOG_SIZE" for i
  proof (cases "i = ?n")
    case True
    then show ?thesis using assms P by (simp add: klogged_def)
  next
    case False
    with that have i: "i < ?n" by simp
    have "i mod KLOG_SIZE \<noteq> ?n mod KLOG_SIZE"
    proof
      assume "i mod KLOG_SIZE = ?n mod KLOG_SIZE"
      then have "KLOG_SIZE dvd ?n - i" using i by (metis mod_eq_dvd_iff_nat less_imp_le)
      then show False using i that by (auto dest!: dvd_imp_le)
    qed
    with i that assms show ?thesis by (simp add: klogged_def nth_append)
  qed
  then show ?thesis
    using assms by (simp add: klogged_def klog_putchar_def klog_index)
qed

lemma klogged_fold: "klogged xs k \<Longrightarrow> klogged (xs @ ys) (fold klog_putchar ys k)"
proof (induction ys arbitrary: xs k)
  case (Cons y ys)
  from Cons.IH [OF klogged_putchar [OF Cons.prems]] show ?case by simp
qed simp

section \<open>The registered consoles\<close>

lemma call_putchar_links: "call_putchar a c s = Inr s' \<Longrightarrow> klinks (con_k s') = klinks (con_k s)"
  by (auto simp: call_putchar_def bind_res_eq_Inr split: putchar_fn.splits)

lemma putchar_body_links:
  "klinks (con_k (fst (fst (putchar_body c n st)))) = klinks (con_k (fst st))"
  by (auto simp: putchar_body_def dest: call_putchar_links split: knode.splits sum.splits)

lemma putchar_body_node:
  "putchar_body c (ConsoleNode a) (s, r) =
     (case call_putchar a c s of Inl e \<Rightarrow> ((s, Some e), True) | Inr s' \<Rightarrow> ((s', r), False))"
  by (simp add: putchar_body_def split: sum.split)

lemma iterate_putchar_body:
  "for_each (\<lambda>a. call_putchar a c) as s =
     (case iterate (putchar_body c) (map ConsoleNode as) (s, None) of
        (s', None) \<Rightarrow> Inr s' | (_, Some e) \<Rightarrow> Inl e)"
  by (induction as arbitrary: s) (simp_all add: putchar_body_node bind_res_def split: sum.splits)

lemma console_putchar_all:
  assumes "ring (klinks (con_k s)) ConsoleList (map ConsoleNode as)"
  shows "console_putchar c s = for_each (\<lambda>a. call_putchar a c) as s"
proof -
  let ?it = "iterate (putchar_body c) (map ConsoleNode as) (s, None)"
  have "list_for_each (\<lambda>st. klinks (con_k (fst st))) ConsoleList (putchar_body c)
      (lh_next (klinks (con_k s) ConsoleList)) (s, None) = Some ?it"
    using list_for_each_ring [where hp = "\<lambda>st. klinks (con_k (fst st))" and s = "(s, None)"
        and body = "putchar_body c" and head = ConsoleList and xs = "map ConsoleNode as"] assms
    by (simp add: putchar_body_links)
  then show ?thesis by (simp add: console_putchar_def iterate_putchar_body)
qed

text \<open>The consoles together are such a device again, whichever of them are registered.\<close>

definition consoles_ok :: "u64 list \<Rightarrow> console_state \<Rightarrow> bool" where
  "consoles_ok as s \<longleftrightarrow> ring (klinks (con_k s)) ConsoleList (map ConsoleNode as) \<and> fbcon_ok (console_data s)"

lemma call_putchar_keeps:
  assumes "fbcon_ok (console_data s)" and "c < 0x80"
  shows "\<exists>s'. call_putchar a c s = Inr s' \<and> con_k s' = con_k s \<and> fb_keeps (console_data s) (console_data s')"
  using putchar_keeps [OF assms] fb_keeps_refl [OF assms(1)]
  by (cases "con_putchar (consoles s a)") (auto simp: call_putchar_def)

lemma call_all_keeps:
  assumes "fbcon_ok (console_data s)" and "c < 0x80"
  shows "\<exists>s'. for_each (\<lambda>a. call_putchar a c) as s = Inr s' \<and> con_k s' = con_k s \<and> fb_keeps (console_data s) (console_data s')"
  using assms(1)
proof (induction as arbitrary: s)
  case Nil
  then show ?case by (simp add: fb_keeps_refl)
next
  case (Cons a as)
  from call_putchar_keeps [OF Cons.prems assms(2), of a] obtain s1 where s1: "call_putchar a c s = Inr s1"
    "con_k s1 = con_k s" "fb_keeps (console_data s) (console_data s1)" by blast
  then have "fbcon_ok (console_data s1)" by (simp add: fb_keeps_def)
  from Cons.IH [OF this] s1 show ?case by (auto intro: fb_keeps_trans)
qed

interpretation all_consoles: character_device console_putchar "consoles_ok as" "\<lambda>c. c < 0x80"
  "\<lambda>s s'. fb_keeps (console_data s) (console_data s')" for as
proof
  show "\<exists>s'. console_putchar c s = Inr s' \<and> consoles_ok as s' \<and> fb_keeps (console_data s) (console_data s')"
    if "consoles_ok as s" "c < 0x80" for s c
    using call_all_keeps [of s c as] console_putchar_all [of s as c] that by (auto simp: consoles_ok_def fb_keeps_def)
qed (auto simp: consoles_ok_def intro: fb_keeps_refl fb_keeps_trans)

section \<open>Loading\<close>

text \<open>
  With a framebuffer of 32-bit pixels that holds at least one character, cells from \<open>kmalloc\<close> that happen
  to be 7-bit characters, and a mapping, \<open>efi_fb_console_load\<close> registers a console in a state
  from which printing is safe.
\<close>

lemma load_establishes:
  assumes "8 \<le> fbd_width fbd" and "16 \<le> fbd_height fbd"
    and "4 * unat (fbd_width fbd) \<le> unat (fbd_pitch fbd)"
    and "unat (fbd_height fbd) * unat (fbd_pitch fbd) < 2 ^ 32"
    and "n = word_of_nat ((unat (fbd_height fbd) div 16) * (unat (fbd_width fbd) div 8))"
    and "(unat (fbd_height fbd) div 16) * (unat (fbd_width fbd) div 8) < 2 ^ 31"
    and "k_kmalloc E n (con_k s) = Inr (b, k1)" and "b \<noteq> 0"
    and "\<forall>c \<in> set (block (kram k1) b (unat n)). c < 0x80"
    and "k_ioremap E (fbd_phys_addr fbd) (ucast (fbd_height fbd * fbd_pitch fbd)) 0 k1 = Inr (a, k2)"
    and "ring (klinks k2) ConsoleList (map ConsoleNode as)" and "adr \<notin> set as"
  shows "\<exists>s'. efi_fb_console_load E fbd fbm adr s = Inr (0, s') \<and> fbcon_ok (console_data s') \<and>
    ring (klinks (con_k s')) ConsoleList (map ConsoleNode (adr # as)) \<and> con_putchar (consoles s' adr) = EfiFbPutchar"
proof -
  define r w where "r = unat (fbd_height fbd) div 16" and "w = unat (fbd_width fbd) div 8"
  have ur: "uint (fbd_height fbd div 16) = int r" "uint (fbd_width fbd div 8) = int w"
    by (simp_all add: r_def w_def uint_div zdiv_int)
  have sz: "scast (word_of_int (int r * int w) :: u32) = n"
  proof -
    have "word_of_int (int r * int w) = (word_of_nat (r * w) :: u32)" by simp
    then have "sint (word_of_int (int r * int w) :: u32) = int (r * w)"
      using sint_word_of_nat [where 'a = 32, of "r * w"] assms(6) by (simp only:) (simp add: r_def w_def)
    then show ?thesis using assms(5) by (simp add: scast_eq r_def w_def)
  qed
  have sz2: "scast (fbd_height fbd div 16 * (fbd_width fbd div 8)) = n"
    using sz unfolding ur [symmetric] by simp
  have us: "unat n = r * w"
    using assms(6) unfolding assms(5) unat_of_nat r_def w_def by simp
  have mapped: "unat (fbd_height fbd * fbd_pitch fbd) = unat (fbd_height fbd) * unat (fbd_pitch fbd)"
    using assms(4) by (intro unat_mult_no_overflow) simp
  define d where "d = \<lparr>cursor_x = 0, cursor_y = 0, buffer_at = b, buffer = block (kram k1) b (unat n), rows = int r, cols = int w,
     fb_address = a, fb_mem = fbm, fb_size = unat (fbd_height fbd * fbd_pitch fbd), fb_pitch = fbd_pitch fbd\<rparr>"
  have i: "initialize E fbd fbm s = Inr ((), s\<lparr>con_k := k2, console_data := d\<rparr>)"
    using assms(7,8,10) by (simp add: initialize_def psf_font_of_console_font Let_def ur sz2 d_def cong: if_cong)
  have "0 < r" "0 < w" using assms(1,2) by (simp_all add: r_def w_def word_le_nat_alt div_greater_zero_iff)
  moreover have "32 * w \<le> unat (fbd_pitch fbd)" using assms(3) by (simp add: w_def)
  moreover have "16 * r * unat (fbd_pitch fbd) \<le> unat (fbd_height fbd) * unat (fbd_pitch fbd)"
    by (intro mult_le_mono1) (simp add: r_def)
  ultimately have "fbcon_ok d"
    using assms(4,8,9) by (simp add: fbcon_ok_def fb_geometry_def d_def mapped us block_def)
  then show ?thesis
    using i assms(11,12)
    by (simp add: efi_fb_console_load_def register_console_def upd_klinks_def efi_fb_console_def)
       (intro ring_list_add, auto)
qed

section \<open>Properties\<close>

definition ex_fbcon :: fbcon where
  "ex_fbcon = \<lparr>cursor_x = 0, cursor_y = 1, buffer_at = 4096, buffer = [65, 66, 67, 68, 69, 70], rows = 2, cols = 3,
     fb_address = 8192, fb_mem = (\<lambda>_. 0), fb_size = 4096, fb_pitch = 128\<rparr>"

lemma ex_fbcon_ok: "fbcon_ok ex_fbcon"
  by (simp add: fbcon_ok_def fb_geometry_def ex_fbcon_def)

definition ex_consoles :: console_state where
  "ex_consoles = register_console 0x3000
     \<lparr>con_k = blank_kernel, consoles = (\<lambda>_. efi_fb_console), console_data = ex_fbcon\<rparr>"

lemma ex_consoles_ok: "consoles_ok [0x3000] ex_consoles"
  using ring_list_add [OF blank_kernel_ring, of "ConsoleNode 0x3000" ConsoleList] ex_fbcon_ok
  by (simp add: ex_consoles_def consoles_ok_def register_console_def upd_klinks_def)

text \<open>
  C23: printing a text of 7-bit characters never faults, and every intermediate access is inside of the
  cells and of the framebuffer: whichever consoles are registered, from a state whose cursor, cells and
  framebuffer fit the geometry, \<open>console_putchar\<close> on each character in turn ends in such a state again,
  with the same consoles and the same geometry, and a screen that agreed with the cells still agrees with them.
\<close>

theorem fb_console_prints:
  assumes "consoles_ok as s" and "\<forall>c \<in> set cs. c < 0x80"
  shows "\<exists>s'. for_each console_putchar cs s = Inr s' \<and> consoles_ok as s' \<and>
    rows (console_data s') = rows (console_data s) \<and> cols (console_data s') = cols (console_data s) \<and>
    fb_pitch (console_data s') = fb_pitch (console_data s) \<and>
    (screen_mirrors (console_data s) \<longrightarrow> screen_mirrors (console_data s'))"
  using all_consoles.puts_ok [OF assms] by (auto simp: fb_keeps_def)

theorem fb_console_prints_witness:
  "\<exists>s'. for_each console_putchar (map (\<lambda>c. of_char c) ''a\<newline>line'') ex_consoles = Inr s' \<and> consoles_ok [0x3000] s' \<and>
    rows (console_data s') = 2 \<and> cols (console_data s') = 3"
proof -
  have "\<forall>c \<in> set (map (\<lambda>c. of_char c) ''a\<newline>line''). c < (0x80 :: u8)" by simp
  from fb_console_prints [OF ex_consoles_ok this] show ?thesis
    by (auto simp: ex_consoles_def register_console_def ex_fbcon_def)
qed

text \<open>
  C24: an ordinary character goes to the cell under the cursor and nowhere else: the cell holds it, the
  cursor moves one column on, the pixels of the cell are the glyph's, white on black, and the pixels of
  every other cell are what they were.
\<close>

theorem putchar_draws:
  assumes "fbcon_ok con" and "c < 0x80" and "c \<noteq> 10" and "c \<noteq> 13" and "cursor_x con < cols con"
  shows "\<exists>m. efi_fb_console_putchar c con = Inr (con\<lparr>cursor_x := cursor_x con + 1,
      buffer := (buffer con)[nat (cursor_y con) * nat (cols con) + nat (cursor_x con) := c], fb_mem := m\<rparr>) \<and>
    cell_shows con m (nat (cursor_x con)) (nat (cursor_y con)) 0xffffffff 0 c \<and>
    (\<forall>x y d fg bg. x < nat (cols con) \<and> (nat (cursor_x con), nat (cursor_y con)) \<noteq> (x, y) \<longrightarrow>
       cell_shows con (fb_mem con) x y fg bg d \<longrightarrow> cell_shows con m x y fg bg d)"
proof -
  define cx cy where "cx = nat (cursor_x con)" and "cy = nat (cursor_y con)"
  have g: "fb_geometry con" and xy: "cursor_x con = int cx" "cursor_y con = int cy" "cx < nat (cols con)" "cy < nat (rows con)"
    using assms(1,5) by (simp_all add: cx_def cy_def fbcon_ok_def)
  let ?con = "con\<lparr>cursor_x := int cx + 1\<rparr>"
  from write_buff_ok [of ?con cx cy c] g xy assms(2) obtain m where
    w: "efi_fb_write_buff (int cx) (int cy) c ?con =
      Inr (?con\<lparr>buffer := (buffer con)[cy * nat (cols con) + cx := c], fb_mem := m\<rparr>)"
    and sh: "cell_shows con m cx cy 0xffffffff 0 c" and o: "only_rows con (8 * cx) (16 * cy) 8 16 (fb_mem con) m"
    by (auto simp: only_rows_def)
  have "efi_fb_console_putchar c con =
      Inr (con\<lparr>cursor_x := int cx + 1, buffer := (buffer con)[cy * nat (cols con) + cx := c], fb_mem := m\<rparr>)"
    using w assms(3-5) xy by (simp add: efi_fb_console_putchar_def efi_fb_cursor_sanity_def)
  then show ?thesis
    using sh only_rows_other_cell [OF g xy(3) _ _ o] unfolding xy nat_int by blast
qed

theorem putchar_draws_witness:
  "\<exists>m. efi_fb_console_putchar 97 ex_fbcon =
     Inr (ex_fbcon\<lparr>cursor_x := 1, buffer := [65, 66, 67, 97, 69, 70], fb_mem := m\<rparr>) \<and>
    cell_shows ex_fbcon m 0 1 0xffffffff 0 97"
  using putchar_draws [OF ex_fbcon_ok, of 97] by (auto simp: ex_fbcon_def)

text \<open>
  At the bottom of the screen a newline moves every row up by one, except that the \<open>cols\<close> cells
  from cell \<open>rows - 1\<close> on are zeroed (\<open>memset\<close> is given \<open>buffer + (rows - 1)\<close>, not the address of the
  last row) and the last row keeps its old characters; the screen shows the result.
\<close>

theorem newline_at_bottom:
  assumes "fb_geometry con" and "\<forall>c \<in> set (buffer con). c < 0x80" and "cursor_y con = rows con - 1"
  shows "\<exists>con'. efi_fb_newline con = Inr con' \<and> cursor_y con' = cursor_y con \<and> screen_mirrors con' \<and>
    (\<forall>x y. x < nat (cols con) \<longrightarrow> y < nat (rows con) \<longrightarrow> cell con' x y =
      (if nat (rows con) - 1 \<le> y * nat (cols con) + x \<and> y * nat (cols con) + x < nat (rows con) - 1 + nat (cols con)
       then 0 else if y + 1 < nat (rows con) then cell con x (y + 1) else cell con x y))"
proof -
  define r c where "r = nat (rows con)" and "c = nat (cols con)"
  from newline_scrolls [OF assms] obtain b m where n: "efi_fb_newline con = Inr (con\<lparr>buffer := b, fb_mem := m\<rparr>)"
    and l: "length b = length (buffer con)" and b: "\<forall>j < length b. b ! j = scrolled r c (buffer con) j"
    and mir: "screen_mirrors (con\<lparr>buffer := b, fb_mem := m\<rparr>)" by (auto simp: r_def c_def)
  have "b ! (y * c + x) = (if r - 1 \<le> y * c + x \<and> y * c + x < r - 1 + c then 0
      else if y + 1 < r then buffer con ! ((y + 1) * c + x) else buffer con ! (y * c + x))"
    if "x < c" "y < r" for x y
  proof -
    have i: "y * c + x < length b" using cell_index [OF assms(1)] that l by (simp add: r_def c_def)
    have "y * c + x < (r - 1) * c \<longleftrightarrow> y + 1 < r"
    proof
      assume "y * c + x < (r - 1) * c"
      then have "y * c < (r - 1) * c" by linarith
      then show "y + 1 < r" by auto
    next
      assume "y + 1 < r"
      then have "Suc y * c \<le> (r - 1) * c" by (intro mult_le_mono1) simp
      then show "y * c + x < (r - 1) * c" using that(1) by simp
    qed
    then show ?thesis using b i by (simp add: scrolled_def algebra_simps)
  qed
  with n mir show ?thesis
    by (intro exI [of _ "con\<lparr>buffer := b, fb_mem := m\<rparr>"]) (simp add: cell_def r_def c_def)
qed

theorem newline_at_bottom_witness:
  "\<exists>con'. efi_fb_newline ex_fbcon = Inr con' \<and> cell con' 0 0 = 68 \<and> cell con' 1 0 = 0 \<and> cell con' 0 1 = 0 \<and>
     cell con' 1 1 = 69 \<and> cell con' 2 1 = 70"
proof -
  have "fb_geometry ex_fbcon" "\<forall>c \<in> set (buffer ex_fbcon). c < 0x80" "cursor_y ex_fbcon = rows ex_fbcon - 1"
    using ex_fbcon_ok by (simp_all add: fbcon_ok_def ex_fbcon_def)
  from newline_at_bottom [OF this] obtain con' where n: "efi_fb_newline ex_fbcon = Inr con'"
    and c: "\<And>x y. x < 3 \<Longrightarrow> y < 2 \<Longrightarrow> cell con' x y = (if 1 \<le> y * 3 + x \<and> y * 3 + x < 4
       then 0 else if y + 1 < 2 then cell ex_fbcon x (y + 1) else cell ex_fbcon x y)"
    by (auto simp: ex_fbcon_def)
  show ?thesis using n c [of 0 0] c [of 1 0] c [of 0 1] c [of 1 1] c [of 2 1]
    by (simp add: cell_def ex_fbcon_def)
qed

text \<open>
  The log keeps the last 128 KiB: after any number of characters, also when the 32-bit count has
  wrapped around, character \<open>i\<close> of the text is at index \<open>i\<close> modulo the size of the buffer if at most
  that many characters followed it.
\<close>

theorem klog_keeps_last:
  assumes "i < length cs" and "length cs \<le> i + KLOG_SIZE"
  shows "klog_buffer (fold klog_putchar cs klog_init) ! (i mod KLOG_SIZE) = cs ! i"
  using klogged_fold [OF klogged_init, of cs] assms by (simp add: klogged_def)

theorem klog_keeps_last_witness:
  "klog_buffer (fold klog_putchar [107, 101, 114] klog_init) ! 2 = 114"
  using klog_keeps_last [of 2 "[107, 101, 114]"] by (simp add: KLOG_SIZE_def)

text \<open>
  A character of 128 or more is never drawn: the signed \<open>char\<close> makes the offset of its glyph
  almost \<open>2 ^ 32\<close>, far outside of the font, whatever the console's state.
\<close>

theorem high_characters_overrun_font:
  assumes "0x80 \<le> c"
  shows "fb_draw_char x y c fg bg con = Inl OutOfBounds"
  using assms by (rule fb_draw_char_high)

theorem high_characters_overrun_font_witness:
  "fb_draw_char 0 0 0xe9 0xffffffff 0 ex_fbcon = Inl OutOfBounds"
  by (rule high_characters_overrun_font) simp

end
