(* ===== verification/Platform.thy ===== *)
theory Platform
  imports Console
begin

text \<open>
  The platform: the memory map of the boot loader (\<^verbatim>\<open>arch/x86_64/init_mem.c\<close>), the device table
  (\<^verbatim>\<open>kernel/device.c\<close>), the ACPI tables (\<^verbatim>\<open>arch/x86_64/acpi\<close>), the HPET and the local APIC
  (\<^verbatim>\<open>arch/x86_64/hpet.c\<close>, \<^verbatim>\<open>apic.c\<close>), and the order in which \<^verbatim>\<open>arch/x86_64/setup.c\<close> and
  \<^verbatim>\<open>kernel/init.c\<close> bring the kernel up.

  Tables are read from the byte memory at the offsets of their packed structures. What the hardware
  answers is a record of readings: the model specific register, the successive values of the HPET
  counter and of port \<open>0x42\<close>, and the count of the APIC timer after each of them; what is sent to the ports and
  to the registers of the APIC is kept in order.
\<close>

section \<open>init_mem.c\<close>

definition LIMINE_MEMMAP_USABLE :: u64 where "LIMINE_MEMMAP_USABLE = 0"

record limine_memmap_entry =
  mm_base :: u64
  mm_length :: u64
  mm_type :: u64

fun initialize_memory_from :: "limine_memmap_entry list \<Rightarrow> mem_zone_info list \<Rightarrow> mem_zone_info list res" where
  "initialize_memory_from [] zs = Inr zs"
| "initialize_memory_from (e # es) zs =
     (if mm_type e \<noteq> 0 then initialize_memory_from es zs
      else if length zs < MAX_MEM_ZONES
      then initialize_memory_from es (zs @ [\<lparr>mzi_phys_base = mm_base e, mzi_length = mm_length e\<rparr>])
      else Inl OutOfBounds)"

definition initialize_memory :: "limine_memmap_entry list \<Rightarrow> mem_zone_info list res" where
  "initialize_memory es = initialize_memory_from es []"

section \<open>device.c\<close>

definition DEVICE_TYPE_PCI_CFG :: u32 where "DEVICE_TYPE_PCI_CFG = 0"
definition sizeof_device_table_element :: u32 where "sizeof_device_table_element = 64"

definition init_device_table :: "env \<Rightarrow> unit kop" where
  "init_device_table E =
     kbind (on_slab (\<lambda>sl. returned (create_obj_mem_cache (get_page_vaddr E) sizeof_device_table_element 1 ''device-table'' sl)))
       (\<lambda>c. kmod (\<lambda>s. s\<lparr>g_device_mem_cache := c\<rparr>))"

definition add_device_to_table :: "u64 \<Rightarrow> unit kop" where
  "add_device_to_table d = kmod (upd_klinks (list_add (DeviceNode d) DeviceTable))"

definition upd_device :: "u64 \<Rightarrow> (device_table_element \<Rightarrow> device_table_element) \<Rightarrow> kstate \<Rightarrow> kstate" where
  "upd_device p f s = s\<lparr>devices := (devices s)(p := f (devices s p))\<rparr>"

section \<open>mcfg.c\<close>

definition sizeof_sdt_header :: u64 where "sizeof_sdt_header = 36"
definition sizeof_acpi_mcfg :: u64 where "sizeof_acpi_mcfg = 44"
definition sizeof_acpi_mcfg_entry :: u64 where "sizeof_acpi_mcfg_entry = 16"

definition sdt_length :: "mem \<Rightarrow> u64 \<Rightarrow> u32" where
  "sdt_length m t = rd32 m (t + 4)"

text \<open>One round of the loop: the entry at \<open>p\<close> becomes a device.\<close>

definition mcfg_entry :: "env \<Rightarrow> u64 \<Rightarrow> unit kop" where
  "mcfg_entry E p =
     kbind (kget g_device_mem_cache) (\<lambda>c.
     kbind (k_cache_alloc E c) (\<lambda>d.
     kseq (kptr d)
     (kbind (kget kram) (\<lambda>m.
      kseq (kmod (upd_device d (\<lambda>v. v\<lparr>device_type := DEVICE_TYPE_PCI_CFG, cfg_address_base := rd64 m p,
                     cfg_bus_start := ucast (m (p + 10)), cfg_bus_end := ucast (m (p + 11)),
                     cfg_segment := ucast (rd16 m (p + 8))\<rparr>)))
        (add_device_to_table d)))))"

text \<open>\<open>curr_index\<close> is a 64-bit count that stays below \<open>length + 16\<close>, so it is kept as a natural number.\<close>

function mcfg_loop :: "env \<Rightarrow> nat \<Rightarrow> nat \<Rightarrow> u64 \<Rightarrow> unit kop" where
  "mcfg_loop E len curr_index curr_ptr =
     (if curr_index < len
      then kseq (mcfg_entry E curr_ptr) (mcfg_loop E len (curr_index + 16) (curr_ptr + sizeof_acpi_mcfg_entry))
      else kret ())"
  by pat_completeness auto
termination by (relation "measure (\<lambda>(E, len, i, p). len - i)") auto

definition parse_mcfg :: "env \<Rightarrow> u64 \<Rightarrow> unit kop" where
  "parse_mcfg E mcfg =
     kbind (kget (\<lambda>s. sdt_length (kram s) mcfg)) (\<lambda>len.
       if (ucast len - sizeof_acpi_mcfg) mod sizeof_acpi_mcfg_entry \<noteq> 0 then kret ()
       else mcfg_loop E (unat len) (unat sizeof_acpi_mcfg) (mcfg + sizeof_acpi_mcfg))"

section \<open>hpet.c and acpi/hpet.c\<close>

definition femto :: u64 where "femto = 1000000000000000"
definition sizeof_acpi_hpet :: u32 where "sizeof_acpi_hpet = 56"

record machine =
  msr_apic_base :: "u32 \<times> u32"            \<comment> \<open>\<open>eax\<close> and \<open>edx\<close> of \<open>rdmsr\<close>\<close>
  hpet_counter :: "nat \<Rightarrow> u64"           \<comment> \<open>successive readings\<close>
  pit_port :: "nat \<Rightarrow> u8"               \<comment> \<open>successive readings of port \<open>0x42\<close>\<close>
  port_60 :: u8                          \<comment> \<open>what port \<open>0x60\<close> answers\<close>
  apic_curr_count :: "nat \<Rightarrow> u32"       \<comment> \<open>the current count of the timer right after reading \<open>i\<close> of the HPET or of port \<open>0x42\<close>\<close>
  eax_at_pic :: u32                      \<comment> \<open>what is left in \<open>eax\<close> when \<open>__disable_pic\<close> starts\<close>

definition hpet_period :: "u64 \<Rightarrow> u64 kop" where
  "hpet_period regs = kseq (kptr regs) (kget (\<lambda>s. drop_bit 32 (rd64 (kram s) regs)))"

definition hpet_init :: "u64 \<Rightarrow> unit kop" where
  "hpet_init regs =
     kseq (kmod (\<lambda>s. s\<lparr>g_hpet_regs := regs\<rparr>))
     (kbind (hpet_period regs) (\<lambda>p.
      kseq (k_printf (''HPET femtos: %d'' @ newline) [VInt p])
       (if p = 0 then kfail DivByZero
        else k_printf (''HPET freque: %d'' @ newline) [VInt (femto div p)])))"

definition parse_hpet :: "u64 \<Rightarrow> unit kop" where
  "parse_hpet hpet =
     kbind (kget kram) (\<lambda>m.
       if sdt_length m hpet \<noteq> sizeof_acpi_hpet then kret ()
       else hpet_init (PA2VA (rd64 m (hpet + 44))))"

definition hpet_count_max :: "u64 \<Rightarrow> u32 \<Rightarrow> u64" where
  "hpet_count_max p millis = femto div p * ucast millis div 1000"

text \<open>The busy loop on the counter, given its successive readings.\<close>

partial_function (option) hpet_spin :: "(nat \<Rightarrow> u64) \<Rightarrow> u64 \<Rightarrow> nat \<Rightarrow> nat option" where
  "hpet_spin reads count_max i = (if reads i \<le> count_max then hpet_spin reads count_max (Suc i) else Some i)"

text \<open>The result is the last reading of the counter, which is when the wait is over.\<close>

definition hpet_wait_millis :: "machine \<Rightarrow> u32 \<Rightarrow> nat kop" where
  "hpet_wait_millis hw millis =
     kbind (kget g_hpet_regs) (\<lambda>regs.
     kbind (hpet_period regs) (\<lambda>p.
       if p = 0 then kfail DivByZero
       else
         kseq (kmod (set_kram (wr64 (regs + 0xf0) 0)))
         (kseq (kmod (set_kram (wr64 (regs + 16) 1)))
         (case hpet_spin (hpet_counter hw) (hpet_count_max p millis) 0 of
            None \<Rightarrow> kfail Halted
          | Some j \<Rightarrow> kseq (kmod (set_kram (wr64 (regs + 16) 0))) (kret j)))))"

section \<open>acpi.c\<close>

definition rsdp_signature :: "u8 list" where "rsdp_signature = map chr ''RSD PTR ''"

definition rsdp_candidates :: "u64 list" where
  "rsdp_candidates = map (\<lambda>i. 0xFFFF800000000000 + 16 * of_nat i) [0..<0x10000]"

definition find_rspd :: "mem \<Rightarrow> u64" where
  "find_rspd m = (case find (\<lambda>p. block m p 8 = rsdp_signature) rsdp_candidates of None \<Rightarrow> 0 | Some p \<Rightarrow> p)"

definition acpi_match :: "mem \<Rightarrow> u64 \<Rightarrow> string \<Rightarrow> bool" where
  "acpi_match m table signature \<longleftrightarrow> block m table 4 = map chr signature"

text \<open>Each table is looked up in the memory the tables before it have left.\<close>

definition parse_table :: "env \<Rightarrow> u64 \<Rightarrow> unit kop" where
  "parse_table E table =
     kseq (kbind (kget kram) (\<lambda>m. kwhen (acpi_match m table ''MCFG'') (parse_mcfg E table)))
       (kbind (kget kram) (\<lambda>m. kwhen (acpi_match m table ''HPET'') (parse_hpet table)))"

fun xsdt_loop :: "env \<Rightarrow> nat \<Rightarrow> u64 \<Rightarrow> unit kop" where
  "xsdt_loop E 0 p = kret ()"
| "xsdt_loop E (Suc n) p =
     kseq (kbind (kget (\<lambda>s. rd64 (kram s) p)) (\<lambda>a. parse_table E (PA2VA a))) (xsdt_loop E n (p + 8))"

definition parse_xsdt :: "env \<Rightarrow> unit kop" where
  "parse_xsdt E =
     kbind (kget g_acpi_xsdt) (\<lambda>x.
     kbind (kget (\<lambda>s. sdt_length (kram s) x)) (\<lambda>len.
       xsdt_loop E (unat (ucast ((ucast len - sizeof_sdt_header) div 8 :: u64) :: u32)) (x + sizeof_sdt_header)))"

definition acpi_init :: "env \<Rightarrow> u64 \<Rightarrow> int kop" where
  "acpi_init E g_acpi_rsdp_desc =
     kbind (kget (\<lambda>s. if g_acpi_rsdp_desc = 0 then find_rspd (kram s) else g_acpi_rsdp_desc)) (\<lambda>rsdp.
     kseq (kptr rsdp)
     (kseq (kmod (\<lambda>s. s\<lparr>g_acpi_xsdt := PA2VA (rd64 (kram s) (rsdp + 24))\<rparr>))
     (kseq (parse_xsdt E) (kret 0))))"

section \<open>madt.c\<close>

text \<open>
  The walk over the entries of the MADT, which \<^verbatim>\<open>acpi.c\<close> has commented out; \<open>None\<close> is a loop that does not
  end. The pointer \<open>g_acpi_madt\<close> it leaves behind is read by nobody.
\<close>

definition sizeof_acpi_madt :: u32 where "sizeof_acpi_madt = 44"

definition madt_entry_size :: "u8 \<Rightarrow> u32" where
  "madt_entry_size ty =
     (if ty = 0 then 8 else if ty = 1 then 12 else if ty = 2 then 10 else if ty = 3 then 10
      else if ty = 4 then 6 else if ty = 5 then 12 else 0)"

definition madt_entry :: "u64 \<Rightarrow> unit kop" where
  "madt_entry p =
     kbind (kget kram) (\<lambda>m.
       if m p = 1 then k_printf (''(1) IOAPIC FOUND'' @ newline) []
       else if m p = 2 then
         kseq (k_printf (''(2) IOAPIC SOURCE OVERRIDE'' @ newline) [])
         (kseq (k_printf (''  bus_source: 0x%p'' @ newline) [VInt (ucast (m (p + 2)))])
         (kseq (k_printf (''  irq_source: 0x%p'' @ newline) [VInt (ucast (m (p + 3)))])
         (kseq (k_printf (''  gsi:        0x%p'' @ newline) [VInt (ucast (rd32 m (p + 4)))])
           (k_printf (''  flags:      0x%p'' @ newline) [VInt (ucast (rd16 m (p + 8)))]))))
       else if m p = 3 then k_printf (''(3) NMI INTERRUPT SOURCE'' @ newline) []
       else if m p = 4 then k_printf (''(4) LAPIC NMI'' @ newline) []
       else if m p = 5 then k_printf (''(5) LAPIC ADDRESS OVERRIDE'' @ newline) []
       else kret ())"

partial_function (option) madt_loop :: "u32 \<Rightarrow> u32 \<Rightarrow> u64 \<Rightarrow> kstate \<Rightarrow> (unit \<times> kstate) res option" where
  "madt_loop len curr_index curr_ptr s =
     (if curr_index < len
      then (case madt_entry curr_ptr s of
              Inl e \<Rightarrow> Some (Inl e)
            | Inr (_, s') \<Rightarrow>
                madt_loop len (curr_index + madt_entry_size (kram s curr_ptr))
                  (curr_ptr + ucast (madt_entry_size (kram s curr_ptr))) s')
      else Some (Inr ((), s)))"

definition parse_madt :: "u64 \<Rightarrow> kstate \<Rightarrow> (unit \<times> kstate) res option" where
  "parse_madt madt s =
     (let len = sdt_length (kram s) madt
      in case kseq (k_printf (''MADT found'' @ newline) [])
              (kseq (k_printf (''Length:      %d'' @ newline) [VInt (ucast len)])
              (kseq (k_printf (''Local APIC:  0x%p'' @ newline) [VInt (ucast (rd32 (kram s) (madt + 36)))])
                (k_printf (''Flags:       0x%p'' @ newline) [VInt (ucast (rd32 (kram s) (madt + 40)))]))) s of
           Inl e \<Rightarrow> Some (Inl e)
         | Inr (_, s') \<Rightarrow> madt_loop len sizeof_acpi_madt (madt + ucast sizeof_acpi_madt) s')"

section \<open>apic.c\<close>

definition IA32_APIC_BASE_MSR_ENABLE :: u32 where "IA32_APIC_BASE_MSR_ENABLE = 0x800"
definition APIC_SPURIOUS_INT_VECTOR_REG :: u32 where "APIC_SPURIOUS_INT_VECTOR_REG = 0xF0"
definition APIC_LVT_TIMER_REG :: u32 where "APIC_LVT_TIMER_REG = 0x320"
definition APIC_LVT_INIT_COUNT_REG :: u32 where "APIC_LVT_INIT_COUNT_REG = 0x380"
definition APIC_DIVIDE_CONF_REG :: u32 where "APIC_DIVIDE_CONF_REG = 0x3E0"
definition APIC_TIMER_DIVIDE_BY_8 :: u32 where "APIC_TIMER_DIVIDE_BY_8 = 0x2"
definition APIC_TIMER_PERIODIC :: u32 where "APIC_TIMER_PERIODIC = 0x20000"

definition get_apic_base :: "machine \<Rightarrow> u64" where
  "get_apic_base hw = ucast (fst (msr_apic_base hw)) AND 0xfffff000"

text \<open>The two halves \<open>set_apic_base\<close> writes to the register.\<close>

definition set_apic_base :: "u64 \<Rightarrow> u32 \<times> u32" where
  "set_apic_base base = (ucast (base AND 0xfffff0000) OR IA32_APIC_BASE_MSR_ENABLE, 0)"

text \<open>The output instructions of \<^verbatim>\<open>ioports.h\<close>.\<close>

definition out8 :: "u32 \<Rightarrow> u8 \<Rightarrow> unit kop" where
  "out8 port data = kmod (\<lambda>s. s\<lparr>port_writes := port_writes s @ [(port, 1, ucast data)]\<rparr>)"

definition out16 :: "u32 \<Rightarrow> u16 \<Rightarrow> unit kop" where
  "out16 port data = kmod (\<lambda>s. s\<lparr>port_writes := port_writes s @ [(port, 2, ucast data)]\<rparr>)"

definition out32 :: "u32 \<Rightarrow> u32 \<Rightarrow> unit kop" where
  "out32 port data = kmod (\<lambda>s. s\<lparr>port_writes := port_writes s @ [(port, 4, data)]\<rparr>)"

text \<open>\<open>mov $0xff, %al\<close> sets the low byte, \<open>out %eax\<close> writes all four.\<close>

definition disable_pic :: "machine \<Rightarrow> unit kop" where
  "disable_pic hw =
     (let eax = (eax_at_pic hw AND NOT 0xff) OR 0xff in kseq (out32 0xa1 eax) (out32 0x21 eax))"

definition init_timer :: "unit kop" where
  "init_timer =
     kseq (apic_write32 APIC_DIVIDE_CONF_REG APIC_TIMER_DIVIDE_BY_8)
     (kseq (apic_write32 APIC_LVT_TIMER_REG (APIC_TIMER_PERIODIC OR 0x20))
       (apic_write32 APIC_LVT_INIT_COUNT_REG 0xffffffff))"

text \<open>The loop that reads both bytes of the counter until it is zero.\<close>

partial_function (option) pit_spin :: "(nat \<Rightarrow> u8) \<Rightarrow> nat \<Rightarrow> nat option" where
  "pit_spin reads i =
     (let pit = ucast (reads i) OR push_bit 8 (ucast (reads (Suc i))) :: u32
      in if pit = 0 then Some i else pit_spin reads (i + 2))"

text \<open>The end of both calibrations: the count of the timer is read after reading \<open>j\<close> of the other clock.\<close>

definition set_ticks :: "machine \<Rightarrow> nat \<Rightarrow> string \<Rightarrow> u32 kop" where
  "set_ticks hw j format =
     (let ticks = 0xffffffff - apic_curr_count hw j
      in kseq (k_printf format [VInt (ucast ticks)])
         (kseq (apic_write32 APIC_LVT_INIT_COUNT_REG ticks) (kret ticks)))"

definition pit_calibration :: "machine \<Rightarrow> u32 kop" where
  "pit_calibration hw =
     kseq (out8 0x43 0xB2)
     (kseq (out8 0x42 0x9b)
     (kbind (kret (port_60 hw)) (\<lambda>tmp.
      kseq (out8 0x42 0x2e)
     (kseq (apic_write32 APIC_LVT_INIT_COUNT_REG 0xffffffff)
     (kseq (k_printf (''Setting PIT calibration'' @ newline) [])
     (case pit_spin (pit_port hw) 0 of
        None \<Rightarrow> kfail Halted
      | Some i \<Rightarrow> set_ticks hw (Suc i) (''PIT ticks counter: %d'' @ newline)))))))"

definition hpet_calibration :: "machine \<Rightarrow> u32 kop" where
  "hpet_calibration hw =
     kseq (apic_write32 APIC_LVT_INIT_COUNT_REG 0xffffffff)
     (kbind (hpet_wait_millis hw 10) (\<lambda>j.
       set_ticks hw j (''HPET ticks counter: %d'' @ newline)))"

text \<open>
  The result: what is written to the base register, and \<open>ticks\<close>. The address the registers are used at is \<open>apic_regs\<close>.
\<close>

definition init_apic :: "machine \<Rightarrow> ((u32 \<times> u32) \<times> u32) kop" where
  "init_apic hw =
     kseq (kmod (\<lambda>s. s\<lparr>apic_regs := PA2VA (get_apic_base hw)\<rparr>))
     (kseq (apic_write32 APIC_SPURIOUS_INT_VECTOR_REG 0x1ff)
     (kseq (disable_pic hw)
     (kseq init_timer
     (kbind (kget g_hpet_regs) (\<lambda>h.
      kbind (if h = 0 then pit_calibration hw else hpet_calibration hw) (\<lambda>t.
        kret (set_apic_base (get_apic_base hw), t)))))))"

section \<open>setup.c and init.c\<close>

text \<open>The addresses of the objects the linker places: the descriptor tables, the stubs, the first task, its entry.\<close>

record image =
  gdt_at :: u64
  tss_at :: u64
  idt_at :: u64
  isr_stubs :: "nat \<Rightarrow> u64"
  task_init_at :: u64
  kinit_task_at :: u64

record arch_state =
  a_gdt :: gdt_state
  a_idt :: idt_state
  a_apic :: "(u32 \<times> u32) \<times> u32"

definition setup_arch :: "env \<Rightarrow> machine \<Rightarrow> image \<Rightarrow> u64 \<Rightarrow> gdt_state \<Rightarrow> arch_state kop" where
  "setup_arch E hw img rsdp g =
     kseq (\<lambda>s. bind_res (paging_init (get_page_vaddr E) (vm E) (ps s)) (\<lambda>p. Inr ((), s\<lparr>ps := p\<rparr>)))
     (kbind (setup_gdt (gdt_at img) (tss_at img) g) (\<lambda>g'.
      kbind (acpi_init E rsdp) (\<lambda>_.
      kbind (init_apic hw) (\<lambda>a.
        kret \<lparr>a_gdt = g', a_idt = setup_interrupts (idt_at img) (isr_stubs img), a_apic = a\<rparr>))))"

text \<open>\<^verbatim>\<open>start.h\<close> and \<^verbatim>\<open>init.h\<close>\<close>

record init_module =
  mod_addr :: u64
  mod_size :: u64

record lucix_startup_data =
  mem_info :: "mem_zone_info list"
  ramdisk :: init_module

text \<open>
  \<open>start_kernel\<close> up to the first switch of stacks, which \<open>sched_start\<close> asks for; the result holds the state of the
  processor, \<open>initramfs_info\<close> and the two tasks of that switch.
\<close>

definition start_kernel ::
    "env \<Rightarrow> machine \<Rightarrow> image \<Rightarrow> lucix_startup_data \<Rightarrow> u64 \<Rightarrow> gdt_state \<Rightarrow> int kop list \<Rightarrow>
     (arch_state \<times> init_module \<times> u64 \<times> u64) kop" where
  "start_kernel E hw img startup_data rsdp g initcalls =
     kseq (on_pa (\<lambda>a. bind_res (mem_init (mem_info startup_data) a) (\<lambda>a'. Inr ((), a'))))
     (kseq (on_slab (\<lambda>sl. bind_res (returned (obj_mem_cache_init (get_page_vaddr E) sl)) (\<lambda>sl'. Inr ((), sl'))))
     (kseq (init_device_table E)
     (kbind (setup_arch E hw img rsdp g) (\<lambda>ar.
      kseq (vfs_init E)
     (kseq (do_initcalls initcalls)
     (kseq (sched_init E)
     (kseq (sched_per_cpu_init E)
     (kbind (create_task E (task_init_at img) TASK_USER) (\<lambda>_.
      kseq (cpu_ktask_setup E (task_init_at img) (kinit_task_at img) 0)
     (kbind (sched_add_task (task_init_at img)) (\<lambda>_.
      kbind sched_start (\<lambda>(p, n). kret (ar, ramdisk startup_data, p, n)))))))))))))"

section \<open>The memory map\<close>

lemma initialize_memory_from_eq:
  "initialize_memory_from es zs =
     (let zs' = zs @ map (\<lambda>e. \<lparr>mzi_phys_base = mm_base e, mzi_length = mm_length e\<rparr>)
                        (filter (\<lambda>e. mm_type e = LIMINE_MEMMAP_USABLE) es)
      in if length zs' \<le> MAX_MEM_ZONES \<or> length zs' = length zs then Inr zs' else Inl OutOfBounds)"
  by (induction es arbitrary: zs) (auto simp: Let_def LIMINE_MEMMAP_USABLE_def)

section \<open>The search for the root pointer\<close>

lemma find_rspd_first:
  "find_rspd m = 0 \<or> (find_rspd m \<in> set rsdp_candidates \<and> block m (find_rspd m) 8 = rsdp_signature)"
  by (auto simp: find_rspd_def find_Some_iff split: option.split)

lemma find_rspd_None:
  assumes "\<forall>p \<in> set rsdp_candidates. block m p 8 \<noteq> rsdp_signature"
  shows "find_rspd m = 0"
  using assms by (auto simp: find_rspd_def find_Some_iff split: option.split)

section \<open>Waiting\<close>

lemma hpet_spin_stops:
  assumes "count_max < reads (i + n)"
  shows "\<exists>j. hpet_spin reads count_max i = Some j \<and> count_max < reads j \<and> (\<forall>k. i \<le> k \<and> k < j \<longrightarrow> reads k \<le> count_max)"
  using assms
proof (induction n arbitrary: i)
  case 0
  then have "\<not> reads i \<le> count_max" by simp
  then show ?case using 0 by (subst hpet_spin.simps) auto
next
  case (Suc n)
  show ?case
  proof (cases "reads i \<le> count_max")
    case True
    from Suc.IH [of "Suc i"] Suc.prems obtain j where j: "hpet_spin reads count_max (Suc i) = Some j"
      "count_max < reads j" and le: "\<forall>k. Suc i \<le> k \<and> k < j \<longrightarrow> reads k \<le> count_max" by auto
    have "reads k \<le> count_max" if "i \<le> k" "k < j" for k
      using that True le by (cases "k = i") auto
    with True j show ?thesis by (subst hpet_spin.simps) auto
  next
    case False
    then show ?thesis by (subst hpet_spin.simps) auto
  qed
qed

lemma hpet_count_max_nat:
  assumes "p \<noteq> 0"
  shows "unat (hpet_count_max p 10) = 1000000000000000 div unat p * 10 div 1000"
proof -
  have f: "unat (femto div p) = 1000000000000000 div unat p" by (simp add: unat_div femto_def)
  have "1000000000000000 div unat p \<le> 1000000000000000" by (rule div_le_dividend)
  then have "1000000000000000 div unat p * 10 \<le> 1000000000000000 * 10" by (rule mult_le_mono1)
  then have "1000000000000000 div unat p * 10 < 2 ^ 64" by (rule order_le_less_trans) simp
  then have "unat (femto div p) * unat (10 :: u64) < 2 ^ LENGTH(64)" unfolding f by simp
  then have "unat (femto div p * 10) = 1000000000000000 div unat p * 10"
    using f by (simp add: unat_mult_no_overflow)
  then show ?thesis by (simp add: hpet_count_max_def unat_div)
qed

section \<open>The walk over the MADT\<close>

lemma k_printf_frame: "k_printf f va s = Inr (x, s') \<Longrightarrow> kram s' = kram s"
  by (auto simp: k_printf_def bind_res_eq_Inr kram_def kpa_def)

lemma kseq_frame:
  assumes "\<And>s s' x. f s = Inr (x, s') \<Longrightarrow> kram s' = kram s" and "\<And>s s' x. g s = Inr (x, s') \<Longrightarrow> kram s' = kram s"
  shows "kseq f g s = Inr (x, s') \<Longrightarrow> kram s' = kram s"
  using assms by (metis (no_types, lifting) kbind_Inr_iff kseq_def)

lemma madt_entry_frame: "madt_entry p s = Inr (x, s') \<Longrightarrow> kram s' = kram s"
  unfolding madt_entry_def
  by (auto simp: kbind_Inr_iff split: if_splits intro: k_printf_frame elim!: kseq_frame [rotated -1])

text \<open>The sizes of the entries from \<open>p\<close> on, all of them of known types.\<close>

fun madt_layout :: "mem \<Rightarrow> u64 \<Rightarrow> u8 list \<Rightarrow> bool" where
  "madt_layout m p [] \<longleftrightarrow> True"
| "madt_layout m p (ty # tys) \<longleftrightarrow> m p = ty \<and> ty < 6 \<and> madt_layout m (p + ucast (madt_entry_size ty)) tys"

definition madt_bytes :: "u8 list \<Rightarrow> nat" where
  "madt_bytes tys = sum_list (map (unat \<circ> madt_entry_size) tys)"

lemma madt_entry_size_pos: "0 < madt_entry_size ty \<longleftrightarrow> ty < 6"
proof -
  have "ty < 6 \<longleftrightarrow> ty = 0 \<or> ty = 1 \<or> ty = 2 \<or> ty = 3 \<or> ty = 4 \<or> ty = 5"
  proof
    assume "ty < 6"
    then have "unat ty < 6" by (simp add: word_less_nat_alt)
    then have "unat ty \<in> {0, 1, 2, 3, 4, 5}" by auto
    then show "ty = 0 \<or> ty = 1 \<or> ty = 2 \<or> ty = 3 \<or> ty = 4 \<or> ty = 5"
      by (auto simp: word_unat_eq_iff)
  qed auto
  then show ?thesis by (auto simp: madt_entry_size_def)
qed

lemma madt_loop_ends:
  assumes "madt_layout (kram s) p tys" and "unat len \<le> unat i + madt_bytes tys"
    and "unat i + madt_bytes tys < 2 ^ 32"
  shows "\<exists>r. madt_loop len i p s = Some r"
  using assms
proof (induction tys arbitrary: i p s)
  case Nil
  then show ?case by (subst madt_loop.simps) (simp add: madt_bytes_def word_less_nat_alt)
next
  case (Cons ty tys)
  show ?case
  proof (cases "i < len")
    case False
    then show ?thesis by (subst madt_loop.simps) simp
  next
    case True
    have t: "kram s p = ty" using Cons.prems by simp
    have "unat (i + madt_entry_size ty) = unat i + unat (madt_entry_size ty)"
      using Cons.prems(3) by (intro unat_add_no_overflow) (simp add: madt_bytes_def)
    then have "\<exists>r. madt_loop len (i + madt_entry_size ty) (p + ucast (madt_entry_size ty)) s' = Some r"
      if "madt_entry p s = Inr (x, s')" for x s'
      using Cons.prems by (intro Cons.IH) (simp_all add: madt_entry_frame [OF that] madt_bytes_def)
    then show ?thesis
      using True by (subst madt_loop.simps) (auto simp: t split: sum.split)
  qed
qed

lemma madt_loop_unknown:
  assumes "madt_loop len i p s = Some r"
  shows "\<not> (i < len \<and> 6 \<le> kram s p)"
proof (rule madt_loop.raw_induct [where P = "\<lambda>len i p s r. \<not> (i < len \<and> 6 \<le> kram s p)", OF _ assms])
  fix loop len i p s r
  assume ih: "\<And>len i p s r. loop len i p s = Some r \<Longrightarrow> \<not> (i < len \<and> 6 \<le> kram s p)"
    and b: "(if i < len
      then case madt_entry p s of Inl e \<Rightarrow> Some (Inl e)
         | Inr (_, s') \<Rightarrow> loop len (i + madt_entry_size (kram s p)) (p + ucast (madt_entry_size (kram s p))) s'
      else Some (Inr ((), s))) = Some r"
  show "\<not> (i < len \<and> 6 \<le> kram s p)"
  proof
    assume a: "i < len \<and> 6 \<le> kram s p"
    then have n: "kram s p \<noteq> 1" "kram s p \<noteq> 2" "kram s p \<noteq> 3" "kram s p \<noteq> 4" "kram s p \<noteq> 5"
      by (auto simp: word_le_nat_alt)
    from a have "\<not> 0 < madt_entry_size (kram s p)" by (simp add: madt_entry_size_pos not_less)
    then have z: "madt_entry_size (kram s p) = 0" by (simp add: word_greater_zero_iff)
    from n have "madt_entry p s = Inr ((), s)" by (simp add: madt_entry_def)
    with b a z have "loop len i p s = Some r" by simp
    with ih a show False by blast
  qed
qed

lemma hpet_count_max_bounds:
  assumes "p \<noteq> 0"
  shows "unat (hpet_count_max p 10) * unat p \<le> 10 ^ 13" "10 ^ 13 < Suc (unat (hpet_count_max p 10)) * unat p"
proof -
  define P q where "P = unat p" and "q = 10 ^ 15 div P"
  have "0 < P" using assms by (simp add: P_def unat_gt_0)
  have c: "unat (hpet_count_max p 10) = q div 100"
    using hpet_count_max_nat [OF assms] by (simp add: q_def P_def)
  have "100 * (q div 100) \<le> q" by simp
  then have "100 * (q div 100) * P \<le> q * P" by (rule mult_le_mono1)
  also have "\<dots> \<le> 10 ^ 15" by (simp add: q_def)
  finally show "unat (hpet_count_max p 10) * unat p \<le> 10 ^ 13" by (simp add: c P_def mult.commute)
  have "10 ^ 15 < Suc q * P" 
    using dividend_less_div_times [OF \<open>0 < P\<close>, of "10 ^ 15"] by (simp add: q_def)
  also have "\<dots> \<le> 100 * Suc (q div 100) * P" by (rule mult_le_mono1) (simp add: Suc_le_eq)
  finally have "10 ^ 15 < 100 * (Suc (q div 100) * P)" by (simp only: mult.assoc)
  moreover have "10 ^ 13 < x" if "10 ^ 15 < 100 * x" for x :: nat using that by simp
  ultimately show "10 ^ 13 < Suc (unat (hpet_count_max p 10)) * unat p" unfolding c P_def by blast
qed

section \<open>Devices\<close>

lemma mcfg_entry_adds:
  assumes "k_cache_alloc E (g_device_mem_cache s) s = Inr (d, s1)" and "d \<noteq> 0"
    and "ring (klinks s1) DeviceTable (map DeviceNode ds)" and "d \<notin> set ds"
  shows "\<exists>s'. mcfg_entry E p s = Inr ((), s') \<and> ring (klinks s') DeviceTable (map DeviceNode (d # ds)) \<and>
    device_type (devices s' d) = DEVICE_TYPE_PCI_CFG \<and> cfg_address_base (devices s' d) = rd64 (kram s1) p \<and>
    (\<forall>x. x \<noteq> d \<longrightarrow> devices s' x = devices s1 x)"
proof -
  have "ring (list_add (DeviceNode d) DeviceTable (klinks s1)) DeviceTable (DeviceNode d # map DeviceNode ds)"
    by (rule ring_list_add) (use assms in auto)
  then show ?thesis
    using assms by (simp add: mcfg_entry_def add_device_to_table_def upd_device_def upd_klinks_def)
qed

lemma acpi_init_without_rsdp:
  assumes "\<forall>p \<in> set rsdp_candidates. block (kram s) p 8 \<noteq> rsdp_signature"
  shows "acpi_init E 0 s = Inl NullDeref"
  using find_rspd_None [OF assms] by (simp add: acpi_init_def)

section \<open>Properties\<close>

lemma hpet_spin_ten_millis:
  assumes "p \<noteq> 0" and "hpet_count_max p 10 < reads n"
  shows "\<exists>j. hpet_spin reads (hpet_count_max p 10) 0 = Some j \<and> 10 ^ 13 < unat (reads j) * unat p \<and>
    (\<forall>i < j. unat (reads i) * unat p \<le> 10 ^ 13)"
proof -
  let ?c = "hpet_count_max p 10"
  from hpet_spin_stops [of ?c reads 0 n] assms(2) obtain j where j: "hpet_spin reads ?c 0 = Some j"
    and gt: "?c < reads j" and le: "\<forall>k. k < j \<longrightarrow> reads k \<le> ?c" by auto
  have "Suc (unat ?c) * unat p \<le> unat (reads j) * unat p"
    using gt by (intro mult_le_mono1) (simp add: word_less_nat_alt)
  moreover have "unat (reads i) * unat p \<le> unat ?c * unat p" if "i < j" for i
    using le that by (intro mult_le_mono1) (simp add: word_le_nat_alt)
  ultimately show ?thesis
    using j hpet_count_max_bounds [OF assms(1)] by (meson le_trans less_le_trans)
qed

text \<open>
  C38: calibrating against the HPET waits for ten milliseconds: with a period of \<open>p\<close> femtoseconds and a
  counter that goes on counting, the busy loop ends at the first reading that stands for more
  than \<open>10 ^ 13\<close> femtoseconds, for every non-zero period.
\<close>

theorem hpet_waits_ten_millis:
  assumes "p \<noteq> 0" and "hpet_count_max p 10 < reads n"
  shows "\<exists>j. hpet_spin reads (hpet_count_max p 10) 0 = Some j \<and> 10 ^ 13 < unat (reads j) * unat p \<and>
    (\<forall>i < j. unat (reads i) * unat p \<le> 10 ^ 13)"
  using assms by (rule hpet_spin_ten_millis [of p reads n])

theorem hpet_waits_ten_millis_witness:
  "\<exists>j. hpet_spin (\<lambda>i. of_nat (1000 * i)) (hpet_count_max 69841279 10) 0 = Some j \<and>
     10 ^ 13 < unat (of_nat (1000 * j) :: u64) * 69841279"
proof -
  have "hpet_count_max 69841279 10 < (of_nat (1000 * 1000) :: u64)"
    by (simp add: hpet_count_max_def femto_def)
  from hpet_waits_ten_millis [where p = 69841279 and n = 1000 and reads = "\<lambda>i. of_nat (1000 * i)", OF _ this]
  show ?thesis by auto
qed

text \<open>
  The address \<open>set_apic_base\<close> puts into the base register is the one \<open>get_apic_base\<close> read, and the one
  the registers are then used at, exactly when bits 12 to 15 of it are zero: the mask
  \<^verbatim>\<open>0xfffff0000\<close> has a zero too many.
\<close>

theorem set_apic_base_keeps_iff:
  "fst (set_apic_base (get_apic_base hw)) AND 0xfffff000 = ucast (get_apic_base hw) \<longleftrightarrow>
    fst (msr_apic_base hw) AND 0xf000 = 0"
proof -
  have m: "(0xfffff000 :: u32) = push_bit 12 (mask 20)" "(0xfffff000 :: u64) = push_bit 12 (mask 20)"
    "(0xfffff0000 :: u64) = push_bit 16 (mask 20)" "(0xf000 :: u32) = push_bit 12 (mask 4)"
    by (simp_all add: mask_eq_exp_minus_1)
  have "(0x800 :: int) = 2 ^ 11" by simp
  then have b: "bit (0x800 :: int) n \<longleftrightarrow> n = 11" for n by (simp only: bit_exp_iff) auto
  show ?thesis
    unfolding set_apic_base_def get_apic_base_def IA32_APIC_BASE_MSR_ENABLE_def m
    by (simp only: bit_eq_iff, intro iff_allI) (auto simp: bit_simps b)
qed

lemma set_apic_base_address:
  assumes "fst (msr_apic_base hw) AND 0xf000 = 0"
  shows "ucast (fst (set_apic_base (get_apic_base hw)) AND 0xfffff000) = get_apic_base hw"
proof -
  have "ucast (fst (set_apic_base (get_apic_base hw)) AND 0xfffff000) = (ucast (ucast (get_apic_base hw) :: u32) :: u64)"
    using set_apic_base_keeps_iff [of hw] assms by simp
  also have "\<dots> = get_apic_base hw" unfolding get_apic_base_def by (rule bit_word_eqI) (auto simp: bit_simps dest: bit_imp_le_length)
  finally show ?thesis .
qed

text \<open>
  \<open>initialize_memory\<close> collects the usable entries of the memory map, in order, as zones, and writes past
  the end of its table when there are more than \<open>MAX_MEM_ZONES\<close> of them.
\<close>

theorem initialize_memory_zones:
  "initialize_memory es =
     (let us = filter (\<lambda>e. mm_type e = LIMINE_MEMMAP_USABLE) es
      in if length us \<le> MAX_MEM_ZONES
         then Inr (map (\<lambda>e. \<lparr>mzi_phys_base = mm_base e, mzi_length = mm_length e\<rparr>) us)
         else Inl OutOfBounds)"
  by (simp add: initialize_memory_def initialize_memory_from_eq Let_def)

text \<open>
  The walk over the MADT never ends when it meets an entry of any other type before the end of the table.
\<close>

theorem madt_unknown_type_diverges:
  assumes "i < len" and "6 \<le> kram s p"
  shows "madt_loop len i p s = None"
  using madt_loop_unknown [of len i p s] assms by (cases "madt_loop len i p s") auto

end
