(* ===== verification/Traps.thy ===== *)
theory Traps
  imports Faults Interrupts
begin

text \<open>
  The way into the kernel and back: the stubs of \<^verbatim>\<open>arch/x86_64/idt_table.s\<close>, between the words the processor
  pushes when it takes an interrupt and the \<^verbatim>\<open>iretq\<close> that pops them, around the C handlers of
  \<^verbatim>\<open>interrupt.c\<close> and \<^verbatim>\<open>page_fault.c\<close>, which find the saved registers in memory as a
  \<open>struct interrupt_frame\<close>; with the short routines of \<^verbatim>\<open>cpu_irq.s\<close>, \<^verbatim>\<open>cr2.s\<close> and \<^verbatim>\<open>gdt_reload.s\<close>.
\<close>

section \<open>Taking an interrupt\<close>

definition from_user :: "arch_x86_cpu_state \<Rightarrow> bool" where
  "from_user c \<longleftrightarrow> c_cs c AND 3 = 3"

text \<open>
  The processor starts on the stack of the task state segment when it comes from user mode, on the
  current one otherwise, aligned to 16 bytes.
\<close>

definition interrupt_stack :: "arch_x86_cpu_state \<Rightarrow> kstate \<Rightarrow> u64" where
  "interrupt_stack c s = (if from_user c then tss_rsp0 s else c_rsp c) AND NOT 0xf"

text \<open>What it pushes, in memory order, with the error code for those exceptions that have one.\<close>

definition delivered :: "u64 option \<Rightarrow> arch_x86_cpu_state \<Rightarrow> u64 list" where
  "delivered err c =
     (case err of None \<Rightarrow> [] | Some e \<Rightarrow> [e]) @ [c_rip c, c_cs c, c_rflags c, c_rsp c, c_ss c]"

section \<open>The stubs (idt_table.s)\<close>

text \<open>\<open>pushaq_macro\<close>, in memory order: the register pushed last is the first.\<close>

definition pushaq :: "arch_x86_cpu_state \<Rightarrow> u64 list" where
  "pushaq c = [c_r8 c, c_r9 c, c_r10 c, c_r11 c, c_r12 c, c_r13 c, c_r14 c, c_r15 c, c_rdi c, c_rsi c, c_rbp c,
     c_rbx c, c_rdx c, c_rcx c, c_rax c]"

definition popaq :: "mem \<Rightarrow> u64 \<Rightarrow> arch_x86_cpu_state \<Rightarrow> arch_x86_cpu_state" where
  "popaq m sp c =
     (let w = (\<lambda>i. rd64 m (sp + 8 * of_nat i)) in
      c\<lparr>c_r8 := w 0, c_r9 := w 1, c_r10 := w 2, c_r11 := w 3, c_r12 := w 4, c_r13 := w 5, c_r14 := w 6, c_r15 := w 7,
        c_rdi := w 8, c_rsi := w 9, c_rbp := w 10, c_rbx := w 11, c_rdx := w 12, c_rcx := w 13, c_rax := w 14\<rparr>)"

definition iretq :: "mem \<Rightarrow> u64 \<Rightarrow> arch_x86_cpu_state \<Rightarrow> arch_x86_cpu_state" where
  "iretq m sp c =
     (let w = (\<lambda>i. rd64 m (sp + 8 * of_nat i)) in
      c\<lparr>c_rip := w 0, c_cs := w 1, c_rflags := w 2, c_rsp := w 3, c_ss := w 4\<rparr>)"

text \<open>From the interrupt to the call: the words of the frame, and where it is.\<close>

definition frame_at_entry :: "u64 \<Rightarrow> u64 option \<Rightarrow> arch_x86_cpu_state \<Rightarrow> u64 list" where
  "frame_at_entry vec err c = vec # pushaq c @ delivered err c"

definition isr_enter :: "u64 \<Rightarrow> u64 option \<Rightarrow> arch_x86_cpu_state \<Rightarrow> u64 kop" where
  "isr_enter vec err c =
     kbind (kget (interrupt_stack c)) (\<lambda>top.
       let ws = frame_at_entry vec err c; frame = top - of_nat (8 * length ws)
       in kseq (kmod (set_kram (store_words frame ws))) (kret frame))"

text \<open>From the return of the handler on; the stub of an exception with an error code skips one word.\<close>

definition isr_return :: "bool \<Rightarrow> mem \<Rightarrow> u64 \<Rightarrow> arch_x86_cpu_state \<Rightarrow> arch_x86_cpu_state" where
  "isr_return skip m frame c = iretq m (frame + (if skip then 136 else 128)) (popaq m (frame + 8) c)"

definition isr_no_err_stub :: "u64 \<Rightarrow> (u64 \<Rightarrow> unit kop) \<Rightarrow> u64 option \<Rightarrow> arch_x86_cpu_state \<Rightarrow> arch_x86_cpu_state kop" where
  "isr_no_err_stub vec entry err c =
     kbind (isr_enter vec err c) (\<lambda>frame.
     kseq (entry frame) (kget (\<lambda>s. isr_return False (kram s) frame c)))"

definition isr_err_stub :: "u64 \<Rightarrow> (u64 \<Rightarrow> unit kop) \<Rightarrow> u64 option \<Rightarrow> arch_x86_cpu_state \<Rightarrow> arch_x86_cpu_state kop" where
  "isr_err_stub vec entry err c =
     kbind (isr_enter vec err c) (\<lambda>frame.
     kseq (entry frame) (kget (\<lambda>s. isr_return True (kram s) frame c)))"

section \<open>The handlers, on the frame in memory\<close>

text \<open>\<open>struct interrupt_frame\<close> at an address; the last five fields are those of \<open>exception.err\<close>.\<close>

definition frame_at :: "mem \<Rightarrow> u64 \<Rightarrow> interrupt_frame" where
  "frame_at m p =
     (let w = (\<lambda>i. rd64 m (p + 8 * of_nat i)) in
      \<lparr>interrupt_id = w 0, f_r8 = w 1, f_r9 = w 2, f_r10 = w 3, f_rdi = w 9, f_rsi = w 10, f_rdx = w 13, f_rax = w 15,
       f_err_code = w 16, f_rip = w 17, f_cs = w 18, f_rsp = w 20, f_ss = w 21\<rparr>)"

definition exception_noerr_entry :: "u64 \<Rightarrow> unit kop" where
  "exception_noerr_entry p = kbind (kget (\<lambda>s. frame_at (kram s) p)) exception_handler_stub_noerr"

definition exception_err_entry :: "u64 \<Rightarrow> unit kop" where
  "exception_err_entry p = kbind (kget (\<lambda>s. frame_at (kram s) p)) exception_handler_stub_err"

definition int_page_fault :: "env \<Rightarrow> u64 \<Rightarrow> u64 \<Rightarrow> unit kop" where
  "int_page_fault E cr2 p =
     kbind (kget (\<lambda>s. frame_at (kram s) p)) (\<lambda>fr.
     kseq (k_printf (''Handling addr %p'' @ newline) [VInt cr2])
     (kbind (kernel_page_fault E cr2 (fault_flags E (f_err_code fr)) (f_rip fr)) (\<lambda>_. kret ())))"

text \<open>\<open>__irq_handler_stub\<close>: a system call writes its result to \<open>rax\<close> of the frame.\<close>

definition irq_entry :: "env \<Rightarrow> (u64 \<Rightarrow> u8 kop) \<Rightarrow> u64 \<Rightarrow> u64 \<Rightarrow> (u64 \<times> u64) option kop" where
  "irq_entry E rd buf p =
     kbind (kget (\<lambda>s. frame_at (kram s) p)) (\<lambda>fr.
     kbind (irq_handler_stub E rd buf fr) (\<lambda>(fr', sw).
     kseq (kwhen (interrupt_id fr = 0x80 \<and> sint (f_rax fr) < sint SYSCALLS_NR)
             (kmod (set_kram (wr64 (p + 120) (f_rax fr')))))
       (kret sw)))"

text \<open>An interrupt returns to where it came from, or leaves its frame on the stack of a task that is switched away.\<close>

datatype trap_result = Resumes arch_x86_cpu_state | Switches u64 u64 u64

definition isr_irq :: "env \<Rightarrow> (u64 \<Rightarrow> u8 kop) \<Rightarrow> u64 \<Rightarrow> u64 \<Rightarrow> arch_x86_cpu_state \<Rightarrow> trap_result kop" where
  "isr_irq E rd buf vec c =
     kbind (isr_enter vec None c) (\<lambda>frame.
     kbind (irq_entry E rd buf frame) (\<lambda>sw.
       case sw of
         None \<Rightarrow> kget (\<lambda>s. Resumes (isr_return False (kram s) frame c))
       | Some (prev, nxt) \<Rightarrow> kret (Switches prev nxt frame)))"

text \<open>The table: for the exceptions which stub and which handler, then the interrupts.\<close>

definition err_vectors :: "nat list" where "err_vectors = [8, 10, 11, 12, 13, 14, 17, 30]"

datatype isr = IsrNoErr nat | IsrErr nat | IsrPageFault nat | IsrIrq nat

definition isr_stub_table :: "isr list" where
  "isr_stub_table =
     map (\<lambda>i. if i = 14 then IsrPageFault i else if i \<in> set err_vectors then IsrErr i else IsrNoErr i) [0..<32] @
     map IsrIrq [32..<256]"

definition trap :: "env \<Rightarrow> (u64 \<Rightarrow> u8 kop) \<Rightarrow> u64 \<Rightarrow> u64 \<Rightarrow> isr \<Rightarrow> u64 option \<Rightarrow> arch_x86_cpu_state \<Rightarrow> trap_result kop" where
  "trap E rd buf cr2 stub err c =
     (case stub of
        IsrNoErr i \<Rightarrow> kbind (isr_no_err_stub (of_nat i) exception_noerr_entry err c) (\<lambda>c'. kret (Resumes c'))
      | IsrErr i \<Rightarrow> kbind (isr_err_stub (of_nat i) exception_err_entry err c) (\<lambda>c'. kret (Resumes c'))
      | IsrPageFault i \<Rightarrow> kbind (isr_err_stub (of_nat i) (int_page_fault E cr2) err c) (\<lambda>c'. kret (Resumes c'))
      | IsrIrq i \<Rightarrow> isr_irq E rd buf (of_nat i) c)"

section \<open>cpu_irq.s and gdt_reload.s\<close>

definition IF_FLAG :: u64 where "IF_FLAG = 0x200"

text \<open>On the flags register: the value returned, and the register afterwards.\<close>

definition cpu_irq_save :: "u64 \<Rightarrow> u64 \<times> u64" where
  "cpu_irq_save rflags = (rflags, rflags AND NOT IF_FLAG)"

definition cpu_irq_restore :: "u64 \<Rightarrow> u64 \<Rightarrow> u64" where
  "cpu_irq_restore saved rflags = saved"

definition cpu_force_cli :: "u64 \<Rightarrow> u64" where "cpu_force_cli rflags = rflags AND NOT IF_FLAG"

definition cpu_force_sti :: "u64 \<Rightarrow> u64" where "cpu_force_sti rflags = rflags OR IF_FLAG"

record selectors =
  sel_cs :: u16
  sel_ds :: u16
  sel_es :: u16
  sel_fs :: u16
  sel_gs :: u16
  sel_ss :: u16
  sel_tr :: u16

definition gdt_reload_segments :: selectors where
  "gdt_reload_segments = \<lparr>sel_cs = 8, sel_ds = 0x10, sel_es = 0x10, sel_fs = 0x10, sel_gs = 0x10, sel_ss = 0x10, sel_tr = 0x28\<rparr>"

section \<open>Words on the stack\<close>

definition words_at :: "mem \<Rightarrow> u64 \<Rightarrow> u64 list \<Rightarrow> bool" where
  "words_at m p ws \<longleftrightarrow> (\<forall>i < length ws. rd64 m (p + 8 * of_nat i) = ws ! i)"

lemma words_at_store: "8 * length ws \<le> 2 ^ 64 \<Longrightarrow> words_at (store_words p ws m) p ws"
  by (simp add: words_at_def rd64_store_words)

lemma word_in_region: "i < n \<Longrightarrow> region (p + 8 * of_nat i) 8 \<subseteq> region p (8 * n)"
  using region_shift_sub [of "8 * i" 8 "8 * n" p] by simp

lemma words_at_cong:
  assumes "words_at m p ws" and "\<And>x. x \<in> region p (8 * length ws) \<Longrightarrow> m' x = m x"
  shows "words_at m' p ws"
  unfolding words_at_def
proof (intro allI impI)
  fix i assume i: "i < length ws"
  have "rd64 m' (p + 8 * of_nat i) = rd64 m (p + 8 * of_nat i)"
    using word_in_region [OF i, of p] assms(2) by (intro rd64_cong) auto
  with assms(1) i show "rd64 m' (p + 8 * of_nat i) = ws ! i" by (simp add: words_at_def)
qed

lemma words_at_write:
  assumes "words_at m p ws" and "j < length ws" and "8 * length ws \<le> 2 ^ 64"
  shows "words_at (wr64 (p + 8 * of_nat j) v m) p (ws[j := v])"
  unfolding words_at_def
proof (intro allI impI)
  fix i assume "i < length (ws[j := v])"
  then have i: "i < length ws" by simp
  show "rd64 (wr64 (p + 8 * of_nat j) v m) (p + 8 * of_nat i) = ws[j := v] ! i"
  proof (cases "i = j")
    case True
    then show ?thesis using i by (simp add: rd64_wr64_same)
  next
    case False
    have "region (p + 8 * of_nat i) 8 \<inter> region (p + 8 * of_nat j) 8 = {}"
    proof (cases "i < j")
      case True
      then have "region (p + 8 * of_nat i) 8 \<inter> region (p + 8 * of_nat i + of_nat (8 * (j - i))) 8 = {}"
        using assms(2,3) by (intro regions_offset) auto
      then show ?thesis using True by (simp add: algebra_simps of_nat_diff)
    next
      case False
      with \<open>i \<noteq> j\<close> have ji: "j < i" by simp
      then have "region (p + 8 * of_nat j) 8 \<inter> region (p + 8 * of_nat j + of_nat (8 * (i - j))) 8 = {}"
        using i assms(3) by (intro regions_offset) auto
      then show ?thesis using ji by (simp add: algebra_simps of_nat_diff Int_commute)
    qed
    then have "rd64 (wr64 (p + 8 * of_nat j) v m) (p + 8 * of_nat i) = rd64 m (p + 8 * of_nat i)"
      by (intro rd64_cong wr64_outside) auto
    with assms(1) i False show ?thesis by (simp add: words_at_def)
  qed
qed

section \<open>Frames\<close>

lemma length_pushaq: "length (pushaq c) = 15"
  by (simp add: pushaq_def)

lemma frame_length: "length (frame_at_entry vec err c) = (if err = None then 21 else 22)"
  by (simp add: frame_at_entry_def pushaq_def delivered_def split: option.splits)

text \<open>The frame the C code sees when the registers \<open>c\<close> were saved.\<close>

definition saved_frame :: "u64 \<Rightarrow> u64 \<Rightarrow> arch_x86_cpu_state \<Rightarrow> interrupt_frame" where
  "saved_frame vec e c =
     \<lparr>interrupt_id = vec, f_r8 = c_r8 c, f_r9 = c_r9 c, f_r10 = c_r10 c, f_rdi = c_rdi c, f_rsi = c_rsi c, f_rdx = c_rdx c,
      f_rax = c_rax c, f_err_code = e, f_rip = c_rip c, f_cs = c_cs c, f_rsp = c_rsp c, f_ss = c_ss c\<rparr>"

lemma frame_at_err:
  assumes "words_at m p (frame_at_entry vec (Some e) c)"
  shows "frame_at m p = saved_frame vec e c"
proof -
  have w: "rd64 m (p + 8 * of_nat i) = frame_at_entry vec (Some e) c ! i" if "i < 22" for i
    using assms that by (simp add: words_at_def frame_length)
  show ?thesis
    using w w [of 0] w [of 1]
    by (simp add: frame_at_def saved_frame_def Let_def frame_at_entry_def pushaq_def delivered_def del: of_nat_numeral)
qed

text \<open>Without an error code the general registers are where they were.\<close>

lemma frame_at_noerr:
  assumes "words_at m p (frame_at_entry vec None c)"
  shows "interrupt_id (frame_at m p) = vec" "f_r8 (frame_at m p) = c_r8 c" "f_r9 (frame_at m p) = c_r9 c"
    "f_r10 (frame_at m p) = c_r10 c" "f_rdi (frame_at m p) = c_rdi c" "f_rsi (frame_at m p) = c_rsi c"
    "f_rdx (frame_at m p) = c_rdx c" "f_rax (frame_at m p) = c_rax c"
proof -
  have w: "rd64 m (p + 8 * of_nat i) = frame_at_entry vec None c ! i" if "i < 21" for i
    using assms that by (simp add: words_at_def frame_length)
  note s = frame_at_def Let_def frame_at_entry_def pushaq_def delivered_def
  show "interrupt_id (frame_at m p) = vec" "f_r8 (frame_at m p) = c_r8 c" "f_r9 (frame_at m p) = c_r9 c"
    "f_r10 (frame_at m p) = c_r10 c" "f_rdi (frame_at m p) = c_rdi c" "f_rsi (frame_at m p) = c_rsi c"
    "f_rdx (frame_at m p) = c_rdx c" "f_rax (frame_at m p) = c_rax c"
    using w [of 0] w [of 1] w [of 2] w [of 3] w [of 9] w [of 10] w [of 13] w [of 15]
    by (simp_all add: s del: of_nat_numeral)
qed

lemma isr_return_frame:
  assumes "words_at m p (frame_at_entry vec err c)"
  shows "isr_return (err \<noteq> None) m p c' = c"
proof -
  let ?ws = "frame_at_entry vec err c"
  have w: "rd64 m (p + 8 * of_nat i) = ?ws ! i" if "i < length ?ws" for i
    using assms that by (simp add: words_at_def)
  have g: "rd64 m (p + 8 + 8 * of_nat i) = pushaq c ! i" if "i < 15" for i
    using w [of "Suc i"] that
    by (simp add: frame_length frame_at_entry_def length_pushaq nth_append algebra_simps split: if_splits)
  have d: "rd64 m (p + (if err \<noteq> None then 136 else 128) + 8 * of_nat i) = [c_rip c, c_cs c, c_rflags c, c_rsp c, c_ss c] ! i"
    if "i < 5" for i
    using w [of "(if err \<noteq> None then 17 else 16) + i"] that
    by (auto simp: frame_length frame_at_entry_def pushaq_def delivered_def nth_append algebra_simps split: option.splits)
  show ?thesis
    using g g [of 0] g [of 1] d d [of 0] d [of 1]
    by (simp add: isr_return_def iretq_def popaq_def Let_def pushaq_def del: of_nat_numeral)
qed

section \<open>Entering and leaving\<close>

definition frame_of :: "u64 \<Rightarrow> u64 option \<Rightarrow> arch_x86_cpu_state \<Rightarrow> kstate \<Rightarrow> u64" where
  "frame_of vec err c s = interrupt_stack c s - of_nat (8 * length (frame_at_entry vec err c))"

definition entered :: "u64 \<Rightarrow> u64 option \<Rightarrow> arch_x86_cpu_state \<Rightarrow> kstate \<Rightarrow> kstate" where
  "entered vec err c s = set_kram (store_words (frame_of vec err c s) (frame_at_entry vec err c)) s"

lemma isr_enter_eq: "isr_enter vec err c s = Inr (frame_of vec err c s, entered vec err c s)"
  by (simp add: isr_enter_def frame_of_def entered_def Let_def)

lemma kram_set_kram: "kram (set_kram f s) = f (kram s)"
  by (simp add: set_kram_def kram_def kpa_def upd_pa_def)

lemma frame_in_memory: "words_at (kram (entered vec err c s)) (frame_of vec err c s) (frame_at_entry vec err c)"
  unfolding entered_def kram_set_kram by (rule words_at_store) (simp add: frame_length)

definition keeps_frame :: "u64 \<Rightarrow> u64 option \<Rightarrow> arch_x86_cpu_state \<Rightarrow> kstate \<Rightarrow> kstate \<Rightarrow> bool" where
  "keeps_frame vec err c s s' \<longleftrightarrow>
     (\<forall>x \<in> region (frame_of vec err c s) (8 * length (frame_at_entry vec err c)). kram s' x = kram (entered vec err c s) x)"

lemma keeps_frame_words:
  "keeps_frame vec err c s s' \<Longrightarrow> words_at (kram s') (frame_of vec err c s) (frame_at_entry vec err c)"
  using words_at_cong [OF frame_in_memory, of vec err c s "kram s'"] by (simp add: keeps_frame_def)

text \<open>A handler that leaves the frame alone is transparent, with the stub that fits the exception.\<close>

lemma stub_transparent:
  assumes "entry (frame_of vec err c s) (entered vec err c s) = Inr ((), s')" and "keeps_frame vec err c s s'"
  shows "(if err = None then isr_no_err_stub else isr_err_stub) vec entry err c s = Inr (c, s')"
proof -
  have "isr_return (err \<noteq> None) (kram s') (frame_of vec err c s) c = c"
    by (rule isr_return_frame [OF keeps_frame_words [OF assms(2)]])
  then show ?thesis
    using assms(1) by (auto simp: isr_no_err_stub_def isr_err_stub_def isr_enter_eq split: if_splits)
qed

text \<open>
  The stub without an error code for an exception that has one: the return address it takes off the
  stack is the error code.
\<close>

lemma stub_mismatch:
  assumes "entry (frame_of vec (Some e) c s) (entered vec (Some e) c s) = Inr ((), s')" and "keeps_frame vec (Some e) c s s'"
  shows "\<exists>c'. isr_no_err_stub vec entry (Some e) c s = Inr (c', s') \<and> c_rip c' = e \<and> c_cs c' = c_rip c"
proof -
  let ?ws = "frame_at_entry vec (Some e) c"
  have w: "rd64 (kram s') (frame_of vec (Some e) c s + 8 * of_nat i) = ?ws ! i" if "i < 22" for i
    using keeps_frame_words [OF assms(2)] that by (simp add: words_at_def frame_length)
  have "rd64 (kram s') (frame_of vec (Some e) c s + 128) = e" "rd64 (kram s') (frame_of vec (Some e) c s + 136) = c_rip c"
    using w [of 16] w [of 17] by (simp_all add: frame_at_entry_def pushaq_def delivered_def)
  then show ?thesis
    using assms(1) by (simp add: isr_no_err_stub_def isr_enter_eq isr_return_def iretq_def Let_def add.assoc)
qed

section \<open>Interrupts and system calls\<close>

lemma irq_handler_only_rax:
  "irq_handler_stub E rd buf fr s = Inr ((fr', sw), s') \<Longrightarrow> fr' = fr\<lparr>f_rax := f_rax fr'\<rparr> \<and>
     (f_rax fr' = f_rax fr \<or> interrupt_id fr = 0x80 \<and> sint (f_rax fr) < sint SYSCALLS_NR)"
  by (auto simp: irq_handler_stub_def syscall_irq_def Let_def kseq_def kbind_Inr_iff split: if_splits option.splits)

lemma console_set_kram: "console_out (set_kram f s) = console_out s"
  by (simp add: set_kram_def upd_pa_def)

lemma irq_returns:
  assumes "irq_handler_stub E rd buf (frame_at (kram (entered vec None c s)) (frame_of vec None c s)) (entered vec None c s) = Inr ((fr', None), s')"
    and "keeps_frame vec None c s s'"
  shows "\<exists>s''. isr_irq E rd buf vec c s = Inr (Resumes (c\<lparr>c_rax := f_rax fr'\<rparr>), s'') \<and> console_out s'' = console_out s'"
proof -
  let ?p = "frame_of vec None c s" and ?ws = "frame_at_entry vec None c"
  let ?fr = "frame_at (kram (entered vec None c s)) ?p"
  have ax: "f_rax ?fr = c_rax c" by (rule frame_at_noerr(8) [OF frame_in_memory])
  have ws: "words_at (kram s') ?p ?ws" by (rule keeps_frame_words [OF assms(2)])
  let ?wr = "interrupt_id ?fr = 0x80 \<and> sint (f_rax ?fr) < sint SYSCALLS_NR"
  show ?thesis
  proof (cases ?wr)
    case True
    let ?s = "set_kram (wr64 (?p + 120) (f_rax fr')) s'"
    have "words_at (wr64 (?p + 8 * of_nat 15) (f_rax fr') (kram s')) ?p (?ws[15 := f_rax fr'])"
      by (rule words_at_write [OF ws]) (simp_all add: frame_length)
    moreover have "?ws[15 := f_rax fr'] = frame_at_entry vec None (c\<lparr>c_rax := f_rax fr'\<rparr>)"
      by (simp add: frame_at_entry_def pushaq_def delivered_def)
    ultimately have "words_at (kram ?s) ?p (frame_at_entry vec None (c\<lparr>c_rax := f_rax fr'\<rparr>))"
      by (simp add: kram_set_kram)
    from isr_return_frame [OF this, of c] show ?thesis
      using assms(1) True by (simp add: isr_irq_def irq_entry_def isr_enter_eq console_set_kram)
  next
    case False
    then have "f_rax fr' = c_rax c" using irq_handler_only_rax [OF assms(1)] ax by auto
    then have "c\<lparr>c_rax := f_rax fr'\<rparr> = c" by simp
    then have "isr_return False (kram s') ?p c = c\<lparr>c_rax := f_rax fr'\<rparr>" using isr_return_frame [OF ws, of c] by simp
    moreover have "irq_entry E rd buf ?p (entered vec None c s) = Inr (None, s')"
      using assms(1) False unfolding irq_entry_def kwhen_def by (simp add: if_not_P cong: if_cong)
    ultimately show ?thesis by (simp add: isr_irq_def isr_enter_eq)
  qed
qed

lemma schedule_keeps_ram:
  assumes "schedule s = Inr (r, s')" shows "kram s' = kram s"
proof -
  obtain q s1 where q: "sched_pick_next_task s = Inr (q, s1)"
    using assms by (auto simp: schedule_def kbind_Inr_iff)
  then have "sched_pick_next_task s = Inr (q, s)" using pick_keeps by metis
  from schedule_eq [OF this refl refl] assms show ?thesis
    by (auto simp: clear_needs_def load_pgtable_def upd_task_def kram_def kpa_def cpu_mm_set_pgtable_def set_cr3_def split: if_splits)
qed

lemma timer_keeps_ram: "timer_irq s = Inr (r, s') \<Longrightarrow> kram s' = kram s"
  using schedule_keeps_ram [of "after_irq s" r s'] by (auto simp: timer_irq_eq split: if_splits)

lemma timer_entry:
  "irq_entry E rd buf (frame_of 0x20 None c s) (entered 0x20 None c s) = timer_irq (entered 0x20 None c s)"
proof -
  have "interrupt_id (frame_at (kram (entered 0x20 None c s)) (frame_of 0x20 None c s)) = 0x20"
    by (rule frame_at_noerr(1) [OF frame_in_memory])
  then show ?thesis
    by (cases "timer_irq (entered 0x20 None c s)") (auto simp: irq_entry_def irq_handler_stub_def)
qed

section \<open>Properties\<close>

text \<open>
  C12: a timer interrupt is invisible to the code it interrupts. If the interrupt returns at once, it returns with every
  register as it was. If the scheduler switches to another task, the frame stays on the stack, and the end of
  the stub restores every register from it, whatever the registers hold by then and whatever has been written
  elsewhere in memory.
\<close>

theorem timer_interrupt_transparent:
  assumes "isr_irq E rd buf 0x20 c s = Inr (r, s')"
  shows "case r of
      Resumes c' \<Rightarrow> c' = c
    | Switches prev nxt frame \<Rightarrow>
        frame = interrupt_stack c s - 168 \<and>
        (\<forall>m c2. (\<forall>x \<in> region frame 168. m x = kram s' x) \<longrightarrow> isr_return False m frame c2 = c)"
proof -
  let ?p = "frame_of 0x20 None c s" and ?s = "entered 0x20 None c s"
  obtain sw s1 where sw: "timer_irq ?s = Inr (sw, s1)"
    using assms by (auto simp: isr_irq_def isr_enter_eq timer_entry kbind_Inr_iff)
  have r: "s' = s1" "r = (case sw of None \<Rightarrow> Resumes (isr_return False (kram s1) ?p c) | Some (prev, nxt) \<Rightarrow> Switches prev nxt ?p)"
    using assms sw by (auto simp: isr_irq_def isr_enter_eq timer_entry split: option.splits)
  have ws: "words_at (kram s1) ?p (frame_at_entry 0x20 None c)"
    using frame_in_memory [of "0x20" None c s] timer_keeps_ram [OF sw] by simp
  have ret: "isr_return False m ?p c2 = c" if "\<And>x. x \<in> region ?p 168 \<Longrightarrow> m x = kram s1 x" for m c2
    using isr_return_frame [OF words_at_cong [OF ws]] that by (simp add: frame_length)
  have "?p = interrupt_stack c s - 168" by (simp add: frame_of_def frame_length)
  then show ?thesis
    using r ret by (auto split: option.splits)
qed

definition user_regs :: arch_x86_cpu_state where
  "user_regs = zero_cpu_state\<lparr>c_rax := 7, c_r15 := 9, c_rip := 0x400010, c_cs := 0x1b, c_rflags := 0x202, c_rsp := 0x7ff0, c_ss := 0x23\<rparr>"

lemma entered_two_tasks: "sched_inv [0x100, 0x200] (entered vec err c two_tasks)"
  by (rule sched_inv_cong [OF two_tasks_inv]) (simp_all add: entered_def set_kram_def upd_pa_def)

theorem timer_interrupt_transparent_witness:
  "\<forall>E rd buf. \<exists>p n f s'. isr_irq E rd buf 0x20 user_regs two_tasks = Inr (Switches p n f, s') \<and>
     isr_return False (kram s') f zero_cpu_state = user_regs"
proof (intro allI)
  fix E rd buf
  let ?s = "entered 0x20 None user_regs two_tasks"
  have c: "cpu_current ?s = 0" by (simp add: entered_def set_kram_def upd_pa_def two_tasks_def blank_kernel_def)
  obtain p n s1 where "timer_irq ?s = Inr (Some (p, n), s1)"
    using timer_irq_idle [OF entered_two_tasks c] c by (auto simp: tick_ok_def split: option.splits)
  then have r: "isr_irq E rd buf 0x20 user_regs two_tasks = Inr (Switches p n (frame_of 0x20 None user_regs two_tasks), s1)"
    by (simp add: isr_irq_def isr_enter_eq timer_entry)
  from timer_interrupt_transparent [OF r]
  show "\<exists>p n f s'. isr_irq E rd buf 0x20 user_regs two_tasks = Inr (Switches p n f, s') \<and>
     isr_return False (kram s') f zero_cpu_state = user_regs"
    using r by auto
qed

text \<open>
  C22: when the handler of an interrupt returns without switching tasks and without having written into the frame on the stack,
  the interrupted code goes on with every register, the flags and the stack pointer included, as it was, except that
  after the vector \<^verbatim>\<open>0x80\<close> of system calls \<open>rax\<close> holds what the handler has put there.
\<close>

theorem interrupt_returns_registers:
  assumes "irq_handler_stub E rd buf (frame_at (kram (entered vec None c s)) (frame_of vec None c s)) (entered vec None c s) =
      Inr ((fr', None), s')"
    and "\<forall>x \<in> region (frame_of vec None c s) 168. kram s' x = kram (entered vec None c s) x"
  shows "\<exists>s''. isr_irq E rd buf vec c s = Inr (Resumes (c\<lparr>c_rax := if vec = 0x80 then f_rax fr' else c_rax c\<rparr>), s'')"
proof -
  have "keeps_frame vec None c s s'" using assms(2) by (simp add: keeps_frame_def frame_length)
  from irq_returns [OF assms(1) this] show ?thesis
    using irq_handler_only_rax [OF assms(1)] frame_at_noerr(1,8) [OF frame_in_memory, of vec c s] by auto
qed

lemma newline_eq: "newline = [CHR 0x0A]"
  by (simp add: newline_def char_of_def bit_0)

lemma prints_irq_number:
  "\<exists>out. k_printf (''Other IRQ: %x'' @ newline) [VInt v] s = Inr ((), s\<lparr>console_out := out\<rparr>)"
  unfolding newline_eq
  by (auto simp: k_printf_def printf_def vsnprintf_core_def Let_def chr_def parse_spec_def parse_width_def
      parse_precision_def parse_length_def starts_def at_digit_def is_digit_def convert_def int_convs_def va_int_def split: prod.splits intro!: exI [of _ "o_console _"])

theorem interrupt_returns_registers_witness:
  "\<forall>E rd buf. \<exists>s''. isr_irq E rd buf 0x80 user_regs blank_kernel = Inr (Resumes user_regs, s'')"
proof (intro allI)
  fix E rd buf
  let ?s = "entered 0x80 None user_regs blank_kernel" and ?p = "frame_of 0x80 None user_regs blank_kernel"
  let ?fr = "frame_at (kram ?s) ?p"
  have fr: "interrupt_id ?fr = 0x80" "f_rax ?fr = 7"
    using frame_at_noerr(1,8) [OF frame_in_memory, of "0x80" user_regs blank_kernel] by (simp_all add: user_regs_def)
  obtain out where k: "k_printf (''Other IRQ: %x'' @ newline) [VInt 0x80] ?s = Inr ((), ?s\<lparr>console_out := out\<rparr>)"
    using prints_irq_number by blast
  have h: "irq_handler_stub E rd buf ?fr ?s = Inr ((?fr, None), ?s\<lparr>console_out := out\<rparr>)"
    by (simp add: irq_handler_stub_def fr k [simplified] syscall_irq_def SYSCALLS_NR_def)
  have "\<forall>x \<in> region ?p 168. kram (?s\<lparr>console_out := out\<rparr>) x = kram ?s x" by (simp add: kram_def kpa_def)
  from interrupt_returns_registers [OF h this] fr
  have "\<exists>s''. isr_irq E rd buf 0x80 user_regs blank_kernel = Inr (Resumes (user_regs\<lparr>c_rax := 7\<rparr>), s'')" by simp
  moreover have "user_regs\<lparr>c_rax := 7\<rparr> = user_regs" by (simp add: user_regs_def)
  ultimately show "\<exists>s''. isr_irq E rd buf 0x80 user_regs blank_kernel = Inr (Resumes user_regs, s'')" by simp
qed

section \<open>The flags and the segments\<close>

text \<open>Saving and restoring the flags nests, and nothing is delivered in between.\<close>

lemma irq_save_restore:
  "case cpu_irq_save fl of (saved, fl1) \<Rightarrow> fl1 AND IF_FLAG = 0 \<and> cpu_irq_restore saved fl2 = fl \<and> fl1 = cpu_force_cli fl"
  by (simp add: cpu_irq_save_def cpu_irq_restore_def cpu_force_cli_def and.assoc)

lemma irq_save_nested:
  assumes "cpu_irq_save fl = (saved1, fl1)" and "cpu_irq_save fl1 = (saved2, fl2)"
  shows "cpu_irq_restore saved2 fl2 = fl1 \<and> cpu_irq_restore saved2 fl2 AND IF_FLAG = 0 \<and> cpu_irq_restore saved1 fl1 = fl"
  using assms by (auto simp: cpu_irq_save_def cpu_irq_restore_def and.assoc)

text \<open>The selectors that are loaded are those of the table of \<open>setup_gdt\<close>: kernel code, kernel data, the task state.\<close>

lemma reloaded_selectors:
  "unat (drop_bit 3 (sel_cs gdt_reload_segments)) = KERNEL_CS_N" "unat (drop_bit 3 (sel_ss gdt_reload_segments)) = KERNEL_DS_N"
  "unat (drop_bit 3 (sel_tr gdt_reload_segments)) = GDT_TSS_N" "8 * GDT_TSS_N + 16 \<le> 56"
  by (simp_all add: gdt_reload_segments_def KERNEL_CS_N_def KERNEL_DS_N_def GDT_TSS_N_def)

end
