(* ===== verification/Boot.thy ===== *)
theory Boot
  imports Platform Traps
begin

text \<open>
  The entry of the kernel, \<^verbatim>\<open>arch/x86_64/limine_start.c\<close>, on the answers of the boot loader as the structures of
  \<^verbatim>\<open>lucix/limine.h\<close> it reads; with the walk over the PCI segments (\<^verbatim>\<open>drivers/pci/pci.c\<close>) and the table of
  driver initialisations (\<^verbatim>\<open>drivers/driver_initcalls.c\<close>), which are built and not called.
\<close>

section \<open>limine.h\<close>

definition LIMINE_COMMON_MAGIC :: "u64 list" where
  "LIMINE_COMMON_MAGIC = [0xc7b1dd30df4c8b88, 0x0a82e883a194f07b]"

definition LIMINE_FRAMEBUFFER_REQUEST :: "u64 list" where
  "LIMINE_FRAMEBUFFER_REQUEST = LIMINE_COMMON_MAGIC @ [0x9d5827dcd881dd75, 0xa3148604f6fab11b]"

definition LIMINE_MEMMAP_REQUEST :: "u64 list" where
  "LIMINE_MEMMAP_REQUEST = LIMINE_COMMON_MAGIC @ [0x67cf3d9d378a806f, 0xe304acdfc50c3c62]"

definition LIMINE_MODULE_REQUEST :: "u64 list" where
  "LIMINE_MODULE_REQUEST = LIMINE_COMMON_MAGIC @ [0x3e7e279702be32af, 0xca1c4f3bd1280cee]"

definition LIMINE_RSDP_REQUEST :: "u64 list" where
  "LIMINE_RSDP_REQUEST = LIMINE_COMMON_MAGIC @ [0xc5e77b6b397e7b43, 0x27637845accdcf3c]"

definition LIMINE_KERNEL_ADDRESS_REQUEST :: "u64 list" where
  "LIMINE_KERNEL_ADDRESS_REQUEST = LIMINE_COMMON_MAGIC @ [0x71ba76863cc55f63, 0xb2644a48c516a487]"

record limine_framebuffer =
  lfb_address :: u64
  lfb_width :: u64
  lfb_height :: u64
  lfb_pitch :: u64
  lfb_bpp :: u16
  lfb_memory_model :: u8

record limine_file =
  file_revision :: u64
  file_address :: u64
  file_size :: u64

record limine_kernel_address_response =
  physical_base :: u64
  virtual_base :: u64

text \<open>
  A request: its identifier and the answer, where a null pointer is \<open>None\<close>. An answer with a count and an array of
  pointers is the list of the objects.
\<close>

record 'a limine_request =
  req_id :: "u64 list"
  req_revision :: u64
  response :: "'a option"

record limine_requests =
  framebuffer_request :: "limine_framebuffer list limine_request"
  kernel_address_request :: "limine_kernel_address_response limine_request"
  memmap_request :: "limine_memmap_entry list limine_request"
  rsdp_request :: "u64 limine_request"
  module_request :: "limine_file list limine_request"

definition limine_request_of :: "u64 list \<Rightarrow> 'a option \<Rightarrow> 'a limine_request" where
  "limine_request_of i r = \<lparr>req_id = i, req_revision = 0, response = r\<rparr>"

text \<open>The requests of the kernel once the boot loader has filled in the answers.\<close>

definition answered ::
    "limine_framebuffer list option \<Rightarrow> limine_kernel_address_response option \<Rightarrow> limine_memmap_entry list option \<Rightarrow>
     u64 option \<Rightarrow> limine_file list option \<Rightarrow> limine_requests" where
  "answered fbs ka mm rsdp mods =
     \<lparr>framebuffer_request = limine_request_of LIMINE_FRAMEBUFFER_REQUEST fbs,
      kernel_address_request = limine_request_of LIMINE_KERNEL_ADDRESS_REQUEST ka,
      memmap_request = limine_request_of LIMINE_MEMMAP_REQUEST mm,
      rsdp_request = limine_request_of LIMINE_RSDP_REQUEST rsdp,
      module_request = limine_request_of LIMINE_MODULE_REQUEST mods\<rparr>"

definition answer :: "'a limine_request \<Rightarrow> 'a res" where
  "answer r = (case response r of None \<Rightarrow> Inl NullDeref | Some a \<Rightarrow> Inr a)"

definition first_element :: "'a list \<Rightarrow> 'a res" where
  "first_element xs = (case xs of [] \<Rightarrow> Inl OutOfBounds | x # _ \<Rightarrow> Inr x)"

section \<open>limine_start.c\<close>

text \<open>The assignments to fields of 32 bits keep the low half.\<close>

definition efi_fb_data_of :: "limine_framebuffer \<Rightarrow> framebuffer_data" where
  "efi_fb_data_of f =
     \<lparr>fbd_width = ucast (lfb_width f), fbd_height = ucast (lfb_height f), fbd_pitch = ucast (lfb_pitch f),
      fbd_phys_addr = VA2PA (lfb_address f)\<rparr>"

definition ramdisk_of :: "limine_file list \<Rightarrow> init_module" where
  "ramdisk_of mods =
     (case mods of [] \<Rightarrow> \<lparr>mod_addr = 0, mod_size = 0\<rparr> | f # _ \<Rightarrow> \<lparr>mod_addr = file_address f, mod_size = file_size f\<rparr>)"

definition KERNEL_RESERVED_SIZE :: u64 where "KERNEL_RESERVED_SIZE = 0x1000000"

text \<open>The work of \<open>_start\<close> before it calls \<open>start_kernel\<close>.\<close>

definition start_data :: "limine_requests \<Rightarrow> (framebuffer_data \<times> lucix_startup_data \<times> u64 \<times> u64) res" where
  "start_data b =
     bind_res (answer (framebuffer_request b)) (\<lambda>fbs.
     bind_res (first_element fbs) (\<lambda>fb.
     bind_res (answer (memmap_request b)) (\<lambda>es.
     bind_res (initialize_memory es) (\<lambda>zones.
     bind_res (answer (module_request b)) (\<lambda>mods.
     bind_res (answer (kernel_address_request b)) (\<lambda>ka.
     bind_res (answer (rsdp_request b)) (\<lambda>rsdp.
       Inr (efi_fb_data_of fb, \<lparr>mem_info = zones, ramdisk = ramdisk_of mods\<rparr>, physical_base ka, rsdp))))))))"

definition start ::
    "env \<Rightarrow> machine \<Rightarrow> image \<Rightarrow> gdt_state \<Rightarrow> int kop list \<Rightarrow> limine_requests \<Rightarrow>
     (framebuffer_data \<times> arch_state \<times> init_module \<times> u64 \<times> u64) kop" where
  "start E hw img g initcalls b s =
     bind_res (start_data b) (\<lambda>(fbd, setup, base, rsdp).
       kbind (start_kernel E hw img setup rsdp g initcalls) (\<lambda>r. kret (fbd, r))
         (s\<lparr>ps := (ps s)\<lparr>g_kernel_phys_base := base, g_kernel_reserved_size := KERNEL_RESERVED_SIZE\<rparr>\<rparr>))"

section \<open>pci.c\<close>

text \<open>The probe only computes addresses: the loops of its body are a comment.\<close>

definition probe_cfg_space :: "u64 \<Rightarrow> unit kop" where
  "probe_cfg_space address_base = kret ()"

definition pci_device :: "u64 \<Rightarrow> unit kop" where
  "pci_device d =
     kbind (kget (\<lambda>s. devices s d)) (\<lambda>v.
       kwhen (device_type v = DEVICE_TYPE_PCI_CFG)
         (kseq (k_printf (''Found a cfg space, probing'' @ newline) []) (probe_cfg_space (cfg_address_base v))))"

definition pci_body :: "knode \<Rightarrow> kstate \<times> fault option \<Rightarrow> (kstate \<times> fault option) \<times> bool" where
  "pci_body n st =
     (case n of
        DeviceNode d \<Rightarrow> (case pci_device d (fst st) of Inl e \<Rightarrow> ((fst st, Some e), True) | Inr (_, s') \<Rightarrow> ((s', None), False))
      | _ \<Rightarrow> ((fst st, Some WildPointer), True))"

definition pci_init :: "unit kop" where
  "pci_init s =
     (case list_for_each (\<lambda>st. klinks (fst st)) DeviceTable pci_body (lh_next (klinks s DeviceTable)) (s, None) of
        None \<Rightarrow> Inl Halted
      | Some (s', Some e) \<Rightarrow> Inl e
      | Some (s', None) \<Rightarrow> Inr ((), s'))"

section \<open>driver_initcalls.c and interrupt.c\<close>

definition init_call_list :: "int kop list" where "init_call_list = []"

definition driver_initcalls :: "unit kop" where
  "driver_initcalls = do_initcalls init_call_list"

definition custom_print :: "u64 \<Rightarrow> unit kop" where
  "custom_print val = k_printf (''Custom print: %p'' @ newline) [VInt val]"

text \<open>\<open>__load_idtr\<close>: what is loaded, and the flags afterwards.\<close>

definition load_idtr :: "idt_state \<Rightarrow> u64 \<Rightarrow> (u64 \<times> u16) \<times> u64" where
  "load_idtr i rflags = ((idt_base i, idt_limit i), cpu_force_sti rflags)"

section \<open>What is handed over\<close>

lemma answer_simps [simp]:
  "answer (limine_request_of i None) = Inl NullDeref" "answer (limine_request_of i (Some a)) = Inr a"
  by (simp_all add: answer_def limine_request_of_def)

text \<open>The identifiers of the five requests are pairwise different, which is how the boot loader tells them apart.\<close>

lemma request_ids_distinct:
  "distinct [LIMINE_FRAMEBUFFER_REQUEST, LIMINE_KERNEL_ADDRESS_REQUEST, LIMINE_MEMMAP_REQUEST, LIMINE_RSDP_REQUEST, LIMINE_MODULE_REQUEST]"
  by (simp add: LIMINE_FRAMEBUFFER_REQUEST_def LIMINE_KERNEL_ADDRESS_REQUEST_def LIMINE_MEMMAP_REQUEST_def LIMINE_RSDP_REQUEST_def
      LIMINE_MODULE_REQUEST_def LIMINE_COMMON_MAGIC_def)

text \<open>
  The boot loader's answers reach the kernel: with all five answers, at least one framebuffer and at most \<open>MAX_MEM_ZONES\<close>
  usable ranges of memory, \<open>start_kernel\<close> gets the usable ranges in order, the first module as its
  ramdisk and the root pointer of ACPI, and in every other case \<open>_start\<close> faults before it.
\<close>

theorem start_data_iff:
  "start_data (answered fbs ka mm rsdp mods) = Inr (fbd, setup, base, r) \<longleftrightarrow>
     (\<exists>fb fbs' es ms k. fbs = Some (fb # fbs') \<and> mm = Some es \<and> mods = Some ms \<and> ka = Some k \<and> rsdp = Some r \<and>
        length (filter (\<lambda>e. mm_type e = LIMINE_MEMMAP_USABLE) es) \<le> MAX_MEM_ZONES \<and>
        fbd = efi_fb_data_of fb \<and> base = physical_base k \<and>
        setup = \<lparr>mem_info = map (\<lambda>e. \<lparr>mzi_phys_base = mm_base e, mzi_length = mm_length e\<rparr>)
                              (filter (\<lambda>e. mm_type e = LIMINE_MEMMAP_USABLE) es), ramdisk = ramdisk_of ms\<rparr>)"
  unfolding start_data_def answered_def initialize_memory_def initialize_memory_from_eq
  by (cases fbs; cases ka; cases mm; cases rsdp; cases mods; cases "the fbs")
    (auto simp: first_element_def Let_def LIMINE_MEMMAP_USABLE_def)

section \<open>The walk over the device table\<close>

lemma loop_text:
  "\<forall>c \<in> set cs. c \<noteq> chr (CHR ''%'') \<Longrightarrow> vsnprintf_loop f m cs va x = Inr (emit f m cs x)"
proof (induction cs arbitrary: x)
  case (Cons c cs)
  then show ?case using emit_append [of f m "[c]" cs x] by (simp del: emit.simps)
qed simp

text \<open>A format without specifications prints itself.\<close>

lemma k_printf_text:
  assumes "\<forall>c \<in> set fmt. chr c \<noteq> chr (CHR ''%'') \<and> chr c \<noteq> 0"
  shows "k_printf fmt va s = Inr ((), s\<lparr>console_out := console_out s @ map chr fmt\<rparr>)"
proof -
  have "filter (\<lambda>c. c \<noteq> 0) (map chr fmt) = map chr fmt" using assms by (induction fmt) auto
  then show ?thesis
    using core_OutChar [of "map chr fmt" va "map chr fmt", OF loop_text] assms by (simp add: k_printf_def printf_def)
qed

definition probing :: "u8 list" where
  "probing = map chr (''Found a cfg space, probing'' @ newline)"

definition is_pci :: "kstate \<Rightarrow> u64 \<Rightarrow> bool" where
  "is_pci s d \<longleftrightarrow> device_type (devices s d) = DEVICE_TYPE_PCI_CFG"

lemma pci_device_eq:
  "pci_device d s = Inr ((), if is_pci s d then s\<lparr>console_out := console_out s @ probing\<rparr> else s)"
proof -
  have "\<forall>c \<in> set (''Found a cfg space, probing'' @ newline). chr c \<noteq> chr (CHR ''%'') \<and> chr c \<noteq> 0"
    by (simp add: newline_eq chr_def)
  from k_printf_text [OF this, of "[]" s] show ?thesis
    by (simp add: pci_device_def probe_cfg_space_def is_pci_def probing_def)
qed

lemma pci_body_eq:
  "pci_body (DeviceNode d) (s, e) = ((if is_pci s d then s\<lparr>console_out := console_out s @ probing\<rparr> else s, None), False)"
  by (simp add: pci_body_def pci_device_eq)

lemma iterate_pci:
  "iterate pci_body (map DeviceNode ds) (s, None) =
     (s\<lparr>console_out := console_out s @ concat (replicate (length (filter (is_pci s) ds)) probing)\<rparr>, None)"
proof (induction ds arbitrary: s)
  case (Cons d ds)
  let ?s = "s\<lparr>console_out := console_out s @ probing\<rparr>"
  have "is_pci ?s = is_pci s" by (auto simp: is_pci_def fun_eq_iff)
  then show ?case using Cons [of ?s] Cons [of s] by (simp add: pci_body_eq)
qed simp

text \<open>
  The walk over the device table visits every device once, whatever their number: for each of those that stand
  for a PCI segment it prints one line, and it changes nothing but the output.
\<close>

theorem pci_init_visits_all:
  assumes "ring (klinks s) DeviceTable (map DeviceNode ds)"
  shows "pci_init s = Inr ((), s\<lparr>console_out := console_out s @ concat (replicate (length (filter (is_pci s) ds)) probing)\<rparr>)"
proof -
  have k: "klinks (fst (fst (pci_body (DeviceNode d) st))) = klinks (fst st)" for d st
    by (cases st) (simp add: pci_body_eq)
  have "list_for_each (\<lambda>st. klinks (fst st)) DeviceTable pci_body (lh_next (klinks s DeviceTable)) (s, None) =
      Some (iterate pci_body (map DeviceNode ds) (s, None))"
    using list_for_each_ring [where hp = "\<lambda>st. klinks (fst st)" and s = "(s, None)" and body = pci_body
        and head = DeviceTable and xs = "map DeviceNode ds"] assms k by auto
  then show ?thesis by (simp add: pci_init_def iterate_pci)
qed

theorem pci_init_visits_all_witness:
  "\<exists>s. klinks s = list_add (DeviceNode 0x40) DeviceTable (klinks blank_kernel) \<and>
     pci_init s = Inr ((), s\<lparr>console_out := probing\<rparr>)"
proof -
  let ?s = "blank_kernel\<lparr>klinks := list_add (DeviceNode 0x40) DeviceTable (klinks blank_kernel)\<rparr>"
  have "ring (klinks ?s) DeviceTable (map DeviceNode [0x40])"
    using ring_list_add [OF blank_kernel_ring, of "DeviceNode 0x40" DeviceTable] by simp
  from pci_init_visits_all [OF this] show ?thesis
    by (intro exI [of _ ?s]) (simp add: is_pci_def blank_kernel_def DEVICE_TYPE_PCI_CFG_def)
qed

section \<open>The timer\<close>

text \<open>One number after a text.\<close>

lemma loop_skip:
  "\<forall>c \<in> set cs. c \<noteq> chr (CHR ''%'') \<Longrightarrow> vsnprintf_loop f m (cs @ ds) va x = vsnprintf_loop f m ds va (emit f m cs x)"
proof (induction cs arbitrary: x)
  case (Cons c cs)
  then show ?case using emit_append [of f m "[c]" cs x] by (simp del: emit.simps)
qed simp

lemma loop_number:
  "\<exists>x'. vsnprintf_loop f m [chr (CHR ''%''), chr (CHR ''d''), 10] [VInt v] x = Inr x'"
  by (simp add: chr_def parse_spec_def parse_width_def parse_precision_def parse_length_def starts_def at_digit_def is_digit_def
      convert_def int_convs_def va_int_def Let_def)

lemma k_printf_number:
  assumes "\<forall>c \<in> set fmt. chr c \<noteq> chr (CHR ''%'')"
  shows "\<exists>out. k_printf (fmt @ ''%d'' @ newline) [VInt v] s = Inr ((), s\<lparr>console_out := out\<rparr>)"
proof -
  let ?o = "\<lparr>o_mem = kram s, o_console = console_out s, o_fct = []\<rparr>"
  have "map chr (fmt @ ''%d'' @ newline) = map chr fmt @ [chr (CHR ''%''), chr (CHR ''d''), 10]" by (simp add: newline_eq chr_def)
  note e = this
  obtain x' where "vsnprintf_loop OutChar SIZE_MAX [chr (CHR ''%''), chr (CHR ''d''), 10] [VInt v]
      (emit OutChar SIZE_MAX (map chr fmt) (0, ?o)) = Inr x'" using loop_number by blast
  moreover have "\<forall>c \<in> set (map chr fmt). c \<noteq> chr (CHR ''%'')" using assms by simp
  ultimately have "vsnprintf_loop OutChar SIZE_MAX (map chr (fmt @ ''%d'' @ newline)) [VInt v] (0, ?o) = Inr x'"
    unfolding e by (simp only: loop_skip)
  then show ?thesis by (auto simp: k_printf_def printf_def vsnprintf_core_def Let_def split: prod.splits)
qed

lemma set_ticks_eq:
  assumes "\<forall>c \<in> set fmt. chr c \<noteq> chr (CHR ''%'')"
  shows "\<exists>out. set_ticks hw j (fmt @ ''%d'' @ newline) s = Inr (0xffffffff - apic_curr_count hw j,
    s\<lparr>console_out := out, apic_writes := apic_writes s @ [(apic_regs s + 0x380, 0xffffffff - apic_curr_count hw j)]\<rparr>)"
  using k_printf_number [OF assms, of "ucast (0xffffffff - apic_curr_count hw j)" s]
  by (auto simp: set_ticks_def Let_def apic_write32_def APIC_LVT_INIT_COUNT_REG_def simp del: append_Cons append_assoc)

lemma hpet_wait_eq:
  assumes "g_hpet_regs s \<noteq> 0" and "drop_bit 32 (rd64 (kram s) (g_hpet_regs s)) = p" and "p \<noteq> 0"
    and "hpet_spin (hpet_counter hw) (hpet_count_max p 10) 0 = Some j"
  shows "\<exists>m. hpet_wait_millis hw 10 s = Inr (j, set_kram m s)"
  using assms by (auto simp: hpet_wait_millis_def hpet_period_def kptr_def set_kram_comp)

lemma hpet_calibration_eq:
  assumes "g_hpet_regs s \<noteq> 0" and "drop_bit 32 (rd64 (kram s) (g_hpet_regs s)) = p" and "p \<noteq> 0"
    and "hpet_spin (hpet_counter hw) (hpet_count_max p 10) 0 = Some j"
  shows "\<exists>m out. hpet_calibration hw s = Inr (0xffffffff - apic_curr_count hw j,
    (set_kram m s)\<lparr>console_out := out, apic_writes := apic_writes s @
       [(apic_regs s + 0x380, 0xffffffff), (apic_regs s + 0x380, 0xffffffff - apic_curr_count hw j)]\<rparr>)"
proof -
  define s1 where "s1 = s\<lparr>apic_writes := apic_writes s @ [(apic_regs s + 0x380, 0xffffffff)]\<rparr>"
  have w: "apic_write32 APIC_LVT_INIT_COUNT_REG 0xffffffff s = Inr ((), s1)"
    by (simp add: apic_write32_def s1_def APIC_LVT_INIT_COUNT_REG_def)
  have "g_hpet_regs s1 \<noteq> 0" "drop_bit 32 (rd64 (kram s1) (g_hpet_regs s1)) = p"
    using assms(1,2) by (simp_all add: s1_def kram_def kpa_def)
  from hpet_wait_eq [OF this assms(3,4)] obtain m where m: "hpet_wait_millis hw 10 s1 = Inr (j, set_kram m s1)" by blast
  have "\<forall>c \<in> set ''HPET ticks counter: ''. chr c \<noteq> chr (CHR ''%'')" by (simp add: chr_def)
  from set_ticks_eq [OF this, of hw j "set_kram m s1"] obtain out where
    t: "set_ticks hw j (''HPET ticks counter: %d'' @ newline) (set_kram m s1) = Inr (0xffffffff - apic_curr_count hw j,
      (set_kram m s1)\<lparr>console_out := out, apic_writes := apic_writes (set_kram m s1) @
         [(apic_regs (set_kram m s1) + 0x380, 0xffffffff - apic_curr_count hw j)]\<rparr>)" by auto
  have "hpet_calibration hw s = Inr (0xffffffff - apic_curr_count hw j,
      (set_kram m s1)\<lparr>console_out := out, apic_writes := apic_writes (set_kram m s1) @
         [(apic_regs (set_kram m s1) + 0x380, 0xffffffff - apic_curr_count hw j)]\<rparr>)"
    using w m t unfolding hpet_calibration_def by (simp only: kseq_simps kbind_simps)
  then show ?thesis by (intro exI [of _ m] exI [of _ out]) (simp add: s1_def set_kram_def upd_pa_def)
qed

text \<open>
  C39: the local APIC is programmed for a periodic interrupt every ten milliseconds on the vector the scheduler listens on.
  With an HPET of a non-zero period that keeps counting and a base whose bits 12 to 15 are zero, \<open>init_apic\<close> returns: the base
  register gets the enable bit and the very address, seen through the direct map, at which all registers are written; the timer
  is set to divide by eight, periodic and unmasked on vector \<^verbatim>\<open>0x20\<close>; and the last initial count is the number of ticks
  that the timer, restarted at \<^verbatim>\<open>0xffffffff\<close>, had made at the first reading of the HPET that stands for more than \<open>10 ^ 13\<close>
  femtoseconds. Both legacy controllers are masked, and \<open>__irq_handler_stub\<close> answers the vector with \<open>timer_irq\<close>.
\<close>

theorem init_apic_starts_timer:
  assumes "g_hpet_regs s \<noteq> 0" and "drop_bit 32 (rd64 (kram s) (g_hpet_regs s)) = p" and "p \<noteq> 0"
    and "hpet_count_max p 10 < hpet_counter hw n" and "fst (msr_apic_base hw) AND 0xf000 = 0"
  shows "\<exists>s' msr ticks j d. init_apic hw s = Inr ((msr, ticks), s') \<and>
    bit (fst msr) 11 \<and> apic_regs s' = PA2VA (ucast (fst msr AND 0xfffff000)) \<and>
    apic_writes s' = apic_writes s @ map (\<lambda>(r, v). (apic_regs s' + r, v)) [(0xF0, 0x1ff), (0x3E0, 2), (0x320, 0x20000 OR 0x20),
      (0x380, 0xffffffff), (0x380, 0xffffffff), (0x380, ticks)] \<and>
    ticks = 0xffffffff - apic_curr_count hw j \<and> 10 ^ 13 < unat (hpet_counter hw j) * unat p \<and>
    (\<forall>i < j. unat (hpet_counter hw i) * unat p \<le> 10 ^ 13) \<and>
    port_writes s' = port_writes s @ [(0xa1, 4, d), (0x21, 4, d)] \<and> d AND 0xff = 0xff \<and>
    (\<forall>E rd buf fr. interrupt_id fr = 0x20 \<longrightarrow>
       irq_handler_stub E rd buf fr = kbind timer_irq (\<lambda>sw. kret (fr, sw)))"
proof -
  define d where "d = (eax_at_pic hw AND NOT 0xff) OR (0xff :: u32)"
  define msr where "msr = set_apic_base (get_apic_base hw)"
  define R where "R = PA2VA (get_apic_base hw)"
  define s0 where "s0 = s\<lparr>apic_regs := R, port_writes := port_writes s @ [(0xa1, 4, d), (0x21, 4, d)],
    apic_writes := apic_writes s @ [(R + 0xF0, 0x1ff), (R + 0x3E0, 2), (R + 0x320, 0x20020), (R + 0x380, 0xffffffff)]\<rparr>"
  obtain j where j: "hpet_spin (hpet_counter hw) (hpet_count_max p 10) 0 = Some j"
    "10 ^ 13 < unat (hpet_counter hw j) * unat p" "\<forall>i < j. unat (hpet_counter hw i) * unat p \<le> 10 ^ 13"
    using hpet_spin_ten_millis [of p "hpet_counter hw" n] assms(3,4) by auto
  have "g_hpet_regs s0 \<noteq> 0" "drop_bit 32 (rd64 (kram s0) (g_hpet_regs s0)) = p"
    using assms(1,2) by (simp_all add: s0_def kram_def kpa_def)
  from hpet_calibration_eq [OF this assms(3) j(1)] obtain m out where c: "hpet_calibration hw s0 = Inr (0xffffffff - apic_curr_count hw j,
    (set_kram m s0)\<lparr>console_out := out, apic_writes := apic_writes s0 @
       [(apic_regs s0 + 0x380, 0xffffffff), (apic_regs s0 + 0x380, 0xffffffff - apic_curr_count hw j)]\<rparr>)" by auto
  have "init_apic hw s = kbind (hpet_calibration hw) (\<lambda>t. kret (msr, t)) s0"
    using assms(1) by (simp add: init_apic_def disable_pic_def init_timer_def apic_write32_def out32_def Let_def
        s0_def d_def R_def msr_def APIC_SPURIOUS_INT_VECTOR_REG_def APIC_DIVIDE_CONF_REG_def APIC_TIMER_DIVIDE_BY_8_def APIC_LVT_TIMER_REG_def
        APIC_TIMER_PERIODIC_def APIC_LVT_INIT_COUNT_REG_def)
  then have "init_apic hw s = Inr ((msr, 0xffffffff - apic_curr_count hw j),
    (set_kram m s0)\<lparr>console_out := out, apic_writes := apic_writes s0 @
       [(apic_regs s0 + 0x380, 0xffffffff), (apic_regs s0 + 0x380, 0xffffffff - apic_curr_count hw j)]\<rparr>)" (is "_ = Inr (_, ?s')")
    using c by (simp only: kbind_simps kop_simps)
  moreover have "bit (fst msr) 11" by (simp add: msr_def set_apic_base_def IA32_APIC_BASE_MSR_ENABLE_def bit_simps)
  moreover have "apic_regs ?s' = PA2VA (ucast (fst msr AND 0xfffff000))"
    using set_apic_base_address [OF assms(5)] by (simp add: s0_def R_def msr_def set_kram_def upd_pa_def)
  moreover have "apic_writes ?s' = apic_writes s @ map (\<lambda>(r, v). (apic_regs ?s' + r, v)) [(0xF0, 0x1ff), (0x3E0, 2), (0x320, 0x20000 OR 0x20),
      (0x380, 0xffffffff), (0x380, 0xffffffff), (0x380, 0xffffffff - apic_curr_count hw j)]"
    by (simp add: s0_def set_kram_def upd_pa_def)
  moreover have "port_writes ?s' = port_writes s @ [(0xa1, 4, d), (0x21, 4, d)]" by (simp add: s0_def set_kram_def upd_pa_def)
  moreover have "d AND 0xff = 0xff" unfolding d_def by (rule bit_word_eqI) (auto simp: bit_simps)
  moreover have "irq_handler_stub E rd buf fr = kbind timer_irq (\<lambda>sw. kret (fr, sw))" if "interrupt_id fr = 0x20" for E rd buf fr
    using that by (simp add: irq_handler_stub_def)
  ultimately show ?thesis using j(2,3) by blast
qed

text \<open>
  A machine whose HPET advances by a thousand of its periods between two readings, and whose timer makes 9000 ticks in that time.
\<close>

definition example_machine :: machine where
  "example_machine = \<lparr>msr_apic_base = (0xfee00900, 0), hpet_counter = (\<lambda>i. of_nat (1000 * i)), pit_port = (\<lambda>_. 0),
     port_60 = 0, apic_curr_count = (\<lambda>i. 0xffffffff - of_nat (9000 * i)), eax_at_pic = 0\<rparr>"

theorem init_apic_starts_timer_witness:
  "\<exists>s s' msr ticks j. init_apic example_machine s = Inr ((msr, ticks), s') \<and> g_hpet_regs s = 0x1000 \<and>
     ticks = of_nat (9000 * j) \<and> 10 ^ 13 < unat (of_nat (1000 * j) :: u64) * 0x429b17f"
proof -
  let ?s = "set_kram (wr64 0x1000 (push_bit 32 0x429b17f)) (blank_kernel\<lparr>g_hpet_regs := 0x1000\<rparr>)"
  have s: "g_hpet_regs ?s = 0x1000" by (simp add: set_kram_def upd_pa_def)
  then have p: "drop_bit 32 (rd64 (kram ?s) (g_hpet_regs ?s)) = 0x429b17f" by (simp add: kram_set_kram rd64_wr64_same)
  have "hpet_count_max 0x429b17f 10 < hpet_counter example_machine 1000" "fst (msr_apic_base example_machine) AND 0xf000 = 0"
    by (simp_all add: hpet_count_max_def femto_def example_machine_def)
  from init_apic_starts_timer [OF _ p _ this] s obtain s' msr ticks j where
    "init_apic example_machine ?s = Inr ((msr, ticks), s')" "ticks = 0xffffffff - apic_curr_count example_machine j"
    "10 ^ 13 < unat (hpet_counter example_machine j) * unat (0x429b17f :: u64)" by auto
  then show ?thesis using s by (intro exI [of _ ?s] exI [of _ s'] exI [of _ msr] exI [of _ ticks] exI [of _ j])
      (simp add: example_machine_def)
qed

end
