(* ===== verification/User_Program.thy ===== *)
theory User_Program
  imports Boot
begin

text \<open>
  The program in \<^verbatim>\<open>usr/\<close> that runs in user space, and with it a system call from end to end: the stub of
  \<^verbatim>\<open>usr/syscall.s\<close>, the trap through the interrupt table, the frame on the kernel's stack, the dispatcher, the copy from user memory,
  the console device and the return to the program.
\<close>

section \<open>usr/syscall.s, usr/main.c\<close>

text \<open>
  The stub \<open>write\<close> up to its \<open>ret\<close>: the number of the system call in \<open>rax\<close>, the arguments in the registers of
  the C calling convention, and the trap through vector \<^verbatim>\<open>0x80\<close>.
\<close>

definition usr_write :: "env \<Rightarrow> (u64 \<Rightarrow> u8 kop) \<Rightarrow> u64 \<Rightarrow> arch_x86_cpu_state \<Rightarrow> trap_result kop" where
  "usr_write E rd buf c = trap E rd buf 0 (isr_stub_table ! 0x80) None (c\<lparr>c_rax := 1\<rparr>)"

definition usr_str :: "u8 list" where
  "usr_str = map chr (''Hello from userspace!!'' @ newline) @ [0]"

text \<open>\<open>_entry\<close> up to its endless loop; \<open>str\<close> is the address of the text.\<close>

definition usr_entry :: "env \<Rightarrow> (u64 \<Rightarrow> u8 kop) \<Rightarrow> u64 \<Rightarrow> u64 \<Rightarrow> arch_x86_cpu_state \<Rightarrow> trap_result kop" where
  "usr_entry E rd buf str c = usr_write E rd buf (c\<lparr>c_rdi := 1, c_rsi := str, c_rdx := 24\<rparr>)"

section \<open>The message of the dispatcher\<close>

lemma loop_hex_vector:
  "vsnprintf_loop f m [chr (CHR ''%''), chr (CHR ''x''), 10] [VInt 0x80] x = Inr (emit f m [chr (CHR ''8''), chr (CHR ''0''), 10] x)"
proof -
  have "ntoa_digits 0x80 16 0 [] = [chr (CHR ''0''), chr (CHR ''8'')]"
    by (simp add: ntoa_digits.simps digit_char_def PRINTF_NTOA_BUFFER_SIZE_def Let_def has_def chr_def)
  note d = this
  show ?thesis
    using emit_append [of f m "[56, 48]" "[10]" x]
    by (simp add: chr_def parse_spec_def parse_width_def parse_precision_def parse_length_def starts_def at_digit_def is_digit_def
        convert_def int_convs_def va_int_def Let_def conv_unsigned_def ntoa_long_def ntoa_format_def int_flags_def is_signed_def int_base_def
        has_def d ntoa_pad_def ntoa_hash_def ntoa_sign_def ntoa_width_def out_rev_def spaces_def pad_zeros_def)
qed

section \<open>Writing to the console\<close>

lemma set_kram_files [simp]: "files (set_kram f s) = files s"
  by (simp add: set_kram_def upd_pa_def)

lemma block_user_stores:
  assumes "n < 256"
  shows "block (user_stores u dst usr 0 (Suc n) m) dst n = map (\<lambda>i. u (usr + of_nat i)) [0..<n]"
  using user_stores_nth [of 0 _ "Suc n" u dst usr m] assms by (simp add: block_def del: user_stores.simps)

text \<open>A task with an open console and the bytes at \<open>src\<close> mapped.\<close>

definition console_task :: "kstate \<Rightarrow> u64 \<Rightarrow> u64 list \<Rightarrow> u64 \<Rightarrow> bool" where
  "console_task s mm vs fd \<longleftrightarrow>
     areas s mm vs \<and> 0 \<notin> set vs \<and> cpu_current s \<noteq> 0 \<and>
     (let d = tasks s (cpu_current s)
      in t_mm d = mm \<and> 0 \<le> sint fd \<and> sint fd < int (t_table_size d) \<and> t_fd d (unat fd) \<noteq> 0 \<and>
         (\<exists>k. f_ops (files s (t_fd d (unat fd))) = DriverFops k))"

lemma sys_write_console:
  assumes "console_task s mm vs fd" and "user_bytes rd u s vs src (Suc n)" and "0 < n" and "n < 256"
  shows "\<exists>s'. sys_write E rd buff fd src (of_nat n) s = Inr (int n, s') \<and>
    console_out s' = console_out s @ map (\<lambda>i. u (src + of_nat i)) [0..<n] \<and>
    (\<forall>x. x \<notin> region buff 256 \<longrightarrow> kram s' x = kram s x)"
proof -
  let ?c = "cpu_current s"
  let ?d = "tasks s ?c"
  let ?fl = "t_fd ?d (unat fd)"
  obtain k where ct: "areas s mm vs" "0 \<notin> set vs" "?c \<noteq> 0" "t_mm ?d = mm" "0 \<le> sint fd" "sint fd < int (t_table_size ?d)" "?fl \<noteq> 0"
    "f_ops (files s ?fl) = DriverFops k"
    using assms(1) by (auto simp: console_task_def Let_def)
  let ?s0 = "set_kram (memset buff 0 256) s"
  let ?st = "user_stores u buff src 0 (Suc n)"
  let ?s1 = "set_kram ?st ?s0"
  let ?bs = "map (\<lambda>i. u (src + of_nat i)) [0..<n]"
  have c: "sint (of_nat n :: u64) = int n" "unat (of_nat n :: u64) = n" using assms(4) by (simp_all add: sint_u64 unat_of_nat)
  have a0: "areas ?s0 mm vs" using ct(1) by simp
  have u0: "user_bytes rd u ?s0 vs src (0 + Suc n)" using assms(2) by (simp add: user_bytes_def)
  have "copy_from_user rd buff 256 src n ?s0 = Inr (int (Suc n), ?s1)"
    using copy_user_loop_runs [OF a0 ct(2) u0, of 256 buff] ct(3,4) assms(4)
    by (simp add: copy_from_user_def current_mm_def del: copy_user_loop.simps user_stores.simps)
  moreover have "file_write E ?fl buff (of_nat n) ?s1 = Inr (of_nat n, ?s1\<lparr>console_out := console_out s @ ?bs\<rparr>)"
    using ct(8) block_user_stores [OF assms(4)]
    by (simp add: file_write_def console_write_def c console_set_kram kram_set_kram del: user_stores.simps)
  ultimately have "sys_write_loop E rd buff ?fl src (int n) 0 0 s = Inr (of_nat n, ?s1\<lparr>console_out := console_out s @ ?bs\<rparr>)"
    using assms(3,4) by (subst sys_write_loop.simps) (simp add: Let_def sys_write_loop.simps [of _ _ _ _ _ _ 256] del: user_stores.simps)
  then have "sys_write E rd buff fd src (of_nat n) s = Inr (int n, ?s1\<lparr>console_out := console_out s @ ?bs\<rparr>)"
    using ct(3-8) by (simp add: sys_write_def c Let_def del: user_stores.simps)
  moreover have "kram ?s1 x = kram s x" if "x \<notin> region buff 256" for x
  proof -
    have "?st (memset buff 0 256 (kram s)) x = memset buff 0 256 (kram s) x"
      using that assms(4) by (intro user_stores_other) (auto simp: region_def)
    then show ?thesis using that memset_eq [of buff 0 256 "kram s" x] by (simp add: kram_set_kram del: user_stores.simps)
  qed
  ultimately show ?thesis by (auto simp: kram_def kpa_def simp del: user_stores.simps)
qed

lemma sys_write_overruns:
  assumes "console_task s mm vs fd" and "user_bytes rd u s vs src (Suc n)" and "256 \<le> n" and "n < 2 ^ 63"
  shows "sys_write E rd buff fd src (of_nat n) s = Inl OutOfBounds"
proof -
  let ?c = "cpu_current s"
  let ?d = "tasks s ?c"
  let ?fl = "t_fd ?d (unat fd)"
  obtain k where ct: "areas s mm vs" "0 \<notin> set vs" "?c \<noteq> 0" "t_mm ?d = mm" "0 \<le> sint fd" "sint fd < int (t_table_size ?d)" "?fl \<noteq> 0"
    "f_ops (files s ?fl) = DriverFops k"
    using assms(1) by (auto simp: console_task_def Let_def)
  let ?s0 = "set_kram (memset buff 0 256) s"
  have c: "sint (of_nat n :: u64) = int n" using assms(4) by (simp add: sint_u64 unat_of_nat)
  have a0: "areas ?s0 mm vs" using ct(1) by simp
  have u0: "user_bytes rd u ?s0 vs src (0 + Suc 256)" using assms(2) assms(3) by (simp add: user_bytes_def)
  have "nat (if int n > 256 then 256 else int n) = 256" using assms(3) by auto
  moreover have "copy_from_user rd buff 256 src 256 ?s0 = Inl OutOfBounds"
    using copy_user_loop_overflows [OF a0 ct(2) u0, of 256 buff] ct(3,4)
    by (simp add: copy_from_user_def current_mm_def del: copy_user_loop.simps)
  ultimately have "sys_write_loop E rd buff ?fl src (int n) 0 0 s = Inl OutOfBounds"
    using assms(3) by (subst sys_write_loop.simps) (simp add: Let_def)
  then show ?thesis using ct(3-8) by (simp add: sys_write_def c Let_def)
qed

lemma k_printf_vector:
  "k_printf (''Other IRQ: %x'' @ newline) [VInt 0x80] s =
     Inr ((), s\<lparr>console_out := console_out s @ map chr (''Other IRQ: 80'' @ newline)\<rparr>)"
proof -
  have e: "map chr (''Other IRQ: %x'' @ newline) = map chr ''Other IRQ: '' @ [chr (CHR ''%''), chr (CHR ''x''), 10]"
    "map chr (''Other IRQ: 80'' @ newline) = map chr ''Other IRQ: '' @ [chr (CHR ''8''), chr (CHR ''0''), 10]"
    by (simp_all add: newline_eq chr_def)
  have t: "\<forall>c \<in> set (map chr ''Other IRQ: ''). c \<noteq> chr (CHR ''%'')" by (simp add: chr_def)
  have "vsnprintf_loop f m (map chr (''Other IRQ: %x'' @ newline)) [VInt 0x80] x =
      Inr (emit f m (map chr (''Other IRQ: 80'' @ newline)) x)" for f m x
    unfolding e loop_skip [OF t] loop_hex_vector emit_append ..
  note p = core_OutChar [OF this]
  have "filter (\<lambda>c. c \<noteq> 0) (map chr (''Other IRQ: 80'' @ newline)) = map chr (''Other IRQ: 80'' @ newline)"
    by (simp add: newline_eq chr_def)
  then show ?thesis unfolding k_printf_def printf_def p by simp
qed

section \<open>The system call as user space sees it\<close>

lemma console_task_cong:
  assumes "console_task s mm vs fd"
  shows "console_task (set_kram f s\<lparr>console_out := cs\<rparr>) mm vs fd"
  using assms by (simp add: console_task_def Let_def)

lemma trap_syscall: "trap E rd buf cr2 (isr_stub_table ! 0x80) err c = isr_irq E rd buf 0x80 c"
  by (simp add: trap_def isr_stub_table_def nth_append)

lemma user_bytes_cong:
  "user_bytes rd u s vs src n \<Longrightarrow> user_bytes rd u (set_kram f s\<lparr>console_out := cs\<rparr>) vs src n"
  by (simp add: user_bytes_def)

lemma irq_syscall_write:
  assumes "interrupt_id fr = 0x80" and "f_rax fr = 1"
  shows "irq_handler_stub E rd buf fr s = bind_res (sys_write E rd buf (f_rdi fr) (f_rsi fr) (f_rdx fr)
      (s\<lparr>console_out := console_out s @ map chr (''Other IRQ: 80'' @ newline)\<rparr>))
    (\<lambda>(r, s'). Inr ((fr\<lparr>f_rax := word_of_int r\<rparr>, None), s'))"
proof -
  let ?s = "s\<lparr>console_out := console_out s @ map chr (''Other IRQ: 80'' @ newline)\<rparr>"
  have "syscall_irq E rd buf fr ?s = bind_res (sys_write E rd buf (f_rdi fr) (f_rsi fr) (f_rdx fr) ?s)
      (\<lambda>(r, s'). Inr (fr\<lparr>f_rax := word_of_int r\<rparr>, s'))"
    using assms(2) by (simp add: syscall_irq_def SYSCALLS_NR_def syscall_table_def call_syscall_def kbind_def kret_def Let_def)
  then have "kbind (syscall_irq E rd buf fr) (\<lambda>fr'. kret (fr', None)) ?s =
      bind_res (sys_write E rd buf (f_rdi fr) (f_rsi fr) (f_rdx fr) ?s) (\<lambda>(r, s'). Inr ((fr\<lparr>f_rax := word_of_int r\<rparr>, None), s'))"
    by (cases "sys_write E rd buf (f_rdi fr) (f_rsi fr) (f_rdx fr) ?s") (auto simp: kbind_def kret_def)
  moreover have "irq_handler_stub E rd buf fr s = kbind (syscall_irq E rd buf fr) (\<lambda>fr'. kret (fr', None)) ?s"
    using k_printf_vector [of s] assms(1) by (simp add: irq_handler_stub_def kwhen_def)
  ultimately show ?thesis by simp
qed

text \<open>
  C8: a program that calls \<open>write\<close> on a descriptor of the console with less than 256 bytes gets the number of bytes
  back in \<open>rax\<close> and every other register as it was, and the bytes are on the console, after the line the dispatcher prints for every
  interrupt; with 256 bytes or more the kernel writes behind the end of its buffer. The bytes and the one after them are in areas of the process, and the buffer of \<open>sys_write\<close> is not
  where the processor saved the registers.
\<close>

theorem write_syscall_prints:
  assumes "console_task s mm vs (c_rdi c)" and "user_bytes rd u s vs (c_rsi c) (Suc n)" and "c_rdx c = of_nat n" and "0 < n" and "n < 2 ^ 63"
    and "region buf 256 \<inter> region (frame_of 0x80 None c s) 168 = {}"
  shows "(n < 256 \<longrightarrow> (\<exists>s'. usr_write E rd buf c s = Inr (Resumes (c\<lparr>c_rax := of_nat n\<rparr>), s') \<and>
      console_out s' = console_out s @ map chr (''Other IRQ: 80'' @ newline) @ map (\<lambda>i. u (c_rsi c + of_nat i)) [0..<n])) \<and>
    (256 \<le> n \<longrightarrow> usr_write E rd buf c s = Inl OutOfBounds)"
proof -
  let ?c = "c\<lparr>c_rax := 1\<rparr>"
  let ?p = "frame_of 0x80 None ?c s" and ?s = "entered 0x80 None ?c s"
  let ?fr = "frame_at (kram ?s) ?p" and ?msg = "map chr (''Other IRQ: 80'' @ newline)"
  let ?s1 = "?s\<lparr>console_out := console_out s @ ?msg\<rparr>"
  let ?d = "tasks s (cpu_current s)"
  have fr: "interrupt_id ?fr = 0x80" "f_rax ?fr = 1" "f_rdi ?fr = c_rdi c" "f_rsi ?fr = c_rsi c" "f_rdx ?fr = of_nat n"
    using frame_at_noerr [OF frame_in_memory, of "0x80" ?c s] assms(3) by simp_all
  have p: "?p = frame_of 0x80 None c s" by (simp add: frame_of_def interrupt_stack_def from_user_def frame_length)
  have e: "?s1 = set_kram (store_words ?p (frame_at_entry 0x80 None ?c)) s\<lparr>console_out := console_out s @ ?msg\<rparr>"
    by (simp add: entered_def)
  have ct: "console_task ?s1 mm vs (c_rdi c)" unfolding e by (rule console_task_cong [OF assms(1)])
  have ub: "user_bytes rd u ?s1 vs (c_rsi c) (Suc n)" unfolding e by (rule user_bytes_cong [OF assms(2)])
  have co: "console_out ?s = console_out s" by (simp add: entered_def console_set_kram)
  note h = irq_syscall_write [OF fr(1,2), of E rd buf ?s, unfolded fr co]
  have "usr_write E rd buf c s = Inl OutOfBounds" if "256 \<le> n"
  proof -
    have "sys_write E rd buf (c_rdi c) (c_rsi c) (of_nat n) ?s1 = Inl OutOfBounds"
      by (rule sys_write_overruns [OF ct ub that assms(5)])
    then show ?thesis using h by (simp add: usr_write_def trap_syscall isr_irq_def irq_entry_def isr_enter_eq)
  qed
  moreover have "\<exists>s'. usr_write E rd buf c s = Inr (Resumes (c\<lparr>c_rax := of_nat n\<rparr>), s') \<and>
      console_out s' = console_out s @ ?msg @ map (\<lambda>i. u (c_rsi c + of_nat i)) [0..<n]" if small: "n < 256"
  proof -
    obtain s2 where s2: "sys_write E rd buf (c_rdi c) (c_rsi c) (of_nat n) ?s1 = Inr (int n, s2)"
      "console_out s2 = console_out s @ ?msg @ map (\<lambda>i. u (c_rsi c + of_nat i)) [0..<n]"
      "\<forall>x. x \<notin> region buf 256 \<longrightarrow> kram s2 x = kram ?s1 x"
      using sys_write_console [OF ct ub assms(4) small, of E buf] by auto
    have "keeps_frame 0x80 None ?c s s2"
      using s2(3) assms(6) p by (auto simp: keeps_frame_def frame_length kram_def kpa_def)
    moreover have "irq_handler_stub E rd buf ?fr ?s = Inr ((?fr\<lparr>f_rax := of_nat n\<rparr>, None), s2)" using h s2(1) by simp
    ultimately obtain s3 where "isr_irq E rd buf 0x80 ?c s = Inr (Resumes (?c\<lparr>c_rax := of_nat n\<rparr>), s3)" "console_out s3 = console_out s2"
      using irq_returns [of E rd buf "0x80" ?c s "?fr\<lparr>f_rax := of_nat n\<rparr>" s2] by auto
    then show ?thesis using s2(2) by (simp add: usr_write_def trap_syscall)
  qed
  ultimately show ?thesis using not_le by blast
qed

text \<open>
  The program of the repository: the 24 bytes it asks for are its text of 23 characters and the zero behind it.
\<close>

lemma usr_str_length: "length usr_str = 24"
  by (simp add: usr_str_def newline_eq)

definition hello_task :: kstate where
  "hello_task = user_task\<lparr>files := (\<lambda>_. (files blank_kernel 0)\<lparr>f_ops := DriverFops 5\<rparr>),
     tasks := (\<lambda>_. (tasks blank_kernel 0)\<lparr>t_mm := 1, t_table_size := 32, t_fd := (\<lambda>i. if i = 1 then 0x700 else 0)\<rparr>), tss_rsp0 := 0x8000\<rparr>"

definition hello_byte :: "u64 \<Rightarrow> u8" where
  "hello_byte a = (if unat (a - 0x500100) < 24 then usr_str ! unat (a - 0x500100) else 0)"

theorem write_syscall_prints_witness:
  "\<forall>E. \<exists>s'. usr_entry E (\<lambda>a. kret (hello_byte a)) 0x9000 0x500100 user_regs hello_task =
       Inr (Resumes (user_regs\<lparr>c_rdi := 1, c_rsi := 0x500100, c_rdx := 24, c_rax := 24\<rparr>), s') \<and>
     console_out s' = map chr (''Other IRQ: 80'' @ newline) @ usr_str"
proof
  fix E
  let ?c = "user_regs\<lparr>c_rdi := 1, c_rsi := 0x500100, c_rdx := 24\<rparr>"
  let ?rd = "\<lambda>a. kret (hello_byte a)"
  have ct: "console_task hello_task 1 [0x10, 0x20] (c_rdi ?c)"
    using two_areas_facts(1) by (simp add: console_task_def hello_task_def user_task_def)
  have "user_bytes ?rd hello_byte hello_task [0x10, 0x20] 0x500100 25"
  proof -
    have "(0x500000 :: u64) \<le> 0x500100 + of_nat i" "0x500100 + of_nat i < (0x501000 :: u64)" if "i < 25" for i
      using that by (simp_all add: word_le_nat_alt word_less_nat_alt unat_word_ariths unat_of_nat)
    then show ?thesis by (simp add: user_bytes_def hello_task_def user_task_def two_areas_def)
  qed
  then have ub: "user_bytes ?rd hello_byte hello_task [0x10, 0x20] (c_rsi ?c) (Suc 24)" by simp
  have "frame_of 0x80 None ?c hello_task = 0x7f58"
    by (simp add: frame_of_def frame_length interrupt_stack_def from_user_def user_regs_def hello_task_def)
  moreover have "region 0x9000 256 \<inter> region 0x7f58 168 = {}"
    by (auto simp: region_def word_unat_eq_iff unat_word_ariths unat_of_nat)
  ultimately have fr: "region 0x9000 256 \<inter> region (frame_of 0x80 None ?c hello_task) 168 = {}" by simp
  have b: "map (\<lambda>i. hello_byte (0x500100 + of_nat i)) [0..<24] = usr_str"
    using usr_str_length by (intro nth_equalityI) (simp_all add: hello_byte_def unat_of_nat del: upt_rec_numeral)
  have "console_out hello_task = []" by (simp add: hello_task_def user_task_def two_areas_def blank_kernel_def)
  then show "\<exists>s'. usr_entry E ?rd 0x9000 0x500100 user_regs hello_task =
       Inr (Resumes (user_regs\<lparr>c_rdi := 1, c_rsi := 0x500100, c_rdx := 24, c_rax := 24\<rparr>), s') \<and>
     console_out s' = map chr (''Other IRQ: 80'' @ newline) @ usr_str"
    using write_syscall_prints [OF ct ub _ _ _ fr, of E] b by (simp add: usr_entry_def del: upt_rec_numeral)
qed

end
