(* ===== verification/Early_Paging.thy ===== *)
theory Early_Paging
  imports Paging
begin

text \<open>
  The page tables of \<^verbatim>\<open>arch/x86_64/early_paging.c\<close>, static arrays filled before there is an allocator: the physical
  memory below four gigabytes in pages of two megabytes and the kernel in small pages. The call in \<^verbatim>\<open>_start\<close> is commented out,
  since the boot loader maps both regions itself. The tables are a store of entries, their addresses those of the linker; the walk of the processor over them
  says what the file is for.
\<close>

section \<open>The tables\<close>

text \<open>One constructor per array of the file; the arrays of arrays have an index.\<close>

datatype early_table =
    Pml4
  | Pdpt_identity
  | Pdpt_vm_region
  | Pdpt_kernel
  | Pdet_identity nat
  | Pdet_kernel
  | Pte_kernel nat

record early_state =
  table_entries :: "early_table \<times> nat \<Rightarrow> u64"
  kernel_phys_base :: u64
  early_cr3 :: u64

definition PAGE_FRAME_BIG :: "u64 \<Rightarrow> u64" where
  "PAGE_FRAME_BIG p = p AND 0x0000ffffffe00000"

definition kernel_va2phys :: "u64 \<Rightarrow> u64 \<Rightarrow> u64" where
  "kernel_va2phys base va = (let offset_from_mapping = va XOR BASE_KERNEL_VA in base + offset_from_mapping)"

definition put_entry :: "early_table \<Rightarrow> u64 \<Rightarrow> u64 \<Rightarrow> early_state \<Rightarrow> early_state" where
  "put_entry t i v st = st\<lparr>table_entries := (table_entries st)((t, unat i) := v)\<rparr>"

text \<open>
  One round of the loop. The addresses of the tables are those the linker gave them, \<open>link\<close>; a null pointer for the
  last level is \<open>None\<close>.
\<close>

definition map_contig_page ::
    "(early_table \<Rightarrow> u64) \<Rightarrow> early_table \<Rightarrow> early_table \<Rightarrow> early_table option \<Rightarrow> bool \<Rightarrow> u64 \<Rightarrow> u64 \<Rightarrow> early_state \<Rightarrow> early_state res" where
  "map_contig_page link pdpt pdet pte big base_phys base_vaddress st =
     (let frame = (\<lambda>t. PAGE_FRAME (kernel_va2phys (kernel_phys_base st) (link t)));
          st1 = put_entry Pml4 (PML4_FROM_VA base_vaddress) (frame pdpt OR PML4_PRESENT_FLAG OR PML4_RW_FLAG) st;
          st2 = put_entry pdpt (PDPT_FROM_VA base_vaddress) (frame pdet OR PDPT_PRESENT_FLAG OR PDPT_RW_FLAG) st1
      in if big
         then Inr (put_entry pdet (PDET_FROM_VA base_vaddress)
                (PAGE_FRAME base_phys OR PDET_PAGE_SIZE OR PDET_PRESENT_FLAG OR PDET_RW_FLAG) st2)
         else case pte of
           None \<Rightarrow> Inl NullDeref
         | Some t \<Rightarrow>
             let st3 = put_entry pdet (PDET_FROM_VA base_vaddress) (frame t OR PDET_PRESENT_FLAG OR PDET_RW_FLAG) st2
             in Inr (put_entry t (PTE_FROM_VA base_vaddress) (PAGE_FRAME base_phys OR PTE_PRESENT_FLAG OR PTE_RW_FLAG) st3))"

fun map_contig_loop ::
    "nat \<Rightarrow> (early_table \<Rightarrow> u64) \<Rightarrow> u64 \<Rightarrow> early_table \<Rightarrow> early_table \<Rightarrow> early_table option \<Rightarrow> bool \<Rightarrow> u64 \<Rightarrow> u64 \<Rightarrow>
     early_state \<Rightarrow> early_state res" where
  "map_contig_loop 0 link pgsize pdpt pdet pte big base_phys base_vaddress st = Inr st"
| "map_contig_loop (Suc n) link pgsize pdpt pdet pte big base_phys base_vaddress st =
     bind_res (map_contig_page link pdpt pdet pte big base_phys base_vaddress st)
       (map_contig_loop n link pgsize pdpt pdet pte big (base_phys + pgsize) (base_vaddress + pgsize))"

text \<open>\<open>debug_eax\<close> is a \<^verbatim>\<open>hlt\<close>; the interrupts are off when the tables are built.\<close>

definition debug_eax :: "u64 \<Rightarrow> u64 \<Rightarrow> 'a res" where
  "debug_eax eax ebx = Inl Halted"

definition map_contig_phys ::
    "(early_table \<Rightarrow> u64) \<Rightarrow> u64 \<Rightarrow> u64 \<Rightarrow> u64 \<Rightarrow> early_table \<Rightarrow> early_table \<Rightarrow> early_table option \<Rightarrow> bool \<Rightarrow>
     early_state \<Rightarrow> early_state res" where
  "map_contig_phys link sz base_phys base_vaddress pdpt pdet pte big st =
     (let pgsize = if big then 0x200000 else PAGE_SIZE;
          max_size = pgsize * 512;
          num_pages = sz div pgsize + (if sz mod pgsize \<noteq> 0 then 1 else 0)
      in if max_size < sz then debug_eax 0xdeadbeef 0xdeadbeef
         else map_contig_loop (unat num_pages) link pgsize pdpt pdet pte big base_phys base_vaddress st)"

definition identity_phys_size :: u64 where "identity_phys_size = 0x000100000000"

definition setup_upper_round :: "(early_table \<Rightarrow> u64) \<Rightarrow> u64 \<Rightarrow> early_state \<Rightarrow> early_state res" where
  "setup_upper_round link i st =
     (let base_frame = i * (1024 * 1024 * 1024)
      in bind_res (map_contig_phys link (identity_phys_size div 4) base_frame (BASE_PHYS_IDENTITY + base_frame)
           Pdpt_identity (Pdet_identity (unat i)) None True st) (\<lambda>st1.
         map_contig_phys link 0x200000 (kernel_phys_base st1 + 0x200000 * i) (BASE_KERNEL_VA + 0x200000 * i)
           Pdpt_kernel Pdet_kernel (Some (Pte_kernel (unat i))) False st1))"

fun setup_upper_loop :: "nat \<Rightarrow> (early_table \<Rightarrow> u64) \<Rightarrow> u64 \<Rightarrow> early_state \<Rightarrow> early_state res" where
  "setup_upper_loop 0 link i st = Inr st"
| "setup_upper_loop (Suc n) link i st = bind_res (setup_upper_round link i st) (setup_upper_loop n link (i + 1))"

definition early_set_cr3 :: "u64 \<Rightarrow> early_state \<Rightarrow> early_state" where
  "early_set_cr3 v st = st\<lparr>early_cr3 := v\<rparr>"

definition setup_upper :: "(early_table \<Rightarrow> u64) \<Rightarrow> u64 \<Rightarrow> early_state \<Rightarrow> early_state res" where
  "setup_upper link kernel_phys_address st =
     bind_res (setup_upper_loop 4 link 0 (st\<lparr>kernel_phys_base := kernel_phys_address\<rparr>)) (\<lambda>st1.
       Inr (early_set_cr3 (kernel_va2phys (kernel_phys_base st1) (link Pml4)) st1))"

section \<open>The walk of the processor\<close>

text \<open>
  The processor reads the tables at their physical addresses: an entry names the table whose frame it holds. An entry
  of the third level with the size bit maps two megabytes.
\<close>

definition early_tables :: "early_table list" where
  "early_tables = [Pml4, Pdpt_identity, Pdpt_vm_region, Pdpt_kernel, Pdet_kernel] @ map Pdet_identity [0..<4] @ map Pte_kernel [0..<4]"

definition table_frame :: "(early_table \<Rightarrow> u64) \<Rightarrow> early_state \<Rightarrow> early_table \<Rightarrow> u64" where
  "table_frame link st t = kernel_va2phys (kernel_phys_base st) (link t)"

definition table_at :: "(early_table \<Rightarrow> u64) \<Rightarrow> early_state \<Rightarrow> u64 \<Rightarrow> early_table option" where
  "table_at link st p = find (\<lambda>t. table_frame link st t = p) early_tables"

definition walk_entry :: "(early_table \<Rightarrow> u64) \<Rightarrow> early_state \<Rightarrow> u64 \<Rightarrow> u64 \<Rightarrow> u64 option" where
  "walk_entry link st p i = Option.bind (table_at link st p) (\<lambda>t.
     let e = table_entries st (t, unat i) in if e AND PTE_PRESENT_FLAG = 0 then None else Some e)"

definition translate :: "(early_table \<Rightarrow> u64) \<Rightarrow> early_state \<Rightarrow> u64 \<Rightarrow> u64 option" where
  "translate link st va =
     Option.bind (walk_entry link st (early_cr3 st) (PML4_FROM_VA va)) (\<lambda>e4.
     Option.bind (walk_entry link st (PAGE_FRAME e4) (PDPT_FROM_VA va)) (\<lambda>e3.
     Option.bind (walk_entry link st (PAGE_FRAME e3) (PDET_FROM_VA va)) (\<lambda>e2.
       if e2 AND PDET_PAGE_SIZE \<noteq> 0 then Some (PAGE_FRAME_BIG e2 + (va AND 0x1fffff))
       else Option.bind (walk_entry link st (PAGE_FRAME e2) (PTE_FROM_VA va)) (\<lambda>e1.
         Some (PAGE_FRAME e1 + (va AND 0xfff))))))"

text \<open>What the linker provides: the tables are aligned, at different addresses, and their frames fit into an entry.\<close>

definition linked :: "(early_table \<Rightarrow> u64) \<Rightarrow> u64 \<Rightarrow> bool" where
  "linked link base \<longleftrightarrow>
     distinct (map (\<lambda>t. kernel_va2phys base (link t)) early_tables) \<and>
     list_all (\<lambda>t. PAGE_FRAME (kernel_va2phys base (link t)) = kernel_va2phys base (link t)) early_tables"

section \<open>The mapping as a list of writes\<close>

type_synonym table_write = "(early_table \<times> nat) \<times> u64"

definition apply_writes :: "table_write list \<Rightarrow> early_state \<Rightarrow> early_state" where
  "apply_writes ws st = st\<lparr>table_entries := fold (\<lambda>(k, v) f. f(k := v)) ws (table_entries st)\<rparr>"

lemma apply_writes_simps [simp]:
  "apply_writes [] st = st"
  "apply_writes (ws @ ws') st = apply_writes ws' (apply_writes ws st)"
  "kernel_phys_base (apply_writes ws st) = kernel_phys_base st"
  by (simp_all add: apply_writes_def)

text \<open>When all writes to a slot agree, the slot holds their value.\<close>

lemma fold_writes:
  assumes "(k, v) \<in> set ws" and "\<forall>w \<in> set ws. fst w = k \<longrightarrow> snd w = v"
  shows "fold (\<lambda>(k, v) f. f(k := v)) ws f k = v"
  using assms
proof (induction ws arbitrary: f rule: rev_induct)
  case (snoc w ws)
  show ?case
  proof (cases "fst w = k")
    case True
    then show ?thesis using snoc.prems(2) by (simp add: case_prod_beta)
  next
    case False
    then have "(k, v) \<in> set ws" using snoc.prems(1) by auto
    with False snoc show ?thesis by (simp add: case_prod_beta)
  qed
qed simp

definition table_entry :: "(early_table \<Rightarrow> u64) \<Rightarrow> u64 \<Rightarrow> early_table \<Rightarrow> u64" where
  "table_entry link base t = PAGE_FRAME (kernel_va2phys base (link t)) OR BIT 0 OR BIT 1"

definition page_writes :: "(early_table \<Rightarrow> u64) \<Rightarrow> u64 \<Rightarrow> early_table \<Rightarrow> early_table \<Rightarrow> early_table option \<Rightarrow> u64 \<Rightarrow> u64 \<Rightarrow> table_write list" where
  "page_writes link base pdpt pdet pte phys va =
     [((Pml4, unat (PML4_FROM_VA va)), table_entry link base pdpt), ((pdpt, unat (PDPT_FROM_VA va)), table_entry link base pdet)] @
     (case pte of
        None \<Rightarrow> [((pdet, unat (PDET_FROM_VA va)), PAGE_FRAME phys OR BIT 7 OR BIT 0 OR BIT 1)]
      | Some t \<Rightarrow> [((pdet, unat (PDET_FROM_VA va)), table_entry link base t), ((t, unat (PTE_FROM_VA va)), PAGE_FRAME phys OR BIT 0 OR BIT 1)])"

lemma map_contig_page_eq:
  "big = (pte = None) \<Longrightarrow> map_contig_page link pdpt pdet pte big phys va st =
     Inr (apply_writes (page_writes link (kernel_phys_base st) pdpt pdet pte phys va) st)"
  by (cases pte) (simp_all add: map_contig_page_def page_writes_def apply_writes_def put_entry_def table_entry_def Let_def)

lemma map_contig_loop_eq:
  assumes "big = (pte = None)"
  shows "map_contig_loop n link pg pdpt pdet pte big phys va st =
     Inr (apply_writes (concat (map (\<lambda>k. page_writes link (kernel_phys_base st) pdpt pdet pte (phys + of_nat k * pg) (va + of_nat k * pg)) [0..<n])) st)"
proof (induction n arbitrary: phys va st)
  case (Suc n)
  let ?w = "\<lambda>k. page_writes link (kernel_phys_base st) pdpt pdet pte (phys + of_nat k * pg) (va + of_nat k * pg)"
  let ?w' = "\<lambda>k. page_writes link (kernel_phys_base st) pdpt pdet pte (phys + pg + of_nat k * pg) (va + pg + of_nat k * pg)"
  have w: "?w' k = ?w (Suc k)" for k by (simp add: add.assoc distrib_right)
  have "[0..<Suc n] = 0 # map Suc [0..<n]" by (simp add: map_Suc_upt upt_conv_Cons del: upt_Suc)
  then have "concat (map ?w [0..<Suc n]) = page_writes link (kernel_phys_base st) pdpt pdet pte phys va @ concat (map ?w' [0..<n])"
    using w by (simp only: list.map map_map concat.simps comp_def) simp
  then show ?case
    by (simp only: map_contig_loop.simps map_contig_page_eq [OF assms] bind_res_Inr Suc [of "phys + pg" "va + pg"] apply_writes_simps)
qed simp

definition identity_writes :: "(early_table \<Rightarrow> u64) \<Rightarrow> u64 \<Rightarrow> nat \<Rightarrow> table_write list" where
  "identity_writes link base i = concat (map (\<lambda>k. page_writes link base Pdpt_identity (Pdet_identity i) None
     (of_nat i * 0x40000000 + of_nat k * 0x200000) (BASE_PHYS_IDENTITY + of_nat i * 0x40000000 + of_nat k * 0x200000)) [0..<512])"

definition kernel_writes :: "(early_table \<Rightarrow> u64) \<Rightarrow> u64 \<Rightarrow> nat \<Rightarrow> table_write list" where
  "kernel_writes link base i = concat (map (\<lambda>k. page_writes link base Pdpt_kernel Pdet_kernel (Some (Pte_kernel i))
     (base + of_nat i * 0x200000 + of_nat k * 0x1000) (BASE_KERNEL_VA + of_nat i * 0x200000 + of_nat k * 0x1000)) [0..<512])"

lemma map_contig_phys_eq:
  "map_contig_phys link (512 * (if pte = None then 0x200000 else 0x1000)) phys va pdpt pdet pte (pte = None) st =
     map_contig_loop 512 link (if pte = None then 0x200000 else 0x1000) pdpt pdet pte (pte = None) phys va st"
  by (cases pte) (simp_all add: map_contig_phys_def PAGE_SIZE_def)

lemma setup_upper_round_eq:
  assumes "i < 4"
  shows "setup_upper_round link (of_nat i) st =
     Inr (apply_writes (identity_writes link (kernel_phys_base st) i @ kernel_writes link (kernel_phys_base st) i) st)"
proof -
  have u: "unat (of_nat i :: u64) = i" using assms by (simp add: unat_of_nat)
  have "map_contig_phys link (identity_phys_size div 4) (of_nat i * (1024 * 1024 * 1024)) (BASE_PHYS_IDENTITY + of_nat i * (1024 * 1024 * 1024))
      Pdpt_identity (Pdet_identity i) None True st = Inr (apply_writes (identity_writes link (kernel_phys_base st) i) st)"
    using map_contig_phys_eq [of link None] map_contig_loop_eq [of True None 512]
    by (simp add: identity_phys_size_def identity_writes_def del: upt_rec_numeral)
  moreover have "map_contig_phys link 0x200000 (kernel_phys_base st' + 0x200000 * of_nat i) (BASE_KERNEL_VA + 0x200000 * of_nat i)
      Pdpt_kernel Pdet_kernel (Some (Pte_kernel i)) False st' = Inr (apply_writes (kernel_writes link (kernel_phys_base st') i) st')" for st'
    using map_contig_phys_eq [of link "Some (Pte_kernel i)"] map_contig_loop_eq [of False "Some (Pte_kernel i)" 512]
    by (simp add: kernel_writes_def mult.commute del: upt_rec_numeral)
  ultimately show ?thesis by (simp only: setup_upper_round_def Let_def u bind_res_Inr apply_writes_simps)
qed

definition all_writes :: "(early_table \<Rightarrow> u64) \<Rightarrow> u64 \<Rightarrow> table_write list" where
  "all_writes link base = concat (map (\<lambda>i. identity_writes link base i @ kernel_writes link base i) [0..<4])"


lemma setup_upper_eq:
  "setup_upper link base st = Inr (early_set_cr3 (kernel_va2phys base (link Pml4))
     (apply_writes (all_writes link base) (st\<lparr>kernel_phys_base := base\<rparr>)))"
  using setup_upper_round_eq [of 0 link] setup_upper_round_eq [of 1 link] setup_upper_round_eq [of 2 link] setup_upper_round_eq [of 3 link]
  by (simp add: setup_upper_def all_writes_def eval_nat_numeral)

section \<open>The indices of an address\<close>

lemma region_index: "(2 ^ n * (512 * c + r) + p) div 2 ^ n mod 512 = (r + p div 2 ^ n) mod (512 :: nat)"
proof -
  have "(2 ^ n * (512 * c + r) + p) div 2 ^ n = 512 * c + r + p div 2 ^ n" by simp
  then show ?thesis by (metis add.assoc mod_mult_self4)
qed

text \<open>The two regions, by the offset of an address in them.\<close>

lemma identity_indices:
  assumes "p < 0x100000000"
  shows "unat (PML4_FROM_VA (BASE_PHYS_IDENTITY + of_nat p)) = 256" "unat (PDPT_FROM_VA (BASE_PHYS_IDENTITY + of_nat p)) = p div 2 ^ 30"
    "unat (PDET_FROM_VA (BASE_PHYS_IDENTITY + of_nat p)) = p div 2 ^ 21 mod 512"
proof -
  have v: "unat (BASE_PHYS_IDENTITY + of_nat p) = 0xffff800000000000 + p"
    using assms by (simp add: BASE_PHYS_IDENTITY_def unat_word_ariths unat_of_nat)
  show "unat (PML4_FROM_VA (BASE_PHYS_IDENTITY + of_nat p)) = 256" "unat (PDPT_FROM_VA (BASE_PHYS_IDENTITY + of_nat p)) = p div 2 ^ 30"
    "unat (PDET_FROM_VA (BASE_PHYS_IDENTITY + of_nat p)) = p div 2 ^ 21 mod 512"
    unfolding indices_nat v
    using assms region_index [of 39 "0xffff" 256 p] region_index [of 30 "0x1ffff00" 0 p] region_index [of 21 "0x3fffe0000" 0 p]
    by (simp_all add: div_less)
qed

lemma kernel_indices:
  assumes "p < 0x800000"
  shows "unat (PML4_FROM_VA (BASE_KERNEL_VA + of_nat p)) = 511" "unat (PDPT_FROM_VA (BASE_KERNEL_VA + of_nat p)) = 510"
    "unat (PDET_FROM_VA (BASE_KERNEL_VA + of_nat p)) = p div 2 ^ 21" "unat (PTE_FROM_VA (BASE_KERNEL_VA + of_nat p)) = p div 2 ^ 12 mod 512"
proof -
  have v: "unat (BASE_KERNEL_VA + of_nat p) = 0xffffffff80000000 + p"
    using assms by (simp add: BASE_KERNEL_VA_def unat_word_ariths unat_of_nat)
  show "unat (PML4_FROM_VA (BASE_KERNEL_VA + of_nat p)) = 511" "unat (PDPT_FROM_VA (BASE_KERNEL_VA + of_nat p)) = 510"
    "unat (PDET_FROM_VA (BASE_KERNEL_VA + of_nat p)) = p div 2 ^ 21" "unat (PTE_FROM_VA (BASE_KERNEL_VA + of_nat p)) = p div 2 ^ 12 mod 512"
    unfolding indices_nat v
    using assms region_index [of 39 "0xffff" 511 "0x7f80000000 + p"] region_index [of 30 "0x1ffffff" 510 p] region_index [of 21 "0x3fffffffe" 0 p]
      region_index [of 12 "0x7fffffffc00" 0 p]
    by (simp_all add: div_less)
qed

section \<open>The tables after the setup\<close>

definition big_entry :: "nat \<Rightarrow> u64" where
  "big_entry p = PAGE_FRAME (of_nat p) OR BIT 7 OR BIT 0 OR BIT 1"

definition small_entry :: "u64 \<Rightarrow> nat \<Rightarrow> u64" where
  "small_entry base p = PAGE_FRAME (base + of_nat p) OR BIT 0 OR BIT 1"

lemma identity_page_writes:
  assumes "i < 4" and "k < 512"
  shows "page_writes link base Pdpt_identity (Pdet_identity i) None
      (of_nat i * 0x40000000 + of_nat k * 0x200000) (BASE_PHYS_IDENTITY + of_nat i * 0x40000000 + of_nat k * 0x200000) =
    [((Pml4, 256), table_entry link base Pdpt_identity), ((Pdpt_identity, i), table_entry link base (Pdet_identity i)),
     ((Pdet_identity i, k), big_entry (i * 0x40000000 + k * 0x200000))]"
proof -
  let ?p = "i * 0x40000000 + k * 0x200000"
  have p: "?p < 0x100000000" "?p div 2 ^ 30 = i" using assms by (simp, intro div_nat_eqI) simp_all
  have "?p div 2 ^ 21 = 512 * i + k" by (rule div_nat_eqI) simp_all
  then have q: "?p div 2 ^ 21 mod 512 = k" using assms by simp
  have e: "of_nat i * 0x40000000 + of_nat k * 0x200000 = (of_nat ?p :: u64)" by simp
  show ?thesis unfolding page_writes_def add.assoc e identity_indices [OF p(1)] p(2) q big_entry_def by (simp only: option.case append.simps)
qed

lemma kernel_page_writes:
  assumes "i < 4" and "k < 512"
  shows "page_writes link base Pdpt_kernel Pdet_kernel (Some (Pte_kernel i))
      (base + of_nat i * 0x200000 + of_nat k * 0x1000) (BASE_KERNEL_VA + of_nat i * 0x200000 + of_nat k * 0x1000) =
    [((Pml4, 511), table_entry link base Pdpt_kernel), ((Pdpt_kernel, 510), table_entry link base Pdet_kernel),
     ((Pdet_kernel, i), table_entry link base (Pte_kernel i)), ((Pte_kernel i, k), small_entry base (i * 0x200000 + k * 0x1000))]"
proof -
  let ?p = "i * 0x200000 + k * 0x1000"
  have p: "?p < 0x800000" "?p div 2 ^ 21 = i" using assms by (simp, intro div_nat_eqI) simp_all
  have "?p div 2 ^ 12 = 512 * i + k" by (rule div_nat_eqI) simp_all
  then have q: "?p div 2 ^ 12 mod 512 = k" using assms by simp
  have e: "of_nat i * 0x200000 + of_nat k * 0x1000 = (of_nat ?p :: u64)" by simp
  show ?thesis unfolding page_writes_def add.assoc e kernel_indices [OF p(1)] p(2) q small_entry_def by (simp only: option.case append.simps)
qed

lemma set_all_writes:
  "set (all_writes link base) = (\<Union>i \<in> {..<4}. \<Union>k \<in> {..<512}.
     {((Pml4, 256), table_entry link base Pdpt_identity), ((Pdpt_identity, i), table_entry link base (Pdet_identity i)),
      ((Pdet_identity i, k), big_entry (i * 0x40000000 + k * 0x200000)),
      ((Pml4, 511), table_entry link base Pdpt_kernel), ((Pdpt_kernel, 510), table_entry link base Pdet_kernel),
      ((Pdet_kernel, i), table_entry link base (Pte_kernel i)), ((Pte_kernel i, k), small_entry base (i * 0x200000 + k * 0x1000))})"
proof -
  have "set (all_writes link base) = (\<Union>i \<in> {..<4}. \<Union>k \<in> {..<512}.
      set (page_writes link base Pdpt_identity (Pdet_identity i) None
        (of_nat i * 0x40000000 + of_nat k * 0x200000) (BASE_PHYS_IDENTITY + of_nat i * 0x40000000 + of_nat k * 0x200000)) \<union>
      set (page_writes link base Pdpt_kernel Pdet_kernel (Some (Pte_kernel i))
        (base + of_nat i * 0x200000 + of_nat k * 0x1000) (BASE_KERNEL_VA + of_nat i * 0x200000 + of_nat k * 0x1000)))"
    unfolding all_writes_def identity_writes_def kernel_writes_def
    by (simp only: set_concat set_map set_upt set_append image_image UN_Un_distrib atLeast0LessThan UN_simps)
  also have "\<dots> = (\<Union>i \<in> {..<4}. \<Union>k \<in> {..<512}.
     {((Pml4, 256), table_entry link base Pdpt_identity), ((Pdpt_identity, i), table_entry link base (Pdet_identity i)),
      ((Pdet_identity i, k), big_entry (i * 0x40000000 + k * 0x200000)),
      ((Pml4, 511), table_entry link base Pdpt_kernel), ((Pdpt_kernel, 510), table_entry link base Pdet_kernel),
      ((Pdet_kernel, i), table_entry link base (Pte_kernel i)), ((Pte_kernel i, k), small_entry base (i * 0x200000 + k * 0x1000))})"
    by (intro SUP_cong refl) (simp only: lessThan_iff identity_page_writes kernel_page_writes list.set, auto)
  finally show ?thesis .
qed

lemma in_all_writes:
  "w \<in> set (all_writes link base) \<longleftrightarrow>
     w = ((Pml4, 256), table_entry link base Pdpt_identity) \<or> w = ((Pml4, 511), table_entry link base Pdpt_kernel) \<or>
     w = ((Pdpt_kernel, 510), table_entry link base Pdet_kernel) \<or>
     (\<exists>i < 4. w = ((Pdpt_identity, i), table_entry link base (Pdet_identity i)) \<or> w = ((Pdet_kernel, i), table_entry link base (Pte_kernel i)) \<or>
        (\<exists>k < 512. w = ((Pdet_identity i, k), big_entry (i * 0x40000000 + k * 0x200000)) \<or>
                  w = ((Pte_kernel i, k), small_entry base (i * 0x200000 + k * 0x1000))))"
proof -
  have "(0 :: nat) < 4" "(0 :: nat) < 512" by simp_all
  then show ?thesis unfolding set_all_writes UN_iff Bex_def lessThan_iff insert_iff empty_iff by blast
qed

definition after_setup :: "(early_table \<Rightarrow> u64) \<Rightarrow> u64 \<Rightarrow> early_state \<Rightarrow> early_state" where
  "after_setup link base st = early_set_cr3 (kernel_va2phys base (link Pml4)) (apply_writes (all_writes link base) (st\<lparr>kernel_phys_base := base\<rparr>))"

lemma after_setup_entry:
  assumes "(k, v) \<in> set (all_writes link base)" and "\<forall>w \<in> set (all_writes link base). fst w = k \<longrightarrow> snd w = v"
  shows "table_entries (after_setup link base st) k = v"
  using fold_writes [OF assms] by (simp add: after_setup_def early_set_cr3_def apply_writes_def)

lemma after_setup_entries:
  shows "table_entries (after_setup link base st) (Pml4, 256) = table_entry link base Pdpt_identity"
    and "table_entries (after_setup link base st) (Pml4, 511) = table_entry link base Pdpt_kernel"
    and "table_entries (after_setup link base st) (Pdpt_kernel, 510) = table_entry link base Pdet_kernel"
    and "i < 4 \<Longrightarrow> table_entries (after_setup link base st) (Pdpt_identity, i) = table_entry link base (Pdet_identity i)"
    and "i < 4 \<Longrightarrow> table_entries (after_setup link base st) (Pdet_kernel, i) = table_entry link base (Pte_kernel i)"
    and "i < 4 \<Longrightarrow> k < 512 \<Longrightarrow> table_entries (after_setup link base st) (Pdet_identity i, k) = big_entry (i * 0x40000000 + k * 0x200000)"
    and "i < 4 \<Longrightarrow> k < 512 \<Longrightarrow> table_entries (after_setup link base st) (Pte_kernel i, k) = small_entry base (i * 0x200000 + k * 0x1000)"
  by (auto simp: in_all_writes intro!: after_setup_entry)

section \<open>The walk over the tables\<close>

lemma find_distinct:
  "distinct (map f xs) \<Longrightarrow> x \<in> set xs \<Longrightarrow> find (\<lambda>y. f y = f x) xs = Some x"
  by (induction xs) (auto simp: image_iff)

lemma in_early_tables:
  "t \<in> set early_tables \<longleftrightarrow> t \<in> {Pml4, Pdpt_identity, Pdpt_vm_region, Pdpt_kernel, Pdet_kernel} \<or> (\<exists>i < 4. t = Pdet_identity i \<or> t = Pte_kernel i)"
  by (auto simp: early_tables_def)

lemma after_setup_fields [simp]:
  "kernel_phys_base (after_setup link base st) = base" "early_cr3 (after_setup link base st) = kernel_va2phys base (link Pml4)"
  by (simp_all add: after_setup_def early_set_cr3_def)

lemma walk_entry_after:
  assumes "linked link base" and "t \<in> set early_tables"
    and "table_entries (after_setup link base st) (t, unat i) = e" and "e AND BIT 0 \<noteq> 0"
  shows "walk_entry link (after_setup link base st) (kernel_va2phys base (link t)) i = Some e"
proof -
  have "distinct (map (\<lambda>t. kernel_va2phys base (link t)) early_tables)" using assms(1) by (simp add: linked_def)
  from find_distinct [OF this assms(2)] show ?thesis
    using assms(3,4) by (simp add: walk_entry_def table_at_def table_frame_def)
qed

lemma table_entry_fields:
  assumes "linked link base" and "t \<in> set early_tables"
  shows "PAGE_FRAME (table_entry link base t) = kernel_va2phys base (link t)"
    and "table_entry link base t AND BIT 0 \<noteq> 0" and "table_entry link base t AND BIT 7 = 0"
proof -
  have f: "PAGE_FRAME (kernel_va2phys base (link t)) = kernel_va2phys base (link t)"
    using assms by (simp add: linked_def list_all_iff)
  show "PAGE_FRAME (table_entry link base t) = kernel_va2phys base (link t)"
    using f by (simp add: table_entry_def PAGE_FRAME_def BIT_def bit.conj_disj_distrib2 and.assoc)
  show "table_entry link base t AND BIT 0 \<noteq> 0" "table_entry link base t AND BIT 7 = 0"
    by (simp_all add: table_entry_def PAGE_FRAME_def BIT_def bit.conj_disj_distrib2 and.assoc)
qed

lemma page_entries:
  "big_entry p AND BIT 0 \<noteq> 0" "big_entry p AND BIT 7 \<noteq> 0" "PAGE_FRAME_BIG (big_entry p) = PAGE_FRAME_BIG (of_nat p)"
  "small_entry base p AND BIT 0 \<noteq> 0" "PAGE_FRAME (small_entry base p) = PAGE_FRAME (base + of_nat p)"
  by (simp_all add: big_entry_def small_entry_def PAGE_FRAME_BIG_def PAGE_FRAME_def BIT_def bit.conj_disj_distrib2 and.assoc)

lemma offset_nat:
  "unat (x AND 0x1fffff) = unat (x :: u64) mod 0x200000" "unat (x AND 0xfff) = unat x mod 0x1000"
proof -
  have m: "(0x1fffff :: u64) = mask 21" "(0xfff :: u64) = mask 12" by (simp_all add: mask_eq_exp_minus_1)
  show "unat (x AND 0x1fffff) = unat (x :: u64) mod 0x200000" "unat (x AND 0xfff) = unat x mod 0x1000"
    unfolding m take_bit_eq_mask [symmetric] take_bit_eq_mod unat_mod_distrib by simp_all
qed

lemma frame_big_aligned: "unat y < 2 ^ 48 \<Longrightarrow> unat y mod 0x200000 = 0 \<Longrightarrow> PAGE_FRAME_BIG y = y"
  using aligned_and [of y 21] by (simp add: PAGE_FRAME_BIG_def mask_eq_exp_minus_1)

text \<open>The two regions.\<close>

lemma split_offset: "p div (d * 512) * (d * 512) + p div d mod 512 * d = d * (p div d :: nat)"
proof -
  have "p div (d * 512) * (d * 512) + p div d mod 512 * d = (512 * (p div d div 512) + p div d mod 512) * d"
    by (simp only: div_mult2_eq distrib_left distrib_right ac_simps)
  also have "\<dots> = p div d * d" by (simp only: mult_div_mod_eq)
  finally show ?thesis by (simp only: mult.commute)
qed

lemma translate_identity:
  assumes "linked link base" and "p < 0x100000000"
  shows "translate link (after_setup link base st) (BASE_PHYS_IDENTITY + of_nat p) = Some (of_nat p)"
proof -
  let ?va = "BASE_PHYS_IDENTITY + of_nat p :: u64" and ?S = "after_setup link base st"
  let ?i = "p div 2 ^ 30" and ?k = "p div 2 ^ 21 mod 512"
  let ?e = "big_entry (?i * 0x40000000 + ?k * 0x200000)"
  have i: "?i < 4" "?k < 512" using assms(2) by simp_all
  note x = identity_indices [OF assms(2)]
  have t: "Pml4 \<in> set early_tables" "Pdpt_identity \<in> set early_tables" "Pdet_identity ?i \<in> set early_tables"
    using i by (auto simp: in_early_tables)
  note f = table_entry_fields [OF assms(1) t(2)] table_entry_fields [OF assms(1) t(3)]
  have w4: "walk_entry link ?S (kernel_va2phys base (link Pml4)) (PML4_FROM_VA ?va) = Some (table_entry link base Pdpt_identity)"
    using f by (intro walk_entry_after assms t) (simp_all only: x after_setup_entries not_False_eq_True)
  have w3: "walk_entry link ?S (kernel_va2phys base (link Pdpt_identity)) (PDPT_FROM_VA ?va) = Some (table_entry link base (Pdet_identity ?i))"
    using f i by (intro walk_entry_after assms t) (simp_all only: x after_setup_entries not_False_eq_True)
  have w2: "walk_entry link ?S (kernel_va2phys base (link (Pdet_identity ?i))) (PDET_FROM_VA ?va) = Some ?e"
    using i page_entries by (intro walk_entry_after assms t) (simp_all only: x after_setup_entries not_False_eq_True)
  have r: "?i * 0x40000000 + ?k * 0x200000 = 0x200000 * (p div 0x200000)" using split_offset [of p "2 ^ 21"] by simp
  have "unat ?va = 0xffff800000000000 + p" using assms(2) by (simp add: BASE_PHYS_IDENTITY_def unat_word_ariths unat_of_nat)
  then have o: "?va AND 0x1fffff = of_nat (p mod 0x200000)"
    using mod_mult_self4 [of "0x200000" "0x7fffc000000" p] by (simp add: word_unat_eq_iff offset_nat unat_of_nat)
  have "0x200000 * (p div 0x200000) \<le> p" by simp
  then have u: "unat (of_nat (0x200000 * (p div 0x200000)) :: u64) = 0x200000 * (p div 0x200000)" "0x200000 * (p div 0x200000) < 2 ^ 48"
    using assms(2) by (simp_all only: unat_of_nat) (simp_all del: mult_less_cancel1)
  have b: "PAGE_FRAME_BIG ?e = of_nat (0x200000 * (p div 0x200000))"
    unfolding page_entries(3) r by (intro frame_big_aligned) (simp_all only: u mod_mult_self1_is_0)
  have "PAGE_FRAME_BIG ?e + (?va AND 0x1fffff) = of_nat p" unfolding b o of_nat_add [symmetric] mult_div_mod_eq ..
  then show ?thesis
    using f page_entries(2) [of "?i * 0x40000000 + ?k * 0x200000"] by (simp only: translate_def after_setup_fields w4 w3 w2 Option.bind.bind_lunit f if_True simp_thms)
qed

lemma translate_kernel:
  assumes "linked link base" and "base AND 0xfff = 0" and "unat base + 0x800000 \<le> 2 ^ 48" and "p < 0x800000"
  shows "translate link (after_setup link base st) (BASE_KERNEL_VA + of_nat p) = Some (base + of_nat p)"
proof -
  let ?va = "BASE_KERNEL_VA + of_nat p :: u64" and ?S = "after_setup link base st"
  let ?i = "p div 2 ^ 21" and ?k = "p div 2 ^ 12 mod 512"
  let ?q = "0x1000 * (p div 0x1000)" and ?e = "small_entry base (?i * 0x200000 + ?k * 0x1000)"
  have i: "?i < 4" "?k < 512" using assms(4) by simp_all
  note x = kernel_indices [OF assms(4)]
  have t: "Pml4 \<in> set early_tables" "Pdpt_kernel \<in> set early_tables" "Pdet_kernel \<in> set early_tables" "Pte_kernel ?i \<in> set early_tables"
    using i by (auto simp: in_early_tables)
  note f = table_entry_fields [OF assms(1) t(2)] table_entry_fields [OF assms(1) t(3)] table_entry_fields [OF assms(1) t(4)]
  have w4: "walk_entry link ?S (kernel_va2phys base (link Pml4)) (PML4_FROM_VA ?va) = Some (table_entry link base Pdpt_kernel)"
    using f by (intro walk_entry_after assms t) (simp_all only: x after_setup_entries not_False_eq_True)
  have w3: "walk_entry link ?S (kernel_va2phys base (link Pdpt_kernel)) (PDPT_FROM_VA ?va) = Some (table_entry link base Pdet_kernel)"
    using f by (intro walk_entry_after assms t) (simp_all only: x after_setup_entries not_False_eq_True)
  have w2: "walk_entry link ?S (kernel_va2phys base (link Pdet_kernel)) (PDET_FROM_VA ?va) = Some (table_entry link base (Pte_kernel ?i))"
    using f i by (intro walk_entry_after assms t) (simp_all only: x after_setup_entries not_False_eq_True)
  have w1: "walk_entry link ?S (kernel_va2phys base (link (Pte_kernel ?i))) (PTE_FROM_VA ?va) = Some ?e"
    using i page_entries by (intro walk_entry_after assms t) (simp_all only: x after_setup_entries not_False_eq_True)
  have r: "?i * 0x200000 + ?k * 0x1000 = ?q" using split_offset [of p "2 ^ 12"] by simp
  have "unat ?va = 0xffffffff80000000 + p" using assms(4) by (simp add: BASE_KERNEL_VA_def unat_word_ariths unat_of_nat)
  then have o: "?va AND 0xfff = of_nat (p mod 0x1000)"
    using mod_mult_self4 [of "0x1000" "0xffffffff80000" p] by (simp add: word_unat_eq_iff offset_nat unat_of_nat)
  have q: "?q \<le> p" by simp
  then have "unat (of_nat ?q :: u64) = ?q" using assms(4) by (simp only: unat_of_nat) (simp del: mult_less_cancel1)
  then have u: "unat (base + of_nat ?q) = unat base + ?q" using q assms(3,4) by (subst unat_add_no_overflow) (simp_all only:, simp)
  have "unat base mod 0x1000 = 0" using assms(2) offset_nat(2) [of base] by simp
  then have "(unat base + ?q) mod 0x1000 = 0" by (metis mod_add_left_eq add_0 mod_mult_self1_is_0)
  moreover have "unat base + ?q < 2 ^ 48" using q assms(3,4) by linarith
  ultimately have b: "PAGE_FRAME ?e = base + of_nat ?q"
    unfolding page_entries(5) r by (intro frame_aligned) (simp_all only: u)
  have "PAGE_FRAME ?e + (?va AND 0xfff) = base + of_nat p" unfolding b o add.assoc of_nat_add [symmetric] mult_div_mod_eq ..
  then show ?thesis using f
    by (simp only: translate_def after_setup_fields w4 w3 w2 w1 Option.bind.bind_lunit f if_False simp_thms)
qed

text \<open>
  C14: the early page tables map what they are meant to. For a page-aligned kernel below 2^48 and tables linked at
  different aligned addresses, \<open>setup_upper\<close> returns, and from then on the processor translates every address of the first four gigabytes above
  \<open>BASE_PHYS_IDENTITY\<close> to the physical address it stands for, and every address of the first eight megabytes above
  \<open>BASE_KERNEL_VA\<close> to the kernel's physical memory.
\<close>

theorem setup_upper_maps:
  assumes "linked link base" and "base AND 0xfff = 0" and "unat base + 0x800000 \<le> 2 ^ 48"
  shows "\<exists>st'. setup_upper link base st = Inr st' \<and>
    (\<forall>p < 0x100000000. translate link st' (BASE_PHYS_IDENTITY + p) = Some p) \<and>
    (\<forall>p < 0x800000. translate link st' (BASE_KERNEL_VA + p) = Some (base + p))"
proof -
  have "translate link (after_setup link base st) (BASE_PHYS_IDENTITY + p) = Some p" if "p < 0x100000000" for p
    using translate_identity [OF assms(1), of "unat p" st] that by (simp add: word_less_nat_alt)
  moreover have "translate link (after_setup link base st) (BASE_KERNEL_VA + p) = Some (base + p)" if "p < 0x800000" for p
    using translate_kernel [OF assms, of "unat p" st] that by (simp add: word_less_nat_alt)
  ultimately show ?thesis using setup_upper_eq [of link base st] by (auto simp: after_setup_def)
qed

definition example_link :: "early_table \<Rightarrow> u64" where
  "example_link t = BASE_KERNEL_VA + 0x100000 + 0x1000 * (case t of
     Pml4 \<Rightarrow> 0 | Pdpt_identity \<Rightarrow> 1 | Pdpt_vm_region \<Rightarrow> 2 | Pdpt_kernel \<Rightarrow> 3 | Pdet_kernel \<Rightarrow> 4 |
     Pdet_identity i \<Rightarrow> 5 + of_nat i | Pte_kernel i \<Rightarrow> 9 + of_nat i)"

theorem setup_upper_maps_witness:
  "\<exists>st'. setup_upper example_link 0x1000000 \<lparr>table_entries = (\<lambda>_. 0), kernel_phys_base = 0, early_cr3 = 0\<rparr> = Inr st' \<and>
     translate example_link st' 0xffff8000fee000f0 = Some 0xfee000f0 \<and> translate example_link st' 0xffffffff80123456 = Some 0x1123456"
proof -
  have "linked example_link 0x1000000"
    by (simp add: linked_def early_tables_def example_link_def kernel_va2phys_def BASE_KERNEL_VA_def PAGE_FRAME_def upt_rec)
  from setup_upper_maps [OF this, of "\<lparr>table_entries = (\<lambda>_. 0), kernel_phys_base = 0, early_cr3 = 0\<rparr>"]
  obtain st' where "setup_upper example_link 0x1000000 \<lparr>table_entries = (\<lambda>_. 0), kernel_phys_base = 0, early_cr3 = 0\<rparr> = Inr st'"
    "\<forall>p < 0x100000000. translate example_link st' (BASE_PHYS_IDENTITY + p) = Some p"
    "\<forall>p < 0x800000. translate example_link st' (BASE_KERNEL_VA + p) = Some (0x1000000 + p)" by auto
  then show ?thesis
    by (intro exI [of _ st']) (auto dest: spec [of _ "0xfee000f0"] spec [of _ "0x123456"] simp: BASE_PHYS_IDENTITY_def BASE_KERNEL_VA_def)
qed

end
