(* ===== verification/Page_Tables.thy ===== *)
theory Page_Tables
  imports Paging
begin

text \<open>
  What the page tables of \<^verbatim>\<open>arch/x86_64/paging.c\<close> mean: the tables in memory form a tree, the software walk is the abstraction of it, and
  the nested loops of \<open>map_contiguous\<close> change the walk at the addresses of the range and nowhere else. The tables come from the
  page allocator through the locale \<open>page_supply\<close>, which is interpreted on the allocator with its invariant.
\<close>

section \<open>The supply of pages\<close>

text \<open>
  What the page tables ask of the page allocator: while there are pages left, an allocation returns a page of the direct
  mapping that overlaps none of the pages in use. \<open>v\<close> gives the address of the page of a \<open>struct page\<close>; \<open>ok n T a\<close> says
  that \<open>n\<close> pages are left and the pages \<open>T\<close> are in use.
\<close>

abbreviation page_region :: "u64 \<Rightarrow> u64 set" where
  "page_region t \<equiv> region t 4096"

locale page_supply =
  fixes v :: "u64 \<Rightarrow> u64" and ok :: "nat \<Rightarrow> u64 set \<Rightarrow> alloc_state \<Rightarrow> bool"
  assumes alloc_fresh: "ok (Suc n) T a \<Longrightarrow> \<exists>p a'. alloc_pages (\<lambda>p _. v p) PGALLOC_KERNEL 0 a = Inr (p, a') \<and>
      ok n (insert (v p) T) a' \<and> table_ok (v p) \<and> (\<forall>t \<in> T. page_region (v p) \<inter> page_region t = {})"
    and ok_ram: "ok n T a \<Longrightarrow> ok n T (a\<lparr>ram := m\<rparr>)"
    and ok_less: "ok n T a \<Longrightarrow> k \<le> n \<Longrightarrow> ok k T a"

section \<open>Trees of tables\<close>

definition tbl_entry :: "mem \<Rightarrow> u64 \<Rightarrow> nat \<Rightarrow> u64" where
  "tbl_entry m u i = rd64 m (u + 8 * of_nat i)"

definition is_present :: "u64 \<Rightarrow> bool" where "is_present e \<longleftrightarrow> e AND PML4_PRESENT_FLAG \<noteq> 0"
definition is_big :: "u64 \<Rightarrow> bool" where "is_big e \<longleftrightarrow> e AND PDET_PAGE_SIZE \<noteq> 0"
definition target :: "u64 \<Rightarrow> u64" where "target e = PA2VA (PAGE_FRAME e)"

text \<open>\<open>lv\<close> is the level of a table, 4 for the root and 0 for a page that is not a table.\<close>

definition leads :: "mem \<Rightarrow> (u64 \<Rightarrow> nat) \<Rightarrow> u64 \<Rightarrow> nat \<Rightarrow> bool" where
  "leads m lv u i \<longleftrightarrow> 2 \<le> lv u \<and> i < 512 \<and> is_present (tbl_entry m u i) \<and> \<not> (lv u = 2 \<and> is_big (tbl_entry m u i))"

definition tables :: "(u64 \<Rightarrow> nat) \<Rightarrow> u64 set" where "tables lv = {u. lv u \<noteq> 0}"

definition table_tree :: "mem \<Rightarrow> u64 \<Rightarrow> (u64 \<Rightarrow> nat) \<Rightarrow> bool" where
  "table_tree m t lv \<longleftrightarrow>
     lv t = 4 \<and> (\<forall>u \<in> tables lv. table_ok u) \<and>
     (\<forall>u \<in> tables lv. \<forall>w \<in> tables lv. u \<noteq> w \<longrightarrow> page_region u \<inter> page_region w = {}) \<and>
     (\<forall>u i. leads m lv u i \<longrightarrow> Suc (lv (target (tbl_entry m u i))) = lv u) \<and>
     (\<forall>u i w j. leads m lv u i \<longrightarrow> leads m lv w j \<longrightarrow> target (tbl_entry m u i) = target (tbl_entry m w j) \<longrightarrow> u = w \<and> i = j)"

text \<open>What the walk of an address ends in.\<close>

datatype walk_result = NotMapped | BigPage u64 | SmallPage u64

definition walk1 :: "mem \<Rightarrow> u64 \<Rightarrow> u64 \<Rightarrow> walk_result" where
  "walk1 m t1 va = (let e = tbl_entry m t1 (unat (PTE_FROM_VA va)) in if is_present e then SmallPage e else NotMapped)"

definition walk2 :: "mem \<Rightarrow> u64 \<Rightarrow> u64 \<Rightarrow> walk_result" where
  "walk2 m t2 va = (let e = tbl_entry m t2 (unat (PDET_FROM_VA va))
     in if \<not> is_present e then NotMapped else if is_big e then BigPage e else walk1 m (target e) va)"

definition walk3 :: "mem \<Rightarrow> u64 \<Rightarrow> u64 \<Rightarrow> walk_result" where
  "walk3 m t3 va = (let e = tbl_entry m t3 (unat (PDPT_FROM_VA va)) in if is_present e then walk2 m (target e) va else NotMapped)"

definition walk :: "mem \<Rightarrow> u64 \<Rightarrow> u64 \<Rightarrow> walk_result" where
  "walk m t va = (let e = tbl_entry m t (unat (PML4_FROM_VA va)) in if is_present e then walk3 m (target e) va else NotMapped)"

lemma get_phys_walk:
  "cpu_mm_get_phys_address t va m = (case walk m t va of NotMapped \<Rightarrow> 0xfff | BigPage e \<Rightarrow> PAGE_FRAME e | SmallPage e \<Rightarrow> PAGE_FRAME e)"
  by (simp add: cpu_mm_get_phys_address_def walk_def walk3_def walk2_def walk1_def tbl_entry_def is_present_def is_big_def target_def Let_def)

section \<open>Reading and writing entries\<close>

lemma entry_write:
  assumes "i < 512" and "j < 512" and "u = w \<or> page_region u \<inter> page_region w = {}"
  shows "tbl_entry (wr64 (w + 8 * of_nat j) e m) u i = (if u = w \<and> i = j then e else tbl_entry m u i)"
proof (cases "u = w \<and> i = j")
  case True
  then show ?thesis by (simp add: tbl_entry_def rd64_wr64_same)
next
  case False
  have "region (w + 8 * of_nat j) 8 \<inter> region (u + 8 * of_nat i) 8 = {}"
  proof (cases "u = w")
    case True
    have "region (w + of_nat (8 * j)) 8 \<inter> region (w + of_nat (8 * i)) 8 = {}"
    proof -
      have "w + of_nat (8 * j) + of_nat x \<noteq> w + of_nat (8 * i) + of_nat y" if "x < 8" "y < 8" for x y
      proof
        assume "w + of_nat (8 * j) + of_nat x = w + of_nat (8 * i) + of_nat y"
        then have "of_nat (8 * j + x) = (of_nat (8 * i + y) :: u64)" by (simp add: add.assoc)
        then have "8 * j + x = 8 * i + y" using assms(1,2) that by (simp add: word_unat_eq_iff unat_of_nat del: of_nat_add of_nat_mult)
        then have "j = i" using that by presburger
        then show False using False True by simp
      qed
      then show ?thesis by (auto simp: region_def)
    qed
    then show ?thesis using True by simp
  next
    case False
    then show ?thesis using slot_in_page [OF assms(1), of u] slot_in_page [OF assms(2), of w] assms(3) by blast
  qed
  then have "rd64 (wr64 (w + 8 * of_nat j) e m) (u + 8 * of_nat i) = rd64 m (u + 8 * of_nat i)"
    by (intro rd64_wr64_other)
  then show ?thesis using False by (auto simp: tbl_entry_def)
qed

lemma entry_cong:
  assumes "i < 512" and "\<And>x. x \<in> page_region u \<Longrightarrow> m x = m' x"
  shows "tbl_entry m u i = tbl_entry m' u i"
  unfolding tbl_entry_def by (rule rd64_cong) (use assms slot_in_page [OF assms(1), of u] in blast)

lemma entry_cleared:
  assumes "i < 512"
  shows "tbl_entry (memset u 0 PAGE_SIZE m) u i = 0"
proof -
  have "tbl_entry (memset u 0 PAGE_SIZE m) u i = tbl_entry (\<lambda>_. 0) u i"
    by (rule entry_cong [OF assms]) (simp add: memset_eq PAGE_SIZE_def)
  also have "\<dots> = 0" unfolding tbl_entry_def by (rule bit_word_eqI) (simp add: bit_rd64)
  finally show ?thesis .
qed

lemma entry_memset_other:
  assumes "i < 512" and "page_region w \<inter> page_region u = {}"
  shows "tbl_entry (memset w 0 PAGE_SIZE m) u i = tbl_entry m u i"
  by (rule entry_cong [OF assms(1)]) (use assms(2) in \<open>auto simp: memset_eq PAGE_SIZE_def\<close>)

section \<open>Entries decide the walk\<close>

text \<open>A walk meets tables of the tree only.\<close>

lemma table_treeD:
  assumes "table_tree m t lv"
  shows "lv t = 4" and "u \<in> tables lv \<Longrightarrow> table_ok u"
    and "u \<in> tables lv \<Longrightarrow> w \<in> tables lv \<Longrightarrow> u = w \<or> page_region u \<inter> page_region w = {}"
    and "leads m lv u i \<Longrightarrow> Suc (lv (target (tbl_entry m u i))) = lv u"
    and "leads m lv u i \<Longrightarrow> leads m lv w j \<Longrightarrow> target (tbl_entry m u i) = target (tbl_entry m w j) \<Longrightarrow> u = w \<and> i = j"
  using assms unfolding table_tree_def by blast+

text \<open>The table of an empty page: nothing is mapped through it.\<close>

lemma walk_empty:
  assumes "\<forall>j < 512. tbl_entry m u j = 0"
  shows "walk1 m u va = NotMapped" "walk2 m u va = NotMapped" "walk3 m u va = NotMapped"
  using assms index_less_512 [of va] by (simp_all add: walk1_def walk2_def walk3_def is_present_def)

text \<open>
  Memory changes in one slot: an entry that was not present gets a new, empty table. Every walk ends as before.
\<close>

definition new_table :: "mem \<Rightarrow> mem \<Rightarrow> (u64 \<Rightarrow> nat) \<Rightarrow> u64 \<Rightarrow> nat \<Rightarrow> u64 \<Rightarrow> bool" where
  "new_table m m' lv u i u' \<longleftrightarrow>
     2 \<le> lv u \<and> i < 512 \<and> lv u' = 0 \<and> \<not> is_present (tbl_entry m u i) \<and>
     is_present (tbl_entry m' u i) \<and> \<not> is_big (tbl_entry m' u i) \<and> target (tbl_entry m' u i) = u' \<and>
     (\<forall>j < 512. tbl_entry m' u' j = 0) \<and>
     (\<forall>x \<in> tables lv. \<forall>j < 512. (x, j) \<noteq> (u, i) \<longrightarrow> tbl_entry m' x j = tbl_entry m x j)"

lemma new_table_entry:
  assumes "new_table m m' lv u i u'" and "x \<in> tables lv" and "j < 512"
  shows "tbl_entry m' x j = tbl_entry m x j \<or>
    (x = u \<and> j = i \<and> \<not> is_present (tbl_entry m x j) \<and> is_present (tbl_entry m' x j) \<and> \<not> is_big (tbl_entry m' x j) \<and> target (tbl_entry m' x j) = u')"
  using assms by (cases "(x, j) = (u, i)") (auto simp: new_table_def)

lemma new_table_walk:
  assumes tr: "table_tree m t lv" and n: "new_table m m' lv u i u'"
  shows "walk m' t va = walk m t va"
proof -
  have z: "\<forall>j < 512. tbl_entry m' u' j = 0" using n by (simp add: new_table_def)
  note i = index_less_512 [of va]
  have w1: "walk1 m' x va = walk1 m x va" if "lv x = 1" for x
    using new_table_entry [OF n, of x "unat (PTE_FROM_VA va)"] that n i by (auto simp: walk1_def Let_def tables_def new_table_def)
  have w2: "walk2 m' x va = walk2 m x va" if "lv x = 2" for x
  proof -
    let ?e = "tbl_entry m x (unat (PDET_FROM_VA va))"
    have "lv (target ?e) = 1" if "is_present ?e" "\<not> is_big ?e"
      using table_treeD(4) [OF tr, of x "unat (PDET_FROM_VA va)"] that \<open>lv x = 2\<close> i by (simp add: leads_def)
    then show ?thesis
      using new_table_entry [OF n, of x "unat (PDET_FROM_VA va)"] that i w1 walk_empty [OF z]
      by (auto simp: walk2_def Let_def tables_def)
  qed
  have w3: "walk3 m' x va = walk3 m x va" if "lv x = 3" for x
  proof -
    let ?e = "tbl_entry m x (unat (PDPT_FROM_VA va))"
    have "lv (target ?e) = 2" if "is_present ?e"
      using table_treeD(4) [OF tr, of x "unat (PDPT_FROM_VA va)"] that \<open>lv x = 3\<close> i by (simp add: leads_def)
    then show ?thesis
      using new_table_entry [OF n, of x "unat (PDPT_FROM_VA va)"] that i w2 walk_empty [OF z]
      by (auto simp: walk3_def Let_def tables_def)
  qed
  let ?e = "tbl_entry m t (unat (PML4_FROM_VA va))"
  have t: "lv t = 4" by (rule table_treeD(1) [OF tr])
  have "lv (target ?e) = 3" if "is_present ?e"
    using table_treeD(4) [OF tr, of t "unat (PML4_FROM_VA va)"] that t i by (simp add: leads_def)
  then show ?thesis
    using new_table_entry [OF n, of t "unat (PML4_FROM_VA va)"] t i w3 walk_empty [OF z]
    by (auto simp: walk_def Let_def tables_def)
qed

lemma new_table_tree:
  assumes tr: "table_tree m t lv" and n: "new_table m m' lv u i u'" and ok: "table_ok u'"
    and dis: "\<forall>x \<in> tables lv. page_region u' \<inter> page_region x = {}"
  shows "table_tree m' t (lv(u' := lv u - 1))"
proof -
  let ?lv = "lv(u' := lv u - 1)"
  have u: "2 \<le> lv u" "i < 512" "lv u' = 0" "u \<noteq> u'" using n by (auto simp: new_table_def)
  have tb: "tables ?lv = insert u' (tables lv)" using u by (auto simp: tables_def)
  have old: "leads m' ?lv x j \<longleftrightarrow> leads m lv x j \<or> (x = u \<and> j = i)" for x j
  proof (cases "x = u'")
    case True
    have "tbl_entry m' u' j = 0" if "j < 512" using n that by (simp add: new_table_def)
    then show ?thesis using True u by (auto simp: leads_def is_present_def)
  next
    case False
    then show ?thesis
      using new_table_entry [OF n, of x j] n u by (auto simp: leads_def tables_def new_table_def)
  qed
  have e: "target (tbl_entry m' x j) = (if x = u \<and> j = i then u' else target (tbl_entry m x j))" if "leads m' ?lv x j" for x j
    using that old [of x j] n unfolding new_table_def by (auto simp: leads_def tables_def)
  have nl: "\<not> leads m lv u i" using n by (simp add: leads_def new_table_def)
  have tin: "target (tbl_entry m x j) \<in> tables lv" if "leads m lv x j" for x j
    using table_treeD(4) [OF tr that] that by (auto simp: tables_def leads_def)
  have "Suc (?lv (target (tbl_entry m' x j))) = ?lv x" if l: "leads m' ?lv x j" for x j
  proof (cases "x = u \<and> j = i")
    case True
    then show ?thesis using e [OF l] u by simp
  next
    case False
    then have m: "leads m lv x j" using old [of x j] l by auto
    have "u' \<notin> tables lv" using u by (simp add: tables_def)
    moreover have "x \<in> tables lv" using m by (simp add: leads_def tables_def)
    ultimately have "target (tbl_entry m x j) \<noteq> u'" "x \<noteq> u'" using tin [OF m] by auto
    then show ?thesis using e [OF l] False table_treeD(4) [OF tr m] by auto
  qed
  moreover have "x = w \<and> j = k" if l: "leads m' ?lv x j" "leads m' ?lv w k" "target (tbl_entry m' x j) = target (tbl_entry m' w k)" for x j w k
  proof -
    have "u' \<notin> tables lv" using u by (simp add: tables_def)
    then show ?thesis using l e [OF l(1)] e [OF l(2)] old [of x j] old [of w k] table_treeD(5) [OF tr, of x j w k] tin by (metis (full_types))
  qed
  moreover have "\<forall>x \<in> tables ?lv. \<forall>w \<in> tables ?lv. x \<noteq> w \<longrightarrow> page_region x \<inter> page_region w = {}"
    using table_treeD(3) [OF tr] dis unfolding tb by blast
  ultimately show ?thesis
    using table_treeD(1,2) [OF tr] ok u unfolding table_tree_def tb by (auto simp: tables_def)
qed

section \<open>Writing an entry of the last level\<close>

definition chain :: "mem \<Rightarrow> (u64 \<Rightarrow> nat) \<Rightarrow> u64 \<Rightarrow> nat \<Rightarrow> u64 \<Rightarrow> bool" where
  "chain m lv u i w \<longleftrightarrow> leads m lv u i \<and> target (tbl_entry m u i) = w"

lemma chain_unique:
  assumes "table_tree m t lv" and "chain m lv u i w"
  shows "leads m lv x j \<Longrightarrow> target (tbl_entry m x j) = w \<longleftrightarrow> x = u \<and> j = i"
  using assms table_treeD(5) [OF assms(1), of x j u i] by (auto simp: chain_def)

lemma chain_level: "table_tree m t lv \<Longrightarrow> chain m lv u i w \<Longrightarrow> Suc (lv w) = lv u"
  using table_treeD(4) by (auto simp: chain_def)

definition page_number :: "u64 \<Rightarrow> nat" where
  "page_number va = ((unat (PML4_FROM_VA va) * 512 + unat (PDPT_FROM_VA va)) * 512 + unat (PDET_FROM_VA va)) * 512 + unat (PTE_FROM_VA va)"

lemma digits_eq_iff: "b < 512 \<Longrightarrow> d < 512 \<Longrightarrow> a * 512 + b = c * 512 + d \<longleftrightarrow> a = c \<and> b = (d :: nat)"
proof
  assume e: "b < 512" "d < 512" "a * 512 + b = c * 512 + d"
  have "(a * 512 + b) div 512 = a" "(c * 512 + d) div 512 = c" using e(1,2) by simp_all
  then have "a = c" using e(3) by (simp only:)
  then show "a = c \<and> b = d" using e(3) by simp
qed simp

lemma page_number_eq_iff:
  assumes "i3 < 512" and "i2 < 512" and "i1 < 512"
  shows "page_number va = ((i4 * 512 + i3) * 512 + i2) * 512 + i1 \<longleftrightarrow>
    unat (PML4_FROM_VA va) = i4 \<and> unat (PDPT_FROM_VA va) = i3 \<and> unat (PDET_FROM_VA va) = i2 \<and> unat (PTE_FROM_VA va) = i1"
  using assms index_less_512 [of va] by (simp only: page_number_def digits_eq_iff conj_assoc)

lemma big_number:
  "page_number va div 512 = (unat (PML4_FROM_VA va) * 512 + unat (PDPT_FROM_VA va)) * 512 + unat (PDET_FROM_VA va)"
  using index_less_512 [of va] by (simp add: page_number_def)

lemma big_number_eq_iff:
  assumes "i3 < 512" and "i2 < 512"
  shows "page_number va div 512 = (i4 * 512 + i3) * 512 + i2 \<longleftrightarrow>
    unat (PML4_FROM_VA va) = i4 \<and> unat (PDPT_FROM_VA va) = i3 \<and> unat (PDET_FROM_VA va) = i2"
  using assms index_less_512 [of va] by (simp only: big_number digits_eq_iff conj_assoc)

lemma write_pte:
  assumes tr: "table_tree m t lv" and c: "chain m lv t i4 t3" "chain m lv t3 i3 t2" "chain m lv t2 i2 t1" and i1: "i1 < 512" and e: "is_present e"
  defines "m' \<equiv> wr64 (t1 + 8 * of_nat i1) e m"
  shows "table_tree m' t lv" and "\<And>x j. 2 \<le> lv x \<Longrightarrow> j < 512 \<Longrightarrow> tbl_entry m' x j = tbl_entry m x j"
    and "walk m' t va = (if page_number va = ((i4 * 512 + i3) * 512 + i2) * 512 + i1 then SmallPage e else walk m t va)"
proof -
  have lv: "lv t = 4" "lv t3 = 3" "lv t2 = 2" "lv t1 = 1"
    using table_treeD(1) [OF tr] chain_level [OF tr c(1)] chain_level [OF tr c(2)] chain_level [OF tr c(3)] by simp_all
  have en: "tbl_entry m' x j = (if x = t1 \<and> j = i1 then e else tbl_entry m x j)" if "x \<in> tables lv" "j < 512" for x j
    unfolding m'_def by (rule entry_write [OF that(2) i1 table_treeD(3) [OF tr that(1)]]) (use lv in \<open>simp add: tables_def\<close>)
  show up: "\<And>x j. 2 \<le> lv x \<Longrightarrow> j < 512 \<Longrightarrow> tbl_entry m' x j = tbl_entry m x j"
    using en lv by (auto simp: tables_def)
  then have "leads m' lv x j \<longleftrightarrow> leads m lv x j" for x j by (auto simp: leads_def)
  moreover have "tbl_entry m' x j = tbl_entry m x j" if "leads m lv x j" for x j using that up by (auto simp: leads_def)
  ultimately show "table_tree m' t lv" using tr unfolding table_tree_def by simp
  note ix = index_less_512 [of va]
  have w1: "walk1 m' x va = (if x = t1 \<and> unat (PTE_FROM_VA va) = i1 then SmallPage e else walk1 m x va)" if "lv x = 1" for x
    using en [of x "unat (PTE_FROM_VA va)"] that ix e by (simp add: walk1_def tables_def)
  have w2: "walk2 m' x va = (if x = t2 \<and> unat (PDET_FROM_VA va) = i2 \<and> unat (PTE_FROM_VA va) = i1 then SmallPage e else walk2 m x va)" if "lv x = 2" for x
  proof (cases "leads m lv x (unat (PDET_FROM_VA va))")
    case True
    then have "lv (target (tbl_entry m x (unat (PDET_FROM_VA va)))) = 1" using table_treeD(4) [OF tr True] that by simp
    then show ?thesis using up [of x "unat (PDET_FROM_VA va)"] that ix w1 chain_unique [OF tr c(3) True] True by (simp add: walk2_def leads_def)
  next
    case False
    then have "\<not> (x = t2 \<and> unat (PDET_FROM_VA va) = i2)" using c(3) by (auto simp: chain_def)
    then show ?thesis using False up [of x "unat (PDET_FROM_VA va)"] that ix by (auto simp: walk2_def leads_def Let_def)
  qed
  have w3: "walk3 m' x va = (if x = t3 \<and> unat (PDPT_FROM_VA va) = i3 \<and> unat (PDET_FROM_VA va) = i2 \<and> unat (PTE_FROM_VA va) = i1
      then SmallPage e else walk3 m x va)" if "lv x = 3" for x
  proof (cases "leads m lv x (unat (PDPT_FROM_VA va))")
    case True
    then have "lv (target (tbl_entry m x (unat (PDPT_FROM_VA va)))) = 2" using table_treeD(4) [OF tr True] that by simp
    then show ?thesis using up [of x "unat (PDPT_FROM_VA va)"] that ix w2 chain_unique [OF tr c(2) True] True by (simp add: walk3_def leads_def)
  next
    case False
    then have "\<not> (x = t3 \<and> unat (PDPT_FROM_VA va) = i3)" using c(2) by (auto simp: chain_def)
    then show ?thesis using False up [of x "unat (PDPT_FROM_VA va)"] that ix by (auto simp: walk3_def leads_def Let_def)
  qed
  have "walk m' t va = (if unat (PML4_FROM_VA va) = i4 \<and> unat (PDPT_FROM_VA va) = i3 \<and> unat (PDET_FROM_VA va) = i2 \<and> unat (PTE_FROM_VA va) = i1
      then SmallPage e else walk m t va)"
  proof (cases "leads m lv t (unat (PML4_FROM_VA va))")
    case True
    then have "lv (target (tbl_entry m t (unat (PML4_FROM_VA va)))) = 3" using table_treeD(4) [OF tr True] lv by simp
    then show ?thesis using up [of t "unat (PML4_FROM_VA va)"] lv ix w3 chain_unique [OF tr c(1) True] True by (simp add: walk_def leads_def)
  next
    case False
    then have "\<not> unat (PML4_FROM_VA va) = i4" using c(1) by (auto simp: chain_def)
    then show ?thesis using False up [of t "unat (PML4_FROM_VA va)"] lv ix by (auto simp: walk_def leads_def Let_def)
  qed
  moreover have "i3 < 512" "i2 < 512" using c by (auto simp: chain_def leads_def)
  ultimately show "walk m' t va = (if page_number va = ((i4 * 512 + i3) * 512 + i2) * 512 + i1 then SmallPage e else walk m t va)"
    using page_number_eq_iff [of i3 i2 i1 va i4] i1 by simp
qed

text \<open>An entry of the third level that maps two megabytes.\<close>

lemma write_big:
  assumes tr: "table_tree m t lv" and c: "chain m lv t i4 t3" "chain m lv t3 i3 t2" and i2: "i2 < 512" and e: "is_present e" "is_big e"
  defines "m' \<equiv> wr64 (t2 + 8 * of_nat i2) e m"
  shows "table_tree m' t lv" and "\<And>x j. 3 \<le> lv x \<Longrightarrow> j < 512 \<Longrightarrow> tbl_entry m' x j = tbl_entry m x j"
    and "walk m' t va = (if page_number va div 512 = (i4 * 512 + i3) * 512 + i2 then BigPage e else walk m t va)"
proof -
  have lv: "lv t = 4" "lv t3 = 3" "lv t2 = 2"
    using table_treeD(1) [OF tr] chain_level [OF tr c(1)] chain_level [OF tr c(2)] by simp_all
  have en: "tbl_entry m' x j = (if x = t2 \<and> j = i2 then e else tbl_entry m x j)" if "x \<in> tables lv" "j < 512" for x j
    unfolding m'_def by (rule entry_write [OF that(2) i2 table_treeD(3) [OF tr that(1)]]) (use lv in \<open>simp add: tables_def\<close>)
  show up: "\<And>x j. 3 \<le> lv x \<Longrightarrow> j < 512 \<Longrightarrow> tbl_entry m' x j = tbl_entry m x j"
    using en lv by (auto simp: tables_def)
  have l: "leads m' lv x j \<longleftrightarrow> leads m lv x j \<and> \<not> (x = t2 \<and> j = i2)" for x j
    using en [of x j] lv e by (cases "x \<in> tables lv") (auto simp: leads_def tables_def split: if_splits)
  moreover have "tbl_entry m' x j = tbl_entry m x j" if "leads m' lv x j" for x j
  proof -
    have "x \<in> tables lv" "j < 512" "\<not> (x = t2 \<and> j = i2)" using that l [of x j] by (auto simp: leads_def tables_def)
    then show ?thesis using en [of x j] by auto
  qed
  ultimately have "Suc (lv (target (tbl_entry m' x j))) = lv x"
    "leads m' lv y k \<Longrightarrow> target (tbl_entry m' x j) = target (tbl_entry m' y k) \<Longrightarrow> x = y \<and> j = k" if "leads m' lv x j" for x j y k
    using that table_treeD(4) [OF tr, of x j] table_treeD(5) [OF tr, of x j y k] by (simp_all add: l)
  then show "table_tree m' t lv" using tr unfolding table_tree_def by blast
  note ix = index_less_512 [of va]
  have w1: "walk1 m' x va = walk1 m x va" if "lv x = 1" for x
    using en [of x "unat (PTE_FROM_VA va)"] that ix lv by (auto simp: walk1_def tables_def)
  have w2: "walk2 m' x va = (if x = t2 \<and> unat (PDET_FROM_VA va) = i2 then BigPage e else walk2 m x va)" if "lv x = 2" for x
  proof -
    have "lv (target (tbl_entry m x (unat (PDET_FROM_VA va)))) = 1" if "leads m lv x (unat (PDET_FROM_VA va))"
      using table_treeD(4) [OF tr that] \<open>lv x = 2\<close> by simp
    then show ?thesis using en [of x "unat (PDET_FROM_VA va)"] that ix w1 e by (auto simp: walk2_def leads_def Let_def tables_def)
  qed
  have w3: "walk3 m' x va = (if x = t3 \<and> unat (PDPT_FROM_VA va) = i3 \<and> unat (PDET_FROM_VA va) = i2 then BigPage e else walk3 m x va)"
    if "lv x = 3" for x
  proof (cases "leads m lv x (unat (PDPT_FROM_VA va))")
    case True
    then have "lv (target (tbl_entry m x (unat (PDPT_FROM_VA va)))) = 2" using table_treeD(4) [OF tr True] that by simp
    then show ?thesis using up [of x "unat (PDPT_FROM_VA va)"] that ix w2 chain_unique [OF tr c(2) True] True by (simp add: walk3_def leads_def)
  next
    case False
    then have "\<not> (x = t3 \<and> unat (PDPT_FROM_VA va) = i3)" using c(2) by (auto simp: chain_def)
    then show ?thesis using False up [of x "unat (PDPT_FROM_VA va)"] that ix by (auto simp: walk3_def leads_def Let_def)
  qed
  have "walk m' t va = (if unat (PML4_FROM_VA va) = i4 \<and> unat (PDPT_FROM_VA va) = i3 \<and> unat (PDET_FROM_VA va) = i2
      then BigPage e else walk m t va)"
  proof (cases "leads m lv t (unat (PML4_FROM_VA va))")
    case True
    then have "lv (target (tbl_entry m t (unat (PML4_FROM_VA va)))) = 3" using table_treeD(4) [OF tr True] lv by simp
    then show ?thesis using up [of t "unat (PML4_FROM_VA va)"] lv ix w3 chain_unique [OF tr c(1) True] True by (simp add: walk_def leads_def)
  next
    case False
    then have "\<not> unat (PML4_FROM_VA va) = i4" using c(1) by (auto simp: chain_def)
    then show ?thesis using False up [of t "unat (PML4_FROM_VA va)"] lv ix by (auto simp: walk_def leads_def Let_def)
  qed
  moreover have "i3 < 512" using c by (auto simp: chain_def leads_def)
  ultimately show "walk m' t va = (if page_number va div 512 = (i4 * 512 + i3) * 512 + i2 then BigPage e else walk m t va)"
    using big_number_eq_iff [of i3 i2 va i4] i2 by simp
qed

section \<open>What a job maps\<close>

definition unit_number :: "map_job \<Rightarrow> u64 \<Rightarrow> nat" where
  "unit_number J va = (if mj_2mb J then page_number va div 512 else page_number va)"

definition leaf :: "map_job \<Rightarrow> nat \<Rightarrow> walk_result" where
  "leaf J k = (if mj_2mb J
     then BigPage (PAGE_FRAME (mj_phys J + of_nat k * mj_pgsize J) OR PDET_PRESENT_FLAG OR PDET_RW_FLAG OR PDET_PAGE_SIZE OR PDET_USER)
     else SmallPage (pte_entry J k))"

text \<open>
  The trees before and after the pages from \<open>pc\<close> to \<open>pc'\<close> of a job were mapped, with page \<open>0\<close> at number \<open>Q\<close>: the upper levels are kept,
  and the walks of all addresses end as before but for those of the pages.
\<close>

definition mapped :: "map_job \<Rightarrow> nat \<Rightarrow> u64 \<Rightarrow> nat \<Rightarrow> nat \<Rightarrow> mem \<Rightarrow> (u64 \<Rightarrow> nat) \<Rightarrow> mem \<Rightarrow> (u64 \<Rightarrow> nat) \<Rightarrow> bool" where
  "mapped J Q t pc pc' m lv m' lv' \<longleftrightarrow>
     table_tree m' t lv' \<and> (\<forall>x i w. 3 \<le> lv x \<longrightarrow> chain m lv x i w \<longrightarrow> chain m' lv' x i w) \<and> (\<forall>x. lv x \<noteq> 0 \<longrightarrow> lv' x = lv x) \<and>
     (\<forall>va. walk m' t va = (if Q + pc \<le> unit_number J va \<and> unit_number J va < Q + pc' then leaf J (unit_number J va - Q) else walk m t va))"

lemma mapped_refl: "table_tree m t lv \<Longrightarrow> mapped J Q t pc pc m lv m lv"
  by (auto simp: mapped_def)

lemma mapped_trans:
  assumes "mapped J Q t pc pc' m lv m' lv'" and "mapped J Q t pc' pc'' m' lv' m'' lv''" and "pc \<le> pc'" and "pc' \<le> pc''"
  shows "mapped J Q t pc pc'' m lv m'' lv''"
  using assms unfolding mapped_def by auto

lemma mapped_tree: "mapped J Q t pc pc' m lv m' lv' \<Longrightarrow> table_tree m' t lv'"
  and mapped_chain: "mapped J Q t pc pc' m lv m' lv' \<Longrightarrow> 3 \<le> lv x \<Longrightarrow> chain m lv x i w \<Longrightarrow> chain m' lv' x i w"
  and mapped_level: "mapped J Q t pc pc' m lv m' lv' \<Longrightarrow> lv x \<noteq> 0 \<Longrightarrow> lv' x = lv x"
  by (simp_all add: mapped_def)

text \<open>No page of the job that is still to be mapped lies in a mapping of two megabytes.\<close>

definition no_big :: "map_job \<Rightarrow> nat \<Rightarrow> u64 \<Rightarrow> nat \<Rightarrow> mem \<Rightarrow> bool" where
  "no_big J Q t pc m \<longleftrightarrow> mj_2mb J \<or>
     (\<forall>va e. Q + pc \<le> page_number va \<longrightarrow> page_number va < Q + mj_num J \<longrightarrow> walk m t va \<noteq> BigPage e)"

lemma no_big_mapped:
  assumes "no_big J Q t pc m" and "mapped J Q t pc pc' m lv m' lv'" and "pc \<le> pc'"
  shows "no_big J Q t pc' m'"
  using assms by (auto simp: no_big_def mapped_def unit_number_def)

lemma leaf_present:
  "is_present (pte_entry J k)"
  "is_present (x OR PDET_PRESENT_FLAG OR PDET_RW_FLAG OR PDET_PAGE_SIZE OR PDET_USER)"
  "is_big (x OR PDET_PRESENT_FLAG OR PDET_RW_FLAG OR PDET_PAGE_SIZE OR PDET_USER)"
proof -
  have "bit (x OR PDET_PRESENT_FLAG OR PDET_RW_FLAG OR PDET_PAGE_SIZE OR PDET_USER) 0 \<and>
    bit (x OR PDET_PRESENT_FLAG OR PDET_RW_FLAG OR PDET_PAGE_SIZE OR PDET_USER) 7" by (simp add: BIT_def bit_simps)
  moreover have "bit e n \<Longrightarrow> n < 64 \<Longrightarrow> e AND BIT n \<noteq> 0" for e n
  proof
    assume b: "bit e n" "n < 64" and z: "e AND BIT n = 0"
    from b have "bit (e AND BIT n) n" by (simp add: BIT_def bit_simps)
    with z show False by simp
  qed
  ultimately show "is_present (pte_entry J k)" "is_present (x OR PDET_PRESENT_FLAG OR PDET_RW_FLAG OR PDET_PAGE_SIZE OR PDET_USER)"
    "is_big (x OR PDET_PRESENT_FLAG OR PDET_RW_FLAG OR PDET_PAGE_SIZE OR PDET_USER)"
    using pte_entry_frame(2) [of J k] by (simp_all add: is_present_def is_big_def)
qed

text \<open>The innermost loop.\<close>

lemma pte_loop_maps:
  assumes "table_tree (ram a) t lv" and "chain (ram a) lv t i4 t3" "chain (ram a) lv t3 i3 t2" "chain (ram a) lv t2 i2 t1"
    and "\<not> mj_2mb J" and "((i4 * 512 + i3) * 512 + i2) * 512 + i1 = Q + pc" and "i1 + k \<le> 512" and "pc \<le> mj_num J"
  shows "\<exists>a'. pte_loop k J t1 i1 pc a = (min (mj_num J) (pc + k), a') \<and> a' = a\<lparr>ram := ram a'\<rparr> \<and>
    mapped J Q t pc (min (mj_num J) (pc + k)) (ram a) lv (ram a') lv"
  using assms
proof (induction k arbitrary: i1 pc a)
  case 0
  then show ?case by (simp add: mapped_refl)
next
  case (Suc k)
  show ?case
  proof (cases "pc < mj_num J")
    case True
    let ?m = "wr64 (t1 + 8 * of_nat i1) (pte_entry J pc) (ram a)"
    let ?a = "a\<lparr>ram := ?m\<rparr>"
    have i1: "i1 < 512" using Suc.prems(7) by simp
    note w = write_pte [OF Suc.prems(1-4) i1 leaf_present(1) [of J pc]]
    have ch: "chain ?m lv x j y" if "chain (ram a) lv x j y" for x j y
      using that w(2) [of x j] by (auto simp: chain_def leads_def)
    have m: "mapped J Q t pc (Suc pc) (ram a) lv ?m lv"
      unfolding mapped_def using w(1,3) ch Suc.prems(5,6) by (auto simp: unit_number_def leaf_def)
    obtain a' where a': "pte_loop k J t1 (Suc i1) (Suc pc) ?a = (min (mj_num J) (Suc pc + k), a')" "a' = ?a\<lparr>ram := ram a'\<rparr>"
      "mapped J Q t (Suc pc) (min (mj_num J) (Suc pc + k)) ?m lv (ram a') lv"
      using Suc.IH [of ?a "Suc i1" "Suc pc"] w(1) ch Suc.prems True by auto
    have "mapped J Q t pc (min (mj_num J) (Suc pc + k)) (ram a) lv (ram a') lv"
      by (rule mapped_trans [OF m a'(3)]) (use True in simp_all)
    moreover have "a' = a\<lparr>ram := ram a'\<rparr>" using a'(2) by simp
    ultimately show ?thesis using a'(1) True by simp
  next
    case False
    then show ?thesis using Suc.prems by (simp add: mapped_refl)
  qed
qed

text \<open>How many tables a job still needs: entries of the second level, and of the third.\<close>

definition pdet_count :: "map_job \<Rightarrow> nat \<Rightarrow> nat \<Rightarrow> nat" where
  "pdet_count J ptei pc = (if mj_2mb J then mj_num J - pc else (mj_num J - pc + (if pc < mj_num J then ptei else 0) + 511) div 512)"

definition pte_tables :: "map_job \<Rightarrow> nat \<Rightarrow> nat \<Rightarrow> nat" where
  "pte_tables J ptei pc = (if mj_2mb J then 0 else pdet_count J ptei pc)"

definition job_tables :: "map_job \<Rightarrow> nat \<Rightarrow> nat \<Rightarrow> nat \<Rightarrow> nat" where
  "job_tables J pdeti ptei pc =
     pte_tables J ptei pc + (pdet_count J ptei pc + (if pc < mj_num J then pdeti else 0) + 511) div 512"

text \<open>The number of units that fit into an entry of the second level, and the first one of them.\<close>

definition per_pdet :: "map_job \<Rightarrow> nat" where "per_pdet J = (if mj_2mb J then 1 else 512)"
definition first_unit :: "map_job \<Rightarrow> nat \<Rightarrow> nat" where "first_unit J ptei = (if mj_2mb J then 0 else ptei)"

context page_supply
begin

text \<open>A step down the tree, with a new table where there was none.\<close>

lemma next_table_step:
  assumes tr: "table_tree (ram a) t lv" and u: "2 \<le> lv u" "i < 512" and s: "ok (Suc n) (tables lv) a"
    and nb: "lv u = 2 \<Longrightarrow> is_present (tbl_entry (ram a) u i) \<Longrightarrow> \<not> is_big (tbl_entry (ram a) u i)"
  shows "\<exists>u' a' lv'. next_table (\<lambda>p _. v p) u i a = Inr (u', a') \<and> ok n (tables lv') a' \<and> chain (ram a') lv' u i u' \<and>
    (\<forall>x j w. chain (ram a) lv x j w \<longrightarrow> chain (ram a') lv' x j w) \<and> mapped J Q t pc pc (ram a) lv (ram a') lv'"
proof (cases "is_present (tbl_entry (ram a) u i)")
  case True
  then have "next_table (\<lambda>p _. v p) u i a = Inr (target (tbl_entry (ram a) u i), a)"
    by (simp add: next_table_def is_present_def tbl_entry_def target_def)
  moreover have "chain (ram a) lv u i (target (tbl_entry (ram a) u i))" using True u nb by (auto simp: chain_def leads_def)
  ultimately show ?thesis using mapped_refl [OF tr] ok_less [OF s, of n] by fastforce
next
  case False
  obtain p a1 where p: "alloc_pages (\<lambda>p _. v p) PGALLOC_KERNEL 0 a = Inr (p, a1)" "ok n (insert (v p) (tables lv)) a1" "table_ok (v p)"
    "\<forall>x \<in> tables lv. page_region (v p) \<inter> page_region x = {}"
    using alloc_fresh [OF s] by blast
  let ?u = "v p"
  let ?e = "PAGE_FRAME (VA2PA ?u) OR PML4_PRESENT_FLAG OR PML4_RW_FLAG OR PML4_USER"
  let ?m = "wr64 (u + 8 * of_nat i) ?e (ram a1)" and ?lv = "lv(?u := lv u - 1)"
  have r: "ram a1 = memset ?u 0 PAGE_SIZE (ram a)" by (rule alloc_pages_ram [OF p(1)])
  have ut: "u \<in> tables lv" using u by (simp add: tables_def)
  have "?u \<in> page_region ?u" by (auto simp: region_def intro!: image_eqI [of _ _ 0])
  then have nu: "lv ?u = 0" "?u \<noteq> u" using p(4) ut by (auto simp: tables_def)
  have "next_table (\<lambda>p _. v p) u i a = Inr (?u, a1\<lparr>ram := ?m\<rparr>)"
    using False p(1) by (simp add: next_table_def is_present_def tbl_entry_def Let_def)
  moreover have n: "new_table (ram a) ?m lv u i ?u"
    unfolding new_table_def
  proof (intro conjI ballI allI impI)
    show "\<not> is_present (tbl_entry (ram a) u i)" by (rule False)
    have "tbl_entry ?m u i = ?e" using u by (simp add: entry_write)
    then show "is_present (tbl_entry ?m u i)" "\<not> is_big (tbl_entry ?m u i)" "target (tbl_entry ?m u i) = ?u"
      using table_entry_frame [of "VA2PA ?u"] p(3) by (simp_all add: is_present_def is_big_def target_def table_ok_def)
    show "tbl_entry ?m ?u j = 0" if "j < 512" for j
      using that u p(4) ut nu by (simp add: entry_write r entry_cleared)
    show "tbl_entry ?m x j = tbl_entry (ram a) x j" if "x \<in> tables lv" "j < 512" "(x, j) \<noteq> (u, i)" for x j
      using that u p(4) table_treeD(3) [OF tr that(1) ut] by (auto simp: entry_write r entry_memset_other)
  qed (use u nu in auto)
  moreover have tr': "table_tree ?m t ?lv" by (rule new_table_tree [OF tr n p(3,4)])
  moreover have ch: "chain ?m ?lv x j w" if "chain (ram a) lv x j w" for x j w
  proof -
    have x: "x \<in> tables lv" "j < 512" "x \<noteq> ?u" using that nu by (auto simp: chain_def leads_def tables_def)
    then show ?thesis using that new_table_entry [OF n x(1,2)] by (auto simp: chain_def leads_def)
  qed
  moreover have "chain ?m ?lv u i ?u" using n nu by (auto simp: chain_def leads_def new_table_def)
  moreover have "tables ?lv = insert ?u (tables lv)" using u nu by (auto simp: tables_def)
  moreover have "mapped J Q t pc pc (ram a) lv ?m ?lv"
    unfolding mapped_def using tr' ch nu new_table_walk [OF tr n] by auto
  ultimately show ?thesis using ok_ram [OF p(2)]
    by (intro exI [of _ ?u] exI [of _ "a1\<lparr>ram := ?m\<rparr>"] exI [of _ ?lv]) simp
qed

end

section \<open>Numbers of pages\<close>

lemma page_number_nat: "page_number va = unat va div 2 ^ 12 mod 2 ^ 36"
proof -
  let ?x = "unat va div 2 ^ 12"
  have i: "unat va div 2 ^ 39 = ?x div 512 div 512 div 512" "unat va div 2 ^ 30 = ?x div 512 div 512" "unat va div 2 ^ 21 = ?x div 512"
    by (simp_all flip: div_mult2_eq)
  have "?x mod (512 * (512 * (512 * 512))) = page_number va"
    unfolding page_number_def indices_nat i mod_mult2_eq by (simp add: algebra_simps)
  then show ?thesis by simp
qed

lemma ex_page_number:
  assumes "q < 2 ^ 36" obtains va where "page_number va = q"
proof -
  have "unat (of_nat (q * 4096) :: u64) = q * 4096" using assms by (simp only: unat_of_nat) simp
  then have "page_number (of_nat (q * 4096)) = q" using assms by (simp only: page_number_nat) simp
  then show thesis by (rule that)
qed

lemma digits_less: "a < n \<Longrightarrow> b < 512 \<Longrightarrow> a * 512 + b < n * (512 :: nat)"
proof -
  assume "a < n" "b < 512"
  then have "a * 512 + b < Suc a * 512" "Suc a * 512 \<le> n * 512" by simp_all
  then show ?thesis by (rule less_le_trans)
qed

text \<open>The walk goes through a chain.\<close>

lemma walk_chain:
  assumes "chain m lv t (unat (PML4_FROM_VA va)) t3" and "chain m lv t3 (unat (PDPT_FROM_VA va)) t2"
  shows "walk m t va = walk2 m t2 va"
  using assms by (simp add: chain_def leads_def walk_def walk3_def)

lemma no_big_entry:
  assumes c: "chain m lv t i4 t3" "chain m lv t3 i3 t2" and i: "i4 < 512" "i2 < 512" "i1 < 512"
    and nb: "no_big J Q t pc m" "\<not> mj_2mb J" "pc < mj_num J" and q: "((i4 * 512 + i3) * 512 + i2) * 512 + i1 = Q + pc"
    and e: "is_present (tbl_entry m t2 i2)"
  shows "\<not> is_big (tbl_entry m t2 i2)"
proof
  assume b: "is_big (tbl_entry m t2 i2)"
  have i3: "i3 < 512" using c(2) by (simp add: chain_def leads_def)
  have "((i4 * 512 + i3) * 512 + i2) * 512 + i1 < 512 * 512 * 512 * 512" using i i3 by (intro digits_less)
  then obtain va where va: "page_number va = ((i4 * 512 + i3) * 512 + i2) * 512 + i1" using ex_page_number by (auto simp del: add_mult_distrib)
  then have x: "unat (PML4_FROM_VA va) = i4" "unat (PDPT_FROM_VA va) = i3" "unat (PDET_FROM_VA va) = i2"
    using page_number_eq_iff [OF i3 i(2,3)] by blast+
  have "walk m t va = BigPage (tbl_entry m t2 i2)"
    using walk_chain [of m lv t va t3 t2] c b e by (simp add: x walk2_def)
  then show False using nb va q by (auto simp: no_big_def)
qed

section \<open>Counting tables\<close>

lemma sub_div_512: "(x - c * 512) div 512 = x div 512 - (c :: nat)"
proof (cases "c * 512 \<le> x")
  case True
  then obtain r where "x = c * 512 + r" by (auto simp: le_iff_add)
  then show ?thesis by simp
next
  case False
  then have "x div 512 \<le> c" by linarith
  then show ?thesis using False by simp
qed

lemma done_tables [simp]:
  "pdet_count J ptei (mj_num J) = 0" "pte_tables J ptei (mj_num J) = 0" "job_tables J pdeti ptei (mj_num J) = 0"
  by (simp_all add: pdet_count_def pte_tables_def job_tables_def)

lemma pte_tables_step:
  assumes "\<not> mj_2mb J" and "pc < mj_num J" and "ptei < 512"
  shows "Suc (pte_tables J 0 (min (mj_num J) (pc + (512 - ptei)))) \<le> pte_tables J ptei pc"
proof (cases "pc + (512 - ptei) < mj_num J")
  case True
  have "mj_num J - pc + ptei + 511 = (mj_num J - (pc + (512 - ptei)) + 511) + 1 * 512" using True assms(3) by simp
  then have "(mj_num J - pc + ptei + 511) div 512 = Suc ((mj_num J - (pc + (512 - ptei)) + 511) div 512)"
    by simp
  then show ?thesis using True assms by (simp add: pte_tables_def pdet_count_def)
next
  case False
  have "1 \<le> (mj_num J - pc + ptei + 511) div 512" using assms(2) by simp
  then show ?thesis using False assms by (simp add: pte_tables_def pdet_count_def min_def)
qed

definition pdpt_count :: "map_job \<Rightarrow> nat \<Rightarrow> nat \<Rightarrow> nat \<Rightarrow> nat" where
  "pdpt_count J pdeti ptei pc = (pdet_count J ptei pc + (if pc < mj_num J then pdeti else 0) + 511) div 512"

lemma job_tables_eq: "job_tables J pdeti ptei pc = pte_tables J ptei pc + pdpt_count J pdeti ptei pc"
  by (simp add: job_tables_def pdpt_count_def)

lemma pdet_count_step:
  assumes "pc + (c * per_pdet J - first_unit J ptei) < mj_num J" and "ptei < 512" and "0 < c" and "first_unit J ptei' = 0"
  shows "pdet_count J ptei' (pc + (c * per_pdet J - first_unit J ptei)) + c = pdet_count J ptei pc"
proof (cases "mj_2mb J")
  case True
  then show ?thesis using assms by (simp add: pdet_count_def per_pdet_def first_unit_def)
next
  case False
  have p: "ptei' = 0" "ptei \<le> c * 512" using assms False by (simp_all add: first_unit_def) 
  have "mj_num J - pc + ptei + 511 = (mj_num J - (pc + (c * 512 - ptei)) + 511) + c * 512"
    using assms(1) p False by (simp add: per_pdet_def first_unit_def)
  then have "(mj_num J - pc + ptei + 511) div 512 = (mj_num J - (pc + (c * 512 - ptei)) + 511) div 512 + c"
    by simp
  moreover have "pdet_count J ptei pc = (mj_num J - pc + ptei + 511) div 512"
    "pdet_count J ptei' (pc + (c * 512 - ptei)) = (mj_num J - (pc + (c * 512 - ptei)) + 511) div 512"
    using assms(1) p False by (simp_all add: pdet_count_def)
  ultimately show ?thesis using False by (simp add: per_pdet_def first_unit_def)
qed

lemma pdpt_count_step:
  assumes "pc < mj_num J" and "ptei < 512" and "pdeti < 512"
    and "pc' = min (mj_num J) (pc + ((512 - pdeti) * per_pdet J - first_unit J ptei))"
    and "pc' < mj_num J \<Longrightarrow> first_unit J ptei' = 0"
  shows "Suc (pdpt_count J 0 ptei' pc') \<le> pdpt_count J pdeti ptei pc"
proof (cases "pc' < mj_num J")
  case True
  then have c: "pdet_count J ptei' pc' + (512 - pdeti) = pdet_count J ptei pc"
    using pdet_count_step [of pc "512 - pdeti" J ptei ptei'] assms by (auto simp: min_def split: if_splits)
  have "pdet_count J ptei pc + pdeti + 511 = (pdet_count J ptei' pc' + 511) + 1 * 512" using c assms(3) by simp
  then have "(pdet_count J ptei pc + pdeti + 511) div 512 = Suc ((pdet_count J ptei' pc' + 511) div 512)"
    by simp
  then show ?thesis using assms(1) True by (simp add: pdpt_count_def)
next
  case False
  then have e: "pc' = mj_num J" using assms(4) by simp
  have "1 \<le> pdet_count J ptei pc" using assms(1) by (auto simp: pdet_count_def)
  then have "1 \<le> (pdet_count J ptei pc + pdeti + 511) div 512" by simp
  then show ?thesis using assms(1) by (simp add: pdpt_count_def e)
qed

section \<open>The loops\<close>

text \<open>Counting pages: a round of \<open>A\<close> entries with \<open>u\<close> pages each, of which the first \<open>f\<close> are before the range, and the rest of the loop.\<close>

lemma units_join:
  assumes "f \<le> A * u" and "pc1 = min N (pc + (A * u - f))" and "pc1 < N \<longrightarrow> d1 = 0 \<and> f1 = 0"
  shows "min N (pc1 + ((B - d1) * u - f1)) = min N (pc + ((A + B) * u - (f :: nat)))"
  using assms by (cases "pc1 < N") (auto simp: distrib_right)

lemma units_position:
  assumes "f \<le> A * u" and "pc1 = min N (pc + (A * u - f))" and "pc1 < N" and "P * u + f = Q + pc"
  shows "(P + A) * u = Q + (pc1 :: nat)"
  using assms by (simp add: distrib_right)

lemma first_unit_fits: "1 \<le> c \<Longrightarrow> ptei < 512 \<Longrightarrow> first_unit J ptei \<le> c * per_pdet J"
  using mult_le_mono1 [of 1 c "per_pdet J"] by (auto simp: first_unit_def per_pdet_def)

text \<open>One round of the innermost loop over tables that maps a 2 MiB page.\<close>

lemma big_round:
  assumes tr: "table_tree m t lv" and c: "chain m lv t i4 t3" "chain m lv t3 i3 t2" and "i2 < 512" and "mj_2mb J"
    and "((i4 * 512 + i3) * 512 + i2) * per_pdet J + first_unit J ptei = Q + pc"
  shows "mapped J Q t pc (Suc pc) m lv (wr64 (t2 + 8 * of_nat i2)
    (PAGE_FRAME (mj_phys J + of_nat pc * mj_pgsize J) OR PDET_PRESENT_FLAG OR PDET_RW_FLAG OR PDET_PAGE_SIZE OR PDET_USER) m) lv"
proof -
  let ?m = "wr64 (t2 + 8 * of_nat i2) (PAGE_FRAME (mj_phys J + of_nat pc * mj_pgsize J) OR PDET_PRESENT_FLAG OR PDET_RW_FLAG OR PDET_PAGE_SIZE OR PDET_USER) m"
  note w = write_big [OF tr c assms(4) leaf_present(2,3)]
  have "chain ?m lv x j y" if "chain m lv x j y" "3 \<le> lv x" for x j y
    using that w(2) [of x j] by (auto simp: chain_def leads_def)
  then show ?thesis
    unfolding mapped_def using w(1,3) assms(5,6) by (auto simp: unit_number_def leaf_def per_pdet_def first_unit_def)
qed

context page_supply
begin

text \<open>One round that goes through a table of 4 KiB pages.\<close>

lemma small_round:
  assumes tr: "table_tree (ram a) t lv" and c: "chain (ram a) lv t i4 t3" "chain (ram a) lv t3 i3 t2" and i: "i4 < 512" "i2 < 512" "ptei < 512"
    and pc: "pc < mj_num J" "\<not> mj_2mb J" and q: "((i4 * 512 + i3) * 512 + i2) * per_pdet J + first_unit J ptei = Q + pc"
    and s: "ok (pte_tables J ptei pc + n) (tables lv) a" and nb: "no_big J Q t pc (ram a)"
  shows "\<exists>t1 a1 a2 lv1. next_table (\<lambda>p _. v p) t2 i2 a = Inr (t1, a1) \<and> pte_loop (512 - ptei) J t1 ptei pc a1 = (min (mj_num J) (pc + (512 - ptei)), a2) \<and>
    ok (pte_tables J 0 (min (mj_num J) (pc + (512 - ptei))) + n) (tables lv1) a2 \<and>
    mapped J Q t pc (min (mj_num J) (pc + (512 - ptei))) (ram a) lv (ram a2) lv1"
proof -
  let ?pc = "min (mj_num J) (pc + (512 - ptei))"
  have lv: "lv t2 = 2" using table_treeD(1) [OF tr] chain_level [OF tr c(1)] chain_level [OF tr c(2)] by simp
  have q': "((i4 * 512 + i3) * 512 + i2) * 512 + ptei = Q + pc" using q pc by (simp add: per_pdet_def first_unit_def)
  have s': "ok (Suc (pte_tables J 0 ?pc + n)) (tables lv) a"
    using pte_tables_step [OF pc(2,1) i(3)] by (intro ok_less [OF s]) simp
  obtain t1 a1 lv1 where n: "next_table (\<lambda>p _. v p) t2 i2 a = Inr (t1, a1)" "ok (pte_tables J 0 ?pc + n) (tables lv1) a1" "chain (ram a1) lv1 t2 i2 t1"
    "\<forall>x j w. chain (ram a) lv x j w \<longrightarrow> chain (ram a1) lv1 x j w" "mapped J Q t pc pc (ram a) lv (ram a1) lv1"
    using next_table_step [OF tr _ i(2) s' no_big_entry [OF c i(1,2,3) nb pc(2,1) q'], where J = J and Q = Q and pc = pc] lv by auto
  obtain a2 where p: "pte_loop (512 - ptei) J t1 ptei pc a1 = (?pc, a2)" "a2 = a1\<lparr>ram := ram a2\<rparr>" "mapped J Q t pc ?pc (ram a1) lv1 (ram a2) lv1"
    using pte_loop_maps [OF mapped_tree [OF n(5)], of i4 t3 i3 t2 i2 t1 J ptei Q pc "512 - ptei"] n(3,4) c pc q' i(3) by auto
  have "mapped J Q t pc ?pc (ram a) lv (ram a2) lv1" by (rule mapped_trans [OF n(5) p(3)]) (use pc in simp_all)
  moreover have "ok (pte_tables J 0 ?pc + n) (tables lv1) a2" using ok_ram [OF n(2), of "ram a2"] p(2) by simp
  ultimately show ?thesis using n(1) p(1) by blast
qed

lemma pdet_loop_maps:
  assumes "table_tree (ram a) t lv" and "chain (ram a) lv t i4 t3" and "chain (ram a) lv t3 i3 t2" and "i4 < 512" and "i2 + k \<le> 512" and "ptei < 512"
    and "pc \<le> mj_num J" and "pc < mj_num J \<Longrightarrow> ((i4 * 512 + i3) * 512 + i2) * per_pdet J + first_unit J ptei = Q + pc"
    and "ok (pte_tables J ptei pc + n) (tables lv) a" and "no_big J Q t pc (ram a)"
  shows "\<exists>ptei' pc' a' lv'. pdet_loop k (\<lambda>p _. v p) J t2 i2 ptei pc a = Inr (ptei', pc', a') \<and>
    pc' = min (mj_num J) (pc + (k * per_pdet J - first_unit J ptei)) \<and> ptei' < 512 \<and> (pc' < mj_num J \<longrightarrow> 0 < k \<longrightarrow> first_unit J ptei' = 0) \<and>
    ok (pte_tables J ptei' pc' + n) (tables lv') a' \<and> mapped J Q t pc pc' (ram a) lv (ram a') lv'"
  using assms
proof (induction k arbitrary: i2 ptei pc a lv)
  case 0
  then show ?case using mapped_refl [OF 0(1)] by (auto intro!: exI [of _ lv])
next
  case (Suc k)
  note tr = Suc.prems(1) and c = Suc.prems(2,3)
  have lv: "3 \<le> lv t" "3 \<le> lv t3" using table_treeD(1) [OF tr] chain_level [OF tr c(1)] by simp_all
  have i2: "i2 < 512" using Suc.prems(5) by simp
  consider "pc = mj_num J" | "pc < mj_num J" "mj_2mb J" | "pc < mj_num J" "\<not> mj_2mb J" using Suc.prems(7) by linarith
  then show ?case
  proof cases
    case 1
    then show ?thesis using Suc.prems mapped_refl [OF tr] by (auto intro!: exI [of _ lv])
  next
    case 2
    define b where "b = a\<lparr>ram := wr64 (t2 + 8 * of_nat i2)
      (PAGE_FRAME (mj_phys J + of_nat pc * mj_pgsize J) OR PDET_PRESENT_FLAG OR PDET_RW_FLAG OR PDET_PAGE_SIZE OR PDET_USER) (ram a)\<rparr>"
    note q = Suc.prems(8) [OF 2(1)]
    have m: "mapped J Q t pc (Suc pc) (ram a) lv (ram b) lv" using big_round [OF tr c i2 2(2) q] by (simp add: b_def)
    have o: "ok (pte_tables J ptei (Suc pc) + n) (tables lv) b"
      using ok_ram [OF Suc.prems(9)] 2(2) by (simp add: b_def pte_tables_def)
    have "\<exists>ptei' pc' a' lv'. pdet_loop k (\<lambda>p _. v p) J t2 (Suc i2) ptei (Suc pc) b = Inr (ptei', pc', a') \<and>
      pc' = min (mj_num J) (Suc pc + (k * per_pdet J - first_unit J ptei)) \<and> ptei' < 512 \<and> (pc' < mj_num J \<longrightarrow> 0 < k \<longrightarrow> first_unit J ptei' = 0) \<and>
      ok (pte_tables J ptei' pc' + n) (tables lv') a' \<and> mapped J Q t (Suc pc) pc' (ram b) lv (ram a') lv'"
      by (rule Suc.IH [OF mapped_tree [OF m] mapped_chain [OF m lv(1) c(1)] mapped_chain [OF m lv(2) c(2)] Suc.prems(4) _ Suc.prems(6) _ _ o
            no_big_mapped [OF Suc.prems(10) m]]) (use Suc.prems(5) 2 q in \<open>simp_all add: per_pdet_def first_unit_def\<close>)
    then obtain ptei' pc' a' lv' where r: "pdet_loop k (\<lambda>p _. v p) J t2 (Suc i2) ptei (Suc pc) b = Inr (ptei', pc', a')"
      "pc' = min (mj_num J) (Suc pc + (k * per_pdet J - first_unit J ptei))" "ptei' < 512"
      "ok (pte_tables J ptei' pc' + n) (tables lv') a'" "mapped J Q t (Suc pc) pc' (ram b) lv (ram a') lv'" by auto
    have "mapped J Q t pc pc' (ram a) lv (ram a') lv'" by (rule mapped_trans [OF m r(5)]) (use r(2) 2 in simp_all)
    then show ?thesis using r 2 by (auto simp: per_pdet_def first_unit_def b_def)
  next
    case 3
    let ?pc = "min (mj_num J) (pc + (512 - ptei))"
    note q = Suc.prems(8) [OF 3(1)]
    have le: "pc \<le> ?pc" using 3(1) by simp
    obtain t1 a1 a2 lv1 where p: "next_table (\<lambda>p _. v p) t2 i2 a = Inr (t1, a1)" "pte_loop (512 - ptei) J t1 ptei pc a1 = (?pc, a2)"
      "ok (pte_tables J 0 ?pc + n) (tables lv1) a2" and m: "mapped J Q t pc ?pc (ram a) lv (ram a2) lv1"
      using small_round [OF tr c Suc.prems(4) i2 Suc.prems(6) 3 q Suc.prems(9,10)] by blast
    have "\<exists>ptei' pc' a' lv'. pdet_loop k (\<lambda>p _. v p) J t2 (Suc i2) 0 ?pc a2 = Inr (ptei', pc', a') \<and>
      pc' = min (mj_num J) (?pc + (k * per_pdet J - first_unit J 0)) \<and> ptei' < 512 \<and> (pc' < mj_num J \<longrightarrow> 0 < k \<longrightarrow> first_unit J ptei' = 0) \<and>
      ok (pte_tables J ptei' pc' + n) (tables lv') a' \<and> mapped J Q t ?pc pc' (ram a2) lv1 (ram a') lv'"
      by (rule Suc.IH [OF mapped_tree [OF m] mapped_chain [OF m lv(1) c(1)] mapped_chain [OF m lv(2) c(2)] Suc.prems(4) _ _ _ _ p(3)
            no_big_mapped [OF Suc.prems(10) m le]])
        (use q Suc.prems(5,6) 3 in \<open>simp_all add: per_pdet_def first_unit_def min_def split: if_splits\<close>)
    then obtain ptei' pc' a' lv' where r: "pdet_loop k (\<lambda>p _. v p) J t2 (Suc i2) 0 ?pc a2 = Inr (ptei', pc', a')"
      "pc' = min (mj_num J) (?pc + (k * per_pdet J - first_unit J 0))" "ptei' < 512" "pc' < mj_num J \<longrightarrow> 0 < k \<longrightarrow> first_unit J ptei' = 0"
      "ok (pte_tables J ptei' pc' + n) (tables lv') a'" "mapped J Q t ?pc pc' (ram a2) lv1 (ram a') lv'" by auto
    have "mapped J Q t pc pc' (ram a) lv (ram a') lv'" by (rule mapped_trans [OF m r(6) le]) (use r(2) in simp)
    moreover have "pc' = min (mj_num J) (pc + (Suc k * per_pdet J - first_unit J ptei))"
      using r(2) 3 Suc.prems(6) by (auto simp: per_pdet_def first_unit_def)
    moreover have "first_unit J ptei' = 0" if "pc' < mj_num J" using r(1,4) that by (cases k) (simp_all add: first_unit_def)
    ultimately show ?thesis using r(1,3,5) p(1,2) 3 by auto
  qed
qed

text \<open>One round of the loop over directories, and one of the loop over the root.\<close>

lemma pdpt_round:
  assumes tr: "table_tree (ram a) t lv" and c: "chain (ram a) lv t i4 t3" and i: "i4 < 512" "i3 < 512" "pdeti < 512" "ptei < 512"
    and pc: "pc < mj_num J" and q: "((i4 * 512 + i3) * 512 + pdeti) * per_pdet J + first_unit J ptei = Q + pc"
    and s: "ok (job_tables J pdeti ptei pc + n) (tables lv) a" and nb: "no_big J Q t pc (ram a)"
  shows "\<exists>t2 a1 ptei1 pc1 a2 lv2. next_table (\<lambda>p _. v p) t3 i3 a = Inr (t2, a1) \<and>
    pdet_loop (512 - pdeti) (\<lambda>p _. v p) J t2 pdeti ptei pc a1 = Inr (ptei1, pc1, a2) \<and>
    pc1 = min (mj_num J) (pc + ((512 - pdeti) * per_pdet J - first_unit J ptei)) \<and> ptei1 < 512 \<and> (pc1 < mj_num J \<longrightarrow> first_unit J ptei1 = 0) \<and>
    ok (job_tables J 0 ptei1 pc1 + n) (tables lv2) a2 \<and> mapped J Q t pc pc1 (ram a) lv (ram a2) lv2"
proof -
  let ?n = "pdpt_count J pdeti ptei pc - 1 + n"
  have lv: "lv t3 = 3" using table_treeD(1) [OF tr] chain_level [OF tr c] by simp
  have "1 \<le> pdpt_count J pdeti ptei pc" using pdpt_count_step [OF pc i(4,3) refl, of 0] by (simp add: first_unit_def)
  then have s': "ok (Suc (pte_tables J ptei pc + ?n)) (tables lv) a"
    by (intro ok_less [OF s]) (simp add: job_tables_eq)
  obtain t2 a1 lv1 where n: "next_table (\<lambda>p _. v p) t3 i3 a = Inr (t2, a1)" "ok (pte_tables J ptei pc + ?n) (tables lv1) a1" "chain (ram a1) lv1 t3 i3 t2"
    "\<forall>x j w. chain (ram a) lv x j w \<longrightarrow> chain (ram a1) lv1 x j w" "mapped J Q t pc pc (ram a) lv (ram a1) lv1"
    using next_table_step [OF tr _ i(2) s', of t3 J Q pc] lv by auto
  obtain ptei1 pc1 a2 lv2 where p: "pdet_loop (512 - pdeti) (\<lambda>p _. v p) J t2 pdeti ptei pc a1 = Inr (ptei1, pc1, a2)"
    "pc1 = min (mj_num J) (pc + ((512 - pdeti) * per_pdet J - first_unit J ptei))" "ptei1 < 512"
    "pc1 < mj_num J \<longrightarrow> first_unit J ptei1 = 0" "ok (pte_tables J ptei1 pc1 + ?n) (tables lv2) a2" "mapped J Q t pc pc1 (ram a1) lv1 (ram a2) lv2"
    using pdet_loop_maps [OF mapped_tree [OF n(5)] _ n(3) i(1) _ i(4) less_imp_le [OF pc] q n(2) no_big_mapped [OF nb n(5) order_refl], of "512 - pdeti"]
      n(4) c i(3) by auto
  have "mapped J Q t pc pc1 (ram a) lv (ram a2) lv2" by (rule mapped_trans [OF n(5) p(6) order_refl]) (use p(2) pc in simp)
  moreover have "Suc (pdpt_count J 0 ptei1 pc1) \<le> pdpt_count J pdeti ptei pc" using pdpt_count_step [OF pc i(4,3) p(2)] p(4) by simp
  then have "ok (job_tables J 0 ptei1 pc1 + n) (tables lv2) a2" by (intro ok_less [OF p(5)]) (simp add: job_tables_eq)
  ultimately show ?thesis using n(1) p(1-4) by blast
qed

lemma pdpt_loop_maps:
  assumes "table_tree (ram a) t lv" and "chain (ram a) lv t i4 t3" and "i4 < 512" and "i3 + k \<le> 512" and "pdeti < 512" and "ptei < 512"
    and "pc \<le> mj_num J" and "pc < mj_num J \<Longrightarrow> ((i4 * 512 + i3) * 512 + pdeti) * per_pdet J + first_unit J ptei = Q + pc"
    and "ok (job_tables J pdeti ptei pc + n) (tables lv) a" and "no_big J Q t pc (ram a)"
  shows "\<exists>pdeti' ptei' pc' a' lv'. pdpt_loop k (\<lambda>p _. v p) J t3 i3 pdeti ptei pc a = Inr (pdeti', ptei', pc', a') \<and>
    pc' = min (mj_num J) (pc + ((k * 512 - pdeti) * per_pdet J - first_unit J ptei)) \<and> pdeti' < 512 \<and> ptei' < 512 \<and>
    (pc' < mj_num J \<longrightarrow> 0 < k \<longrightarrow> pdeti' = 0 \<and> first_unit J ptei' = 0) \<and>
    ok (job_tables J pdeti' ptei' pc' + n) (tables lv') a' \<and> mapped J Q t pc pc' (ram a) lv (ram a') lv'"
  using assms
proof (induction k arbitrary: i3 pdeti ptei pc a lv)
  case 0
  then show ?case using mapped_refl [OF 0(1)] by (auto intro!: exI [of _ lv])
next
  case (Suc k)
  note tr = Suc.prems(1) and c = Suc.prems(2)
  have lv: "3 \<le> lv t" using table_treeD(1) [OF tr] by simp
  have i3: "i3 < 512" using Suc.prems(4) by simp
  show ?case
  proof (cases "pc < mj_num J")
    case False
    then show ?thesis using Suc.prems mapped_refl [OF tr] by (auto intro!: exI [of _ lv])
  next
    case True
    note q = Suc.prems(8) [OF True]
    obtain t2 a1 ptei1 pc1 a2 lv2 where p: "next_table (\<lambda>p _. v p) t3 i3 a = Inr (t2, a1)"
      "pdet_loop (512 - pdeti) (\<lambda>p _. v p) J t2 pdeti ptei pc a1 = Inr (ptei1, pc1, a2)"
      and pc1: "pc1 = min (mj_num J) (pc + ((512 - pdeti) * per_pdet J - first_unit J ptei))" "ptei1 < 512" "pc1 < mj_num J \<longrightarrow> first_unit J ptei1 = 0"
      and s: "ok (job_tables J 0 ptei1 pc1 + n) (tables lv2) a2" and m: "mapped J Q t pc pc1 (ram a) lv (ram a2) lv2"
      using pdpt_round [OF tr c Suc.prems(3) i3 Suc.prems(5,6) True q Suc.prems(9,10)] by blast
    have f: "first_unit J ptei \<le> (512 - pdeti) * per_pdet J" using Suc.prems(5,6) by (intro first_unit_fits) simp_all
    have le: "pc \<le> pc1" using pc1(1) True by simp
    have "\<exists>pdeti' ptei' pc' a' lv'. pdpt_loop k (\<lambda>p _. v p) J t3 (Suc i3) 0 ptei1 pc1 a2 = Inr (pdeti', ptei', pc', a') \<and>
      pc' = min (mj_num J) (pc1 + ((k * 512 - 0) * per_pdet J - first_unit J ptei1)) \<and> pdeti' < 512 \<and> ptei' < 512 \<and>
      (pc' < mj_num J \<longrightarrow> 0 < k \<longrightarrow> pdeti' = 0 \<and> first_unit J ptei' = 0) \<and>
      ok (job_tables J pdeti' ptei' pc' + n) (tables lv') a' \<and> mapped J Q t pc1 pc' (ram a2) lv2 (ram a') lv'"
    proof (rule Suc.IH [OF mapped_tree [OF m] mapped_chain [OF m lv c] Suc.prems(3) _ _ pc1(2) _ _ s no_big_mapped [OF Suc.prems(10) m le]])
      show "((i4 * 512 + Suc i3) * 512 + 0) * per_pdet J + first_unit J ptei1 = Q + pc1" if "pc1 < mj_num J"
        using units_position [OF f pc1(1) that q] pc1(3) that Suc.prems(5) by (simp add: ac_simps)
    qed (use Suc.prems(4) pc1(1) in simp_all)
    then obtain pdeti' ptei' pc' a' lv' where r: "pdpt_loop k (\<lambda>p _. v p) J t3 (Suc i3) 0 ptei1 pc1 a2 = Inr (pdeti', ptei', pc', a')"
      "pc' = min (mj_num J) (pc1 + ((k * 512 - 0) * per_pdet J - first_unit J ptei1))" "pdeti' < 512" "ptei' < 512"
      "pc' < mj_num J \<longrightarrow> 0 < k \<longrightarrow> pdeti' = 0 \<and> first_unit J ptei' = 0"
      "ok (job_tables J pdeti' ptei' pc' + n) (tables lv') a'" "mapped J Q t pc1 pc' (ram a2) lv2 (ram a') lv'" by blast
    have "mapped J Q t pc pc' (ram a) lv (ram a') lv'" by (rule mapped_trans [OF m r(7) le]) (use r(2) pc1(1) in simp)
    moreover have "pc' = min (mj_num J) (pc + ((Suc k * 512 - pdeti) * per_pdet J - first_unit J ptei))"
    proof -
      have "512 - pdeti + k * 512 = Suc k * 512 - pdeti" using Suc.prems(5) by simp
      then show ?thesis using units_join [OF f pc1(1), of 0 "first_unit J ptei1" "k * 512"] pc1(3) unfolding r(2) by simp
    qed
    moreover have "pdeti' = 0 \<and> first_unit J ptei' = 0" if "pc' < mj_num J"
      using r(1,2,5) pc1(3) that by (cases k) auto
    ultimately show ?thesis using r(1,3,4,6) p True by auto
  qed
qed

lemma pml4_round:
  assumes tr: "table_tree (ram a) t lv" and i: "i4 < 512" "pdpti < 512" "pdeti < 512" "ptei < 512" and pc: "pc \<le> mj_num J"
    and q: "pc < mj_num J \<Longrightarrow> ((i4 * 512 + pdpti) * 512 + pdeti) * per_pdet J + first_unit J ptei = Q + pc"
    and s: "ok (Suc (job_tables J pdeti ptei pc + n)) (tables lv) a" and nb: "no_big J Q t pc (ram a)"
  shows "\<exists>t3 a1 pdeti1 ptei1 pc1 a2 lv2. next_table (\<lambda>p _. v p) t i4 a = Inr (t3, a1) \<and>
    pdpt_loop (512 - pdpti) (\<lambda>p _. v p) J t3 pdpti pdeti ptei pc a1 = Inr (pdeti1, ptei1, pc1, a2) \<and>
    pc1 = min (mj_num J) (pc + (((512 - pdpti) * 512 - pdeti) * per_pdet J - first_unit J ptei)) \<and> pdeti1 < 512 \<and> ptei1 < 512 \<and>
    (pc1 < mj_num J \<longrightarrow> pdeti1 = 0 \<and> first_unit J ptei1 = 0) \<and> ok (job_tables J pdeti1 ptei1 pc1 + n) (tables lv2) a2 \<and>
    mapped J Q t pc pc1 (ram a) lv (ram a2) lv2"
proof -
  have lv: "lv t = 4" using table_treeD(1) [OF tr] by simp
  obtain t3 a1 lv1 where n: "next_table (\<lambda>p _. v p) t i4 a = Inr (t3, a1)" "ok (job_tables J pdeti ptei pc + n) (tables lv1) a1" "chain (ram a1) lv1 t i4 t3"
    "mapped J Q t pc pc (ram a) lv (ram a1) lv1"
    using next_table_step [OF tr _ i(1) s, of t J Q pc] lv by auto
  obtain pdeti1 ptei1 pc1 a2 lv2 where p: "pdpt_loop (512 - pdpti) (\<lambda>p _. v p) J t3 pdpti pdeti ptei pc a1 = Inr (pdeti1, ptei1, pc1, a2)"
    "pc1 = min (mj_num J) (pc + (((512 - pdpti) * 512 - pdeti) * per_pdet J - first_unit J ptei))" "pdeti1 < 512" "ptei1 < 512"
    "pc1 < mj_num J \<longrightarrow> pdeti1 = 0 \<and> first_unit J ptei1 = 0"
    "ok (job_tables J pdeti1 ptei1 pc1 + n) (tables lv2) a2" "mapped J Q t pc pc1 (ram a1) lv1 (ram a2) lv2"
    using pdpt_loop_maps [OF mapped_tree [OF n(4)] n(3) i(1) _ i(3,4) pc q n(2) no_big_mapped [OF nb n(4) order_refl], of "512 - pdpti"] i(2) by auto
  have "mapped J Q t pc pc1 (ram a) lv (ram a2) lv2" by (rule mapped_trans [OF n(4) p(7) order_refl]) (use p(2) pc in simp)
  then show ?thesis using n(1) p(1-6) by blast
qed

lemma pml4_loop_maps:
  assumes "table_tree (ram a) t lv" and "i4 + k \<le> 512" and "pdpti < 512" and "pdeti < 512" and "ptei < 512"
    and "pc \<le> mj_num J" and "pc < mj_num J \<Longrightarrow> ((i4 * 512 + pdpti) * 512 + pdeti) * per_pdet J + first_unit J ptei = Q + pc"
    and "ok (k + job_tables J pdeti ptei pc + n) (tables lv) a" and "no_big J Q t pc (ram a)"
  shows "\<exists>a' lv'. pml4_loop k (\<lambda>p _. v p) J t i4 pdpti pdeti ptei pc a = Inr a' \<and> ok n (tables lv') a' \<and>
    mapped J Q t pc (min (mj_num J) (pc + (((k * 512 - pdpti) * 512 - pdeti) * per_pdet J - first_unit J ptei))) (ram a) lv (ram a') lv'"
  using assms
proof (induction k arbitrary: i4 pdpti pdeti ptei pc a lv)
  case 0
  then show ?case using mapped_refl [OF 0(1)] ok_less [OF 0(8), of n] by auto
next
  case (Suc k)
  let ?N = "mj_num J" and ?A = "(512 - pdpti) * 512 - pdeti"
  have i4: "i4 < 512" using Suc.prems(2) by simp
  have s: "ok (Suc (job_tables J pdeti ptei pc + (k + n))) (tables lv) a" using Suc.prems(8) by (simp add: ac_simps)
  obtain t3 a1 pdeti1 ptei1 pc1 a2 lv2 where p: "next_table (\<lambda>p _. v p) t i4 a = Inr (t3, a1)"
    "pdpt_loop (512 - pdpti) (\<lambda>p _. v p) J t3 pdpti pdeti ptei pc a1 = Inr (pdeti1, ptei1, pc1, a2)"
    and pc1: "pc1 = min ?N (pc + (?A * per_pdet J - first_unit J ptei))" "pdeti1 < 512" "ptei1 < 512" "pc1 < ?N \<longrightarrow> pdeti1 = 0 \<and> first_unit J ptei1 = 0"
    and s2: "ok (job_tables J pdeti1 ptei1 pc1 + (k + n)) (tables lv2) a2" and m: "mapped J Q t pc pc1 (ram a) lv (ram a2) lv2"
    using pml4_round [OF Suc.prems(1) i4 Suc.prems(3-7) s Suc.prems(9)] by blast
  have le: "pc \<le> pc1" using pc1(1) Suc.prems(6) by simp
  have f: "first_unit J ptei \<le> ?A * per_pdet J" using Suc.prems(3-5) by (intro first_unit_fits) simp_all
  have "\<exists>a' lv'. pml4_loop k (\<lambda>p _. v p) J t (Suc i4) 0 pdeti1 ptei1 pc1 a2 = Inr a' \<and> ok n (tables lv') a' \<and>
    mapped J Q t pc1 (min ?N (pc1 + (((k * 512 - 0) * 512 - pdeti1) * per_pdet J - first_unit J ptei1))) (ram a2) lv2 (ram a') lv'"
  proof (rule Suc.IH [OF mapped_tree [OF m] _ _ pc1(2,3) _ _ _ no_big_mapped [OF Suc.prems(9) m le]])
    show "ok (k + job_tables J pdeti1 ptei1 pc1 + n) (tables lv2) a2" using s2 by (simp add: ac_simps)
    show "((Suc i4 * 512 + 0) * 512 + pdeti1) * per_pdet J + first_unit J ptei1 = Q + pc1" if l: "pc1 < ?N"
    proof -
      have "(i4 * 512 + pdpti) * 512 + pdeti + ?A = (Suc i4 * 512 + 0) * 512" using Suc.prems(3,4) by simp
      moreover have "pc < ?N" using l pc1(1) by simp
      ultimately have "((Suc i4 * 512 + 0) * 512) * per_pdet J = Q + pc1" using units_position [OF f pc1(1) l Suc.prems(7)] by (simp only:)
      then show ?thesis using pc1(4) l by simp
    qed
  qed (use Suc.prems(2) pc1(1) in simp_all)
  then obtain a' lv' where r: "pml4_loop k (\<lambda>p _. v p) J t (Suc i4) 0 pdeti1 ptei1 pc1 a2 = Inr a'" "ok n (tables lv') a'"
    "mapped J Q t pc1 (min ?N (pc1 + (((k * 512 - 0) * 512 - pdeti1) * per_pdet J - first_unit J ptei1))) (ram a2) lv2 (ram a') lv'" by blast
  have A: "?A + (k * 512 - 0) * 512 = (Suc k * 512 - pdpti) * 512 - pdeti" using Suc.prems(3,4) by simp
  have "mapped J Q t pc (min ?N (pc + (((Suc k * 512 - pdpti) * 512 - pdeti) * per_pdet J - first_unit J ptei))) (ram a) lv (ram a') lv'"
    unfolding A [symmetric] units_join [OF f pc1(1,4), symmetric] by (rule mapped_trans [OF m r(3) le]) (use pc1(1) in simp)
  moreover have "pml4_loop (Suc k) (\<lambda>p _. v p) J t i4 pdpti pdeti ptei pc a = Inr a'" using i4 p r(1) by simp
  ultimately show ?case using r(2) by blast
qed

end

section \<open>The page allocator as a supply\<close>

text \<open>Allocation keeps where the zones are.\<close>

definition same_zones :: "alloc_state \<Rightarrow> alloc_state \<Rightarrow> bool" where
  "same_zones s s' \<longleftrightarrow> num_zones s' = num_zones s \<and>
     (\<forall>z. mem_map (zones s' z) = mem_map (zones s z) \<and> zflags (zones s' z) = zflags (zones s z) \<and> max_order (zones s' z) = max_order (zones s z))"

lemma alloc_pages_zones:
  assumes inv: "sys_inv s F" and el: "\<exists>z<num_zones s. eligible s F flags k z" and a: "alloc_pages gpv flags k s = Inr (p, s')"
  shows "same_zones s s'"
proof -
  have "search_found s F flags k 0 (alloc_search (num_zones s) 0 flags k s)"
    using alloc_search_ok [OF inv, of 0 "num_zones s" flags k] el by (auto split: if_splits)
  then obtain y q s1 where y: "s1 = s\<lparr>links := links s1, wmem := wmem s1\<rparr>" "alloc_search (num_zones s) 0 flags k s = Inr (Some q,
       upd_zone y (\<lambda>zn. zn\<lparr>available_pages := available_pages zn - push_bit k 1\<rparr>) s1)"
    unfolding search_found_def by blast
  have "zones s1 = zones s" "num_zones s1 = num_zones s" by (subst y(1), simp)+
  then show ?thesis using a y(2) by (auto simp: alloc_pages_def Let_def same_zones_def upd_zone_def upd_page_def)
qed

text \<open>The structures of the free pages in the zones that are mapped directly.\<close>

definition free_structs :: "alloc_state \<Rightarrow> (nat \<Rightarrow> nat \<Rightarrow> nat list) \<Rightarrow> u64 set" where
  "free_structs a F = (\<Union>z \<in> {z. z < num_zones a \<and> zflags (zones a z) AND MEMZONE_IDENTITY_MAPPED \<noteq> 0}.
     (\<lambda>b. page_addr z b a) ` free_set (max_order (zones a z)) (F z))"

definition free_tables :: "(u64 \<Rightarrow> u64) \<Rightarrow> nat \<Rightarrow> u64 set \<Rightarrow> alloc_state \<Rightarrow> bool" where
  "free_tables v n T a \<longleftrightarrow>
     (\<exists>F. sys_inv a F \<and> n \<le> card (free_structs a F) \<and>
        (\<forall>p \<in> free_structs a F. table_ok (v p) \<and> (\<forall>t \<in> T. page_region (v p) \<inter> page_region t = {}) \<and>
           (\<forall>q \<in> free_structs a F. p \<noteq> q \<longrightarrow> page_region (v p) \<inter> page_region (v q) = {})))"

lemma free_structs_ram: "free_structs (a\<lparr>ram := m\<rparr>) F = free_structs a F"
  by (simp add: free_structs_def page_addr_def)

lemma page_addr_inj:
  assumes inv: "sys_inv a F" and z: "z < num_zones a" "z' < num_zones a"
    and b: "b \<in> free_set (max_order (zones a z)) (F z)" "b' \<in> free_set (max_order (zones a z')) (F z')"
    and e: "page_addr z b a = page_addr z' b' a"
  shows "z = z' \<and> b = b'"
proof -
  have mp: "maps_placed a" using inv z by (auto simp: sys_inv_def zone_ok_def)
  have bn: "b < unat (usable_num_pages (zones a z))" "b' < unat (usable_num_pages (zones a z'))"
    using inv z b free_inv_free_less unfolding sys_inv_def zone_inv_def by blast+
  have "Some (z, of_nat b :: u64) = Some (z', of_nat b')"
    using get_zone_and_pfn_page_addr [OF mp z(1) bn(1)] get_zone_and_pfn_page_addr [OF mp z(2) bn(2)] e by simp
  moreover have "unat (of_nat b :: u64) = b" "unat (of_nat b' :: u64) = b'"
    using bn unat_u64_bound [of "usable_num_pages (zones a z)"] unat_u64_bound [of "usable_num_pages (zones a z')"] by (simp_all add: unat_of_nat)
  ultimately show ?thesis by (metis option.inject prod.inject)
qed

lemma free_tables_alloc:
  assumes "free_tables v (Suc n) T a"
  shows "\<exists>p a'. alloc_pages (\<lambda>p _. v p) PGALLOC_KERNEL 0 a = Inr (p, a') \<and>
      free_tables v n (insert (v p) T) a' \<and> table_ok (v p) \<and> (\<forall>t \<in> T. page_region (v p) \<inter> page_region t = {})"
proof -
  obtain F where F: "sys_inv a F" "Suc n \<le> card (free_structs a F)" and v: "\<And>p. p \<in> free_structs a F \<Longrightarrow> table_ok (v p) \<and>
      (\<forall>t \<in> T. page_region (v p) \<inter> page_region t = {}) \<and> (\<forall>q \<in> free_structs a F. p \<noteq> q \<longrightarrow> page_region (v p) \<inter> page_region (v q) = {})"
    using assms unfolding free_tables_def by blast
  have fin: "finite (free_structs a F)" by (simp add: free_structs_def)
  obtain x where "x \<in> free_structs a F" using F(2) by fastforce
  then obtain z b where zb: "z < num_zones a" "zflags (zones a z) AND MEMZONE_IDENTITY_MAPPED \<noteq> 0" "b \<in> free_set (max_order (zones a z)) (F z)"
    by (auto simp: free_structs_def)
  then have "eligible a F PGALLOC_KERNEL 0 z"
    by (auto simp: eligible_def free_set_def PGALLOC_KERNEL_def BIT32_def intro: exI)
  then have el: "\<exists>z<num_zones a. eligible a F PGALLOC_KERNEL 0 z" using zb(1) by blast
  then obtain p a' where p: "alloc_pages (\<lambda>p _. v p) PGALLOC_KERNEL 0 a = Inr (p, a')" "alloc_outcome a F 0 p a'"
    using alloc_pages_outcome [OF F(1), of PGALLOC_KERNEL 0 "\<lambda>p _. v p"] by blast
  then obtain y c F' where y: "y < num_zones a" "zflags (zones a y) AND MEMZONE_IDENTITY_MAPPED \<noteq> 0" "p = page_addr y c a"
    "c \<in> free_set (max_order (zones a y)) (F y)" "sys_inv a' (F(y := F'))"
    "free_set (max_order (zones a y)) F' = free_set (max_order (zones a y)) (F y) - {c}"
    by (auto simp: alloc_outcome_def blk_def)
  note sz = alloc_pages_zones [OF F(1) el p(1), unfolded same_zones_def]
  have pin: "p \<in> free_structs a F" using y by (auto simp: free_structs_def)
  have "free_structs a' (F(y := F')) = free_structs a F - {p}"
  proof (intro equalityI subsetI)
    fix x assume "x \<in> free_structs a' (F(y := F'))"
    then obtain w d where w: "w < num_zones a" "zflags (zones a w) AND MEMZONE_IDENTITY_MAPPED \<noteq> 0" "x = page_addr w d a"
      "d \<in> free_set (max_order (zones a w)) ((F(y := F')) w)"
      using sz by (auto simp: free_structs_def page_addr_def)
    then have "d \<in> free_set (max_order (zones a w)) (F w)" "(w, d) \<noteq> (y, c)" using y(6) by (auto split: if_splits)
    then show "x \<in> free_structs a F - {p}"
      using w page_addr_inj [OF F(1) w(1) y(1) _ y(4)] y(3) by (auto simp: free_structs_def)
  next
    fix x assume "x \<in> free_structs a F - {p}"
    then obtain w d where w: "w < num_zones a" "zflags (zones a w) AND MEMZONE_IDENTITY_MAPPED \<noteq> 0" "x = page_addr w d a"
      "d \<in> free_set (max_order (zones a w)) (F w)" "x \<noteq> p"
      by (auto simp: free_structs_def)
    then have "d \<in> free_set (max_order (zones a w)) ((F(y := F')) w)" using y(3,6) by auto
    then show "x \<in> free_structs a' (F(y := F'))" using w sz by (auto simp: free_structs_def page_addr_def)
  qed
  note fs = this
  moreover have "n \<le> card (free_structs a F - {p})" using F(2) pin fin by simp
  moreover have "page_region (v q) \<inter> page_region (v p) = {}" if "q \<in> free_structs a F - {p}" for q using v pin that by blast
  ultimately have "free_tables v n (insert (v p) T) a'"
    unfolding free_tables_def using y(5) v by (intro exI [of _ "F(y := F')"]) (simp add: fs)
  then show ?thesis using p(1) v [OF pin] by blast
qed

interpretation buddy: page_supply v "free_tables v" for v
proof
  show "free_tables v (Suc n) T a \<Longrightarrow> \<exists>p a'. alloc_pages (\<lambda>p _. v p) PGALLOC_KERNEL 0 a = Inr (p, a') \<and>
      free_tables v n (insert (v p) T) a' \<and> table_ok (v p) \<and> (\<forall>t \<in> T. page_region (v p) \<inter> page_region t = {})" for n T a
    by (rule free_tables_alloc)
  show "free_tables v n T (a\<lparr>ram := m\<rparr>)" if "free_tables v n T a" for n T a m
    using that sys_inv_cong [of "a\<lparr>ram := m\<rparr>" a] by (simp add: free_tables_def free_structs_ram)
  show "free_tables v k T a" if "free_tables v n T a" "k \<le> n" for n T a k
    using that unfolding free_tables_def by (meson order_trans)
qed

section \<open>map_contiguous\<close>

definition job_of :: "vm_consts \<Rightarrow> u64 \<Rightarrow> u64 \<Rightarrow> bool \<Rightarrow> u64 \<Rightarrow> map_job" where
  "job_of K phys sz two_mb fl =
     (let pgsize = (if two_mb then 0x200000 else PAGE_SIZE)
      in \<lparr>mj_phys = phys, mj_pgsize = pgsize, mj_num = unat (sz div pgsize + (if sz mod pgsize \<noteq> 0 then 1 else 0)),
          mj_user = (fl AND VM_USER K \<noteq> 0), mj_2mb = two_mb\<rparr>)"

text \<open>The entries of the root the loop goes through, and how many pages of the job they have room for.\<close>

definition slots :: "u64 \<Rightarrow> nat" where "slots sz = Suc (unat (PML4_FROM_VA sz))"

definition room :: "map_job \<Rightarrow> u64 \<Rightarrow> u64 \<Rightarrow> nat" where
  "room J va sz = (unat (PML4_FROM_VA va) + slots sz) * 512 * 512 * per_pdet J - unit_number J va"

definition tables_needed :: "map_job \<Rightarrow> u64 \<Rightarrow> u64 \<Rightarrow> nat" where
  "tables_needed J va sz = slots sz + job_tables J (unat (PDET_FROM_VA va)) (unat (PTE_FROM_VA va)) 0"

lemma unit_number_position:
  "((unat (PML4_FROM_VA va) * 512 + unat (PDPT_FROM_VA va)) * 512 + unat (PDET_FROM_VA va)) * per_pdet J + first_unit J (unat (PTE_FROM_VA va)) =
     unit_number J va"
  by (simp add: unit_number_def big_number per_pdet_def first_unit_def) (simp add: page_number_def)

lemma map_contiguous_mapped:
  assumes tr: "table_tree (ram a) t lv" and s: "free_tables v (tables_needed (job_of K phys sz two_mb fl) va sz + n) (tables lv) a"
    and i: "unat (PML4_FROM_VA va) + slots sz \<le> 512" and nb: "no_big (job_of K phys sz two_mb fl) (unit_number (job_of K phys sz two_mb fl) va) t 0 (ram a)"
  shows "\<exists>a' lv'. map_contiguous (\<lambda>p _. v p) K t phys va sz two_mb fl a = Inr a' \<and> free_tables v n (tables lv') a' \<and>
    mapped (job_of K phys sz two_mb fl) (unit_number (job_of K phys sz two_mb fl) va) t 0
      (min (mj_num (job_of K phys sz two_mb fl)) (room (job_of K phys sz two_mb fl) va sz)) (ram a) lv (ram a') lv'"
proof -
  let ?J = "job_of K phys sz two_mb fl" and ?k = "slots sz"
  let ?i4 = "unat (PML4_FROM_VA va)" and ?i3 = "unat (PDPT_FROM_VA va)" and ?i2 = "unat (PDET_FROM_VA va)" and ?i1 = "unat (PTE_FROM_VA va)"
  have f: "first_unit ?J ?i1 \<le> ((?k * 512 - ?i3) * 512 - ?i2) * per_pdet ?J"
    using index_less_512 [of va] by (intro first_unit_fits) (simp_all add: slots_def)
  have r: "((?k * 512 - ?i3) * 512 - ?i2) * per_pdet ?J - first_unit ?J ?i1 = room ?J va sz"
  proof -
    have "(?i4 + ?k) * 512 * 512 * per_pdet ?J = ((?i4 * 512 + ?i3) * 512 + ?i2) * per_pdet ?J + ((?k * 512 - ?i3) * 512 - ?i2) * per_pdet ?J"
    proof -
      have "?i3 \<le> ?k * 512" "?i2 \<le> (?k * 512 - ?i3) * 512" using index_less_512 [of va] by (simp_all add: slots_def)
      then have "(?i4 + ?k) * 512 * 512 = (?i4 * 512 + ?i3) * 512 + ?i2 + ((?k * 512 - ?i3) * 512 - ?i2)" by (simp add: algebra_simps)
      then show ?thesis by (simp only: distrib_right)
    qed
    then show ?thesis using f unit_number_position [of va ?J] unfolding room_def by linarith
  qed
  have "map_contiguous (\<lambda>p _. v p) K t phys va sz two_mb fl a = pml4_loop ?k (\<lambda>p _. v p) ?J t ?i4 ?i3 ?i2 ?i1 0 a"
    by (simp add: map_contiguous_def job_of_def slots_def Let_def)
  moreover have "\<exists>a' lv'. pml4_loop ?k (\<lambda>p _. v p) ?J t ?i4 ?i3 ?i2 ?i1 0 a = Inr a' \<and> free_tables v n (tables lv') a' \<and>
      mapped ?J (unit_number ?J va) t 0 (min (mj_num ?J) (0 + (((?k * 512 - ?i3) * 512 - ?i2) * per_pdet ?J - first_unit ?J ?i1))) (ram a) lv (ram a') lv'"
    by (rule buddy.pml4_loop_maps [OF tr i index_less_512(2-4) le0 _ _ nb])
      (use s unit_number_position [of va ?J] in \<open>simp_all add: tables_needed_def\<close>)
  ultimately show ?thesis unfolding r add_0 by simp
qed

section \<open>Properties\<close>

lemma leaf_frame:
  "(case leaf J k of NotMapped \<Rightarrow> 0xfff | BigPage e \<Rightarrow> PAGE_FRAME e | SmallPage e \<Rightarrow> PAGE_FRAME e) = PAGE_FRAME (mj_phys J + of_nat k * mj_pgsize J)"
proof -
  have "PAGE_FRAME (PAGE_FRAME x OR PDET_PRESENT_FLAG OR PDET_RW_FLAG OR PDET_PAGE_SIZE OR PDET_USER) = PAGE_FRAME x" for x
    by (simp add: PAGE_FRAME_def BIT_def bit.conj_disj_distrib2 and.assoc)
  then show ?thesis by (simp add: leaf_def pte_entry_frame)
qed

lemma mapped_phys:
  assumes "mapped J Q t 0 n m lv m' lv'"
  shows "cpu_mm_get_phys_address t x m' = (if Q \<le> unit_number J x \<and> unit_number J x < Q + n
    then PAGE_FRAME (mj_phys J + of_nat (unit_number J x - Q) * mj_pgsize J) else cpu_mm_get_phys_address t x m)"
  using assms leaf_frame [of J] unfolding get_phys_walk mapped_def by simp

text \<open>
  C2: \<open>map_contiguous\<close> maps a range of any number of pages, of either size. When the tables form a tree, there are enough free pages
  for the tables it adds, the range does not run over the end of the root table, and no page of two megabytes is in the way of a table,
  it returns; afterwards the software walk of each of the first \<open>min (mj_num J) (room J va sz)\<close> pages of the range gives the frame of
  that page, the walk of every other address ends where it did before, and the tables form a tree again. The bound \<open>room\<close> is what is
  left of the entries of the root the outer loop goes through, whose number is taken from the size alone: a range that needs one entry more,
  such as two pages on both sides of a boundary of 512 gigabytes, is cut off there and its remaining pages stay unmapped; a range
  that lies within these entries is mapped as a whole.
\<close>

theorem map_contiguous_translates:
  assumes "table_tree (ram a) t lv" and "J = job_of K phys sz two_mb fl" and "free_tables v (tables_needed J va sz) (tables lv) a"
    and "unat (PML4_FROM_VA va) + slots sz \<le> 512" and "no_big J (unit_number J va) t 0 (ram a)"
  shows "\<exists>a' lv'. map_contiguous (\<lambda>p _. v p) K t phys va sz two_mb fl a = Inr a' \<and> table_tree (ram a') t lv' \<and>
    (\<forall>x. cpu_mm_get_phys_address t x (ram a') =
      (if unit_number J va \<le> unit_number J x \<and> unit_number J x < unit_number J va + min (mj_num J) (room J va sz)
       then PAGE_FRAME (phys + of_nat (unit_number J x - unit_number J va) * mj_pgsize J) else cpu_mm_get_phys_address t x (ram a)))"
proof -
  obtain a' lv' where m: "map_contiguous (\<lambda>p _. v p) K t phys va sz two_mb fl a = Inr a'"
    "mapped J (unit_number J va) t 0 (min (mj_num J) (room J va sz)) (ram a) lv (ram a') lv'"
    using map_contiguous_mapped [OF assms(1) _ assms(4), of v K phys two_mb fl 0] assms(2,3,5) by auto
  have "mj_phys J = phys" by (simp add: assms(2) job_of_def Let_def)
  then show ?thesis using m(1) mapped_tree [OF m(2)] mapped_phys [OF m(2)] by auto
qed

section \<open>paging_init\<close>

text \<open>A page that was just allocated is a tree without branches.\<close>

lemma fresh_tree:
  assumes "\<forall>j < 512. tbl_entry m t j = 0" and "table_ok t"
  shows "table_tree m t ((\<lambda>_. 0)(t := 4))" and "walk m t va = NotMapped"
proof -
  have "\<not> leads m ((\<lambda>_. 0)(t := 4)) u i" for u i using assms(1) by (auto simp: leads_def is_present_def)
  then show "table_tree m t ((\<lambda>_. 0)(t := 4))" using assms(2) by (simp add: table_tree_def tables_def)
  show "walk m t va = NotMapped" using assms(1) index_less_512 [of va] by (simp add: walk_def is_present_def)
qed

definition identity_job :: "vm_consts \<Rightarrow> map_job" where
  "identity_job K = job_of K 0 0x10000000000 True (VM_WRITE K OR VM_READ K OR VM_EXEC K)"

definition kernel_job :: "vm_consts \<Rightarrow> u64 \<Rightarrow> map_job" where
  "kernel_job K base = job_of K base 0x1000000 False (VM_WRITE K OR VM_READ K OR VM_EXEC K)"

lemma jobs:
  "mj_num (identity_job K) = 0x80000" "mj_2mb (identity_job K)" "mj_pgsize (identity_job K) = 0x200000" "mj_phys (identity_job K) = 0"
  "mj_num (kernel_job K b) = 0x1000" "\<not> mj_2mb (kernel_job K b)" "mj_pgsize (kernel_job K b) = 0x1000" "mj_phys (kernel_job K b) = b"
  by (simp_all add: identity_job_def kernel_job_def job_of_def PAGE_SIZE_def)

lemma boot_indices:
  "unat (PML4_FROM_VA BASE_PHYS_IDENTITY) = 256" "unat (PDPT_FROM_VA BASE_PHYS_IDENTITY) = 0" "unat (PDET_FROM_VA BASE_PHYS_IDENTITY) = 0"
  "unat (PTE_FROM_VA BASE_PHYS_IDENTITY) = 0"
  "unat (PML4_FROM_VA BASE_KERNEL_VA) = 511" "unat (PDPT_FROM_VA BASE_KERNEL_VA) = 510" "unat (PDET_FROM_VA BASE_KERNEL_VA) = 0"
  "unat (PTE_FROM_VA BASE_KERNEL_VA) = 0"
  by (simp_all add: PML4_FROM_VA_def PDPT_FROM_VA_def PDET_FROM_VA_def PTE_FROM_VA_def BASE_PHYS_IDENTITY_def BASE_KERNEL_VA_def)

lemma boot_slots: "slots 0x10000000000 = 3" "slots 0x1000000 = 1"
  by (simp_all add: slots_def PML4_FROM_VA_def)

lemma boot_units:
  "unit_number (identity_job K) BASE_PHYS_IDENTITY = 0x4000000" "unit_number (kernel_job K b) BASE_KERNEL_VA = 0xffff80000"
  by (simp_all add: unit_number_def jobs page_number_def boot_indices)

lemma boot_needed:
  "tables_needed (identity_job K) BASE_PHYS_IDENTITY 0x10000000000 = 1027" "tables_needed (kernel_job K b) BASE_KERNEL_VA 0x1000000 = 10"
  by (simp_all add: tables_needed_def boot_slots boot_indices job_tables_def pte_tables_def pdet_count_def jobs)

lemma boot_room:
  "room (identity_job K) BASE_PHYS_IDENTITY 0x10000000000 = 0xC0000" "room (kernel_job K b) BASE_KERNEL_VA 0x1000000 = 0x80000"
  by (simp_all add: room_def boot_slots boot_indices boot_units per_pdet_def jobs)

lemma clear_low: "x AND NOT (mask n) = (of_nat (unat x div 2 ^ n * 2 ^ n) :: u64)"
proof -
  have "x AND NOT (mask n) = push_bit n (drop_bit n x)" by (rule bit_word_eqI) (auto simp: bit_simps)
  also have "\<dots> = of_nat (unat (drop_bit n x)) * 2 ^ n" by (simp only: push_bit_eq_mult of_nat_unat ucast_id)
  also have "unat (drop_bit n x) = unat x div 2 ^ n" by (subst unat_drop_bit_eq) (rule drop_bit_eq_div)
  finally show ?thesis by simp
qed

lemma page_base:
  "x AND NOT 0x1fffff = (of_nat (unat x div 0x200000 * 0x200000) :: u64)" "x AND NOT 0xfff = (of_nat (unat x div 0x1000 * 0x1000) :: u64)"
  using clear_low [of x 21] clear_low [of x 12] by (simp_all add: mask_eq_exp_minus_1)

lemma unat_page_base:
  "unat (of_nat (unat (x :: u64) div d * d) :: u64) = unat x div d * d"
proof -
  have "unat x div d * d < 2 ^ 64" using div_times_less_eq_dividend [of "unat x" d] unat_u64_bound [of x] by linarith
  then show ?thesis by (intro of_nat_inverse [OF refl]) simp
qed

lemma aligned_offset:
  assumes "b AND 0xfff = (0 :: u64)" and "unat b + unat (p :: u64) < 2 ^ 48"
  shows "PAGE_FRAME (b + of_nat (unat p div 0x1000 * 0x1000)) = b + of_nat (unat p div 0x1000 * 0x1000)"
proof -
  let ?q = "unat p div 0x1000 * 0x1000"
  note q = unat_page_base [of p "0x1000"] div_times_less_eq_dividend [of "unat p" "0x1000"]
  have u: "unat (b + of_nat ?q) = unat b + ?q" using q assms(2) by (subst unat_add_no_overflow) (simp_all only:, simp)
  have "unat b mod 0x1000 = 0" using assms(1) take_bit_nat [of 12 b] by (simp add: take_bit_eq_mask mask_eq_exp_minus_1)
  then have "(unat b + ?q) mod 0x1000 = 0" by (metis mod_add_left_eq add_0 mod_mult_self2_is_0)
  moreover have "unat b + ?q < 2 ^ 48" using q(2) assms(2) by linarith
  ultimately show ?thesis by (intro frame_aligned) (simp_all only: u)
qed

lemma big_page_frame:
  assumes "unat p < 2 ^ 48"
  shows "PAGE_FRAME (p AND NOT 0x1fffff) = p AND NOT 0x1fffff"
proof -
  let ?q = "unat p div 0x200000 * 0x200000"
  note q = unat_page_base [of p "0x200000"] div_times_less_eq_dividend [of "unat p" "0x200000"]
  have "?q = 0x1000 * (unat p div 0x200000 * 0x200)" by simp
  then have "?q mod 0x1000 = 0" by (simp only: mod_mult_self1_is_0)
  moreover have "?q < 2 ^ 48" using q(2) assms by linarith
  ultimately show ?thesis unfolding page_base by (intro frame_aligned) (simp_all only: q(1))
qed

text \<open>The offsets into the two regions.\<close>

lemma identity_number:
  assumes "p < 0x10000000000"
  shows "page_number (BASE_PHYS_IDENTITY + p) div 512 = 0x4000000 + unat p div 0x200000"
proof -
  have p: "unat p < 0x10000000000" using assms by (simp add: word_less_nat_alt)
  have "unat (BASE_PHYS_IDENTITY + p) = 0xffff800000000000 + unat p" using p by (simp add: BASE_PHYS_IDENTITY_def unat_word_ariths)
  moreover have "(0xffff800000000000 + unat p) div 2 ^ 12 = 2 ^ 36 * 0xffff + (0x800000000 + unat p div 2 ^ 12)"
    using div_mult_self4 [of "2 ^ 12" "0xffff800000000" "unat p"] by simp
  moreover have "unat p div 2 ^ 12 < 0x10000000" using p by simp
  ultimately have "page_number (BASE_PHYS_IDENTITY + p) = 0x800000000 + unat p div 2 ^ 12"
    unfolding page_number_nat by (simp only: mod_mult_self4) simp
  moreover have "(0x800000000 + unat p div 2 ^ 12) div 512 = 0x4000000 + unat p div 2 ^ 12 div 512"
    using div_mult_self4 [of 512 "0x4000000" "unat p div 2 ^ 12"] by simp
  ultimately show ?thesis by (simp flip: div_mult2_eq)
qed

lemma kernel_number:
  assumes "p < 0x1000000"
  shows "page_number (BASE_KERNEL_VA + p) = 0xffff80000 + unat p div 0x1000"
proof -
  have p: "unat p < 0x1000000" using assms by (simp add: word_less_nat_alt)
  have "unat (BASE_KERNEL_VA + p) = 0xffffffff80000000 + unat p" using p by (simp add: BASE_KERNEL_VA_def unat_word_ariths)
  moreover have "(0xffffffff80000000 + unat p) div 2 ^ 12 = 2 ^ 36 * 0xffff + (0xffff80000 + unat p div 2 ^ 12)"
    using div_mult_self4 [of "2 ^ 12" "0xffffffff80000" "unat p"] by simp
  moreover have "unat p div 2 ^ 12 < 0x1000" using p by simp
  ultimately show ?thesis unfolding page_number_nat by (simp only: mod_mult_self4) simp
qed

lemma paging_init_walk:
  assumes "free_tables v 1038 {} (pa (kslab s))" and "g_kernel_reserved_size s = 0x1000000"
  shows "\<exists>s'. paging_init (\<lambda>p _. v p) K s = Inr s' \<and> cr3 s' = VA2PA (kernel_pgtable s') \<and>
    (\<forall>x. cpu_mm_get_phys_address (kernel_pgtable s') x (ram (pa (kslab s'))) =
       (if 0xffff80000 \<le> page_number x \<and> page_number x < 0xffff81000
        then PAGE_FRAME (g_kernel_phys_base s + of_nat (page_number x - 0xffff80000) * 0x1000)
        else if 0x4000000 \<le> page_number x div 512 \<and> page_number x div 512 < 0x4080000
        then PAGE_FRAME (of_nat (page_number x div 512 - 0x4000000) * 0x200000) else 0xfff))"
proof -
  let ?a = "pa (kslab s)" and ?b = "g_kernel_phys_base s" and ?fl = "VM_WRITE K OR VM_READ K OR VM_EXEC K"
  obtain q a0 where q: "alloc_pages (\<lambda>p _. v p) PGALLOC_KERNEL 0 ?a = Inr (q, a0)" "free_tables v 1037 {v q} a0" "table_ok (v q)"
    using buddy.alloc_fresh [of v 1037 "{}" ?a] assms(1) by auto
  let ?t = "v q" and ?lv = "(\<lambda>_. 0)(v q := 4) :: u64 \<Rightarrow> nat"
  have z: "\<forall>j < 512. tbl_entry (ram a0) ?t j = 0" using alloc_pages_ram [OF q(1)] by (simp add: entry_cleared)
  note fr = fresh_tree [OF z q(3)]
  have tb: "tables ?lv = {?t}" by (auto simp: tables_def)
  obtain a1 lv1 where i: "map_contiguous (\<lambda>p _. v p) K ?t 0 BASE_PHYS_IDENTITY 0x10000000000 True ?fl a0 = Inr a1" "free_tables v 10 (tables lv1) a1"
    "mapped (identity_job K) 0x4000000 ?t 0 0x80000 (ram a0) ?lv (ram a1) lv1"
    using map_contiguous_mapped [OF fr(1), of v K 0 "0x10000000000" True ?fl BASE_PHYS_IDENTITY 10] q(2)
    by (auto simp: tb boot_slots boot_indices no_big_def jobs boot_units boot_needed boot_room simp flip: identity_job_def)
  have w: "walk (ram a1) ?t x = (if 0x4000000 \<le> page_number x div 512 \<and> page_number x div 512 < 0x4080000
      then leaf (identity_job K) (page_number x div 512 - 0x4000000) else NotMapped)" for x
    using i(3) fr(2) by (simp add: mapped_def unit_number_def jobs)
  have nb: "no_big (kernel_job K ?b) 0xffff80000 ?t 0 (ram a1)"
  proof -
    have "\<not> page_number x div 512 < 0x4080000" if "0xffff80000 \<le> page_number x" for x using that by simp
    then show ?thesis by (auto simp: no_big_def jobs w)
  qed
  obtain a2 lv2 where k: "map_contiguous (\<lambda>p _. v p) K ?t ?b BASE_KERNEL_VA 0x1000000 False ?fl a1 = Inr a2"
    "mapped (kernel_job K ?b) 0xffff80000 ?t 0 0x1000 (ram a1) lv1 (ram a2) lv2"
    using map_contiguous_mapped [OF mapped_tree [OF i(3)], of v K ?b "0x1000000" False ?fl BASE_KERNEL_VA 0] i(2) nb
    by (auto simp: boot_slots boot_indices jobs boot_units boot_needed boot_room simp flip: kernel_job_def)
  define s' where "s' = set_cr3 (VA2PA ?t) (s\<lparr>kernel_pgtable := ?t, kslab := (kslab s)\<lparr>pa := a2\<rparr>\<rparr>)"
  have "paging_init (\<lambda>p _. v p) K s = Inr s'"
    using q(1) i(1) k(1) assms(2) by (simp add: paging_init_def alloc_table_def lift_pa_def Let_def s'_def)
  moreover have s': "kernel_pgtable s' = ?t" "cr3 s' = VA2PA ?t" "pa (kslab s') = a2" by (simp_all add: s'_def set_cr3_def)
  have ph: "cpu_mm_get_phys_address ?t x (ram a2) = (if 0xffff80000 \<le> page_number x \<and> page_number x < 0xffff81000
      then PAGE_FRAME (?b + of_nat (page_number x - 0xffff80000) * 0x1000)
      else if 0x4000000 \<le> page_number x div 512 \<and> page_number x div 512 < 0x4080000
      then PAGE_FRAME (of_nat (page_number x div 512 - 0x4000000) * 0x200000) else 0xfff)" for x
    using mapped_phys [OF k(2), of x] leaf_frame [of "identity_job K"]
    by (simp add: unit_number_def jobs) (simp add: get_phys_walk w)
  ultimately show ?thesis using s' by auto
qed

lemma identity_frame:
  assumes "p < 0x10000000000"
  shows "\<not> 0xffff80000 \<le> page_number (BASE_PHYS_IDENTITY + p)" "0x4000000 \<le> page_number (BASE_PHYS_IDENTITY + p) div 512"
    "page_number (BASE_PHYS_IDENTITY + p) div 512 < 0x4080000"
    "PAGE_FRAME (of_nat (page_number (BASE_PHYS_IDENTITY + p) div 512 - 0x4000000) * 0x200000) = p AND NOT 0x1fffff"
proof -
  have "unat p div 0x200000 < 0x80000" using assms by (simp add: word_less_nat_alt)
  then show "\<not> 0xffff80000 \<le> page_number (BASE_PHYS_IDENTITY + p)" "0x4000000 \<le> page_number (BASE_PHYS_IDENTITY + p) div 512"
    "page_number (BASE_PHYS_IDENTITY + p) div 512 < 0x4080000"
    using identity_number [OF assms] by linarith+
  have "of_nat (page_number (BASE_PHYS_IDENTITY + p) div 512 - 0x4000000) * 0x200000 = p AND NOT 0x1fffff"
    unfolding page_base identity_number [OF assms] by simp
  then show "PAGE_FRAME (of_nat (page_number (BASE_PHYS_IDENTITY + p) div 512 - 0x4000000) * 0x200000) = p AND NOT 0x1fffff"
    using assms big_page_frame [of p] by (simp add: word_less_nat_alt)
qed

lemma kernel_frame:
  assumes "p < 0x1000000" and "b AND 0xfff = 0" and "unat b + 0x1000000 \<le> 2 ^ 48"
  shows "0xffff80000 \<le> page_number (BASE_KERNEL_VA + p)" "page_number (BASE_KERNEL_VA + p) < 0xffff81000"
    "PAGE_FRAME (b + of_nat (page_number (BASE_KERNEL_VA + p) - 0xffff80000) * 0x1000) = b + (p AND NOT 0xfff)"
proof -
  have u: "unat p < 0x1000000" using assms by (simp add: word_less_nat_alt)
  then show "0xffff80000 \<le> page_number (BASE_KERNEL_VA + p)" "page_number (BASE_KERNEL_VA + p) < 0xffff81000"
    unfolding kernel_number [OF assms(1)] by simp_all
  have "of_nat (page_number (BASE_KERNEL_VA + p) - 0xffff80000) * 0x1000 = (of_nat (unat p div 0x1000 * 0x1000) :: u64)"
    unfolding kernel_number [OF assms(1)] by simp
  moreover have "unat b + unat p < 2 ^ 48" using assms(3) u by linarith
  ultimately show "PAGE_FRAME (b + of_nat (page_number (BASE_KERNEL_VA + p) - 0xffff80000) * 0x1000) = b + (p AND NOT 0xfff)"
    unfolding page_base using aligned_offset [OF assms(2)] by (simp only:)
qed

text \<open>
  C10: \<open>paging_init\<close> builds the address space of the kernel. With 1038 free pages and a page-aligned kernel of sixteen megabytes
  below 2^48 it returns with the new root in \<open>cr3\<close>; the walk of an address in the first terabyte above \<open>BASE_PHYS_IDENTITY\<close>
  gives the two megabytes of physical memory it stands for, that of an address in the first sixteen megabytes above
  \<open>BASE_KERNEL_VA\<close> the page of the kernel, and no other page is mapped. The comment above the call speaks of the first four
  gigabytes; the size that is passed is \<^verbatim>\<open>0x10000000000\<close>, one terabyte, and that is what is mapped.
\<close>

theorem paging_init_maps:
  assumes "free_tables v 1038 {} (pa (kslab s))" and "g_kernel_reserved_size s = 0x1000000"
    and "g_kernel_phys_base s AND 0xfff = 0" and "unat (g_kernel_phys_base s) + 0x1000000 \<le> 2 ^ 48"
  shows "\<exists>s'. paging_init (\<lambda>p _. v p) K s = Inr s' \<and> cr3 s' = VA2PA (kernel_pgtable s') \<and>
    (let phys = (\<lambda>x. cpu_mm_get_phys_address (kernel_pgtable s') x (ram (pa (kslab s'))))
     in (\<forall>p < 0x10000000000. phys (BASE_PHYS_IDENTITY + p) = p AND NOT 0x1fffff) \<and>
        (\<forall>p < 0x1000000. phys (BASE_KERNEL_VA + p) = g_kernel_phys_base s + (p AND NOT 0xfff)) \<and>
        (\<forall>x. \<not> (0x4000000 \<le> page_number x div 512 \<and> page_number x div 512 < 0x4080000) \<longrightarrow>
             \<not> (0xffff80000 \<le> page_number x \<and> page_number x < 0xffff81000) \<longrightarrow> phys x = 0xfff))"
proof -
  obtain s' where s': "paging_init (\<lambda>p _. v p) K s = Inr s'" "cr3 s' = VA2PA (kernel_pgtable s')"
    and w: "\<And>x. cpu_mm_get_phys_address (kernel_pgtable s') x (ram (pa (kslab s'))) =
       (if 0xffff80000 \<le> page_number x \<and> page_number x < 0xffff81000
        then PAGE_FRAME (g_kernel_phys_base s + of_nat (page_number x - 0xffff80000) * 0x1000)
        else if 0x4000000 \<le> page_number x div 512 \<and> page_number x div 512 < 0x4080000
        then PAGE_FRAME (of_nat (page_number x div 512 - 0x4000000) * 0x200000) else 0xfff)"
    using paging_init_walk [OF assms(1,2)] by blast
  show ?thesis
    using s' identity_frame kernel_frame [OF _ assms(3,4)] by (intro exI [of _ s']) (simp add: Let_def w)
qed

section \<open>A machine with eight megabytes\<close>

text \<open>One directly mapped zone of 2048 pages, initialised by the loops of the allocator.\<close>

definition eight_mb_zone :: memory_zone where
  "eight_mb_zone = small_zone\<lparr>abs_num_pages := 2048, usable_num_pages := 2048, available_pages := 2048, max_order := 10\<rparr>"

definition eight_mb_boot :: alloc_state where
  "eight_mb_boot = small_boot\<lparr>zones := \<lambda>_. eight_mb_zone\<rparr>"

definition eight_mb :: alloc_state where
  "eight_mb = init_free_lists 0 eight_mb_boot"

definition eight_mb_free :: "nat \<Rightarrow> nat \<Rightarrow> nat list" where
  "eight_mb_free = (\<lambda>z. (\<lambda>_. [])(10 := [0, 1024]))"

definition eight_mb_vaddr :: "u64 \<Rightarrow> u64" where
  "eight_mb_vaddr p = 0xffff800000200000 + of_nat ((unat p - 0xffff800000001000) div 40 * 0x1000)"

lemma eight_mb_fields:
  "max_order eight_mb_zone = 10" "usable_num_pages eight_mb_zone = 2048" "available_pages eight_mb_zone = 2048"
  "mem_map eight_mb_zone = 0xffff800000001000" "zflags eight_mb_zone = MEMZONE_IDENTITY_MAPPED" "fa_map eight_mb_zone k \<noteq> 0"
  by (simp_all add: eight_mb_zone_def)

lemma eight_mb_zones:
  "zones eight_mb_boot = (\<lambda>_. eight_mb_zone)" "num_zones eight_mb_boot = 1"
  "zones eight_mb = (\<lambda>_. eight_mb_zone)" "num_zones eight_mb = 1"
  by (simp_all add: eight_mb_boot_def eight_mb_def init_free_lists_zones)

lemma eight_mb_ram: "ram eight_mb = (\<lambda>_. 0)"
  by (simp add: eight_mb_def init_free_lists_def eight_mb_boot_def Let_def fold_upd_links upd_links_def small_boot_def)

lemma eight_mb_zone_ok: "zone_ok eight_mb_boot 0" "zone_ok eight_mb 0"
  by (simp_all add: zone_ok_def maps_placed_def MAX_PG_ORDER_def eight_mb_zones eight_mb_fields)

lemma eight_mb_free_set: "free_set 10 (eight_mb_free z) = {0..<2048}"
  unfolding eight_mb_free_def by (subst free_set_upd) (auto simp: blk_def)

lemma eight_mb_sys_inv: "sys_inv eight_mb eight_mb_free"
proof -
  have "ring (links eight_mb_boot) x []" for x by (simp add: eight_mb_boot_def small_boot_def ring_Nil)
  then have "zone_inv eight_mb 0 ((\<lambda>_. [])(10 := big_blocks 10 2))"
    using init_free_lists_inv [OF eight_mb_zone_ok(1)] by (simp add: eight_mb_zones eight_mb_fields eight_mb_def)
  moreover have "big_blocks 10 2 = [0, 1024]" by (simp add: big_blocks_def upt_rec)
  ultimately have "zone_inv eight_mb 0 (eight_mb_free 0)" by (simp add: eight_mb_free_def)
  then show ?thesis using eight_mb_zone_ok(2) by (simp add: sys_inv_def eight_mb_zones eight_mb_fields eight_mb_free_set)
qed

lemma eight_mb_structs: "free_structs eight_mb eight_mb_free = (\<lambda>b. page_addr 0 b eight_mb) ` {0..<2048}"
  by (auto simp: free_structs_def eight_mb_zones eight_mb_fields eight_mb_free_set MEMZONE_IDENTITY_MAPPED_def BIT32_def)

lemma eight_mb_page:
  assumes "b < 2048"
  shows "unat (eight_mb_vaddr (page_addr 0 b eight_mb)) = 0xffff800000200000 + b * 0x1000"
proof -
  have "unat (page_addr 0 b eight_mb) = 0xffff800000001000 + b * 40"
    using assms by (simp add: page_addr_def eight_mb_zones eight_mb_fields unat_word_ariths unat_of_nat sizeof_page_def)
  then have "eight_mb_vaddr (page_addr 0 b eight_mb) = 0xffff800000200000 + of_nat (b * 0x1000)" by (simp add: eight_mb_vaddr_def)
  then show ?thesis using assms by (simp add: unat_word_ariths unat_of_nat)
qed

lemma direct_table_ok:
  assumes "0xffff800000000000 \<le> unat t" and "unat t mod 0x1000 = 0"
  shows "table_ok t"
proof -
  have d: "unat (VA2PA t) = unat t - 0xffff800000000000" using assms(1) by (intro VA2PA_direct) (simp add: word_le_nat_alt)
  moreover have "unat t = 0xffff800000000000 + unat (VA2PA t)" using d assms(1) by simp
  then have "unat t mod 0x1000 = unat (VA2PA t) mod 0x1000" using mod_mult_self4 [of "0x1000" "0xffff800000000" "unat (VA2PA t)"] by simp
  ultimately have "PAGE_FRAME (VA2PA t) = VA2PA t" using assms unat_u64_bound [of t] by (intro frame_aligned) simp_all
  then show ?thesis by (simp add: table_ok_def PA2VA_def VA2PA_def xor.assoc)
qed

lemma eight_mb_supply:
  assumes "n \<le> 2048" and "\<forall>t \<in> T. 0xffff800000a00000 \<le> unat t \<and> unat t + 0x1000 \<le> 2 ^ 64"
  shows "free_tables eight_mb_vaddr n T eight_mb"
proof -
  let ?p = "\<lambda>b. page_addr 0 b eight_mb"
  have n64: "(2 :: nat) ^ 64 = 0x10000000000000000" by simp
  have apart: "page_region (eight_mb_vaddr (?p b)) \<inter> page_region (eight_mb_vaddr (?p c)) = {}" if "b < c" "c < 2048" for b c
    by (rule regions_apart) (use eight_mb_page [OF less_trans [OF that]] eight_mb_page [OF that(2)] that n64 in linarith)+
  have "b = c" if "b < 2048" "c < 2048" "?p b = ?p c" for b c
    using eight_mb_page [OF that(1)] eight_mb_page [OF that(2)] unfolding that(3) by linarith
  then have "inj_on ?p {0..<2048}" by (intro inj_onI) simp
  then have "n \<le> card (free_structs eight_mb eight_mb_free)" using assms(1) by (simp add: eight_mb_structs card_image)
  moreover have "table_ok (eight_mb_vaddr (?p b))" if "b < 2048" for b
  proof (rule direct_table_ok)
    have "0xffff800000200000 + b * 0x1000 = 0x1000 * (0xffff800000200 + b)" by simp
    then show "unat (eight_mb_vaddr (?p b)) mod 0x1000 = 0" unfolding eight_mb_page [OF that] by (simp only: mod_mult_self1_is_0)
  qed (use eight_mb_page [OF that] in simp)
  moreover have "page_region (eight_mb_vaddr (?p b)) \<inter> page_region t = {}" if "b < 2048" "t \<in> T" for b t
    by (rule regions_apart) (use eight_mb_page [OF that(1)] that(1) bspec [OF assms(2) that(2)] in linarith)+
  moreover have "page_region (eight_mb_vaddr (?p b)) \<inter> page_region (eight_mb_vaddr (?p c)) = {}" if "b < 2048" "c < 2048" "?p b \<noteq> ?p c" for b c
    using that apart [of b c] apart [of c b] by (cases b c rule: linorder_cases) auto
  ultimately show ?thesis unfolding free_tables_def using eight_mb_sys_inv
    by (intro exI [of _ eight_mb_free]) (simp add: eight_mb_structs)
qed

definition plain_flags :: vm_consts where
  "plain_flags = \<lparr>VM_READ = 1, VM_WRITE = 2, VM_EXEC = 4, VM_USER = 8, VM_MAYWRITE = 16\<rparr>"

theorem map_contiguous_translates_witness:
  "\<exists>a' lv'. map_contiguous (\<lambda>p _. eight_mb_vaddr p) plain_flags 0xffff800001000000 0x42000 0x3ff000 0x3000 False 8 eight_mb = Inr a' \<and>
    table_tree (ram a') 0xffff800001000000 lv' \<and>
    cpu_mm_get_phys_address 0xffff800001000000 0x401abc (ram a') = 0x44000"
proof -
  let ?t = "0xffff800001000000 :: u64" and ?J = "job_of plain_flags 0x42000 0x3000 False 8"
  let ?lv = "(\<lambda>_. 0)(?t := 4) :: u64 \<Rightarrow> nat"
  have e: "tbl_entry (\<lambda>_. 0) ?t j = 0" for j
    unfolding tbl_entry_def by (rule bit_word_eqI) (simp add: bit_rd64)
  have tr: "table_tree (ram eight_mb) ?t ?lv" and w: "walk (ram eight_mb) ?t x = NotMapped" for x
    using fresh_tree [of "ram eight_mb" ?t] e direct_table_ok [of ?t] by (simp_all add: eight_mb_ram)
  have J: "mj_num ?J = 3" "\<not> mj_2mb ?J" "mj_pgsize ?J = 0x1000"
    by (simp_all add: job_of_def PAGE_SIZE_def)
  have i: "unat (PML4_FROM_VA 0x3ff000) = 0" "unat (PDPT_FROM_VA 0x3ff000) = 0" "unat (PDET_FROM_VA 0x3ff000) = 1" "unat (PTE_FROM_VA 0x3ff000) = 511"
    "unat (PML4_FROM_VA 0x401abc) = 0" "unat (PDPT_FROM_VA 0x401abc) = 0" "unat (PDET_FROM_VA 0x401abc) = 2" "unat (PTE_FROM_VA 0x401abc) = 1"
    "slots 0x3000 = 1"
    by (simp_all add: PML4_FROM_VA_def PDPT_FROM_VA_def PDET_FROM_VA_def PTE_FROM_VA_def slots_def)
  have n: "unit_number ?J 0x3ff000 = 1023" "unit_number ?J 0x401abc = 1025" by (simp_all add: unit_number_def J page_number_def i)
  have r: "room ?J 0x3ff000 0x3000 = 134216705" by (simp add: room_def i n per_pdet_def J)
  have "tables_needed ?J 0x3ff000 0x3000 \<le> 2048"
    by (simp add: tables_needed_def i job_tables_def pte_tables_def pdet_count_def J)
  then have s: "free_tables eight_mb_vaddr (tables_needed ?J 0x3ff000 0x3000) (tables ?lv) eight_mb"
    by (intro eight_mb_supply) (auto simp: tables_def)
  have "PAGE_FRAME (0x42000 + of_nat 2 * 0x1000) = 0x44000" by (simp add: PAGE_FRAME_def)
  then show ?thesis
    using map_contiguous_translates [OF tr refl s] by (auto simp: i no_big_def w n J r)
qed

theorem paging_init_maps_witness:
  "\<exists>s'. paging_init (\<lambda>p _. eight_mb_vaddr p) plain_flags
      (zone_boot\<lparr>kslab := (kslab zone_boot)\<lparr>pa := eight_mb\<rparr>, g_kernel_phys_base := 0x200000, g_kernel_reserved_size := 0x1000000\<rparr>) = Inr s' \<and>
    cpu_mm_get_phys_address (kernel_pgtable s') 0xffff800000345678 (ram (pa (kslab s'))) = 0x200000 \<and>
    cpu_mm_get_phys_address (kernel_pgtable s') 0xffffffff80345678 (ram (pa (kslab s'))) = 0x545000 \<and>
    cpu_mm_get_phys_address (kernel_pgtable s') 0x400000 (ram (pa (kslab s'))) = 0xfff"
proof -
  let ?s = "zone_boot\<lparr>kslab := (kslab zone_boot)\<lparr>pa := eight_mb\<rparr>, g_kernel_phys_base := 0x200000, g_kernel_reserved_size := 0x1000000\<rparr>"
  have "free_tables eight_mb_vaddr 1038 {} (pa (kslab ?s))" using eight_mb_supply [of 1038 "{}"] by simp
  from paging_init_maps [OF this, of plain_flags]
  obtain s' where s': "paging_init (\<lambda>p _. eight_mb_vaddr p) plain_flags ?s = Inr s'"
    and f: "\<And>p. p < 0x10000000000 \<Longrightarrow> cpu_mm_get_phys_address (kernel_pgtable s') (BASE_PHYS_IDENTITY + p) (ram (pa (kslab s'))) = p AND NOT 0x1fffff"
    and k: "\<And>p. p < 0x1000000 \<Longrightarrow> cpu_mm_get_phys_address (kernel_pgtable s') (BASE_KERNEL_VA + p) (ram (pa (kslab s'))) = 0x200000 + (p AND NOT 0xfff)"
    and o: "\<And>x. page_number x < 0x4000000 * 512 \<Longrightarrow> cpu_mm_get_phys_address (kernel_pgtable s') x (ram (pa (kslab s'))) = 0xfff"
    by (auto simp: Let_def)
  have "page_number 0x400000 = 1024"
    by (simp add: page_number_def PML4_FROM_VA_def PDPT_FROM_VA_def PDET_FROM_VA_def PTE_FROM_VA_def)
  then show ?thesis
    using s' f [of "0x345678"] k [of "0x345678"] o [of "0x400000"] by (auto simp: BASE_PHYS_IDENTITY_def BASE_KERNEL_VA_def)
qed

end
