(* ===== verification/Dir_Listing.thy ===== *)
theory Dir_Listing
  imports Boot
begin

text \<open>
  The listing of the file system in \<^verbatim>\<open>init/kinit.c\<close>: \<open>DEBUG_print_contents\<close> walks the directories of the file system in memory. What
  it prints is compared with the listing of an abstract tree of names.
\<close>

section \<open>kinit.c\<close>

text \<open>
  \<open>DEBUG_print_contents\<close>: the loop over the entries of a directory, which calls the function for every entry that
  is not the directory itself or its parent.
\<close>

primrec print_spaces :: "nat \<Rightarrow> unit kop" where
  "print_spaces 0 = kret ()"
| "print_spaces (Suc n) = kseq (k_printf '' '' []) (print_spaces n)"

definition print_name :: "nat \<Rightarrow> u64 \<Rightarrow> unit kop" where
  "print_name level e =
     kseq (print_spaces level) (kbind (kget (\<lambda>s. de_name (dir_entries s e))) (\<lambda>name. k_printf (''%s'' @ newline) [VStr name]))"

definition is_dots :: "u8 list \<Rightarrow> bool" where
  "is_dots name \<longleftrightarrow> name = map chr ''.'' \<or> name = map chr ''..''"

definition is_dir :: "kstate \<Rightarrow> u64 \<Rightarrow> bool" where
  "is_dir s i \<longleftrightarrow> INO_TYPE (inodes s i) = S_IFDIR"

partial_function (option) DEBUG_print_entries :: "knode \<Rightarrow> knode \<Rightarrow> nat \<Rightarrow> kstate \<Rightarrow> (unit \<times> kstate) res option" where
  "DEBUG_print_entries head pos level s =
     (if pos = head then Some (Inr ((), s))
      else case pos of
        DirNode e \<Rightarrow>
          (case print_name level e s of
             Inl f \<Rightarrow> Some (Inl f)
           | Inr (_, s1) \<Rightarrow>
               let i = de_ino (dir_entries s1 e)
               in if is_dots (de_name (dir_entries s1 e)) then DEBUG_print_entries head (lh_next (klinks s1 pos)) level s1
                  else if i = 0 then Some (Inl NullDeref)
                  else Option.bind
                    (if is_dir s1 i then DEBUG_print_entries (DirEntries i) (lh_next (klinks s1 (DirEntries i))) (Suc level) s1
                     else Some (Inr ((), s1)))
                    (\<lambda>r. case r of Inl f \<Rightarrow> Some (Inl f) | Inr (_, s2) \<Rightarrow> DEBUG_print_entries head (lh_next (klinks s2 pos)) level s2))
      | KNull \<Rightarrow> Some (Inl NullDeref)
      | _ \<Rightarrow> Some (Inl WildPointer))"

definition DEBUG_print_contents :: "u64 \<Rightarrow> nat \<Rightarrow> kstate \<Rightarrow> (int \<times> kstate) res option" where
  "DEBUG_print_contents i level s =
     (if i = 0 then Some (Inl NullDeref)
      else if is_dir s i
      then map_option (\<lambda>r. bind_res r (\<lambda>(_, s'). Inr (0, s'))) (DEBUG_print_entries (DirEntries i) (lh_next (klinks s (DirEntries i))) level s)
      else Some (Inr (0, s)))"

text \<open>What a directory holds, and what is printed of it.\<close>

datatype dir_tree = File | Dir "(u8 list \<times> dir_tree) list"

inductive holds_tree :: "kstate \<Rightarrow> u64 \<Rightarrow> dir_tree \<Rightarrow> bool"
  and holds_entries :: "kstate \<Rightarrow> u64 list \<Rightarrow> (u8 list \<times> dir_tree) list \<Rightarrow> bool"
  for s :: kstate where
  leaf_file: "i \<noteq> 0 \<Longrightarrow> \<not> is_dir s i \<Longrightarrow> holds_tree s i File"
| directory: "i \<noteq> 0 \<Longrightarrow> is_dir s i \<Longrightarrow> ring (klinks s) (DirEntries i) (map DirNode es) \<Longrightarrow> holds_entries s es ts \<Longrightarrow> holds_tree s i (Dir ts)"
| no_entry: "holds_entries s [] []"
| entry: "de_name (dir_entries s e) = n \<Longrightarrow> 0 \<notin> set n \<Longrightarrow> is_dots n \<or> holds_tree s (de_ino (dir_entries s e)) t \<Longrightarrow>
    holds_entries s es ts \<Longrightarrow> holds_entries s (e # es) ((n, t) # ts)"

fun listing :: "nat \<Rightarrow> dir_tree \<Rightarrow> u8 list" where
  "listing level File = []"
| "listing level (Dir ts) =
     concat (map (\<lambda>(n, t). replicate level 32 @ n @ [10] @ (if is_dots n then [] else listing (Suc level) t)) ts)"

lemma loop_string:
  "vsnprintf_loop f m (map chr (''%s'' @ newline)) [VStr n] x = Inr (emit f m (n @ [10]) x)"
  by (simp add: Let_def chr_def parse_spec_def parse_width_def parse_precision_def parse_length_def
        starts_def at_digit_def is_digit_def convert_def int_convs_def flt_convs_def va_str_def conv_str_def
        has_def flag_defs spaces_def newline_eq emit_append)

lemma print_name_eq:
  assumes "0 \<notin> set (de_name (dir_entries s e))"
  shows "print_name level e s = Inr ((), s\<lparr>console_out := console_out s @ replicate level 32 @ de_name (dir_entries s e) @ [10]\<rparr>)"
proof -
  have sp: "print_spaces n s = Inr ((), s\<lparr>console_out := console_out s @ replicate n 32\<rparr>)" for n s
  proof (induction n arbitrary: s)
    case (Suc n)
    have "k_printf '' '' [] s = Inr ((), s\<lparr>console_out := console_out s @ [32]\<rparr>)" for s
      using k_printf_text [of "'' ''" "[]" s] by (simp add: chr_def)
    then show ?case using Suc by (simp add: kseq_def kbind_def)
  qed simp
  have "filter (\<lambda>c. c \<noteq> 0) n = n" if "0 \<notin> set n" for n :: "u8 list" using that by (induction n) auto
  then have "k_printf (''%s'' @ newline) [VStr n] s = Inr ((), s\<lparr>console_out := console_out s @ n @ [10]\<rparr>)" if "0 \<notin> set n" for n s
    using that core_OutChar [of "map chr (''%s'' @ newline)" "[VStr n]" "n @ [10]", OF loop_string]
    by (simp add: k_printf_def printf_def)
  then show ?thesis using sp assms by (simp add: print_name_def kseq_def kbind_def)
qed

lemma contents_entries:
  assumes "DEBUG_print_contents i level s = Some (Inr (0, s'))"
  shows "i \<noteq> 0" and "(if is_dir s i then DEBUG_print_entries (DirEntries i) (lh_next (klinks s (DirEntries i))) level s
    else Some (Inr ((), s))) = Some (Inr ((), s'))"
proof -
  have "z = Inr ((), s')" if "bind_res z (\<lambda>(_, s'). Inr (0, s')) = Inr (0 :: int, s')" for z :: "(unit \<times> kstate) res"
    using that by (cases z) (auto simp: bind_res_def)
  then show "i \<noteq> 0" "(if is_dir s i then DEBUG_print_entries (DirEntries i) (lh_next (klinks s (DirEntries i))) level s
    else Some (Inr ((), s))) = Some (Inr ((), s'))"
    using assms by (auto simp: DEBUG_print_contents_def split: if_splits)
qed

lemma print_tree_eq:
  "holds_tree s i t \<Longrightarrow> \<forall>level o'. DEBUG_print_contents i level (s\<lparr>console_out := o'\<rparr>) =
     Some (Inr (0, s\<lparr>console_out := o' @ listing level t\<rparr>))"
  "holds_entries s es ts \<Longrightarrow> \<forall>level o' head xs. ring (klinks s) head (xs @ map DirNode es) \<longrightarrow>
     DEBUG_print_entries head (case es of [] \<Rightarrow> head | e # _ \<Rightarrow> DirNode e) level (s\<lparr>console_out := o'\<rparr>) =
     Some (Inr ((), s\<lparr>console_out := o' @ listing level (Dir ts)\<rparr>))"
proof (induction rule: holds_tree_holds_entries.inducts)
  case (leaf_file i)
  then show ?case by (simp add: DEBUG_print_contents_def is_dir_def)
next
  case (directory i es ts)
  have "lh_next (klinks s (DirEntries i)) = (case es of [] \<Rightarrow> DirEntries i | e # _ \<Rightarrow> DirNode e)"
    using directory(3) by (auto simp: ring_Nil dest: ring_first split: list.splits)
  moreover have "DEBUG_print_entries (DirEntries i) (case es of [] \<Rightarrow> DirEntries i | e # _ \<Rightarrow> DirNode e) level (s\<lparr>console_out := o'\<rparr>) =
      Some (Inr ((), s\<lparr>console_out := o' @ listing level (Dir ts)\<rparr>))" for level o'
    using directory(3) directory(5) [rule_format, of "DirEntries i" "[]" level o'] by simp
  ultimately show ?case using directory(1,2) by (simp add: DEBUG_print_contents_def is_dir_def)
next
  case no_entry
  then show ?case by (simp add: DEBUG_print_entries.simps)
next
  case (entry e n t es ts)
  have nm: "de_name (dir_entries s e) = n" "0 \<notin> set n" by fact+
  have sub: "DEBUG_print_contents (de_ino (dir_entries s e)) level (s\<lparr>console_out := o'\<rparr>) = Some (Inr (0, s\<lparr>console_out := o' @ listing level t\<rparr>))"
    if "\<not> is_dots n" for level o' using entry that by blast
  have ih: "DEBUG_print_entries head (case es of [] \<Rightarrow> head | e # _ \<Rightarrow> DirNode e) level (s\<lparr>console_out := o'\<rparr>) =
      Some (Inr ((), s\<lparr>console_out := o' @ listing level (Dir ts)\<rparr>))" if "ring (klinks s) head (xs @ map DirNode es)" for head xs level o'
    using entry that by blast
  show ?case
  proof (intro allI impI)
    fix level o' head xs assume r: "ring (klinks s) head (xs @ map DirNode (e # es))"
    then have h: "head \<noteq> DirNode e" by (auto dest: ring_distinct)
    have nx: "lh_next (klinks s (DirNode e)) = (case es of [] \<Rightarrow> head | e # _ \<Rightarrow> DirNode e)"
      using ring_next [of "klinks s" head xs "DirNode e" "map DirNode es"] r by (simp split: list.splits)
    let ?o = "o' @ replicate level 32 @ n @ [10]"
    have p: "print_name level e (s\<lparr>console_out := o'\<rparr>) = Inr ((), s\<lparr>console_out := ?o\<rparr>)"
      using print_name_eq [of "s\<lparr>console_out := o'\<rparr>" e level] nm by simp
    have rest: "DEBUG_print_entries head (lh_next (klinks s (DirNode e))) level (s\<lparr>console_out := o''\<rparr>) =
        Some (Inr ((), s\<lparr>console_out := o'' @ listing level (Dir ts)\<rparr>))" for o''
      using ih [of head "xs @ [DirNode e]" level o''] r unfolding nx by simp
    show "DEBUG_print_entries head (case e # es of [] \<Rightarrow> head | e # _ \<Rightarrow> DirNode e) level (s\<lparr>console_out := o'\<rparr>) =
       Some (Inr ((), s\<lparr>console_out := o' @ listing level (Dir ((n, t) # ts))\<rparr>))"
    proof (cases "is_dots n")
      case True
      then show ?thesis using h p rest [of ?o] nm(1) by (subst DEBUG_print_entries.simps) (simp add: Let_def)
    next
      case False
      let ?i = "de_ino (dir_entries s e)"
      note c = contents_entries [OF sub [OF False, of "Suc level" ?o]]
      show ?thesis using h p rest [of "?o @ listing (Suc level) t"] nm(1) False c
        by (subst DEBUG_print_entries.simps) (simp add: Let_def is_dir_def split del: if_split cong: if_cong)
    qed
  qed
qed

text \<open>
  \<open>DEBUG_print_contents\<close> returns on every directory whose subdirectories form a tree, and prints one line for each entry, indented by
  its depth.
\<close>

theorem DEBUG_print_contents_lists:
  assumes "holds_tree s i t"
  shows "DEBUG_print_contents i level s = Some (Inr (0, s\<lparr>console_out := console_out s @ listing level t\<rparr>))"
proof -
  have "s\<lparr>console_out := console_out s\<rparr> = s" by simp
  then show ?thesis using print_tree_eq(1) [OF assms, rule_format, of level "console_out s"] by simp
qed

end
